(* ===== verification/GoBase.thy ===== *)
theory GoBase
  imports Main "HOL-Library.AList" "HOL-Library.Sublist" "HOL-Library.List_Lexorder" "HOL-Library.Char_ord"
begin

text \<open>
  The prelude of the development: what Go itself gives the program, as HOL definitions,
  and the generic lemmas the component theories share.
  \<^item> a Go \<^verbatim>\<open>map\<close> is an association list (\<^verbatim>\<open>map_of\<close> reads it, \<^verbatim>\<open>AList.update\<close> writes it);
    \<^verbatim>\<open>range\<close> over it visits the keys in the list's order, so theorems that must hold for Go's
    unspecified order are stated for lists with the same keys in any order;
  \<^item> a \<^verbatim>\<open>for\<close> loop with early return of an error is \<^verbatim>\<open>foldE\<close>;
  \<^item> following a pointer field until it is nil is \<^verbatim>\<open>walk\<close>, with the fuel that suffices;
  \<^item> an instant (\<^verbatim>\<open>time.Time\<close>) is an integer, 0 being Go's zero time.
\<close>

type_synonym time = int

named_theorems plan_defs \<open>the operations of the plan store, unfolded\<close>
named_theorems frame_simps \<open>fields an operation leaves alone\<close>

section \<open>Loops that return the first error\<close>

fun foldE :: "('a \<Rightarrow> 's \<Rightarrow> 'e + 's) \<Rightarrow> 'a list \<Rightarrow> 's \<Rightarrow> 'e + 's" where
  "foldE f [] s = Inr s"
| "foldE f (x # xs) s = (case f x s of Inl e \<Rightarrow> Inl e | Inr s' \<Rightarrow> foldE f xs s')"

fun firstErr :: "('a \<Rightarrow> 'e option) \<Rightarrow> 'a list \<Rightarrow> 'e option" where
  "firstErr f [] = None"
| "firstErr f (x # xs) = (case f x of Some e \<Rightarrow> Some e | None \<Rightarrow> firstErr f xs)"

text \<open>\<^verbatim>\<open>if cond { return err }\<close>, and going on when nothing was refused.\<close>

definition refuse :: "bool \<Rightarrow> 'e \<Rightarrow> 'e option" where
  "refuse c e = (if c then Some e else None)"

definition orFail :: "'e option \<Rightarrow> 'e + 'a \<Rightarrow> 'e + 'a" where
  "orFail e k = (case e of None \<Rightarrow> k | Some x \<Rightarrow> Inl x)"

lemma refuse_None [simp]: "refuse c e = None \<longleftrightarrow> \<not> c"
  by (simp add: refuse_def)

lemma refuse_Some [simp]: "refuse c e = Some x \<longleftrightarrow> c \<and> x = e"
  by (auto simp: refuse_def)

lemma orFail_Inr [simp]: "orFail e k = Inr x \<longleftrightarrow> e = None \<and> k = Inr x"
  by (simp add: orFail_def split: option.split)

lemma orFail_Inl: "orFail e k = Inl x \<longleftrightarrow> e = Some x \<or> e = None \<and> k = Inl x"
  by (auto simp: orFail_def split: option.split)

lemma orFail_refuse: "orFail (refuse c e) k = (if c then Inl e else k)"
  by (simp add: orFail_def refuse_def)

lemma orFail_simps [simp]: "orFail None k = k" "orFail (Some e) k = Inl e"
  by (simp_all add: orFail_def)

lemma bindE_Inr:
  "(case x of Inl e \<Rightarrow> Inl (g e) | Inr y \<Rightarrow> f y) = Inr z \<longleftrightarrow> (\<exists>y. x = Inr y \<and> f y = Inr z)"
  by (cases x) auto

lemma case_orElse_None [simp]:
  "(case x of None \<Rightarrow> y | Some e \<Rightarrow> Some e) = None \<longleftrightarrow> x = None \<and> y = None"
  by (cases x) auto

lemma case_wrapElse_None [simp]:
  "(case x of None \<Rightarrow> y | Some e \<Rightarrow> Some (f e)) = None \<longleftrightarrow> x = None \<and> y = None"
  by (cases x) auto

lemma if_None_iff [simp]: "(if c then Some e else y) = None \<longleftrightarrow> \<not> c \<and> y = None"
  by simp

lemma firstErr_None_iff [simp]: "firstErr f xs = None \<longleftrightarrow> (\<forall>x\<in>set xs. f x = None)"
  by (induction xs) (auto split: option.splits)

lemma firstErr_Some_in: "firstErr f xs = Some e \<Longrightarrow> \<exists>x\<in>set xs. f x = Some e"
  by (induction xs) (auto split: option.splits)

lemma foldE_append:
  "foldE f (xs @ ys) s = (case foldE f xs s of Inl e \<Rightarrow> Inl e | Inr s' \<Rightarrow> foldE f ys s')"
  by (induction xs arbitrary: s) (auto split: sum.splits)

lemma foldE_invariant:
  assumes "foldE f xs s = Inr s'" and "P s"
    and "\<And>x s s'. x \<in> set xs \<Longrightarrow> P s \<Longrightarrow> f x s = Inr s' \<Longrightarrow> P s'"
  shows "P s'"
  using assms
proof (induction xs arbitrary: s)
  case Nil
  then show ?case by simp
next
  case (Cons x xs)
  from Cons.prems(1) obtain s1 where s1: "f x s = Inr s1" "foldE f xs s1 = Inr s'"
    by (auto split: sum.splits)
  have "P s1" using Cons.prems(2,3) s1(1) by auto
  with s1(2) show ?case
    by (rule Cons.IH) (use Cons.prems(3) in auto)
qed

lemma fold_invariant_set:
  assumes "P s" and "\<And>x s. x \<in> set xs \<Longrightarrow> P s \<Longrightarrow> P (f x s)"
  shows "P (fold f xs s)"
  using assms by (induction xs arbitrary: s) auto

section \<open>Go maps as association lists\<close>

lemma keys_update_present [simp]:
  "k \<in> fst ` set al \<Longrightarrow> map fst (AList.update k v al) = map fst al"
  by (simp add: AList.update_keys)

lemma keys_update_absent:
  "k \<notin> fst ` set al \<Longrightarrow> map fst (AList.update k v al) = map fst al @ [k]"
  by (simp add: AList.update_keys)

lemma length_update_present:
  "k \<in> fst ` set al \<Longrightarrow> length (AList.update k v al) = length al"
  by (metis keys_update_present length_map)

lemma map_of_in_keys: "map_of al k = Some v \<Longrightarrow> k \<in> fst ` set al"
  by (metis domI dom_map_of_conv_image_fst)

lemma map_of_key_ex: "k \<in> fst ` set al \<Longrightarrow> \<exists>v. map_of al k = Some v"
  by (metis domD dom_map_of_conv_image_fst)

lemma map_of_None_iff_keys: "map_of al k = None \<longleftrightarrow> k \<notin> fst ` set al"
  by (simp add: map_of_eq_None_iff)

lemma distinct_keys_update: "distinct (map fst al) \<Longrightarrow> distinct (map fst (AList.update k v al))"
  by (rule AList.distinct_update)

section \<open>Following a pointer until it is nil\<close>

text \<open>
  \<^verbatim>\<open>for cur := x; cur != nil; cur = f(cur)\<close>. The fuel is the number of nodes; \<^verbatim>\<open>walk_enough\<close>
  shows that on an acyclic \<^verbatim>\<open>f\<close> over finitely many nodes more fuel changes nothing, so the walk
  is the loop's whole run.
\<close>

fun walk :: "nat \<Rightarrow> ('a \<Rightarrow> 'a option) \<Rightarrow> 'a \<Rightarrow> 'a list" where
  "walk 0 f x = []"
| "walk (Suc n) f x = x # (case f x of None \<Rightarrow> [] | Some y \<Rightarrow> walk n f y)"

definition ptr_rel :: "('a \<Rightarrow> 'a option) \<Rightarrow> ('a \<times> 'a) set" where
  "ptr_rel f = {(x, y). f x = Some y}"

lemma walk_reaches: "y \<in> set (walk n f x) \<Longrightarrow> (x, y) \<in> (ptr_rel f)\<^sup>*"
proof (induction n arbitrary: x)
  case 0
  then show ?case by simp
next
  case (Suc n)
  show ?case
  proof (cases "f x")
    case None
    with Suc.prems show ?thesis by simp
  next
    case (Some z)
    then have "(x, z) \<in> ptr_rel f" by (simp add: ptr_rel_def)
    with Some Suc show ?thesis by (auto intro: converse_rtrancl_into_rtrancl)
  qed
qed

lemma walk_ptr_closed:
  assumes "x \<in> D" and "\<And>u v. u \<in> D \<Longrightarrow> f u = Some v \<Longrightarrow> v \<in> D"
  shows "set (walk n f x) \<subseteq> D"
  using assms(1)
proof (induction n arbitrary: x)
  case (Suc n)
  then show ?case using assms(2) by (cases "f x") auto
qed simp

lemma walk_distinct:
  assumes ac: "acyclic (ptr_rel f)"
  shows "distinct (walk n f x)"
proof (induction n arbitrary: x)
  case 0
  then show ?case by simp
next
  case (Suc n)
  show ?case
  proof (cases "f x")
    case None
    then show ?thesis by simp
  next
    case (Some y)
    have "x \<notin> set (walk n f y)"
    proof
      assume "x \<in> set (walk n f y)"
      then have "(y, x) \<in> (ptr_rel f)\<^sup>*" by (rule walk_reaches)
      moreover have "(x, y) \<in> ptr_rel f" using Some by (simp add: ptr_rel_def)
      ultimately have "(x, x) \<in> (ptr_rel f)\<^sup>+" by (rule rtrancl_into_trancl2[rotated])
      with ac show False by (simp add: acyclic_def)
    qed
    with Some Suc.IH show ?thesis by simp
  qed
qed

lemma walk_Suc_or_full:
  "walk (Suc n) f x = walk n f x \<or> length (walk (Suc n) f x) = Suc n"
  by (induction n arbitrary: x) (auto split: option.splits)

lemma walk_enough_Suc:
  assumes "acyclic (ptr_rel f)" and "finite D" and "x \<in> D"
    and "\<And>u v. u \<in> D \<Longrightarrow> f u = Some v \<Longrightarrow> v \<in> D" and "card D \<le> n"
  shows "walk (Suc n) f x = walk n f x"
proof (rule ccontr)
  assume "walk (Suc n) f x \<noteq> walk n f x"
  with walk_Suc_or_full[of n f x] have len: "length (walk (Suc n) f x) = Suc n" by blast
  have "set (walk (Suc n) f x) \<subseteq> D" using assms(3,4) by (rule walk_ptr_closed)
  moreover have "distinct (walk (Suc n) f x)" using assms(1) by (rule walk_distinct)
  ultimately have "Suc n \<le> card D"
    using len assms(2) by (metis card_mono distinct_card)
  with assms(5) show False by simp
qed

lemma walk_enough:
  assumes "acyclic (ptr_rel f)" and "finite D" and "x \<in> D"
    and "\<And>u v. u \<in> D \<Longrightarrow> f u = Some v \<Longrightarrow> v \<in> D" and "card D \<le> n" and "n \<le> m"
  shows "walk m f x = walk n f x"
  using assms(6)
proof (induction m rule: dec_induct)
  case base
  show ?case by simp
next
  case (step m)
  have "walk (Suc m) f x = walk m f x"
    by (rule walk_enough_Suc[OF assms(1-4)]) (use assms(5) step in auto)
  with step show ?case by simp
qed

lemma walk_unfold:
  assumes "acyclic (ptr_rel f)" and "finite D" and "x \<in> D"
    and "\<And>u v. u \<in> D \<Longrightarrow> f u = Some v \<Longrightarrow> v \<in> D" and "card D \<le> n"
  shows "walk n f x = x # (case f x of None \<Rightarrow> [] | Some y \<Rightarrow> walk n f y)"
  using walk_enough_Suc[OF assms] by simp

lemma walk_set:
  assumes "acyclic (ptr_rel f)" and "finite D" and "x \<in> D"
    and "\<And>u v. u \<in> D \<Longrightarrow> f u = Some v \<Longrightarrow> v \<in> D" and "card D \<le> n"
  shows "set (walk n f x) = {y. (x, y) \<in> (ptr_rel f)\<^sup>*}"
proof
  show "set (walk n f x) \<subseteq> {y. (x, y) \<in> (ptr_rel f)\<^sup>*}"
    by (auto dest: walk_reaches)
next
  show "{y. (x, y) \<in> (ptr_rel f)\<^sup>*} \<subseteq> set (walk n f x)"
  proof safe
    fix y assume "(x, y) \<in> (ptr_rel f)\<^sup>*"
    then show "y \<in> set (walk n f x)" using assms(3)
    proof (induction rule: converse_rtrancl_induct)
      case base
      then show ?case
        by (subst walk_unfold[OF assms(1,2) _ assms(4,5)]) auto
    next
      case (step u v)
      then have fv: "f u = Some v" by (simp add: ptr_rel_def)
      then have "y \<in> set (walk n f v)" using step assms(4) by blast
      with fv show ?case
        by (subst walk_unfold[OF assms(1,2) step.prems assms(4,5)]) auto
    qed
  qed
qed

section \<open>Sorting by a comparison\<close>

text \<open>
  \<^verbatim>\<open>sort.SliceStable\<close>: elements that neither precede each other keep their order, which fixes
  the result for every comparison that is a strict weak order.
\<close>

fun insertBy :: "('a \<Rightarrow> 'a \<Rightarrow> bool) \<Rightarrow> 'a \<Rightarrow> 'a list \<Rightarrow> 'a list" where
  "insertBy before x [] = [x]"
| "insertBy before x (y # ys) = (if before y x then y # insertBy before x ys else x # y # ys)"

definition SliceStable :: "('a \<Rightarrow> 'a \<Rightarrow> bool) \<Rightarrow> 'a list \<Rightarrow> 'a list" where
  "SliceStable before xs = foldr (insertBy before) xs []"

definition weak_order :: "('a \<Rightarrow> 'a \<Rightarrow> bool) \<Rightarrow> bool" where
  "weak_order before \<longleftrightarrow> (\<forall>a b. before a b \<longrightarrow> \<not> before b a) \<and> (\<forall>a b c. \<not> before a b \<longrightarrow> \<not> before b c \<longrightarrow> \<not> before a c)"

lemma set_insertBy [simp]: "set (insertBy before x ys) = insert x (set ys)"
  by (induction ys) auto

lemma set_SliceStable [simp]: "set (SliceStable before xs) = set xs"
  by (induction xs) (simp_all add: SliceStable_def)

lemma length_SliceStable [simp]: "length (SliceStable before xs) = length xs"
proof -
  have "length (insertBy before x ys) = Suc (length ys)" for x ys by (induction ys) auto
  then show ?thesis by (induction xs) (simp_all add: SliceStable_def)
qed

lemma SliceStable_sorted:
  assumes "weak_order before"
  shows "sorted_wrt (\<lambda>x y. \<not> before y x) (SliceStable before xs)"
proof -
  have asym: "before a b \<Longrightarrow> \<not> before b a" and neg: "\<not> before a b \<Longrightarrow> \<not> before b c \<Longrightarrow> \<not> before a c" for a b c
    using assms unfolding weak_order_def by blast+
  have "sorted_wrt (\<lambda>x y. \<not> before y x) ys \<Longrightarrow> sorted_wrt (\<lambda>x y. \<not> before y x) (insertBy before x ys)" for x ys
  proof (induction ys)
    case (Cons y ys)
    show ?case
    proof (cases "before y x")
      case True
      with Cons asym[of y x] show ?thesis by simp
    next
      case False
      with Cons.prems neg[of _ y x] show ?thesis by simp
    qed
  qed simp
  then show ?thesis by (induction xs) (simp_all add: SliceStable_def)
qed

lemma SliceStable_key: "SliceStable (\<lambda>x y. f x < f y) xs = sort_key f xs"
proof -
  have "insertBy (\<lambda>x y. f x < f y) x ys = insort_key f x ys" for x ys
    by (induction ys) auto
  then have "insertBy (\<lambda>x y. f x < f y) = insort_key f" by (intro ext)
  then show ?thesis by (simp add: SliceStable_def sort_key_def)
qed

lemma SliceStable_desc: "SliceStable (\<lambda>x y. f x > f y) xs = sort_key (\<lambda>x. - (f x :: int)) xs"
  using SliceStable_key[of "\<lambda>x. - f x" xs] by simp

section \<open>Small facts on lists\<close>

lemma filter_fold_congruence:
  "(\<And>x s. x \<in> set xs \<Longrightarrow> f x s = g x s) \<Longrightarrow> fold f xs s = fold g xs s"
  by (induction xs arbitrary: s) auto

lemma sum_list_zero_iff_nat: "sum_list (map f xs) = (0::nat) \<longleftrightarrow> (\<forall>x\<in>set xs. f x = 0)"
  by (induction xs) auto

lemma sorted_sort_key_desc:
  "sorted_wrt (\<lambda>x y. f x \<ge> f y) (sort_key (\<lambda>x. - (f x :: int)) xs)"
proof -
  have "sorted (map (\<lambda>x. - f x) (sort_key (\<lambda>x. - f x) xs))" by simp
  then show ?thesis by (simp add: sorted_wrt_map)
qed

end
