(* ===== verification/GoStrings.thy ===== *)
theory GoStrings
  imports GoBase
begin

text \<open>
  Go's strings and the functions of package \<^verbatim>\<open>strings\<close> (and one \<^verbatim>\<open>fmt\<close> verb) the program
  uses. A Go string is a sequence of bytes, and so is HOL's \<^verbatim>\<open>string\<close> (a list of 8-bit
  \<^verbatim>\<open>char\<close>s): \<^verbatim>\<open>len\<close> is \<^verbatim>\<open>length\<close>. White space is Unicode's (\<^verbatim>\<open>unicode.IsSpace\<close>), by its UTF-8
  encodings; none of them starts with a continuation byte, so byte-wise prefix and suffix
  tests find exactly the runes Go finds, on invalid UTF-8 too.
\<close>

section \<open>White space\<close>

definition spaceEncodings :: "string list" where
  "spaceEncodings =
     [[CHR 0x20], [CHR 0x0A], [CHR 0x09], [CHR 0x0D], [CHR 0x0B], [CHR 0x0C],
      [CHR 0xC2, CHR 0x85], [CHR 0xC2, CHR 0xA0], [CHR 0xE1, CHR 0x9A, CHR 0x80],
      [CHR 0xE2, CHR 0x80, CHR 0x80], [CHR 0xE2, CHR 0x80, CHR 0x81], [CHR 0xE2, CHR 0x80, CHR 0x82],
      [CHR 0xE2, CHR 0x80, CHR 0x83], [CHR 0xE2, CHR 0x80, CHR 0x84], [CHR 0xE2, CHR 0x80, CHR 0x85],
      [CHR 0xE2, CHR 0x80, CHR 0x86], [CHR 0xE2, CHR 0x80, CHR 0x87], [CHR 0xE2, CHR 0x80, CHR 0x88],
      [CHR 0xE2, CHR 0x80, CHR 0x89], [CHR 0xE2, CHR 0x80, CHR 0x8A], [CHR 0xE2, CHR 0x80, CHR 0xA8],
      [CHR 0xE2, CHR 0x80, CHR 0xA9], [CHR 0xE2, CHR 0x80, CHR 0xAF], [CHR 0xE2, CHR 0x81, CHR 0x9F],
      [CHR 0xE3, CHR 0x80, CHR 0x80]]"

definition leadingSpace :: "string \<Rightarrow> string option" where
  "leadingSpace s = find (\<lambda>w. prefix w s) spaceEncodings"

definition trailingSpace :: "string \<Rightarrow> string option" where
  "trailingSpace s = find (\<lambda>w. suffix w s) spaceEncodings"

lemma spaceEncodings_nonempty: "w \<in> set spaceEncodings \<Longrightarrow> w \<noteq> []"
  by (auto simp: spaceEncodings_def)

lemma leadingSpace_SomeD:
  assumes "leadingSpace s = Some w"
  shows "w \<noteq> [] \<and> prefix w s \<and> length (drop (length w) s) < length s"
proof -
  from assms have "w \<in> set spaceEncodings" and p: "prefix w s"
    by (auto simp: leadingSpace_def find_Some_iff)
  then have "w \<noteq> []" by (simp add: spaceEncodings_nonempty)
  moreover from p have "length w \<le> length s" by (rule prefix_length_le)
  ultimately show ?thesis using p by (cases w) auto
qed

lemma trailingSpace_SomeD:
  assumes "trailingSpace s = Some w"
  shows "w \<noteq> [] \<and> suffix w s \<and> length (take (length s - length w) s) < length s"
proof -
  from assms have "w \<in> set spaceEncodings" and p: "suffix w s"
    by (auto simp: trailingSpace_def find_Some_iff)
  then have "w \<noteq> []" by (simp add: spaceEncodings_nonempty)
  moreover from p have "length w \<le> length s" by (rule suffix_length_le)
  ultimately show ?thesis using p by (cases w) auto
qed

function trimLeft :: "string \<Rightarrow> string" where
  "trimLeft s = (case leadingSpace s of None \<Rightarrow> s | Some w \<Rightarrow> trimLeft (drop (length w) s))"
  by pat_completeness auto
termination
  by (relation "measure length") (auto dest: leadingSpace_SomeD simp del: length_drop)

function trimRight :: "string \<Rightarrow> string" where
  "trimRight s =
     (case trailingSpace s of None \<Rightarrow> s | Some w \<Rightarrow> trimRight (take (length s - length w) s))"
  by pat_completeness auto
termination
  by (relation "measure length") (auto dest: trailingSpace_SomeD simp del: length_take)

declare trimLeft.simps [simp del] trimRight.simps [simp del]

text \<open>\<^verbatim>\<open>strings.TrimSpace\<close>.\<close>

definition TrimSpace :: "string \<Rightarrow> string" where
  "TrimSpace s = trimRight (trimLeft s)"

lemma trimLeft_length: "length (trimLeft s) \<le> length s"
proof (induction s rule: trimLeft.induct)
  case (1 s)
  show ?case
  proof (cases "leadingSpace s")
    case None
    then show ?thesis by (subst trimLeft.simps) simp
  next
    case (Some w)
    with 1 have "length (trimLeft (drop (length w) s)) \<le> length (drop (length w) s)" by blast
    with Some show ?thesis by (subst trimLeft.simps) simp
  qed
qed

lemma trimRight_prefix: "prefix (trimRight s) s"
proof (induction s rule: trimRight.induct)
  case (1 s)
  show ?case
  proof (cases "trailingSpace s")
    case None
    then show ?thesis by (subst trimRight.simps) simp
  next
    case (Some w)
    with 1 have "prefix (trimRight (take (length s - length w) s)) (take (length s - length w) s)"
      by blast
    then have "prefix (trimRight (take (length s - length w) s)) s"
      using take_is_prefix prefix_order.trans by blast
    with Some show ?thesis by (subst trimRight.simps) simp
  qed
qed

lemma TrimSpace_length: "length (TrimSpace s) \<le> length s"
  unfolding TrimSpace_def
  using trimRight_prefix[THEN prefix_length_le, of "trimLeft s"] trimLeft_length[of s] by simp

lemma leadingSpace_Nil [simp]: "leadingSpace [] = None"
  using leadingSpace_SomeD[of "[]"] by (cases "leadingSpace []") auto

lemma trailingSpace_Nil [simp]: "trailingSpace [] = None"
  using trailingSpace_SomeD[of "[]"] by (cases "trailingSpace []") auto

lemma TrimSpace_Nil [simp]: "TrimSpace [] = []"
  by (simp add: TrimSpace_def trimLeft.simps trimRight.simps)

lemma trimLeft_fix: "leadingSpace (trimLeft s) = None"
proof (induction s rule: trimLeft.induct)
  case (1 s)
  show ?case
  proof (cases "leadingSpace s")
    case None
    then show ?thesis by (subst trimLeft.simps) simp
  next
    case (Some w)
    with 1 show ?thesis by (subst trimLeft.simps) simp
  qed
qed

lemma trimRight_fix: "trailingSpace (trimRight s) = None"
proof (induction s rule: trimRight.induct)
  case (1 s)
  show ?case
  proof (cases "trailingSpace s")
    case None
    then show ?thesis by (subst trimRight.simps) simp
  next
    case (Some w)
    with 1 show ?thesis by (subst trimRight.simps) simp
  qed
qed

lemma TrimSpace_no_space:
  "leadingSpace s = None \<Longrightarrow> trailingSpace s = None \<Longrightarrow> TrimSpace s = s"
  by (simp add: TrimSpace_def trimLeft.simps trimRight.simps)

lemma leadingSpace_prefix_None:
  assumes "leadingSpace s = None" and "prefix t s"
  shows "leadingSpace t = None"
  using assms unfolding leadingSpace_def find_None_iff
  using prefix_order.trans by blast

lemma TrimSpace_leading: "leadingSpace (TrimSpace s) = None"
  unfolding TrimSpace_def
  using leadingSpace_prefix_None trimLeft_fix trimRight_prefix by blast

lemma TrimSpace_idem [simp]: "TrimSpace (TrimSpace s) = TrimSpace s"
  by (rule TrimSpace_no_space) (simp_all add: TrimSpace_leading, simp add: TrimSpace_def trimRight_fix)

section \<open>Prefixes and suffixes\<close>

text \<open>\<^verbatim>\<open>strings.HasPrefix\<close> and \<^verbatim>\<open>strings.HasSuffix\<close> are \<^verbatim>\<open>prefix\<close> and \<^verbatim>\<open>suffix\<close> with the arguments
  the other way round.\<close>

definition HasPrefix :: "string \<Rightarrow> string \<Rightarrow> bool" where
  "HasPrefix s p = prefix p s"

definition HasSuffix :: "string \<Rightarrow> string \<Rightarrow> bool" where
  "HasSuffix s p = suffix p s"

definition TrimPrefix :: "string \<Rightarrow> string \<Rightarrow> string" where
  "TrimPrefix s p = (if HasPrefix s p then drop (length p) s else s)"

definition TrimSuffix :: "string \<Rightarrow> string \<Rightarrow> string" where
  "TrimSuffix s p = (if HasSuffix s p then take (length s - length p) s else s)"

lemma TrimPrefix_length: "length (TrimPrefix s p) \<le> length s"
  by (simp add: TrimPrefix_def)

section \<open>Fields, Cut, Join\<close>

text \<open>\<^verbatim>\<open>strings.Fields\<close>: \<^verbatim>\<open>cur\<close> is the field being read.\<close>

function fieldsFrom :: "string \<Rightarrow> string \<Rightarrow> string list" where
  "fieldsFrom cur s =
     (case leadingSpace s of
        Some w \<Rightarrow> (if cur = [] then fieldsFrom [] (drop (length w) s)
                   else cur # fieldsFrom [] (drop (length w) s))
      | None \<Rightarrow> (case s of [] \<Rightarrow> (if cur = [] then [] else [cur])
                 | c # t \<Rightarrow> fieldsFrom (cur @ [c]) t))"
  by pat_completeness auto
termination
  by (relation "measure (\<lambda>(cur, s). length s)")
     (auto dest: leadingSpace_SomeD simp del: length_drop)

declare fieldsFrom.simps [simp del]

definition Fields :: "string \<Rightarrow> string list" where
  "Fields s = fieldsFrom [] s"

lemma fieldsFrom_nonempty: "[] \<notin> set (fieldsFrom cur s)"
proof (induction cur s rule: fieldsFrom.induct)
  case (1 cur s)
  show ?case
  proof (cases "leadingSpace s")
    case (Some v)
    with 1 show ?thesis by (subst fieldsFrom.simps) auto
  next
    case None
    show ?thesis
    proof (cases s)
      case Nil
      then show ?thesis by (subst fieldsFrom.simps) simp
    next
      case (Cons c t)
      with None 1 show ?thesis by (subst fieldsFrom.simps) simp
    qed
  qed
qed

lemma Fields_nonempty: "w \<in> set (Fields s) \<Longrightarrow> w \<noteq> []"
  unfolding Fields_def using fieldsFrom_nonempty by metis

text \<open>\<^verbatim>\<open>strings.Cut\<close>: the text before and after the first \<^verbatim>\<open>sep\<close>, if there is one.\<close>

fun Cut :: "string \<Rightarrow> string \<Rightarrow> (string \<times> string) option" where
  "Cut s sep =
     (if prefix sep s then Some ([], drop (length sep) s)
      else (case s of [] \<Rightarrow> None
            | c # t \<Rightarrow> (case Cut t sep of None \<Rightarrow> None | Some (a, b) \<Rightarrow> Some (c # a, b))))"

declare Cut.simps [simp del]

lemma Cut_append: "Cut s sep = Some (a, b) \<Longrightarrow> s = a @ sep @ b"
proof (induction s arbitrary: a b)
  case Nil
  then show ?case by (auto simp: Cut.simps[of "[]"] split: if_splits)
next
  case (Cons c t)
  then show ?case
    by (auto simp: Cut.simps[of "c # t"] prefix_def split: if_splits option.splits)
qed

definition Contains :: "string \<Rightarrow> string \<Rightarrow> bool" where
  "Contains s sub = (Cut s sub \<noteq> None)"

text \<open>\<^verbatim>\<open>strings.Join\<close>.\<close>

fun Join :: "string list \<Rightarrow> string \<Rightarrow> string" where
  "Join [] sep = []"
| "Join [x] sep = x"
| "Join (x # y # ys) sep = x @ sep @ Join (y # ys) sep"

section \<open>Hexadecimal: the verb \<^verbatim>\<open>%08x\<close>\<close>

definition hexDigit :: "nat \<Rightarrow> char" where
  "hexDigit d = ''0123456789abcdef'' ! d"

fun hexDigits :: "nat \<Rightarrow> string" where
  "hexDigits n = (if n < 16 then [hexDigit n] else hexDigits (n div 16) @ [hexDigit (n mod 16)])"

declare hexDigits.simps [simp del]

definition hex8 :: "nat \<Rightarrow> string" where
  "hex8 n = replicate (8 - length (hexDigits n)) (CHR ''0'') @ hexDigits n"

definition hexValue :: "char \<Rightarrow> nat" where
  "hexValue c = (if c \<in> set ''0123456789'' then of_char c - 48 else of_char c - 87)"

definition hexRead :: "string \<Rightarrow> nat" where
  "hexRead s = foldl (\<lambda>v c. 16 * v + hexValue c) 0 s"

lemma hexValue_hexDigit: "d < 16 \<Longrightarrow> hexValue (hexDigit d) = d"
proof -
  assume "d < 16"
  moreover have "list_all (\<lambda>d. hexValue (hexDigit d) = d) [0..<16]" by code_simp
  ultimately show ?thesis by (auto simp: list_all_iff)
qed

lemma hexRead_hexDigits: "hexRead (hexDigits n) = n"
proof (induction n rule: hexDigits.induct)
  case (1 n)
  show ?case
  proof (cases "n < 16")
    case True
    then show ?thesis by (subst hexDigits.simps) (simp add: hexRead_def hexValue_hexDigit)
  next
    case False
    with 1 have "hexRead (hexDigits (n div 16)) = n div 16" by simp
    with False show ?thesis
      by (subst hexDigits.simps) (simp add: hexRead_def hexValue_hexDigit)
  qed
qed

lemma hexRead_pad: "hexRead (replicate k (CHR ''0'') @ s) = hexRead s"
  by (induction k) (auto simp: hexRead_def hexValue_def)

lemma hexRead_hex8 [simp]: "hexRead (hex8 n) = n"
  by (simp add: hex8_def hexRead_pad hexRead_hexDigits)

lemma hex8_inject [simp]: "hex8 m = hex8 n \<longleftrightarrow> m = n"
  by (metis hexRead_hex8)

section \<open>Cutting and replacing\<close>

text \<open>\<^verbatim>\<open>s[a:b]\<close>.\<close>

definition slice :: "nat \<Rightarrow> nat \<Rightarrow> 'a list \<Rightarrow> 'a list" where
  "slice a b s = take (b - a) (drop a s)"

lemma slice_snoc: "a \<le> i \<Longrightarrow> i < length s \<Longrightarrow> slice a (Suc i) s = slice a i s @ [s ! i]"
  by (simp add: slice_def Suc_diff_le take_Suc_conv_app_nth)

lemma slice_empty [simp]: "slice a a s = []"
  by (simp add: slice_def)

lemma slice_all: "slice 0 (length s) s = s"
  by (simp add: slice_def)

text \<open>\<^verbatim>\<open>strings.ReplaceAll\<close> for a pattern that is not empty.\<close>

function ReplaceAll :: "string \<Rightarrow> string \<Rightarrow> string \<Rightarrow> string" where
  "ReplaceAll s old new =
     (case s of [] \<Rightarrow> []
      | c # r \<Rightarrow> if old \<noteq> [] \<and> HasPrefix s old
                then new @ ReplaceAll (drop (length old) s) old new
                else c # ReplaceAll r old new)"
  by pat_completeness auto
termination by (relation "measure (\<lambda>(s, old, new). length s)") auto

declare ReplaceAll.simps [simp del]

lemma ReplaceAll_length: "length new \<le> length old \<Longrightarrow> length (ReplaceAll s old new) \<le> length s"
proof (induction s old new rule: ReplaceAll.induct)
  case (1 s old new)
  show ?case
  proof (cases s)
    case Nil
    then show ?thesis by (simp add: ReplaceAll.simps)
  next
    case (Cons c r)
    show ?thesis
    proof (cases "old \<noteq> [] \<and> HasPrefix s old")
      case True
      then have "length old \<le> length s" by (simp add: HasPrefix_def prefix_length_le)
      with 1 True Cons show ?thesis by (subst ReplaceAll.simps) auto
    next
      case False
      with 1 Cons show ?thesis by (subst ReplaceAll.simps) auto
    qed
  qed
qed

lemma Contains_Nil: "sep \<noteq> [] \<Longrightarrow> \<not> Contains [] sep"
  by (simp add: Contains_def Cut.simps[of "[]"])

lemma Contains_Cons: "Contains (c # t) sep \<longleftrightarrow> HasPrefix (c # t) sep \<or> Contains t sep"
  by (auto simp: Contains_def HasPrefix_def Cut.simps[of "c # t"] split: option.splits)

lemma ReplaceAll_shorter:
  "length new < length old \<Longrightarrow> Contains s old \<Longrightarrow> length (ReplaceAll s old new) < length s"
proof (induction s old new rule: ReplaceAll.induct)
  case (1 s old new)
  then have o: "old \<noteq> []" by auto
  show ?case
  proof (cases s)
    case Nil
    with 1 o show ?thesis by (simp add: Contains_Nil)
  next
    case (Cons c r)
    show ?thesis
    proof (cases "HasPrefix s old")
      case True
      then have "length old \<le> length s" by (simp add: HasPrefix_def prefix_length_le)
      moreover have "length (ReplaceAll (drop (length old) s) old new) \<le> length (drop (length old) s)"
        using 1 by (intro ReplaceAll_length) simp
      ultimately show ?thesis using 1 o True Cons by (subst ReplaceAll.simps) auto
    next
      case False
      with 1(4) Cons have "Contains r old" by (simp add: Contains_Cons)
      with 1 o False Cons show ?thesis by (subst ReplaceAll.simps) auto
    qed
  qed
qed

section \<open>The bytes that trimming and splitting can lose\<close>

definition spaceBytes :: "char set" where
  "spaceBytes = set (concat spaceEncodings)"

lemma leadingSpace_bytes: "leadingSpace s = Some w \<Longrightarrow> s = w @ drop (length w) s \<and> set w \<subseteq> spaceBytes"
  by (auto simp: leadingSpace_def find_Some_iff spaceBytes_def prefix_def)
     (metis nth_mem)

lemma trailingSpace_bytes:
  "trailingSpace s = Some w \<Longrightarrow> s = take (length s - length w) s @ w \<and> set w \<subseteq> spaceBytes"
  by (auto simp: trailingSpace_def find_Some_iff spaceBytes_def suffix_def)
     (metis nth_mem)

lemma trimLeft_bytes: "\<exists>w. s = w @ trimLeft s \<and> set w \<subseteq> spaceBytes"
proof (induction s rule: trimLeft.induct)
  case (1 s)
  show ?case
  proof (cases "leadingSpace s")
    case None
    then show ?thesis by (subst trimLeft.simps) simp
  next
    case (Some w)
    from 1[OF Some] obtain v where "drop (length w) s = v @ trimLeft (drop (length w) s)" "set v \<subseteq> spaceBytes"
      by blast
    with leadingSpace_bytes[OF Some] have "s = (w @ v) @ trimLeft (drop (length w) s)" "set (w @ v) \<subseteq> spaceBytes"
      by auto
    moreover have "trimLeft s = trimLeft (drop (length w) s)" using Some by (subst trimLeft.simps) simp
    ultimately show ?thesis by metis
  qed
qed

lemma trimRight_bytes: "\<exists>w. s = trimRight s @ w \<and> set w \<subseteq> spaceBytes"
proof (induction s rule: trimRight.induct)
  case (1 s)
  show ?case
  proof (cases "trailingSpace s")
    case None
    then show ?thesis by (subst trimRight.simps) simp
  next
    case (Some w)
    let ?t = "take (length s - length w) s"
    from 1[OF Some] obtain v where "?t = trimRight ?t @ v" "set v \<subseteq> spaceBytes" by blast
    with trailingSpace_bytes[OF Some] have "s = trimRight ?t @ (v @ w)" "set (v @ w) \<subseteq> spaceBytes"
      by (metis append.assoc, auto)
    moreover have "trimRight s = trimRight ?t" using Some by (subst trimRight.simps) simp
    ultimately show ?thesis by metis
  qed
qed

lemma TrimSpace_bytes:
  "set s \<subseteq> set (TrimSpace s) \<union> spaceBytes" "\<exists>r. trimLeft s = TrimSpace s @ r \<and> set r \<subseteq> spaceBytes"
proof -
  obtain w where w: "s = w @ trimLeft s" "set w \<subseteq> spaceBytes" using trimLeft_bytes by blast
  obtain r where r: "trimLeft s = trimRight (trimLeft s) @ r" "set r \<subseteq> spaceBytes"
    using trimRight_bytes by blast
  from r show "\<exists>r. trimLeft s = TrimSpace s @ r \<and> set r \<subseteq> spaceBytes" unfolding TrimSpace_def by blast
  have "set s = set w \<union> set (trimLeft s)" by (subst w(1)) simp
  also have "set (trimLeft s) = set (TrimSpace s) \<union> set r" unfolding TrimSpace_def by (subst r(1)) simp
  finally show "set s \<subseteq> set (TrimSpace s) \<union> spaceBytes" using w(2) r(2) by auto
qed

lemma Fields_trimLeft: "Fields (trimLeft s) = Fields s"
proof (induction s rule: trimLeft.induct)
  case (1 s)
  show ?case
  proof (cases "leadingSpace s")
    case None
    then show ?thesis by (subst trimLeft.simps) simp
  next
    case (Some w)
    have "Fields s = Fields (drop (length w) s)"
      unfolding Fields_def using Some by (subst fieldsFrom.simps) simp
    moreover have "trimLeft s = trimLeft (drop (length w) s)" using Some by (subst trimLeft.simps) simp
    ultimately show ?thesis using 1[OF Some] by simp
  qed
qed

lemma fieldsFrom_bytes: "w \<in> set (fieldsFrom cur s) \<Longrightarrow> set w \<subseteq> set cur \<union> set s"
proof (induction cur s rule: fieldsFrom.induct)
  case (1 cur s)
  show ?case
  proof (cases "leadingSpace s")
    case (Some v)
    have "set (drop (length v) s) \<subseteq> set s" by (rule set_drop_subset)
    with 1 Some show ?thesis by (subst (asm) (3) fieldsFrom.simps) (auto split: if_splits)
  next
    case None
    with 1 show ?thesis by (subst (asm) (3) fieldsFrom.simps) (auto split: list.splits if_splits)
  qed
qed

lemma Fields_bytes: "w \<in> set (Fields s) \<Longrightarrow> set w \<subseteq> set s"
  unfolding Fields_def using fieldsFrom_bytes by fastforce

lemma Join_bytes: "set (Join xs sep) \<subseteq> (\<Union>x\<in>set xs. set x) \<union> set sep"
  by (induction xs sep rule: Join.induct) auto

lemma Contains_bytes: "Contains s sub \<Longrightarrow> set sub \<subseteq> set s"
  unfolding Contains_def using Cut_append by fastforce

lemma leadingSpace_plain:
  assumes "c \<notin> {CHR 0x20, CHR 0x0A, CHR 0x09, CHR 0x0D, CHR 0x0B, CHR 0x0C, CHR 0xC2, CHR 0xE1, CHR 0xE2, CHR 0xE3}"
  shows "leadingSpace (c # s) = None"
proof -
  have "\<forall>w\<in>set spaceEncodings. c \<noteq> hd w"
    using assms unfolding spaceEncodings_def by simp
  moreover have "prefix w (c # s) \<Longrightarrow> w \<in> set spaceEncodings \<Longrightarrow> hd w = c" for w
    using spaceEncodings_nonempty[of w] by (cases w) auto
  ultimately show ?thesis unfolding leadingSpace_def find_None_iff by blast
qed

lemma leadingSpace_space [simp]: "leadingSpace (CHR 0x20 # s) = Some [CHR 0x20]"
  by (simp add: leadingSpace_def spaceEncodings_def)

lemma trailingSpace_plain:
  "c \<notin> spaceBytes \<Longrightarrow> trailingSpace (s @ [c]) = None"
proof -
  assume c: "c \<notin> spaceBytes"
  have "\<not> suffix w (s @ [c])" if "w \<in> set spaceEncodings" for w
  proof
    assume "suffix w (s @ [c])"
    moreover from that have "w \<noteq> []" by (rule spaceEncodings_nonempty)
    ultimately have "last w = c" by (metis last_append last_snoc suffix_def)
    with c that \<open>w \<noteq> []\<close> show False by (auto simp: spaceBytes_def)
  qed
  then show ?thesis by (auto simp: trailingSpace_def find_None_iff)
qed

lemma fieldsFrom_plain:
  "leadingSpace (c # t) = None \<Longrightarrow> fieldsFrom cur (c # t) = fieldsFrom (cur @ [c]) t"
  by (subst fieldsFrom.simps) simp

lemma fieldsFrom_space:
  "cur \<noteq> [] \<Longrightarrow> fieldsFrom cur (CHR 0x20 # t) = cur # Fields t"
  unfolding Fields_def by (subst fieldsFrom.simps) simp

lemma fieldsFrom_end: "cur \<noteq> [] \<Longrightarrow> fieldsFrom cur [] = [cur]"
  by (subst fieldsFrom.simps) simp

end
