(* ===== verification/PlanModel.thy ===== *)
theory PlanModel
  imports GoStrings "HOL-Library.Word"
begin

text \<open>
  The data of the plan store: \<^verbatim>\<open>internal/plandb/model.go\<close>, the \<^verbatim>\<open>state\<close> struct of
  \<^verbatim>\<open>persist.go\<close> and \<^verbatim>\<open>verdict_basis.go\<close>. Go's struct embedding (\<^verbatim>\<open>Task\<close> embeds \<^verbatim>\<open>TaskSpec\<close>)
  is record extension, so \<^verbatim>\<open>ID t\<close> reads the same field of a task and of its spec, and
  \<^verbatim>\<open>task_spec.truncate t\<close> is \<^verbatim>\<open>task.TaskSpec\<close>. A nil slice and an empty one are both \<^verbatim>\<open>[]\<close>.
\<close>

section \<open>Words the store reasons with\<close>

text \<open>\<^verbatim>\<open>Status\<close> is a string type with seven constants; \<^verbatim>\<open>StatusOther\<close> is any other word.\<close>

datatype status =
    StatusPending | StatusReady | StatusClaimed | StatusRunning
  | StatusDone | StatusFailed | StatusCancelled | StatusOther string

type_synonym depkind = string

definition DepFeedsInto :: depkind where "DepFeedsInto = ''feeds_into''"
definition DepBlocks :: depkind where "DepBlocks = ''blocks''"
definition DepSuggests :: depkind where "DepSuggests = ''suggests''"

definition EffectObserve :: string where "EffectObserve = ''observe''"
definition EffectReversibleWrite :: string where "EffectReversibleWrite = ''reversible_write''"
definition EffectExternalAction :: string where "EffectExternalAction = ''external_action''"
definition EffectIrreversible :: string where "EffectIrreversible = ''irreversible''"
definition EffectMixed :: string where "EffectMixed = ''mixed''"

definition RolePlan :: string where "RolePlan = ''plan''"
definition RoleWork :: string where "RoleWork = ''work''"
definition RoleCheck :: string where "RoleCheck = ''check''"
definition RoleProbe :: string where "RoleProbe = ''probe''"

definition NoteFromWorker :: string where "NoteFromWorker = ''worker''"
definition NoteFromPerson :: string where "NoteFromPerson = ''person''"

section \<open>Records\<close>

record dependency =
  dep_TaskID :: string
  dep_Kind :: depkind

record resource_claim =
  URI :: string
  Mode :: string

record task_spec =
  ID :: string
  Title :: string
  Description :: string
  Model :: string
  Question :: string
  Kind :: string
  ParentID :: string
  Dependencies :: "dependency list"
  Priority :: int
  Capabilities :: "string list"
  Resources :: "resource_claim list"
  Effect :: string
  Parallel :: string
  Isolation :: string
  Role :: string
  ContextInputs :: "string list"
  Deliverables :: "string list"
  EvidenceRequirements :: "string list"
  Agent :: string
  Acceptance :: string
  Checks :: "string list"

record task_patch =
  p_Title :: "string option"
  p_Description :: "string option"
  p_Question :: "string option"
  p_Kind :: "string option"
  p_Priority :: "int option"
  p_Capabilities :: "string list option"
  p_Resources :: "resource_claim list option"
  p_Effect :: "string option"
  p_Parallel :: "string option"
  p_Isolation :: "string option"
  p_Role :: "string option"
  p_ContextInputs :: "string list option"
  p_Deliverables :: "string list option"
  p_EvidenceRequirements :: "string list option"
  p_Agent :: "string option"
  p_Acceptance :: "string option"
  p_Checks :: "string list option"

record verdict_run =
  vr_Command :: string
  vr_ExitCode :: int

record verdict_basis =
  vb_Kind :: string
  vb_Runs :: "verdict_run list"
  vb_Unobserved :: "string list"

definition noVerdict :: verdict_basis where
  "noVerdict = \<lparr>vb_Kind = '''', vb_Runs = [], vb_Unobserved = []\<rparr>"

record task = task_spec +
  Status :: status
  Composite :: bool
  Paused :: bool
  Waiting :: bool
  WaitedAt :: time
  Project :: string
  Chat :: string
  ClaimedBy :: string
  Owner :: string
  SeenAt :: time
  Result :: string
  Error :: string
  Artifacts :: "string list"
  Evidence :: "string list"
  VerdictBasis :: verdict_basis
  CreatedAt :: time
  UpdatedAt :: time
  CompletedAt :: time
  ArchivedAt :: time

record plan_note =
  note_ID :: string
  note_TaskID :: string
  note_Agent :: string
  note_From :: string
  note_Body :: string
  note_Project :: string
  note_Chat :: string
  note_At :: time

record context_entry =
  ce_ID :: string
  ce_TaskID :: string
  ce_Kind :: string
  ce_Content :: string
  ce_Project :: string
  ce_Chat :: string
  ce_CreatedAt :: time

record tag_filter =
  flt_Project :: string
  flt_Chat :: string

text \<open>
  \<^verbatim>\<open>Tasks\<close> is the map, \<^verbatim>\<open>Order\<close> the admission order beside it, \<^verbatim>\<open>NextID\<close> the 64-bit counter
  of note and context ids, \<^verbatim>\<open>Deleted\<close> the tombstones.
\<close>

record plan_state =
  Version :: nat
  PlanProject :: string
  RootID :: string
  Tasks :: "(string \<times> task) list"
  Order :: "string list"
  Notes :: "plan_note list"
  Contexts :: "context_entry list"
  NextID :: "64 word"
  Deleted :: "string set"

section \<open>Refusals\<close>

text \<open>
  One constructor per error text of the source, grouped by the part that raises it.
  \<^verbatim>\<open>NilTask\<close> and \<^verbatim>\<open>NilDeref\<close> are not error values of the code but its panic: a nil
  \<^verbatim>\<open>*Task\<close> dereferenced, in the cycle check and in any other loop over \<^verbatim>\<open>Order\<close>.
  \<^verbatim>\<open>UniqueViolation\<close>, \<^verbatim>\<open>BadValue\<close> and the four after it are refusals of the database, its driver
  and the file system.
  \<^verbatim>\<open>ErrNoChange\<close> never leaves \<^verbatim>\<open>transact\<close>.
\<close>

datatype spec_error =
    InvalidID string | BadTitle | LongDescription | BadPriority int | BadEffect string
  | BadParallel string | BadIsolation string | BadRole | BadResource | BadDependency
  | BadCheck string

datatype cycle_error = CycleAt string | NilTask | GraphFuel

datatype graph_error =
    DependencyGraph cycle_error | ContainmentGraph cycle_error | LineageDep string string

datatype load_error =
    UnsupportedVersion nat | InvalidPlanStore | RootMissing | BadOrder string | OrderIncomplete
  | KeyMismatch string string | InvalidStatus string status | SpecOf string spec_error
  | UnknownParentOf string string | UnknownDependencyOf string string
  | InconsistentComposite string | BadColumn | BadGraph graph_error

datatype admit_error =
    TasksEmpty | PlanTooLarge | RunTooLarge
  | SpecInvalid nat spec_error | DuplicateID string
  | UnknownParent string string | TerminalParent string string
  | UnknownDependency string string | SelfDependency string
  | OnlyCheckRole | ParentMissing string | AlreadyDepends string string

datatype work_error =
    NotRunnableLeaf string | NotReadyComposite string | AgentRequired
  | ParkedTask string | AlreadyTerminal string | HoldsUnearned | ResultTooLong
  | HarnessOwnsRootCompletion | HarnessOwnsRoot | NotClaimed string | OwnedBy string string
  | OpenChild string string | UnfinishedDependency string string
  | CannotComplete string status | EvidenceRequired string
  | FailureTooLong | NotHeld string | NothingToWaitFor string | NotFailed string
  | OnlyBeforeExecution string | OpenDescendants

datatype text_error =
    AmendmentTooLong | NoteEmpty | NoteTooLong
  | ContextEmpty | ContextTooLong | ContextLimit | ContextNotFound string

datatype plan_error =
    ErrClosed | ErrNoStore | ErrNoChange | NilDeref | StoreBusy | CommitFailed | UniqueViolation | BadValue
  | ReadFailed | SymlinkPath | StatFailed | OpenFailed
  | NeedProject | DifferentRun | NoLongerAvailable
  | TaskNotFound string | NoMatch string | SeveralMatches string "string list"
  | SpecRefused spec_error | GraphRefused graph_error | LoadRefused load_error
  | AdmitRefused admit_error | WorkRefused work_error | TextRefused text_error

section \<open>Reading and writing one task\<close>

definition task_at :: "plan_state \<Rightarrow> string \<Rightarrow> task option" where
  "task_at s i = map_of (Tasks s) i"

definition put_task :: "string \<Rightarrow> task \<Rightarrow> plan_state \<Rightarrow> plan_state" where
  "put_task i t s = s\<lparr>Tasks := AList.update i t (Tasks s)\<rparr>"

text \<open>Writing through the pointer a map holds: nothing happens where the map has no entry.\<close>

definition upd_task :: "string \<Rightarrow> (task \<Rightarrow> task) \<Rightarrow> plan_state \<Rightarrow> plan_state" where
  "upd_task i f s = (case task_at s i of None \<Rightarrow> s | Some t \<Rightarrow> put_task i (f t) s)"

text \<open>The keys and the values \<^verbatim>\<open>range value.Tasks\<close> visits.\<close>

definition task_ids :: "plan_state \<Rightarrow> string list" where
  "task_ids s = map fst (Tasks s)"

definition task_list :: "plan_state \<Rightarrow> task list" where
  "task_list s = map snd (Tasks s)"

section \<open>Statuses as the words they are\<close>

fun statusWord :: "status \<Rightarrow> string" where
  "statusWord StatusPending = ''pending''"
| "statusWord StatusReady = ''ready''"
| "statusWord StatusClaimed = ''claimed''"
| "statusWord StatusRunning = ''running''"
| "statusWord StatusDone = ''done''"
| "statusWord StatusFailed = ''failed''"
| "statusWord StatusCancelled = ''cancelled''"
| "statusWord (StatusOther w) = w"

definition statusOf :: "string \<Rightarrow> status" where
  "statusOf w =
     (if w = ''pending'' then StatusPending else if w = ''ready'' then StatusReady
      else if w = ''claimed'' then StatusClaimed else if w = ''running'' then StatusRunning
      else if w = ''done'' then StatusDone else if w = ''failed'' then StatusFailed
      else if w = ''cancelled'' then StatusCancelled else StatusOther w)"

lemma statusWord_Of [simp]: "statusWord (statusOf w) = w"
  by (simp add: statusOf_def)

section \<open>Questions asked of a status or a task\<close>

text \<open>\<^verbatim>\<open>terminal\<close>, \<^verbatim>\<open>heldStatus\<close>, \<^verbatim>\<open>validStatus\<close>, \<^verbatim>\<open>roleOf\<close>, \<^verbatim>\<open>Filter.admits\<close>, \<^verbatim>\<open>firstFilter\<close>.\<close>

definition terminal :: "status \<Rightarrow> bool" where
  "terminal st = (st = StatusDone \<or> st = StatusFailed \<or> st = StatusCancelled)"

definition heldStatus :: "status \<Rightarrow> bool" where
  "heldStatus st = (st = StatusClaimed \<or> st = StatusRunning)"

fun validStatus :: "status \<Rightarrow> bool" where
  "validStatus (StatusOther w) = False"
| "validStatus st = True"

definition roleOf :: "task \<Rightarrow> string" where
  "roleOf t = (if Composite t then RolePlan else if Role t \<noteq> '''' then Role t else RoleWork)"

definition admits :: "tag_filter \<Rightarrow> string \<Rightarrow> string \<Rightarrow> bool" where
  "admits f project chat =
     ((flt_Project f = '''' \<or> flt_Project f = project) \<and> (flt_Chat f = '''' \<or> flt_Chat f = chat))"

definition firstFilter :: "tag_filter list \<Rightarrow> tag_filter" where
  "firstFilter fs = (case fs of [] \<Rightarrow> \<lparr>flt_Project = '''', flt_Chat = ''''\<rparr> | f # _ \<Rightarrow> f)"

lemma terminal_simps [simp]:
  "terminal StatusDone" "terminal StatusFailed" "terminal StatusCancelled"
  "\<not> terminal StatusPending" "\<not> terminal StatusReady"
  "\<not> terminal StatusClaimed" "\<not> terminal StatusRunning" "\<not> terminal (StatusOther w)"
  by (simp_all add: terminal_def)

lemma held_simps [simp]:
  "heldStatus StatusClaimed" "heldStatus StatusRunning"
  "\<not> heldStatus StatusPending" "\<not> heldStatus StatusReady"
  "\<not> heldStatus StatusDone" "\<not> heldStatus StatusFailed" "\<not> heldStatus StatusCancelled"
  "\<not> heldStatus (StatusOther w)"
  by (simp_all add: heldStatus_def)

lemma held_not_terminal: "heldStatus st \<Longrightarrow> \<not> terminal st"
  by (auto simp: heldStatus_def)

lemma statusOf_Word [simp]: "validStatus st \<Longrightarrow> statusOf (statusWord st) = st"
  by (cases st) (simp_all add: statusOf_def)

lemma zero_filter_admits [simp]: "admits (firstFilter []) p c"
  by (simp add: admits_def firstFilter_def)

section \<open>Laws of the map\<close>

text \<open>Go's map has one entry per key: the representation invariant of the association list.\<close>

definition rep_ok :: "plan_state \<Rightarrow> bool" where
  "rep_ok s = distinct (map fst (Tasks s))"

lemma task_at_put: "task_at (put_task i t s) = (task_at s)(i \<mapsto> t)"
  by (simp add: task_at_def put_task_def AList.update_conv' fun_eq_iff)

lemma task_at_put_same [simp]: "task_at (put_task i t s) i = Some t"
  by (simp add: task_at_put)

lemma task_at_put_other [simp]: "j \<noteq> i \<Longrightarrow> task_at (put_task i t s) j = task_at s j"
  by (simp add: task_at_put)

lemma task_at_upd: "task_at (upd_task i f s) j =
    (if j = i then map_option f (task_at s i) else task_at s j)"
  by (auto simp: upd_task_def split: option.splits)

lemma rep_ok_put [simp]: "rep_ok s \<Longrightarrow> rep_ok (put_task i t s)"
  by (simp add: rep_ok_def put_task_def AList.distinct_update)

lemma rep_ok_upd [simp]: "rep_ok s \<Longrightarrow> rep_ok (upd_task i f s)"
  by (simp add: upd_task_def split: option.splits)

lemma task_ids_put_present [simp]:
  "task_at s i = Some u \<Longrightarrow> task_ids (put_task i t s) = task_ids s"
  by (simp add: task_ids_def put_task_def task_at_def map_of_in_keys)

lemma task_ids_put_absent:
  "task_at s i = None \<Longrightarrow> task_ids (put_task i t s) = task_ids s @ [i]"
  by (simp add: task_ids_def put_task_def task_at_def keys_update_absent map_of_None_iff_keys)

lemma task_ids_upd [simp]: "task_ids (upd_task i f s) = task_ids s"
  by (simp add: upd_task_def split: option.splits)

lemma task_ids_iff: "i \<in> set (task_ids s) \<longleftrightarrow> (\<exists>t. task_at s i = Some t)"
  unfolding task_ids_def task_at_def
  by (metis image_set map_of_in_keys map_of_key_ex)

lemma task_list_iff:
  "rep_ok s \<Longrightarrow> t \<in> set (task_list s) \<longleftrightarrow> (\<exists>i. task_at s i = Some t)"
  by (force simp: rep_ok_def task_list_def task_at_def)

lemma length_task_ids: "length (task_ids s) = length (Tasks s)"
  by (simp add: task_ids_def)

lemma put_task_frame [simp, frame_simps]:
  "Version (put_task i t s) = Version s" "PlanProject (put_task i t s) = PlanProject s"
  "RootID (put_task i t s) = RootID s" "Order (put_task i t s) = Order s"
  "Notes (put_task i t s) = Notes s" "Contexts (put_task i t s) = Contexts s"
  "NextID (put_task i t s) = NextID s" "Deleted (put_task i t s) = Deleted s"
  by (simp_all add: put_task_def)

lemma upd_task_frame [simp, frame_simps]:
  "Version (upd_task i f s) = Version s" "PlanProject (upd_task i f s) = PlanProject s"
  "RootID (upd_task i f s) = RootID s" "Order (upd_task i f s) = Order s"
  "Notes (upd_task i f s) = Notes s" "Contexts (upd_task i f s) = Contexts s"
  "NextID (upd_task i f s) = NextID s" "Deleted (upd_task i f s) = Deleted s"
  by (simp_all add: upd_task_def split: option.splits)

lemma put_task_twice [simp]: "put_task i t (put_task i u s) = put_task i t s"
  by (simp add: put_task_def)

lemma put_task_same: "task_at s i = Some t \<Longrightarrow> put_task i t s = s"
  by (simp add: put_task_def task_at_def AList.update_triv)

end
