(* ===== verification/ApprovalGlob.thy ===== *)
theory ApprovalGlob
  imports GoStrings
begin

text \<open>
  The glob of the consent policy: \<^verbatim>\<open>globMatch\<close> and the critical-command table of
  \<^verbatim>\<open>internal/approval/bash.go\<close>, with the proof that the backtracking loop always returns and
  answers what the reference matcher \<^verbatim>\<open>glob\<close> says.
\<close>

section \<open>The loop\<close>

text \<open>
  The loop's four variables are its arguments: \<^verbatim>\<open>patternIndex\<close>, \<^verbatim>\<open>textIndex\<close>, \<^verbatim>\<open>star\<close>
  (None is -1) and \<^verbatim>\<open>resume\<close>. The result is None for a run that does not end, Some None for
  the loop's own \<^verbatim>\<open>return false\<close>, and Some the pattern index it leaves the loop with.
\<close>

partial_function (option) globLoop ::
    "string \<Rightarrow> string \<Rightarrow> nat \<Rightarrow> nat \<Rightarrow> nat option \<Rightarrow> nat \<Rightarrow> nat option option" where
  "globLoop pattern text pi ti star resume =
     (if ti < length text then
        (if pi < length pattern \<and> pattern ! pi = CHR ''*'' then
           globLoop pattern text (pi + 1) ti (Some pi) ti
         else if pi < length pattern \<and> pattern ! pi = text ! ti then
           globLoop pattern text (pi + 1) (ti + 1) star resume
         else (case star of
                 None \<Rightarrow> Some None
               | Some k \<Rightarrow> globLoop pattern text (k + 1) (resume + 1) star (resume + 1)))
      else Some (Some pi))"

definition globMatch :: "string \<Rightarrow> string \<Rightarrow> bool" where
  "globMatch pattern text =
     (case globLoop pattern text 0 0 None 0 of
        Some (Some pi) \<Rightarrow> list_all (\<lambda>c. c = CHR ''*'') (drop pi pattern)
      | _ \<Rightarrow> False)"

text \<open>The reference: a star stands for any text, every other byte for itself.\<close>

fun glob :: "string \<Rightarrow> string \<Rightarrow> bool" where
  "glob [] t = (t = [])"
| "glob (c # p) [] = (c = CHR ''*'' \<and> glob p [])"
| "glob (c # p) (d # t) =
     (if c = CHR ''*'' then glob p (d # t) \<or> glob (c # p) t else c = d \<and> glob p t)"

section \<open>Facts on the reference\<close>

lemma glob_Nil_iff: "glob p [] \<longleftrightarrow> list_all (\<lambda>c. c = CHR ''*'') p"
  by (induction p) auto

lemma glob_star_iff: "glob (CHR ''*'' # p) t \<longleftrightarrow> (\<exists>n. glob p (drop n t))"
proof (induction t)
  case Nil
  then show ?case by simp
next
  case (Cons d t)
  have "(\<exists>n. glob p (drop n (d # t))) \<longleftrightarrow> glob p (d # t) \<or> (\<exists>n. glob p (drop n t))"
    by (metis drop0 drop_Suc_Cons not0_implies_Suc)
  with Cons show ?case by simp
qed

lemma glob_literal_append:
  "CHR ''*'' \<notin> set seg \<Longrightarrow>
     glob (seg @ p) t \<longleftrightarrow> take (length seg) t = seg \<and> glob p (drop (length seg) t)"
proof (induction seg arbitrary: t)
  case (Cons c seg)
  then show ?case by (cases t) auto
qed simp

section \<open>The loop against the reference\<close>

text \<open>
  What holds at the head of the loop: the bytes since the last star were matched one by one,
  and \<^verbatim>\<open>glob_rest\<close> is what is left to decide.
\<close>

definition glob_inv :: "string \<Rightarrow> string \<Rightarrow> nat \<Rightarrow> nat \<Rightarrow> nat option \<Rightarrow> nat \<Rightarrow> bool" where
  "glob_inv p t pi ti star resume \<longleftrightarrow> pi \<le> length p \<and> ti \<le> length t \<and>
     (case star of
        None \<Rightarrow> resume = 0
      | Some k \<Rightarrow> k < pi \<and> resume \<le> ti \<and>
          (\<exists>seg. CHR ''*'' \<notin> set seg \<and> drop (Suc k) p = seg @ drop pi p \<and>
                 drop resume t = seg @ drop ti t))"

definition glob_rest :: "string \<Rightarrow> string \<Rightarrow> nat \<Rightarrow> nat \<Rightarrow> nat option \<Rightarrow> nat \<Rightarrow> bool" where
  "glob_rest p t pi ti star resume =
     (case star of
        None \<Rightarrow> glob (drop pi p) (drop ti t)
      | Some k \<Rightarrow> (\<exists>j\<ge>resume. j \<le> length t \<and> glob (drop (Suc k) p) (drop j t)))"

lemma glob_rest_none [simp]: "glob_rest p t pi ti None r = glob (drop pi p) (drop ti t)"
  by (simp add: glob_rest_def)

lemma star_at_end:
  assumes s: "CHR ''*'' \<notin> set seg" and j: "j \<ge> r" "j \<le> length t" and e: "drop r t = seg"
    and g: "glob (seg @ p) (drop j t)"
  shows "j = r \<and> glob p []"
proof -
  from g have m: "take (length seg) (drop j t) = seg" "glob p (drop (length seg) (drop j t))"
    by (simp_all add: glob_literal_append[OF s])
  have "length seg = length t - r" using e by auto
  moreover have "length (take (length seg) (drop j t)) = length seg" by (subst m(1)) simp
  ultimately have "j = r \<or> seg = []" using j by auto
  then have "j = r \<or> j = length t \<and> r = length t" using j e by auto
  then have "j = r" by auto
  with m e show ?thesis by simp
qed

text \<open>The three moves of the loop keep the question that is left the same.\<close>

lemma rest_new_star:
  assumes inv: "glob_inv p t pi ti star resume" and "pi < length p" "p ! pi = CHR ''*''"
  shows "glob_inv p t (pi + 1) ti (Some pi) ti"
    and "glob_rest p t (pi + 1) ti (Some pi) ti \<longleftrightarrow> glob_rest p t pi ti star resume"
proof -
  show "glob_inv p t (pi + 1) ti (Some pi) ti" using assms by (auto simp: glob_inv_def)
  have d: "drop pi p = CHR ''*'' # drop (Suc pi) p" using assms(2,3) by (metis Cons_nth_drop_Suc)
  have ti: "ti \<le> length t" using inv by (simp add: glob_inv_def)
  have new: "glob_rest p t (pi + 1) ti (Some pi) ti \<longleftrightarrow> glob (drop pi p) (drop ti t)"
  proof
    assume "glob_rest p t (pi + 1) ti (Some pi) ti"
    then obtain j where "j \<ge> ti" "glob (drop (Suc pi) p) (drop j t)" by (auto simp: glob_rest_def)
    then have "glob (drop (Suc pi) p) (drop (j - ti) (drop ti t))" by simp
    then show "glob (drop pi p) (drop ti t)" unfolding d glob_star_iff by blast
  next
    assume "glob (drop pi p) (drop ti t)"
    then obtain n where n: "glob (drop (Suc pi) p) (drop n (drop ti t))" unfolding d glob_star_iff by blast
    show "glob_rest p t (pi + 1) ti (Some pi) ti"
    proof (cases "n + ti \<le> length t")
      case True
      with n show ?thesis by (auto simp: glob_rest_def intro!: exI[of _ "n + ti"])
    next
      case False
      with n have "glob (drop (Suc pi) p) (drop (length t) t)" by simp
      then show ?thesis using ti by (auto simp: glob_rest_def)
    qed
  qed
  show "glob_rest p t (pi + 1) ti (Some pi) ti \<longleftrightarrow> glob_rest p t pi ti star resume"
  proof (cases star)
    case None
    with new show ?thesis by simp
  next
    case (Some k)
    with inv obtain seg where s: "CHR ''*'' \<notin> set seg" "drop (Suc k) p = seg @ drop pi p"
        "drop resume t = seg @ drop ti t" "resume \<le> ti" by (auto simp: glob_inv_def)
    have len: "length seg = ti - resume"
    proof -
      have "length (drop resume t) = length seg + length (drop ti t)" by (subst s(3)) simp
      then show ?thesis using ti s(4) by simp
    qed
    have "glob_rest p t pi ti star resume \<longleftrightarrow>
        (\<exists>j\<ge>resume. j \<le> length t \<and> take (length seg) (drop j t) = seg \<and>
           glob (drop pi p) (drop (length seg + j) t))"
      using Some s(1) by (simp add: glob_rest_def s(2) glob_literal_append)
    also have "\<dots> \<longleftrightarrow> glob (drop pi p) (drop ti t)"
    proof
      assume "\<exists>j\<ge>resume. j \<le> length t \<and> take (length seg) (drop j t) = seg \<and>
           glob (drop pi p) (drop (length seg + j) t)"
      then obtain j n where j: "j \<ge> resume" "glob (drop (Suc pi) p) (drop n (drop (length seg + j) t))"
        unfolding d glob_star_iff by blast
      have "drop n (drop (length seg + j) t) = drop (n + (j - resume)) (drop ti t)"
        using j(1) len s(4) by (simp add: algebra_simps)
      with j(2) show "glob (drop pi p) (drop ti t)" unfolding d glob_star_iff by metis
    next
      assume g: "glob (drop pi p) (drop ti t)"
      have "take (length seg) (drop resume t) = seg" by (simp add: s(3))
      moreover have "length seg + resume = ti" using len s(4) by simp
      ultimately show "\<exists>j\<ge>resume. j \<le> length t \<and> take (length seg) (drop j t) = seg \<and>
           glob (drop pi p) (drop (length seg + j) t)"
        using g s(4) ti by (intro exI[of _ resume]) simp
    qed
    finally show ?thesis using new by simp
  qed
qed

lemma rest_byte:
  assumes inv: "glob_inv p t pi ti star resume" and ti: "ti < length t" and pi: "pi < length p"
    and ns: "p ! pi \<noteq> CHR ''*''" and eq: "p ! pi = t ! ti"
  shows "glob_inv p t (pi + 1) (ti + 1) star resume"
    and "glob_rest p t (pi + 1) (ti + 1) star resume \<longleftrightarrow> glob_rest p t pi ti star resume"
proof -
  have d: "drop pi p = (p ! pi) # drop (Suc pi) p" "drop ti t = (p ! pi) # drop (Suc ti) t"
    using Cons_nth_drop_Suc[OF pi] Cons_nth_drop_Suc[OF ti] by (simp_all add: eq)
  show "glob_inv p t (pi + 1) (ti + 1) star resume"
  proof (cases star)
    case None
    with inv pi ti show ?thesis by (simp add: glob_inv_def)
  next
    case (Some k)
    with inv obtain seg where s: "k < pi" "resume \<le> ti" "CHR ''*'' \<notin> set seg"
      "drop (Suc k) p = seg @ drop pi p" "drop resume t = seg @ drop ti t"
      by (auto simp: glob_inv_def)
    have "CHR ''*'' \<notin> set (seg @ [p ! pi])" "drop (Suc k) p = (seg @ [p ! pi]) @ drop (Suc pi) p"
      "drop resume t = (seg @ [p ! pi]) @ drop (Suc ti) t"
      using s d ns by simp_all
    then show ?thesis using Some s(1,2) pi ti unfolding glob_inv_def by (auto simp del: append_assoc)
  qed
  show "glob_rest p t (pi + 1) (ti + 1) star resume \<longleftrightarrow> glob_rest p t pi ti star resume"
    using d ns by (cases star) (simp_all add: glob_rest_def)
qed

lemma rest_mismatch:
  assumes inv: "glob_inv p t pi ti (Some k) resume" and ti: "ti < length t"
    and ns: "\<not> (pi < length p \<and> p ! pi = CHR ''*'')" and ne: "\<not> (pi < length p \<and> p ! pi = t ! ti)"
  shows "glob_inv p t (k + 1) (resume + 1) (Some k) (resume + 1)"
    and "glob_rest p t (k + 1) (resume + 1) (Some k) (resume + 1) \<longleftrightarrow> glob_rest p t pi ti (Some k) resume"
proof -
  from inv obtain seg where s: "k < pi" "pi \<le> length p" "resume \<le> ti" "CHR ''*'' \<notin> set seg"
      "drop (Suc k) p = seg @ drop pi p" "drop resume t = seg @ drop ti t"
    by (auto simp: glob_inv_def)
  show "glob_inv p t (k + 1) (resume + 1) (Some k) (resume + 1)"
    using s(1,2,3) ti by (auto simp: glob_inv_def)
  have "\<not> glob (drop pi p) (drop ti t)"
  proof (cases "pi < length p")
    case True
    then have "drop pi p = (p ! pi) # drop (Suc pi) p" "drop ti t = (t ! ti) # drop (Suc ti) t"
      using ti by (simp_all add: Cons_nth_drop_Suc)
    with True ns ne show ?thesis by simp
  next
    case False
    with ti show ?thesis by simp
  qed
  then have "\<not> glob (drop (Suc k) p) (drop resume t)"
    using s(4,5,6) by (simp add: glob_literal_append)
  then have "(\<exists>j\<ge>resume. j \<le> length t \<and> glob (drop (Suc k) p) (drop j t)) \<longleftrightarrow>
      (\<exists>j\<ge>Suc resume. j \<le> length t \<and> glob (drop (Suc k) p) (drop j t))"
    by (metis Suc_leD not_less_eq_eq order_antisym)
  then show "glob_rest p t (k + 1) (resume + 1) (Some k) (resume + 1) \<longleftrightarrow> glob_rest p t pi ti (Some k) resume"
    by (simp add: glob_rest_def)
qed

lemma rest_none_mismatch:
  assumes "ti < length t" "\<not> (pi < length p \<and> p ! pi = CHR ''*'')" "\<not> (pi < length p \<and> p ! pi = t ! ti)"
  shows "\<not> glob (drop pi p) (drop ti t)"
proof (cases "pi < length p")
  case True
  then have "drop pi p = (p ! pi) # drop (Suc pi) p" "drop ti t = (t ! ti) # drop (Suc ti) t"
    using assms(1) by (simp_all add: Cons_nth_drop_Suc)
  with True assms show ?thesis by simp
qed (use assms in simp)

lemma rest_end:
  assumes inv: "glob_inv p t pi ti star resume" and ti: "\<not> ti < length t"
  shows "glob_rest p t pi ti star resume \<longleftrightarrow> glob (drop pi p) []"
proof (cases star)
  case None
  with ti show ?thesis by simp
next
  case (Some k)
  with inv ti obtain seg where s: "ti = length t" "resume \<le> ti" "CHR ''*'' \<notin> set seg"
      "drop (Suc k) p = seg @ drop pi p" "drop resume t = seg"
    by (auto simp: glob_inv_def)
  show ?thesis
  proof
    assume "glob_rest p t pi ti star resume"
    then obtain j where "j \<ge> resume" "j \<le> length t" "glob (seg @ drop pi p) (drop j t)"
      using Some s(4) by (auto simp: glob_rest_def)
    with star_at_end[OF s(3) _ _ s(5)] show "glob (drop pi p) []" by blast
  next
    assume "glob (drop pi p) []"
    then have "glob (drop (Suc k) p) (drop resume t)"
      unfolding s(4) s(5) by (simp add: glob_literal_append[OF s(3)])
    with Some s(1,2) show "glob_rest p t pi ti star resume" by (auto simp: glob_rest_def)
  qed
qed

lemma glob_loop_correct:
  "glob_inv p t pi ti star resume \<Longrightarrow>
     \<exists>r. globLoop p t pi ti star resume = Some r \<and>
       (glob_rest p t pi ti star resume \<longleftrightarrow>
          (case r of None \<Rightarrow> False | Some pj \<Rightarrow> list_all (\<lambda>c. c = CHR ''*'') (drop pj p)))"
proof (induction "(length t - resume) * Suc (length p) + (length p - pi)" arbitrary: pi ti star resume
    rule: less_induct)
  case less
  let ?M = "\<lambda>pi resume. (length t - resume) * Suc (length p) + (length p - pi)"
  have bounds: "pi \<le> length p" "ti \<le> length t" "resume \<le> ti"
    using less.prems by (auto simp: glob_inv_def split: option.splits)
  show ?case
  proof (cases "ti < length t")
    case False
    with rest_end[OF less.prems False] show ?thesis
      by (simp add: globLoop.simps glob_Nil_iff)
  next
    case ti: True
    consider (star) "pi < length p" "p ! pi = CHR ''*''"
      | (byte) "pi < length p" "p ! pi \<noteq> CHR ''*''" "p ! pi = t ! ti"
      | (fail) "\<not> (pi < length p \<and> p ! pi = CHR ''*'')" "\<not> (pi < length p \<and> p ! pi = t ! ti)"
      by blast
    then show ?thesis
    proof cases
      case star
      have "(length t - ti) * Suc (length p) \<le> (length t - resume) * Suc (length p)"
        using bounds by (intro mult_le_mono1) simp
      moreover have "length p - (pi + 1) < length p - pi" using star(1) by simp
      ultimately have "?M (pi + 1) ti < ?M pi resume" by (rule add_le_less_mono)
      from less.hyps[OF this rest_new_star(1)[OF less.prems star]] rest_new_star(2)[OF less.prems star]
      show ?thesis using ti star by (subst globLoop.simps) simp
    next
      case byte
      have "?M (pi + 1) resume < ?M pi resume" using byte(1) by simp
      from less.hyps[OF this rest_byte(1)[OF less.prems ti byte]] rest_byte(2)[OF less.prems ti byte]
      show ?thesis using ti byte by (subst globLoop.simps) simp
    next
      case fail
      show ?thesis
      proof (cases star)
        case None
        with fail rest_none_mismatch[OF ti fail] ti show ?thesis
          by (subst globLoop.simps) auto
      next
        case (Some k)
        have inv: "glob_inv p t pi ti (Some k) resume" using less.prems Some by simp
        obtain n where n: "length t - resume = Suc n" using ti bounds(3) by (cases "length t - resume") auto
        then have r: "length t - (resume + 1) = n" by simp
        have "?M (k + 1) (resume + 1) < ?M pi resume" unfolding n r by simp
        note ih = less.hyps[OF this rest_mismatch(1)[OF inv ti fail]]
        have "globLoop p t pi ti star resume = globLoop p t (k + 1) (resume + 1) (Some k) (resume + 1)"
          using ti fail Some by (subst globLoop.simps) auto
        with ih rest_mismatch(2)[OF inv ti fail] Some show ?thesis by simp
      qed
    qed
  qed
qed

lemma globLoop_returns: "\<exists>r. globLoop p t 0 0 None 0 = Some r"
  using glob_loop_correct[of p t 0 0 None 0] by (auto simp: glob_inv_def)

lemma globMatch_eq_glob: "globMatch p t = glob p t"
proof -
  have "glob_inv p t 0 0 None 0" by (simp add: glob_inv_def)
  from glob_loop_correct[OF this] show ?thesis
    by (auto simp: globMatch_def split: option.splits)
qed

end
