(* ===== verification/ApprovalBash.thy ===== *)
theory ApprovalBash
  imports ApprovalGlob
begin

text \<open>
  The command line as the consent policy reads it: \<^verbatim>\<open>internal/approval/bash.go\<close>'s splitter
  and critical table, and \<^verbatim>\<open>composition.go\<close>'s quote scanner. The splitter's spans are proved
  to cut the line it was given, and a line the composition reader calls one command is one the
  splitter does not break.
\<close>

section \<open>Splitting a line at the shell's boundaries\<close>

record bash_part =
  bp_Command :: string
  bp_Separator :: string
  bp_Start :: nat
  bp_End :: nat
  bp_SepEnd :: nat

text \<open>The locals of \<^verbatim>\<open>splitBashCommand\<close>; a quote of None is the zero byte.\<close>

record split_state =
  sp_current :: string
  sp_quote :: "char option"
  sp_begin :: nat
  sp_parts :: "bash_part list"
  sp_compound :: bool

definition lastNonSpace :: "string \<Rightarrow> char option" where
  "lastNonSpace s = find (\<lambda>c. c \<noteq> CHR '' '' \<and> c \<noteq> CHR 0x09) (rev s)"

definition flush :: "string \<Rightarrow> nat \<Rightarrow> split_state \<Rightarrow> split_state" where
  "flush separator sepEnd st =
     (let t = TrimSpace (sp_current st);
          parts = (if t \<noteq> ''''
                   then sp_parts st @ [\<lparr>bp_Command = t, bp_Separator = separator, bp_Start = sp_begin st,
                                       bp_End = sepEnd - length separator, bp_SepEnd = sepEnd\<rparr>]
                   else sp_parts st)
      in st\<lparr>sp_parts := parts, sp_begin := sepEnd, sp_current := ''''\<rparr>)"

definition push :: "string \<Rightarrow> split_state \<Rightarrow> split_state" where
  "push s st = st\<lparr>sp_current := sp_current st @ s\<rparr>"

text \<open>The byte after \<^verbatim>\<open>index\<close>, if there is one.\<close>

definition next_is :: "string \<Rightarrow> nat \<Rightarrow> (char \<Rightarrow> bool) \<Rightarrow> bool" where
  "next_is cmd i p = (i + 1 < length cmd \<and> p (cmd ! (i + 1)))"

text \<open>One iteration; the boolean says \<^verbatim>\<open>index\<close> was advanced once more inside it.\<close>

definition split_step :: "string \<Rightarrow> nat \<Rightarrow> split_state \<Rightarrow> bool \<times> split_state" where
  "split_step cmd i st =
     (let c = cmd ! i in
      case sp_quote st of
        Some q \<Rightarrow>
          if c = CHR 0x5C \<and> q = CHR 0x22 \<and> i + 1 < length cmd
          then (True, push [c, cmd ! (i + 1)] st)
          else (False, let st' = push [c] st in if c = q then st'\<lparr>sp_quote := None\<rparr> else st')
      | None \<Rightarrow>
          if c = CHR 0x5C \<and> i + 1 < length cmd then (True, push [c, cmd ! (i + 1)] st)
          else if c = CHR 0x27 \<or> c = CHR 0x22 then (False, push [c] (st\<lparr>sp_quote := Some c\<rparr>))
          else if c = CHR 0x0A \<or> c = CHR '';''
          then (False, flush [c] (i + 1) (st\<lparr>sp_compound := True\<rparr>))
          else if c = CHR ''&'' then
            (if next_is cmd i (\<lambda>d. d = CHR ''>'') \<or> lastNonSpace (sp_current st) = Some (CHR ''>'')
             then (False, push [c] st)
             else if next_is cmd i (\<lambda>d. d = CHR ''&'')
             then (True, flush ''&&'' (i + 2) (st\<lparr>sp_compound := True\<rparr>))
             else (False, flush ''&'' (i + 1) (st\<lparr>sp_compound := True\<rparr>)))
          else if c = CHR ''|'' then
            (if next_is cmd i (\<lambda>d. d = CHR ''|'')
             then (True, flush ''||'' (i + 2) (st\<lparr>sp_compound := True\<rparr>))
             else (False, flush ''|'' (i + 1) (st\<lparr>sp_compound := True\<rparr>)))
          else if c = CHR ''$'' \<and> next_is cmd i (\<lambda>d. d = CHR ''('')
          then (True, flush ''$('' (i + 2) (st\<lparr>sp_compound := True\<rparr>))
          else if c = CHR ''('' \<or> c = CHR '')'' \<or> c = CHR 0x60
          then (False, flush [c] (i + 1) (st\<lparr>sp_compound := True\<rparr>))
          else (False, push [c] st))"

function splitLoop :: "string \<Rightarrow> nat \<Rightarrow> split_state \<Rightarrow> split_state" where
  "splitLoop cmd i st =
     (if i < length cmd
      then (case split_step cmd i st of (skip, st') \<Rightarrow> splitLoop cmd (if skip then i + 2 else i + 1) st')
      else st)"
  by pat_completeness auto
termination by (relation "measure (\<lambda>(cmd, i, st). length cmd - i)") auto

declare splitLoop.simps [simp del]

definition split_init :: split_state where
  "split_init = \<lparr>sp_current = '''', sp_quote = None, sp_begin = 0, sp_parts = [], sp_compound = False\<rparr>"

definition splitBashCommand :: "string \<Rightarrow> bash_part list \<times> bool" where
  "splitBashCommand command =
     (let st = flush '''' (length command) (splitLoop command 0 split_init)
      in (sp_parts st, sp_compound st))"

definition SplitBashCommand :: "string \<Rightarrow> bash_part list" where
  "SplitBashCommand command = fst (splitBashCommand command)"

definition splitSegments :: "string \<Rightarrow> string list \<times> bool" where
  "splitSegments command =
     (let (parts, compound) = splitBashCommand command in (map bp_Command parts, compound))"

section \<open>The spans cut the line\<close>

definition part_ok :: "string \<Rightarrow> bash_part \<Rightarrow> bool" where
  "part_ok cmd p \<longleftrightarrow>
     bp_Start p \<le> bp_End p \<and> bp_End p \<le> bp_SepEnd p \<and> bp_SepEnd p \<le> length cmd \<and>
     bp_Command p = TrimSpace (slice (bp_Start p) (bp_End p) cmd) \<and> bp_Command p \<noteq> '''' \<and>
     bp_Separator p = slice (bp_End p) (bp_SepEnd p) cmd"

definition parts_ok :: "string \<Rightarrow> bash_part list \<Rightarrow> bool" where
  "parts_ok cmd ps \<longleftrightarrow> (\<forall>p\<in>set ps. part_ok cmd p) \<and> sorted_wrt (\<lambda>p q. bp_SepEnd p \<le> bp_Start q) ps"

definition split_inv :: "string \<Rightarrow> nat \<Rightarrow> split_state \<Rightarrow> bool" where
  "split_inv cmd i st \<longleftrightarrow>
     sp_begin st \<le> i \<and> i \<le> length cmd \<and> sp_current st = slice (sp_begin st) i cmd \<and>
     parts_ok cmd (sp_parts st) \<and> (\<forall>p\<in>set (sp_parts st). bp_SepEnd p \<le> sp_begin st) \<and>
     (\<not> sp_compound st \<longrightarrow> sp_begin st = 0 \<and> sp_parts st = [])"

lemma flush_inv:
  assumes inv: "split_inv cmd i st" and sep: "sep = slice i (i + length sep) cmd"
    and len: "i + length sep \<le> length cmd" and c: "sep \<noteq> [] \<Longrightarrow> sp_compound st'"
    and st': "sp_current st' = sp_current st" "sp_begin st' = sp_begin st" "sp_parts st' = sp_parts st"
      "sp_compound st \<longrightarrow> sp_compound st'"
  shows "parts_ok cmd (sp_parts (flush sep (i + length sep) st')) \<and>
     (sep \<noteq> [] \<longrightarrow> split_inv cmd (i + length sep) (flush sep (i + length sep) st')) "
proof -
  let ?t = "TrimSpace (sp_current st)"
  let ?p = "\<lparr>bp_Command = ?t, bp_Separator = sep, bp_Start = sp_begin st, bp_End = i,
             bp_SepEnd = i + length sep\<rparr>"
  have p: "part_ok cmd ?p" if "?t \<noteq> []"
    using inv sep len that by (auto simp: part_ok_def split_inv_def)
  have all: "\<forall>q\<in>set (sp_parts st). bp_SepEnd q \<le> sp_begin st" "parts_ok cmd (sp_parts st)"
    using inv by (auto simp: split_inv_def)
  have ok: "parts_ok cmd (sp_parts (flush sep (i + length sep) st'))"
    using p all by (auto simp: flush_def Let_def st' parts_ok_def sorted_wrt_append)
  have b: "sp_begin st \<le> i" using inv by (simp add: split_inv_def)
  have "bp_SepEnd q \<le> i + length sep" if "q \<in> set (sp_parts (flush sep (i + length sep) st'))" for q
  proof -
    from that have "q \<in> set (sp_parts st) \<or> q = ?p"
      by (auto simp: flush_def Let_def st' split: if_splits)
    with all(1) b show ?thesis by auto
  qed
  with ok c len show ?thesis by (auto simp: split_inv_def flush_def Let_def)
qed

lemma push_inv:
  "split_inv cmd i st \<Longrightarrow> i < length cmd \<Longrightarrow> split_inv cmd (i + 1) (push [cmd ! i] st)"
  by (simp add: split_inv_def push_def slice_snoc)

lemma push2_inv:
  assumes "split_inv cmd i st" and "i + 1 < length cmd"
  shows "split_inv cmd (i + 2) (push [cmd ! i, cmd ! (i + 1)] st)"
proof -
  have "split_inv cmd (i + 1 + 1) (push [cmd ! (i + 1)] (push [cmd ! i] st))"
    using assms by (intro push_inv) auto
  then show ?thesis by (simp add: push_def)
qed

lemma quote_inv [simp]: "split_inv cmd i (st\<lparr>sp_quote := q\<rparr>) \<longleftrightarrow> split_inv cmd i st"
  by (simp add: split_inv_def)

lemma flush1_inv:
  assumes "split_inv cmd i st" and "i < length cmd"
  shows "split_inv cmd (i + 1) (flush [cmd ! i] (i + 1) (st\<lparr>sp_compound := True\<rparr>))"
proof -
  have "[cmd ! i] = slice i (i + length [cmd ! i]) cmd" using assms(2) by (simp add: slice_snoc)
  from flush_inv[OF assms(1) this, of "st\<lparr>sp_compound := True\<rparr>"] assms(2) show ?thesis by simp
qed

lemma flush2_inv:
  assumes "split_inv cmd i st" and "i + 1 < length cmd"
  shows "split_inv cmd (i + 2) (flush [cmd ! i, cmd ! (i + 1)] (i + 2) (st\<lparr>sp_compound := True\<rparr>))"
proof -
  have "[cmd ! i, cmd ! (i + 1)] = slice i (i + length [cmd ! i, cmd ! (i + 1)]) cmd"
    using assms(2) slice_snoc[of i "Suc i" cmd] slice_snoc[of i i cmd] by simp
  from flush_inv[OF assms(1) this, of "st\<lparr>sp_compound := True\<rparr>"] assms(2) show ?thesis by simp
qed

text \<open>What one iteration did to the part it is reading: pushed a byte or two, or cut it.\<close>

lemma split_step_cases:
  assumes r: "split_step cmd i st = (skip, st')" and i: "i < length cmd"
  obtains
    (push1) q where "\<not> skip" "st' = (push [cmd ! i] st)\<lparr>sp_quote := q\<rparr>"
  | (push2) "skip" "i + 1 < length cmd" "st' = push [cmd ! i, cmd ! (i + 1)] st"
  | (flush1) "\<not> skip" "st' = flush [cmd ! i] (i + 1) (st\<lparr>sp_compound := True\<rparr>)"
  | (flush2) "skip" "i + 1 < length cmd"
      "st' = flush [cmd ! i, cmd ! (i + 1)] (i + 2) (st\<lparr>sp_compound := True\<rparr>)"
proof -
  have noq: "push [cmd ! i] st = (push [cmd ! i] st)\<lparr>sp_quote := sp_quote st\<rparr>" by (simp add: push_def)
  have setq: "push [cmd ! i] (st\<lparr>sp_quote := q\<rparr>) = (push [cmd ! i] st)\<lparr>sp_quote := q\<rparr>" for q
    by (simp add: push_def)
  show ?thesis
  proof (cases "sp_quote st")
    case (Some q)
    with r show ?thesis using noq push1 push2
      by (auto simp: split_step_def Let_def split: if_splits)
  next
    case None
    with r consider "\<not> skip" "st' = push [cmd ! i] st" | "\<not> skip" "st' = push [cmd ! i] (st\<lparr>sp_quote := Some (cmd ! i)\<rparr>)"
      | "skip" "i + 1 < length cmd" "st' = push [cmd ! i, cmd ! (i + 1)] st"
      | "\<not> skip" "st' = flush [cmd ! i] (i + 1) (st\<lparr>sp_compound := True\<rparr>)"
      | "skip" "i + 1 < length cmd" "st' = flush [cmd ! i, cmd ! (i + 1)] (i + 2) (st\<lparr>sp_compound := True\<rparr>)"
      by (simp add: split_step_def Let_def next_is_def split: if_splits)
    then show ?thesis using noq setq push1 push2 flush1 flush2 by cases metis+
  qed
qed

lemma split_step_inv:
  assumes "split_step cmd i st = (skip, st')" and "i < length cmd" and inv: "split_inv cmd i st"
  shows "split_inv cmd (if skip then i + 2 else i + 1) st'"
  using assms(1,2)
  by (cases rule: split_step_cases)
     (use inv assms(2) push_inv push2_inv flush1_inv flush2_inv in auto)

lemma splitLoop_inv: "split_inv cmd i st \<Longrightarrow> split_inv cmd (length cmd) (splitLoop cmd i st)"
proof (induction cmd i st rule: splitLoop.induct)
  case (1 cmd i st)
  show ?case
  proof (cases "i < length cmd")
    case True
    obtain skip st' where s: "split_step cmd i st = (skip, st')" by fastforce
    with 1 True split_step_inv[OF s True "1.prems"] show ?thesis
      by (subst splitLoop.simps) simp
  next
    case False
    with 1 show ?thesis by (subst splitLoop.simps) (simp add: split_inv_def)
  qed
qed

lemma split_end: "split_inv cmd (length cmd) (splitLoop cmd 0 split_init)"
  by (rule splitLoop_inv) (simp add: split_inv_def split_init_def parts_ok_def)

lemma split_parts_ok: "parts_ok cmd (fst (splitBashCommand cmd))"
  using flush_inv[OF split_end, of "[]" cmd "splitLoop cmd 0 split_init"]
  by (simp add: splitBashCommand_def Let_def)

text \<open>A line that is not compound is one part, the whole of it trimmed.\<close>

lemma split_simple:
  assumes "\<not> snd (splitBashCommand cmd)"
  shows "splitSegments cmd = (if TrimSpace cmd = '''' then [] else [TrimSpace cmd], False)"
proof -
  let ?st = "splitLoop cmd 0 split_init"
  have nc: "\<not> sp_compound ?st" using assms by (simp add: splitBashCommand_def Let_def flush_def)
  with split_end[of cmd] have "sp_begin ?st = 0" "sp_parts ?st = []" "sp_current ?st = cmd"
    by (auto simp: split_inv_def slice_all)
  with nc show ?thesis
    by (simp add: splitSegments_def splitBashCommand_def Let_def flush_def)
qed

section \<open>Critical commands\<close>

definition criticalCommands :: "string list" where
  "criticalCommands =
     [''rm -rf /'', ''rm -rf /*'', ''rm -fr /'', ''rm -fr /*'', ''mkfs*'', ''dd *of=/dev/*'', ''*>/dev/sd*'',
      ''shutdown'', ''shutdown *'', ''reboot'', ''reboot *'', ''halt'', ''halt *'', ''poweroff'', ''poweroff *'']"

definition forkBomb :: string where "forkBomb = ''*:(){:|:&};:*''"

definition stripSpace :: "string \<Rightarrow> string" where
  "stripSpace s = Join (Fields s) ''''"

text \<open>\<^verbatim>\<open>for strings.Contains(n, "> ")\<close>: every round shortens the text.\<close>

function closeGaps :: "string \<Rightarrow> string" where
  "closeGaps n = (if Contains n ''> '' then closeGaps (ReplaceAll n ''> '' ''>'') else n)"
  by pat_completeness auto
termination by (relation "measure length") (auto intro: ReplaceAll_shorter)

declare closeGaps.simps [simp del]

text \<open>\<^verbatim>\<open>strings.Cut(n, " ")\<close> when the separator is missing: the whole text, and an empty rest.\<close>

definition cutWord :: "string \<Rightarrow> string \<times> string" where
  "cutWord n = (case Cut n '' '' of None \<Rightarrow> (n, '''') | Some (a, b) \<Rightarrow> (a, b))"

function dropSudo :: "string \<Rightarrow> string" where
  "dropSudo n =
     (if fst (cutWord n) \<noteq> ''sudo'' \<and> fst (cutWord n) \<noteq> ''doas'' then n
      else dropSudo (TrimSpace (snd (cutWord n))))"
  by pat_completeness auto
termination
proof (relation "measure length")
  fix n assume a: "\<not> (fst (cutWord n) \<noteq> ''sudo'' \<and> fst (cutWord n) \<noteq> ''doas'')"
  have "length (TrimSpace (snd (cutWord n))) < length n"
  proof (cases "Cut n '' ''")
    case None
    with a show ?thesis by (auto simp: cutWord_def)
  next
    case (Some r)
    then obtain x y where r: "Cut n '' '' = Some (x, y)" by (cases r) auto
    have "length n = length x + 1 + length y" using Cut_append[OF r] by simp
    with TrimSpace_length[of y] r show ?thesis by (simp add: cutWord_def)
  qed
  then show "(TrimSpace (snd (cutWord n)), n) \<in> measure length" by simp
qed simp

declare dropSudo.simps [simp del]

definition normalizeCritical :: "string \<Rightarrow> string" where
  "normalizeCritical command = dropSudo (closeGaps (Join (Fields command) '' ''))"

text \<open>The first critical shape of the line, and the table entry that found it.\<close>

definition criticalIn :: "string \<Rightarrow> string option" where
  "criticalIn candidate =
     (let n = normalizeCritical candidate in
      if n = '''' then None else find (\<lambda>pattern. globMatch pattern n) criticalCommands)"

fun firstCritical :: "string list \<Rightarrow> string option" where
  "firstCritical [] = None"
| "firstCritical (c # cs) = (case criticalIn c of Some p \<Rightarrow> Some p | None \<Rightarrow> firstCritical cs)"

definition criticalHit :: "string \<Rightarrow> string list \<Rightarrow> string option" where
  "criticalHit command segments =
     (if globMatch forkBomb (stripSpace command) then Some '':(){:|:&};:''
      else firstCritical (command # segments))"

lemma firstCritical_None: "firstCritical cs = None \<longleftrightarrow> (\<forall>c\<in>set cs. criticalIn c = None)"
  by (induction cs) (auto split: option.splits)

lemma criticalIn_None: "criticalIn c = None \<longleftrightarrow> normalizeCritical c = '''' \<or>
    (\<forall>p\<in>set criticalCommands. \<not> glob p (normalizeCritical c))"
  by (auto simp: criticalIn_def Let_def find_None_iff globMatch_eq_glob)

lemma criticalHit_None:
  "criticalHit command segments = None \<longleftrightarrow>
     \<not> glob forkBomb (stripSpace command) \<and> (\<forall>c\<in>set (command # segments). criticalIn c = None)"
  by (simp add: criticalHit_def firstCritical_None globMatch_eq_glob del: firstCritical.simps)

text \<open>A leading sudo or doas never hides a command: the word is gone before the table is read.\<close>

lemma dropSudo_word: "fst (cutWord (dropSudo n)) \<notin> {''sudo'', ''doas''}"
proof (induction n rule: dropSudo.induct)
  case (1 n)
  then show ?case by (cases "fst (cutWord n) \<noteq> ''sudo'' \<and> fst (cutWord n) \<noteq> ''doas''")
    (simp_all add: dropSudo.simps[of n])
qed

section \<open>Reading quotes the way the shell does\<close>

definition ShellComposition :: string where
  "ShellComposition = '';|&<>'' @ [CHR 0x60] @ ''$(){}'' @ [CHR 0x0A, CHR 0x0D, CHR 0x5C]"

text \<open>\<^verbatim>\<open>scanShellQuotes\<close>: the index (or -1), the byte (or zero) and whether the shape is uncertain.\<close>

function scanShellQuotes :: "string \<Rightarrow> (char \<Rightarrow> bool) \<Rightarrow> nat \<Rightarrow> char option \<Rightarrow> int \<times> char \<times> bool" where
  "scanShellQuotes txt live i quote =
     (if i < length txt then
        (let c = txt ! i in
         case quote of
           Some q \<Rightarrow>
             if q = CHR 0x27 then scanShellQuotes txt live (i + 1) (if c = CHR 0x27 then None else quote)
             else if c = CHR 0x22 then scanShellQuotes txt live (i + 1) None
             else if c = CHR 0x5C then
               (if i + 1 = length txt \<or> txt ! (i + 1) = CHR 0x0A then (int i, c, True)
                else scanShellQuotes txt live (i + 2) quote)
             else if (c = CHR ''$'' \<or> c = CHR 0x60) \<and> live c then (int i, c, False)
             else scanShellQuotes txt live (i + 1) quote
         | None \<Rightarrow>
             if c = CHR 0x27 \<or> c = CHR 0x22 then scanShellQuotes txt live (i + 1) (Some c)
             else if c = CHR 0x5C then (int i, c, True)
             else if live c then (int i, c, False)
             else scanShellQuotes txt live (i + 1) None)
      else (case quote of Some q \<Rightarrow> (int (length txt), q, True) | None \<Rightarrow> (-1, CHR 0x00, False)))"
  by pat_completeness auto
termination by (relation "measure (\<lambda>(txt, live, i, q). length txt - i)") auto

declare scanShellQuotes.simps [simp del]

definition FirstCompositionOutsideQuotes :: "string \<Rightarrow> char \<times> bool" where
  "FirstCompositionOutsideQuotes txt =
     (case scanShellQuotes txt (\<lambda>c. c \<in> set ShellComposition) 0 None of
        (_, c, uncertain) \<Rightarrow> (c, c \<noteq> CHR 0x00 \<or> uncertain))"

definition FirstBarOutsideQuotes :: "string \<Rightarrow> int" where
  "FirstBarOutsideQuotes line =
     (case scanShellQuotes line (\<lambda>c. c = CHR ''|'') 0 None of
        (index, _, uncertain) \<Rightarrow> if uncertain then -1 else index)"

abbreviation composed :: "string \<Rightarrow> bool" where
  "composed txt \<equiv> snd (FirstCompositionOutsideQuotes txt)"

text \<open>Where the scanner finds nothing, each step of the splitter keeps the same quotation and cuts nothing.\<close>

lemma split_step_plain:
  assumes "sp_quote st = None" and "cmd ! i \<notin> set ShellComposition"
    and "cmd ! i \<noteq> CHR 0x27" "cmd ! i \<noteq> CHR 0x22"
  shows "split_step cmd i st = (False, push [cmd ! i] st)"
  using assms by (simp add: split_step_def Let_def ShellComposition_def)

lemma split_step_quote:
  "sp_quote st = None \<Longrightarrow> cmd ! i = CHR 0x27 \<or> cmd ! i = CHR 0x22 \<Longrightarrow>
     split_step cmd i st = (False, push [cmd ! i] (st\<lparr>sp_quote := Some (cmd ! i)\<rparr>))"
  by (auto simp: split_step_def Let_def)

lemma split_step_in_quote:
  "sp_quote st = Some q \<Longrightarrow> split_step cmd i st =
     (if cmd ! i = CHR 0x5C \<and> q = CHR 0x22 \<and> i + 1 < length cmd
      then (True, push [cmd ! i, cmd ! (i + 1)] st)
      else (False, if cmd ! i = q then (push [cmd ! i] st)\<lparr>sp_quote := None\<rparr> else push [cmd ! i] st))"
  by (simp add: split_step_def Let_def)

lemma push_simps [simp]:
  "sp_compound (push s st) = sp_compound st" "sp_quote (push s st) = sp_quote st"
  by (simp_all add: push_def)

abbreviation clean :: "string \<Rightarrow> nat \<Rightarrow> char option \<Rightarrow> bool" where
  "clean cmd i q \<equiv> (\<exists>n. scanShellQuotes cmd (\<lambda>c. c \<in> set ShellComposition) i q = (n, CHR 0x00, False))"

lemma clean_none:
  assumes "clean cmd i None" and "i < length cmd"
  shows "(cmd ! i = CHR 0x27 \<or> cmd ! i = CHR 0x22) \<and> clean cmd (i + 1) (Some (cmd ! i)) \<or>
     cmd ! i \<noteq> CHR 0x27 \<and> cmd ! i \<noteq> CHR 0x22 \<and> cmd ! i \<notin> set ShellComposition \<and> clean cmd (i + 1) None"
proof -
  from assms(1) obtain n where n: "scanShellQuotes cmd (\<lambda>c. c \<in> set ShellComposition) i None = (n, CHR 0x00, False)"
    by blast
  show ?thesis
  proof (cases "cmd ! i = CHR 0x27 \<or> cmd ! i = CHR 0x22")
    case True
    then show ?thesis using n assms(2) by (subst (asm) scanShellQuotes.simps) (auto simp: Let_def)
  next
    case False
    have "cmd ! i \<notin> set ShellComposition"
    proof
      assume l: "cmd ! i \<in> set ShellComposition"
      then have "cmd ! i \<noteq> CHR 0x00" by (auto simp: ShellComposition_def)
      with l False n assms(2) show False by (subst (asm) scanShellQuotes.simps) (auto simp: Let_def split: if_splits)
    qed
    moreover then have "cmd ! i \<noteq> CHR 0x5C" by (auto simp: ShellComposition_def)
    ultimately show ?thesis using n False assms(2)
      by (subst (asm) scanShellQuotes.simps) (auto simp: Let_def)
  qed
qed

lemma clean_some:
  assumes "clean cmd i (Some q)" and "i < length cmd" and q: "q = CHR 0x27 \<or> q = CHR 0x22"
  shows "if cmd ! i = CHR 0x5C \<and> q = CHR 0x22 \<and> i + 1 < length cmd then clean cmd (i + 2) (Some q)
     else if cmd ! i = q then clean cmd (i + 1) None else clean cmd (i + 1) (Some q)"
proof -
  from assms(1) obtain n where n: "scanShellQuotes cmd (\<lambda>c. c \<in> set ShellComposition) i (Some q) = (n, CHR 0x00, False)"
    by blast
  from q show ?thesis
  proof
    assume "q = CHR 0x27"
    then show ?thesis using n assms(2) by (subst (asm) scanShellQuotes.simps) (auto simp: Let_def split: if_splits)
  next
    assume "q = CHR 0x22"
    then show ?thesis using n assms(2) by (subst (asm) scanShellQuotes.simps) (auto simp: Let_def split: if_splits)
  qed
qed

lemma scan_clean_step:
  assumes c: "clean cmd i (sp_quote st)" and i: "i < length cmd"
    and q: "\<forall>q. sp_quote st = Some q \<longrightarrow> q = CHR 0x27 \<or> q = CHR 0x22"
    and s: "split_step cmd i st = (skip, st')"
  shows "sp_compound st' = sp_compound st" "\<forall>q. sp_quote st' = Some q \<longrightarrow> q = CHR 0x27 \<or> q = CHR 0x22"
    "clean cmd (if skip then i + 2 else i + 1) (sp_quote st')"
proof -
  have "sp_compound st' = sp_compound st \<and> (\<forall>q. sp_quote st' = Some q \<longrightarrow> q = CHR 0x27 \<or> q = CHR 0x22) \<and>
    clean cmd (if skip then i + 2 else i + 1) (sp_quote st')"
  proof (cases "sp_quote st")
    case None
    show ?thesis
    proof (cases "cmd ! i = CHR 0x27 \<or> cmd ! i = CHR 0x22")
      case True
      with clean_none[of cmd i] c None i s split_step_quote[OF None True] show ?thesis by auto
    next
      case False
      with clean_none[of cmd i] c None i have "cmd ! i \<notin> set ShellComposition" "clean cmd (i + 1) None" by auto
      with split_step_plain[OF None this(1)] False s None show ?thesis by auto
    qed
  next
    case (Some p)
    with clean_some[of cmd i p] c i q s split_step_in_quote[OF Some] show ?thesis
      by (auto split: if_splits)
  qed
  then show "sp_compound st' = sp_compound st" "\<forall>q. sp_quote st' = Some q \<longrightarrow> q = CHR 0x27 \<or> q = CHR 0x22"
    "clean cmd (if skip then i + 2 else i + 1) (sp_quote st')" by blast+
qed

lemma scan_clean_loop:
  "clean cmd i (sp_quote st) \<Longrightarrow> \<forall>q. sp_quote st = Some q \<longrightarrow> q = CHR 0x27 \<or> q = CHR 0x22 \<Longrightarrow>
   sp_compound (splitLoop cmd i st) = sp_compound st"
proof (induction cmd i st rule: splitLoop.induct)
  case (1 cmd i st)
  show ?case
  proof (cases "i < length cmd")
    case True
    obtain skip st' where s: "split_step cmd i st = (skip, st')" by fastforce
    note st = scan_clean_step[OF "1.prems"(1) True "1.prems"(2) s]
    from "1.IH"[OF True s[symmetric] st(3,2)] st(1) s True show ?thesis
      by (subst splitLoop.simps) simp
  next
    case False
    then show ?thesis by (subst splitLoop.simps) simp
  qed
qed

lemma not_composed_not_compound:
  assumes "\<not> composed cmd"
  shows "\<not> snd (splitBashCommand cmd)"
proof -
  obtain n c u where s: "scanShellQuotes cmd (\<lambda>c. c \<in> set ShellComposition) 0 None = (n, c, u)"
    by (metis prod_cases3)
  with assms have "c = CHR 0x00" "\<not> u" by (auto simp: FirstCompositionOutsideQuotes_def)
  with s have "sp_compound (splitLoop cmd 0 split_init) = sp_compound split_init"
    by (intro scan_clean_loop) (auto simp: split_init_def)
  then show ?thesis by (simp add: splitBashCommand_def Let_def flush_def split_init_def)
qed

end
