(* ===== verification/ApprovalPolicy.thy ===== *)
theory ApprovalPolicy
  imports ApprovalBash
begin

text \<open>
  The consent policy: \<^verbatim>\<open>internal/approval/approval.go\<close>, \<^verbatim>\<open>floor.go\<close>, \<^verbatim>\<open>readonly.go\<close> and the
  matching law of \<^verbatim>\<open>bash.go\<close>. A tool call's arguments arrive as raw JSON; the three structs
  \<^verbatim>\<open>encoding/json\<close> decodes them into are the record \<^verbatim>\<open>call_reader\<close>, None where decoding fails,
  so the policy is proved for whatever the decoder answers. \<^verbatim>\<open>upper\<close> in it is
  \<^verbatim>\<open>strings.ToUpper\<close>. A decision carries its reason as data where the code renders a sentence.
\<close>

datatype action = ActionAllow | ActionPrompt | ActionDeny | ActionOther string

fun validAction :: "action \<Rightarrow> bool" where
  "validAction (ActionOther w) = False"
| "validAction a = True"

definition actionOf :: "string \<Rightarrow> action" where
  "actionOf w = (if w = ''allow'' then ActionAllow else if w = ''prompt'' then ActionPrompt
                 else if w = ''deny'' then ActionDeny else ActionOther w)"

text \<open>\<^verbatim>\<open>ParseAction\<close>: None is the refusal of an unknown word.\<close>

definition ParseAction :: "string \<Rightarrow> action option" where
  "ParseAction txt = (let a = actionOf (TrimSpace txt) in if validAction a then Some a else None)"

definition ToolBash :: string where "ToolBash = ''bash''"

record rule =
  Match :: string
  rule_Action :: action

record policy =
  Default :: action
  Tools :: "(string \<times> action) list"
  BashPatterns :: "rule list"

datatype reason =
    ByTool string | ByDefault | ByUnset | InYourName string | ByPattern string
  | CriticalCommand string | IsReadOnly | AsksForItself | NoReadableCommand

record decision =
  Action :: action
  Reason :: reason

text \<open>What the JSON decoder answers for one call's arguments.\<close>

record call_reader =
  cr_method :: "string \<Rightarrow> string option"
  cr_command :: "string \<Rightarrow> string option"
  cr_tasks :: "string \<Rightarrow> (string \<times> bool \<times> string) option"
  cr_upper :: "string \<Rightarrow> string"

section \<open>The matching law\<close>

definition ruleMatches :: "rule \<Rightarrow> string \<Rightarrow> string list \<Rightarrow> bool \<Rightarrow> bool" where
  "ruleMatches r whole segments compound =
     (if \<not> validAction (rule_Action r) then False
      else if rule_Action r = ActionAllow then (if compound then False else globMatch (Match r) whole)
      else if globMatch (Match r) whole then True
      else list_ex (globMatch (Match r)) segments)"

definition matchRule :: "rule list \<Rightarrow> string \<Rightarrow> string list \<Rightarrow> bool \<Rightarrow> rule option" where
  "matchRule rules whole segments compound = find (\<lambda>r. ruleMatches r whole segments compound) rules"

definition MatchRule :: "policy \<Rightarrow> string \<Rightarrow> rule option" where
  "MatchRule p command =
     (case splitSegments command of (segments, compound) \<Rightarrow>
        matchRule (BashPatterns p) (TrimSpace command) segments compound)"

definition Vouchable :: "string \<Rightarrow> bool" where
  "Vouchable command =
     (let c = TrimSpace command in if c = '''' then False else \<not> snd (splitSegments c))"

section \<open>Calls that act in the person's name\<close>

definition actsInThePersonsName :: "string list" where
  "actsInThePersonsName = [''gmail_send'', ''calendar_create'', ''slack_send'']"

definition ActsInThePersonsNameTools :: "string list" where
  "ActsInThePersonsNameTools = sort actsInThePersonsName"

definition ServiceRequestSuffix :: string where "ServiceRequestSuffix = ''_request''"

definition actsInThePersonsNameCall :: "call_reader \<Rightarrow> string \<Rightarrow> string \<Rightarrow> bool" where
  "actsInThePersonsNameCall cr tool args =
     (if \<not> HasSuffix tool ServiceRequestSuffix \<or> tool = ServiceRequestSuffix then False
      else let txt = TrimSpace args in
        if txt = '''' \<or> txt = ''null'' then False
        else (case cr_method cr txt of
                None \<Rightarrow> True
              | Some m \<Rightarrow> let method = cr_upper cr (TrimSpace m) in method \<noteq> '''' \<and> method \<noteq> ''GET''))"

definition ActsInThePersonsName :: "call_reader \<Rightarrow> string \<Rightarrow> string \<Rightarrow> bool" where
  "ActsInThePersonsName cr tool0 args =
     (let tool = TrimSpace tool0 in
      tool \<in> set actsInThePersonsName \<or> actsInThePersonsNameCall cr tool args)"

section \<open>Calls that only look\<close>

definition bashCommand :: "call_reader \<Rightarrow> string \<Rightarrow> string option" where
  "bashCommand cr args =
     (let txt = TrimSpace args in
      if txt = '''' \<or> txt = ''null'' then None
      else (case cr_command cr txt of
              None \<Rightarrow> None
            | Some c \<Rightarrow> if TrimSpace c = '''' then None else Some c))"

definition readOnlyTasks :: "call_reader \<Rightarrow> string \<Rightarrow> bool" where
  "readOnlyTasks cr args =
     (let txt = TrimSpace args in
      if txt = '''' \<or> txt = ''null'' then True
      else (case cr_tasks cr txt of
              None \<Rightarrow> False
            | Some (say, continue, resolve) \<Rightarrow>
                TrimSpace say = '''' \<and> \<not> continue \<and> TrimSpace resolve = ''''))"

definition statusMeta :: string where
  "statusMeta = ''|&;<>'' @ [CHR 0x60] @ ''$(){}''"

definition readOnlyBash :: "string \<Rightarrow> bool" where
  "readOnlyBash command =
     (let (segments, compound) = splitSegments command; line = TrimSpace command in
      if compound \<or> length segments \<noteq> 1 then False
      else if line \<noteq> ''git status'' \<and> \<not> HasPrefix line ''git status '' then False
      else if list_ex (\<lambda>c. of_char c < (32::nat) \<or> c = CHR 0x7F) line then False
      else list_all (\<lambda>c. c \<notin> set statusMeta) line)"

definition ReadOnly :: "call_reader \<Rightarrow> string \<Rightarrow> string \<Rightarrow> bool" where
  "ReadOnly cr tool0 args =
     (let tool = TrimSpace tool0 in
      if tool \<in> {''read'', ''ls'', ''grep'', ''find''} then True
      else if tool = ''services'' then True
      else if tool = ''tasks'' then readOnlyTasks cr args
      else if tool = ToolBash then
        (case bashCommand cr args of None \<Rightarrow> False | Some command \<Rightarrow> readOnlyBash command)
      else False)"

definition asksForItself :: "string \<Rightarrow> bool" where
  "asksForItself tool = (TrimSpace tool = ''use_service'')"

section \<open>The decision\<close>

definition toolRule :: "policy \<Rightarrow> string \<Rightarrow> action option" where
  "toolRule p tool =
     (case map_of (Tools p) tool of
        None \<Rightarrow> None | Some a \<Rightarrow> if validAction a then Some a else None)"

definition liftsReadOnly :: "policy \<Rightarrow> string \<Rightarrow> bool" where
  "liftsReadOnly p tool =
     (if Default p \<noteq> ActionPrompt then False else if toolRule p tool \<noteq> None then False else True)"

definition maybeAllowReadOnly :: "call_reader \<Rightarrow> policy \<Rightarrow> string \<Rightarrow> string \<Rightarrow> decision \<Rightarrow> decision" where
  "maybeAllowReadOnly cr p tool args d =
     (if Action d \<noteq> ActionPrompt \<or> \<not> liftsReadOnly p tool \<or> \<not> ReadOnly cr tool args then d
      else \<lparr>Action = ActionAllow, Reason = IsReadOnly\<rparr>)"

definition maybeAllowSelfAsking :: "policy \<Rightarrow> string \<Rightarrow> decision \<Rightarrow> decision" where
  "maybeAllowSelfAsking p tool d =
     (if Action d \<noteq> ActionPrompt \<or> \<not> liftsReadOnly p tool \<or> \<not> asksForItself tool then d
      else \<lparr>Action = ActionAllow, Reason = AsksForItself\<rparr>)"

definition base :: "call_reader \<Rightarrow> policy \<Rightarrow> string \<Rightarrow> string \<Rightarrow> decision" where
  "base cr p tool args =
     (case toolRule p tool of
        Some a \<Rightarrow> \<lparr>Action = a, Reason = ByTool tool\<rparr>
      | None \<Rightarrow>
          (let d = (if validAction (Default p) then \<lparr>Action = Default p, Reason = ByDefault\<rparr>
                    else \<lparr>Action = ActionPrompt, Reason = ByUnset\<rparr>)
           in if Action d = ActionAllow \<and> ActsInThePersonsName cr tool args
              then \<lparr>Action = ActionPrompt, Reason = InYourName tool\<rparr> else d))"

definition checkBash :: "policy \<Rightarrow> string \<Rightarrow> decision \<Rightarrow> decision" where
  "checkBash p command b =
     (let (segments, compound) = splitSegments command;
          whole = TrimSpace command;
          hit = matchRule (BashPatterns p) whole segments compound;
          d = (case hit of None \<Rightarrow> b | Some r \<Rightarrow> \<lparr>Action = rule_Action r, Reason = ByPattern (Match r)\<rparr>)
      in case (if Action d = ActionAllow then criticalHit command segments else None) of
           Some c \<Rightarrow> \<lparr>Action = ActionPrompt, Reason = CriticalCommand c\<rparr>
         | None \<Rightarrow>
             if hit = None \<and> BashPatterns p = [] \<and> liftsReadOnly p ToolBash \<and> Action d = ActionPrompt \<and>
                readOnlyBash command
             then \<lparr>Action = ActionAllow, Reason = IsReadOnly\<rparr> else d)"

definition Check :: "call_reader \<Rightarrow> policy \<Rightarrow> string \<Rightarrow> string \<Rightarrow> decision" where
  "Check cr p tool0 args =
     (let tool = TrimSpace tool0; b = base cr p tool args in
      if tool \<noteq> ToolBash then maybeAllowSelfAsking p tool (maybeAllowReadOnly cr p tool args b)
      else (case bashCommand cr args of
              None \<Rightarrow> if Action b = ActionAllow
                      then \<lparr>Action = ActionPrompt, Reason = NoReadableCommand\<rparr> else b
            | Some command \<Rightarrow> checkBash p command b))"

text \<open>The nil arguments of \<^verbatim>\<open>CheckBash\<close> are the empty text.\<close>

definition CheckBash :: "call_reader \<Rightarrow> policy \<Rightarrow> string \<Rightarrow> decision" where
  "CheckBash cr p command = checkBash p command (base cr p ToolBash '''')"

definition AlwaysAsks :: "call_reader \<Rightarrow> string \<Rightarrow> string \<Rightarrow> bool" where
  "AlwaysAsks cr tool0 args =
     (let tool = TrimSpace tool0 in
      if ActsInThePersonsName cr tool args then True
      else if tool \<noteq> ToolBash then False
      else (case bashCommand cr args of
              None \<Rightarrow> False
            | Some command \<Rightarrow> criticalHit command (fst (splitSegments command)) \<noteq> None))"

section \<open>A permission speaks for one command, a prohibition for a shape anywhere\<close>

lemma allow_matches:
  "rule_Action r = ActionAllow \<Longrightarrow>
     ruleMatches r whole segments compound \<longleftrightarrow> \<not> compound \<and> glob (Match r) whole"
  by (simp add: ruleMatches_def globMatch_eq_glob)

lemma refusal_matches:
  "rule_Action r \<in> {ActionPrompt, ActionDeny} \<Longrightarrow>
     ruleMatches r whole segments compound \<longleftrightarrow> (\<exists>t\<in>set (whole # segments). glob (Match r) t)"
  by (auto simp: ruleMatches_def globMatch_eq_glob list_ex_iff)

lemma not_vouchable_no_allow:
  assumes "snd (splitSegments command)" and "rule_Action r = ActionAllow"
  shows "MatchRule p command \<noteq> Some r"
proof
  obtain segs where s: "splitSegments command = (segs, True)" using assms(1) by (cases "splitSegments command") auto
  assume "MatchRule p command = Some r"
  then have "ruleMatches r (TrimSpace command) segs True"
    by (auto simp: MatchRule_def matchRule_def s find_Some_iff)
  with assms(2) show False by (simp add: allow_matches)
qed

section \<open>The read-only lift never reaches a critical command\<close>

lemma fields_git: "r = [] \<or> (\<exists>t. r = CHR 0x20 # t) \<Longrightarrow> \<exists>fs. Fields (''git'' @ r) = ''git'' # fs"
  by (auto simp: Fields_def fieldsFrom_plain leadingSpace_plain fieldsFrom_space fieldsFrom_end)

lemma join_git: "Join (''git'' # fs) '' '' = ''git'' \<or> (\<exists>t. Join (''git'' # fs) '' '' = ''git '' @ t)"
  by (cases fs) auto

lemma cut_git: "n = ''git'' \<or> n = ''git '' @ t \<Longrightarrow> fst (cutWord n) = ''git''"
  by (auto simp: cutWord_def Cut.simps)

lemma glob_star_char:
  "glob (CHR ''*'' # c # p) t \<Longrightarrow> c \<noteq> CHR ''*'' \<Longrightarrow> c \<in> set t"
proof -
  assume g: "glob (CHR ''*'' # c # p) t" and c: "c \<noteq> CHR ''*''"
  then obtain n where "glob (c # p) (drop n t)" by (auto simp: glob_star_iff)
  with c have "c \<in> set (drop n t)" by (cases "drop n t") auto
  then show ?thesis by (meson in_set_dropD)
qed

lemma normalize_git:
  assumes t: "trimLeft s = ''git'' @ r" "r = [] \<or> (\<exists>t. r = CHR 0x20 # t)" and g: "CHR ''>'' \<notin> set s"
  shows "\<exists>t. normalizeCritical s = ''git'' @ t" and "CHR ''>'' \<notin> set (normalizeCritical s)"
proof -
  obtain fs where fs: "Fields s = ''git'' # fs"
    using fields_git[OF t(2)] t(1) Fields_trimLeft[of s] by metis
  let ?j = "Join (Fields s) '' ''"
  have "set ?j \<subseteq> set s \<union> {CHR 0x20}"
    using Join_bytes[of "Fields s" "'' ''"] Fields_bytes[of _ s] by fastforce
  then have nj: "CHR ''>'' \<notin> set ?j" using g by auto
  then have "\<not> Contains ?j ''> ''" using Contains_bytes by fastforce
  then have c: "closeGaps ?j = ?j" by (simp add: closeGaps.simps)
  have "fst (cutWord ?j) = ''git''" using join_git[of fs] cut_git fs by metis
  then have d: "dropSudo ?j = ?j" by (simp add: dropSudo.simps)
  show "CHR ''>'' \<notin> set (normalizeCritical s)" using nj by (simp add: normalizeCritical_def c d)
  have n: "normalizeCritical s = ?j" by (simp add: normalizeCritical_def c d)
  from join_git[of fs] show "\<exists>t. normalizeCritical s = ''git'' @ t"
    unfolding n fs by auto
qed

lemma git_not_critical:
  assumes "n = ''git'' @ t" and "CHR ''>'' \<notin> set n" and "p \<in> set criticalCommands"
  shows "\<not> glob p n"
  using assms glob_star_char[of "CHR ''>''" "''/dev/sd*''" n]
  by (auto simp: criticalCommands_def)

lemma readOnlyBash_line:
  assumes "readOnlyBash command"
  shows "splitSegments command = ([TrimSpace command], False)"
    and "\<exists>r. TrimSpace command = ''git status'' @ r \<and> (r = [] \<or> (\<exists>t. r = CHR 0x20 # t))"
    and "set (TrimSpace command) \<inter> set statusMeta = {}"
proof -
  obtain segs c where s: "splitSegments command = (segs, c)" by fastforce
  with assms have nc: "\<not> c" "length segs = 1" by (auto simp: readOnlyBash_def Let_def split: if_splits)
  with s have "\<not> snd (splitBashCommand command)" by (auto simp: splitSegments_def split: prod.splits)
  with s nc show "splitSegments command = ([TrimSpace command], False)"
    using split_simple[of command] by (auto split: if_splits)
  from assms show "set (TrimSpace command) \<inter> set statusMeta = {}"
    by (auto simp: readOnlyBash_def Let_def list_all_iff split: if_splits prod.splits)
  from assms have "TrimSpace command = ''git status'' \<or> HasPrefix (TrimSpace command) ''git status ''"
    by (auto simp: readOnlyBash_def Let_def split: if_splits prod.splits)
  then show "\<exists>r. TrimSpace command = ''git status'' @ r \<and> (r = [] \<or> (\<exists>t. r = CHR 0x20 # t))"
    by (auto simp: HasPrefix_def prefix_def)
qed

lemma git_status_critical:
  assumes r: "TrimSpace command = ''git status'' @ r" "r = [] \<or> (\<exists>t. r = CHR 0x20 # t)"
    and g: "CHR ''>'' \<notin> set command"
  shows "criticalIn command = None"
proof -
  obtain w where w: "trimLeft command = TrimSpace command @ w" using TrimSpace_bytes(2) by blast
  then have t: "trimLeft command = ''git'' @ ('' status'' @ r @ w)" using r by simp
  from normalize_git[OF t _ g] obtain u where "normalizeCritical command = ''git'' @ u"
    "CHR ''>'' \<notin> set (normalizeCritical command)" by auto
  then show ?thesis using git_not_critical by (simp add: criticalIn_None)
qed

lemma space_not_meta: "c \<in> {CHR ''>'', CHR ''|''} \<Longrightarrow> c \<notin> spaceBytes"
  by (auto simp: spaceBytes_def spaceEncodings_def)

lemma readOnly_not_critical:
  assumes ro: "readOnlyBash command"
  shows "criticalHit command (fst (splitSegments command)) = None"
proof -
  note l = readOnlyBash_line[OF ro]
  from l(2) obtain r where r: "TrimSpace command = ''git status'' @ r" "r = [] \<or> (\<exists>t. r = CHR 0x20 # t)" by blast
  have meta: "CHR ''>'' \<notin> set (TrimSpace command)" "CHR ''|'' \<notin> set (TrimSpace command)"
    using l(3) by (auto simp: statusMeta_def)
  then have cmd: "CHR ''>'' \<notin> set command" "CHR ''|'' \<notin> set command"
    using TrimSpace_bytes(1)[of command] space_not_meta by auto
  have "criticalIn command = None" by (rule git_status_critical[OF r cmd(1)])
  moreover have "criticalIn (TrimSpace command) = None"
    by (rule git_status_critical[OF _ r(2) meta(1)]) (simp only: TrimSpace_idem r(1)[symmetric])
  moreover have "\<not> glob forkBomb (stripSpace command)"
  proof
    assume "glob forkBomb (stripSpace command)"
    then obtain n where "glob '':(){:|:&};:*'' (drop n (stripSpace command))"
      unfolding forkBomb_def glob_star_iff by blast
    then have "CHR ''|'' \<in> set (drop n (stripSpace command))"
      using glob_literal_append[of "'':(){:|''" "'':&};:*''" "drop n (stripSpace command)"]
      by (simp, metis in_set_takeD list.set_intros)
    moreover have "set (stripSpace command) \<subseteq> set command"
      using Join_bytes[of "Fields command" "''''"] Fields_bytes[of _ command] by (fastforce simp: stripSpace_def)
    ultimately show False using cmd(2) by (meson in_set_dropD subsetD)
  qed
  ultimately show ?thesis by (simp add: criticalHit_None l(1))
qed

section \<open>The floors hold under every policy\<close>

lemma checkBash_allow:
  assumes "Action (checkBash p command b) = ActionAllow"
  shows "criticalHit command (fst (splitSegments command)) = None"
proof (rule ccontr)
  assume c: "criticalHit command (fst (splitSegments command)) \<noteq> None"
  with readOnly_not_critical[of command] have "\<not> readOnlyBash command" by auto
  with assms c show False
    by (auto simp: checkBash_def Let_def split: prod.splits option.splits if_splits)
qed

lemma in_name_tools:
  assumes "ActsInThePersonsName cr tool args"
  shows "\<not> ReadOnly cr tool args" "\<not> asksForItself tool" "TrimSpace tool \<noteq> ToolBash"
proof -
  let ?t = "TrimSpace tool"
  have t: "?t \<in> set actsInThePersonsName \<or> HasSuffix ?t ServiceRequestSuffix"
    using assms by (auto simp: ActsInThePersonsName_def Let_def actsInThePersonsNameCall_def split: if_splits)
  have d: "\<forall>w\<in>set [''read'', ''ls'', ''grep'', ''find'', ''services'', ''tasks'', ToolBash, ''use_service''].
      w \<notin> set actsInThePersonsName \<and> \<not> HasSuffix w ServiceRequestSuffix"
    by (simp add: actsInThePersonsName_def HasSuffix_def ServiceRequestSuffix_def ToolBash_def suffix_to_prefix)
  from t d have n: "?t \<notin> set [''read'', ''ls'', ''grep'', ''find'', ''services'', ''tasks'', ToolBash, ''use_service'']"
    by blast
  then show "\<not> ReadOnly cr tool args" "\<not> asksForItself tool" "TrimSpace tool \<noteq> ToolBash"
    by (simp_all add: ReadOnly_def asksForItself_def)
qed

lemma in_name_floor:
  assumes n: "ActsInThePersonsName cr tool args" and a: "Action (Check cr p tool args) = ActionAllow"
  shows "toolRule p (TrimSpace tool) = Some ActionAllow"
proof -
  let ?t = "TrimSpace tool"
  have n': "ActsInThePersonsName cr ?t args" using n by (simp add: ActsInThePersonsName_def)
  note t = in_name_tools[OF n']
  have c: "Check cr p tool args = base cr p ?t args"
    using t by (simp add: Check_def Let_def maybeAllowReadOnly_def maybeAllowSelfAsking_def)
  from a n' show ?thesis
    by (auto simp: c base_def Let_def split: option.splits if_splits)
qed

lemma always_asks_floor:
  assumes "AlwaysAsks cr tool args" and "Action (Check cr p tool args) = ActionAllow"
  shows "TrimSpace tool \<noteq> ToolBash \<and> toolRule p (TrimSpace tool) = Some ActionAllow"
proof (cases "ActsInThePersonsName cr tool args")
  case True
  with in_name_floor[OF True assms(2)] in_name_tools(3)[OF True] show ?thesis by simp
next
  case False
  then have "\<not> ActsInThePersonsName cr (TrimSpace tool) args" by (simp add: ActsInThePersonsName_def)
  with assms(1) obtain command where c: "TrimSpace tool = ToolBash" "bashCommand cr args = Some command"
    "criticalHit command (fst (splitSegments command)) \<noteq> None"
    by (auto simp: AlwaysAsks_def Let_def split: if_splits option.splits)
  with assms(2) checkBash_allow show ?thesis by (auto simp: Check_def Let_def)
qed

end
