(* ===== verification/PlanSpec.thy ===== *)
theory PlanSpec
  imports PlanModel ApprovalPolicy
begin

text \<open>
  What a task may say of itself: \<^verbatim>\<open>normalizeSpec\<close>, \<^verbatim>\<open>validateSpec\<close>, the cleaners, \<^verbatim>\<open>applyPatch\<close>
  and the gate on declared checks, from \<^verbatim>\<open>internal/plandb/store.go\<close>.
\<close>

text \<open>The functions on a spec read a task's embedded spec as well: they are polymorphic in the extension.\<close>

section \<open>Cleaning\<close>

fun cleanFrom :: "('a \<Rightarrow> 'a) \<Rightarrow> ('a \<Rightarrow> bool) \<Rightarrow> ('a \<Rightarrow> string) \<Rightarrow> string list \<Rightarrow> 'a list \<Rightarrow> 'a list" where
  "cleanFrom trim keep key seen [] = []"
| "cleanFrom trim keep key seen (v # vs) =
     (let v' = trim v in
      if keep v' \<and> key v' \<notin> set seen
      then v' # cleanFrom trim keep key (key v' # seen) vs
      else cleanFrom trim keep key seen vs)"

definition cleanStrings :: "string list \<Rightarrow> string list" where
  "cleanStrings values = cleanFrom TrimSpace (\<lambda>v. v \<noteq> '''') (\<lambda>v. v) [] values"

definition resourceKey :: "resource_claim \<Rightarrow> string" where
  "resourceKey v = Mode v @ [CHR 0x00] @ URI v"

definition cleanResourceClaims :: "resource_claim list \<Rightarrow> resource_claim list" where
  "cleanResourceClaims values =
     cleanFrom (\<lambda>v. v\<lparr>URI := TrimSpace (URI v), Mode := TrimSpace (Mode v)\<rparr>) (\<lambda>v. URI v \<noteq> '''')
       resourceKey [] values"

lemma cleanFrom_props:
  "v \<in> set (cleanFrom trim keep key seen vs) \<Longrightarrow> keep v \<and> key v \<notin> set seen \<and> v \<in> trim ` set vs"
proof (induction vs arbitrary: seen)
  case (Cons a vs)
  show ?case
  proof (cases "keep (trim a) \<and> key (trim a) \<notin> set seen")
    case True
    with Cons.prems consider "v = trim a" | "v \<in> set (cleanFrom trim keep key (key (trim a) # seen) vs)"
      by (auto simp: Let_def)
    then show ?thesis using Cons.IH[of "key (trim a) # seen"] True by cases auto
  next
    case False
    with Cons.prems have "v \<in> set (cleanFrom trim keep key seen vs)" by (auto simp: Let_def)
    with Cons.IH show ?thesis by auto
  qed
qed simp

lemma cleanFrom_distinct: "distinct (map key (cleanFrom trim keep key seen vs))"
proof (induction vs arbitrary: seen)
  case (Cons a vs)
  have "key (trim a) \<notin> key ` set (cleanFrom trim keep key (key (trim a) # seen) vs)"
    by (auto dest: cleanFrom_props)
  with Cons show ?case by (simp add: Let_def)
qed simp

lemma cleanFrom_complete:
  "v \<in> set vs \<Longrightarrow> keep (trim v) \<Longrightarrow> key (trim v) \<in> set seen \<or>
     key (trim v) \<in> key ` set (cleanFrom trim keep key seen vs)"
proof (induction vs arbitrary: seen)
  case (Cons a vs)
  show ?case
  proof (cases "v = a")
    case True
    with Cons.prems show ?thesis by (simp add: Let_def)
  next
    case False
    with Cons.prems have "v \<in> set vs" by simp
    with Cons.IH[of seen] Cons.IH[of "key (trim a) # seen"] Cons.prems(2) show ?thesis
      by (auto simp: Let_def)
  qed
qed simp

lemma cleanFrom_fix:
  "\<forall>v\<in>set vs. keep v \<and> key v \<notin> set seen \<and> trim v = v \<Longrightarrow> distinct (map key vs) \<Longrightarrow>
     cleanFrom trim keep key seen vs = vs"
proof (induction vs arbitrary: seen)
  case (Cons a vs)
  have "key v \<noteq> key a" if "v \<in> set vs" for v
    using Cons.prems(2) that by (metis distinct.simps(2) image_eqI list.simps(9) set_map)
  with Cons.prems have "cleanFrom trim keep key (key a # seen) vs = vs" by (intro Cons.IH) auto
  with Cons.prems show ?case by (simp add: Let_def)
qed simp

lemma cleanFrom_twice:
  assumes "\<And>v. trim (trim v) = trim v"
  shows "cleanFrom trim keep key seen (cleanFrom trim keep key seen vs) = cleanFrom trim keep key seen vs"
proof (rule cleanFrom_fix)
  show "distinct (map key (cleanFrom trim keep key seen vs))" by (rule cleanFrom_distinct)
  show "\<forall>v\<in>set (cleanFrom trim keep key seen vs). keep v \<and> key v \<notin> set seen \<and> trim v = v"
    using assms by (auto dest!: cleanFrom_props)
qed

lemma cleanStrings_idem: "cleanStrings (cleanStrings vs) = cleanStrings vs"
  unfolding cleanStrings_def by (rule cleanFrom_twice) simp

lemma cleanResourceClaims_idem: "cleanResourceClaims (cleanResourceClaims vs) = cleanResourceClaims vs"
  unfolding cleanResourceClaims_def by (rule cleanFrom_twice) simp

lemma cleanStrings_set: "set (cleanStrings vs) = TrimSpace ` set vs - {''''}"
proof
  show "set (cleanStrings vs) \<subseteq> TrimSpace ` set vs - {''''}"
    unfolding cleanStrings_def by (auto dest: cleanFrom_props)
  show "TrimSpace ` set vs - {''''} \<subseteq> set (cleanStrings vs)"
    using cleanFrom_complete[of _ vs "\<lambda>v. v \<noteq> ''''" TrimSpace "\<lambda>v. v" "[]"]
    by (auto simp: cleanStrings_def)
qed

lemma cleanStrings_distinct: "distinct (cleanStrings vs)"
  using cleanFrom_distinct[of "\<lambda>v. v"] by (simp add: cleanStrings_def)

section \<open>Normalising a spec\<close>

definition bareID :: "string \<Rightarrow> string" where
  "bareID i = TrimSpace (TrimPrefix i ''t-'')"

definition orElse :: "string \<Rightarrow> string \<Rightarrow> string" where
  "orElse v d = (if v = '''' then d else v)"

definition normalizeDep :: "dependency \<Rightarrow> dependency" where
  "normalizeDep d = d\<lparr>dep_TaskID := bareID (dep_TaskID d), dep_Kind := orElse (dep_Kind d) DepFeedsInto\<rparr>"

definition normalizeSpec :: "'a task_spec_scheme \<Rightarrow> string \<Rightarrow> 'a task_spec_scheme" where
  "normalizeSpec spec rootID =
     spec\<lparr>Model := TrimSpace (Model spec),
          ID := bareID (ID spec),
          Title := TrimSpace (Title spec),
          ParentID := orElse (bareID (ParentID spec)) rootID,
          Kind := orElse (Kind spec) ''generic'',
          Effect := orElse (Effect spec) EffectObserve,
          Parallel := orElse (Parallel spec) ''safe'',
          Isolation := orElse (Isolation spec) ''shared'',
          Role := orElse (Role spec) RoleWork,
          Capabilities := cleanStrings (Capabilities spec),
          Resources := cleanResourceClaims (Resources spec),
          ContextInputs := cleanStrings (ContextInputs spec),
          Deliverables := cleanStrings (Deliverables spec),
          EvidenceRequirements := cleanStrings (EvidenceRequirements spec),
          Dependencies := map normalizeDep (Dependencies spec)\<rparr>"

section \<open>The gate on a spec\<close>

definition oneOf :: "string \<Rightarrow> string list \<Rightarrow> bool" where
  "oneOf value values = list_ex (\<lambda>v. v = value) values"

definition idHead :: "char \<Rightarrow> bool" where
  "idHead c = (c \<in> set ''abcdefghijklmnopqrstuvwxyzABCDEFGHIJKLMNOPQRSTUVWXYZ0123456789'')"

definition idTail :: "char \<Rightarrow> bool" where
  "idTail c = (idHead c \<or> c = CHR ''_'' \<or> c = CHR ''-'')"

text \<open>\<^verbatim>\<open>^[a-zA-Z0-9][a-zA-Z0-9_-]{0,63}$\<close>, asked of the id without its \<^verbatim>\<open>t-\<close>.\<close>

definition idPattern :: "string \<Rightarrow> bool" where
  "idPattern i = (case i of [] \<Rightarrow> False | c # r \<Rightarrow> idHead c \<and> list_all idTail r \<and> length r \<le> 63)"

definition validID :: "string \<Rightarrow> bool" where
  "validID i = idPattern (TrimSpace (TrimPrefix i ''t-''))"

definition roleWords :: "string list" where
  "roleWords = [RolePlan, RoleWork, RoleCheck, RoleProbe]"

definition validRole :: "string \<Rightarrow> bool" where
  "validRole w = oneOf w roleWords"

definition validateSpec :: "'a task_spec_scheme \<Rightarrow> spec_error option" where
  "validateSpec spec =
     (if \<not> validID (ID spec) then Some (InvalidID (ID spec))
      else if Title spec = '''' \<or> length (Title spec) > 240 then Some BadTitle
      else if length (Description spec) > 32768 then Some LongDescription
      else if Priority spec < -1000 \<or> Priority spec > 1000 then Some (BadPriority (Priority spec))
      else if \<not> oneOf (Effect spec) [EffectObserve, EffectReversibleWrite, EffectExternalAction,
                                       EffectIrreversible, EffectMixed]
        then Some (BadEffect (Effect spec))
      else if \<not> oneOf (Parallel spec) [''safe'', ''serial''] then Some (BadParallel (Parallel spec))
      else if \<not> oneOf (Isolation spec) [''shared'', ''snapshot'', ''exclusive'']
        then Some (BadIsolation (Isolation spec))
      else if Role spec \<noteq> '''' \<and> \<not> validRole (Role spec) then Some BadRole
      else if list_ex (\<lambda>r. URI r = '''' \<or> \<not> oneOf (Mode r) [''read'', ''write'', ''exclusive'']) (Resources spec)
        then Some BadResource
      else if list_ex (\<lambda>d. \<not> validID (dep_TaskID d) \<or>
                 \<not> oneOf (dep_Kind d) [DepFeedsInto, DepBlocks, DepSuggests]) (Dependencies spec)
        then Some BadDependency
      else None)"

lemma validID_nonempty [simp]: "\<not> validID ''''"
  by (simp add: validID_def idPattern_def TrimPrefix_def HasPrefix_def)

lemma validID_bare: "validID i \<longleftrightarrow> idPattern (bareID i)"
  by (simp add: validID_def bareID_def)

text \<open>A well-formed id without the prefix is its own bare spelling.\<close>

lemma idTail_no_space: "idTail c \<Longrightarrow> c \<notin> spaceBytes"
proof -
  assume c: "idTail c"
  have "list_all (\<lambda>c. c \<notin> spaceBytes) ''abcdefghijklmnopqrstuvwxyzABCDEFGHIJKLMNOPQRSTUVWXYZ0123456789_-''"
    by (simp add: spaceBytes_def spaceEncodings_def)
  then show ?thesis using c unfolding list_all_iff idTail_def idHead_def by auto
qed

lemma TrimSpace_idPattern:
  assumes "idPattern i"
  shows "TrimSpace i = i"
proof -
  from assms obtain c r where i: "i = c # r" and all: "\<forall>x\<in>set (c # r). idTail x"
    by (auto simp: idPattern_def idTail_def list_all_iff split: list.splits)
  have "leadingSpace i = None"
  proof (cases "leadingSpace i")
    case (Some w)
    from leadingSpace_bytes[OF this] leadingSpace_SomeD[OF Some] have w: "w \<noteq> []" "set w \<subseteq> spaceBytes"
      "i = w @ drop (length w) i" by auto
    then have "hd w \<in> set i" by (metis UnI1 hd_in_set set_append)
    moreover have "hd w \<in> spaceBytes" using w by auto
    ultimately show ?thesis using all idTail_no_space i by blast
  qed
  moreover have "trailingSpace i = None"
  proof -
    have "i = butlast i @ [last i]" using i by simp
    moreover have "last i \<notin> spaceBytes" using all idTail_no_space i by auto
    ultimately show ?thesis by (metis trailingSpace_plain)
  qed
  ultimately show ?thesis by (rule TrimSpace_no_space)
qed

lemma validID_plain: "idPattern i \<Longrightarrow> \<not> HasPrefix i ''t-'' \<Longrightarrow> validID i"
  by (simp add: validID_def TrimPrefix_def TrimSpace_idPattern)

lemma bareID_pattern: "idPattern i \<Longrightarrow> \<not> HasPrefix i ''t-'' \<Longrightarrow> bareID i = i \<and> validID i"
  by (simp add: validID_bare) (simp add: bareID_def TrimPrefix_def TrimSpace_idPattern)

section \<open>The gate on declared checks\<close>

text \<open>\<^verbatim>\<open>CheckBash\<close> passes nil arguments, so no JSON is read: any reader gives the same answer.\<close>

definition noReader :: call_reader where
  "noReader = \<lparr>cr_method = (\<lambda>t. None), cr_command = (\<lambda>t. None), cr_tasks = (\<lambda>t. None), cr_upper = (\<lambda>t. t)\<rparr>"

definition auditAllowAll :: policy where
  "auditAllowAll = \<lparr>Default = ActionAllow, Tools = [], BashPatterns = []\<rparr>"

text \<open>\<^verbatim>\<open>strings.Trim(w, "*?[]") == ""\<close>\<close>

definition onlyWildcards :: "string \<Rightarrow> bool" where
  "onlyWildcards w = list_all (\<lambda>c. c \<in> set ''*?[]'') w"

definition auditableDeclaredCheck :: "string \<Rightarrow> bool" where
  "auditableDeclaredCheck command =
     (if \<not> Vouchable command \<or> Action (CheckBash noReader auditAllowAll command) \<noteq> ActionAllow then False
      else (case Fields command of
              [] \<Rightarrow> False
            | w # _ \<Rightarrow> if HasPrefix w ''-'' \<or> onlyWildcards w then False
                     else if composed command then False else True))"

definition checkDeclErr :: "string \<Rightarrow> spec_error option" where
  "checkDeclErr raw =
     (let command = TrimSpace raw in
      if command = '''' \<or> auditableDeclaredCheck command then None else Some (BadCheck command))"

definition validateCheckDeclarations :: "string list \<Rightarrow> spec_error option" where
  "validateCheckDeclarations checks = firstErr checkDeclErr checks"

lemma CheckBash_reader: "CheckBash cr p command = CheckBash cr' p command"
proof -
  have "\<not> ActsInThePersonsName c ToolBash ''''" for c
    using in_name_tools(3)[of c ToolBash "''''"]
    by (auto simp: ActsInThePersonsName_def actsInThePersonsNameCall_def Let_def actsInThePersonsName_def
        ToolBash_def TrimSpace_def trimLeft.simps trimRight.simps leadingSpace_def trailingSpace_def
        spaceEncodings_def HasSuffix_def ServiceRequestSuffix_def suffix_to_prefix)
  then have "base cr p ToolBash '''' = base cr' p ToolBash ''''"
    by (auto simp: base_def Let_def split: option.split)
  then show ?thesis by (simp add: CheckBash_def)
qed

text \<open>What the gate admits: one simple command, none of it critical, its first word a real word.\<close>

lemma auditable_facts:
  assumes "auditableDeclaredCheck command"
  shows "\<not> composed command" "\<not> snd (splitBashCommand command)"
    "criticalHit command (fst (splitSegments command)) = None"
    "\<exists>w ws. Fields command = w # ws \<and> \<not> HasPrefix w ''-'' \<and> \<not> onlyWildcards w"
proof -
  show c: "\<not> composed command"
    and "\<exists>w ws. Fields command = w # ws \<and> \<not> HasPrefix w ''-'' \<and> \<not> onlyWildcards w"
    using assms by (auto simp: auditableDeclaredCheck_def split: if_splits list.splits)
  show "\<not> snd (splitBashCommand command)" by (rule not_composed_not_compound[OF c])
  show "criticalHit command (fst (splitSegments command)) = None"
    using assms checkBash_allow[of auditAllowAll command]
    by (auto simp: auditableDeclaredCheck_def CheckBash_def split: if_splits)
qed

section \<open>Patching a spec\<close>

definition patched :: "'a option \<Rightarrow> 'a \<Rightarrow> 'a" where
  "patched p old = (case p of None \<Rightarrow> old | Some v \<Rightarrow> v)"

definition applyPatch :: "'a task_spec_scheme \<Rightarrow> task_patch \<Rightarrow> 'a task_spec_scheme" where
  "applyPatch spec p =
     spec\<lparr>Title := patched (p_Title p) (Title spec),
          Description := patched (p_Description p) (Description spec),
          Question := patched (p_Question p) (Question spec),
          Kind := patched (p_Kind p) (Kind spec),
          Priority := patched (p_Priority p) (Priority spec),
          Capabilities := patched (p_Capabilities p) (Capabilities spec),
          Resources := patched (p_Resources p) (Resources spec),
          Effect := patched (p_Effect p) (Effect spec),
          Parallel := patched (p_Parallel p) (Parallel spec),
          Isolation := patched (p_Isolation p) (Isolation spec),
          Role := patched (p_Role p) (Role spec),
          ContextInputs := patched (p_ContextInputs p) (ContextInputs spec),
          Deliverables := patched (p_Deliverables p) (Deliverables spec),
          Checks := patched (p_Checks p) (Checks spec),
          EvidenceRequirements := patched (p_EvidenceRequirements p) (EvidenceRequirements spec),
          Agent := patched (p_Agent p) (Agent spec),
          Acceptance := patched (p_Acceptance p) (Acceptance spec)\<rparr>"

definition questionOnlyPatch :: "task_patch \<Rightarrow> bool" where
  "questionOnlyPatch p =
     (p_Question p \<noteq> None \<and> p_Title p = None \<and> p_Description p = None \<and> p_Kind p = None \<and>
      p_Priority p = None \<and> p_Capabilities p = None \<and> p_Resources p = None \<and> p_Effect p = None \<and>
      p_Parallel p = None \<and> p_Isolation p = None \<and> p_Role p = None \<and> p_ContextInputs p = None \<and>
      p_Deliverables p = None \<and> p_EvidenceRequirements p = None \<and> p_Agent p = None \<and>
      p_Acceptance p = None \<and> p_Checks p = None)"

lemma questionOnly_applies:
  "questionOnlyPatch p \<Longrightarrow> applyPatch spec p = spec\<lparr>Question := the (p_Question p)\<rparr>"
  by (auto simp: questionOnlyPatch_def applyPatch_def patched_def)

lemma applyPatch_keeps [simp]:
  "ID (applyPatch spec p) = ID spec" "ParentID (applyPatch spec p) = ParentID spec"
  "Dependencies (applyPatch spec p) = Dependencies spec" "Model (applyPatch spec p) = Model spec"
  by (simp_all add: applyPatch_def)

end
