(* ===== verification/PlanGraph.thy ===== *)
theory PlanGraph
  imports PlanModel
begin

text \<open>
  The two graphs of a plan and the laws they keep: \<^verbatim>\<open>detectCycle\<close>, \<^verbatim>\<open>ancestorOf\<close> and
  \<^verbatim>\<open>validateGraphs\<close> of \<^verbatim>\<open>internal/plandb/store.go\<close>, with the proof that the depth-first search
  accepts exactly the closed acyclic graphs and that the parent walks end. The recursion
  depth of the search and the length of a parent walk are bounded by the number of tasks,
  which is the fuel.
\<close>

section \<open>The depth-first search\<close>

text \<open>
  \<^verbatim>\<open>visit\<close>: \<^verbatim>\<open>nexts\<close> is \<^verbatim>\<open>edges(value.Tasks[id])\<close>, None where the task is nil and the source's
  closure dereferences it. The map \<^verbatim>\<open>visiting\<close> and the map \<^verbatim>\<open>visited\<close> are the lists of their
  true keys.
\<close>

fun visit :: "nat \<Rightarrow> (string \<Rightarrow> string list option) \<Rightarrow> string \<Rightarrow> string list \<times> string list
    \<Rightarrow> cycle_error + string list \<times> string list" where
  "visit 0 nexts i (visiting, visited) = Inl GraphFuel"
| "visit (Suc n) nexts i (visiting, visited) =
     (if i \<in> set visiting then Inl (CycleAt i)
      else if i \<in> set visited then Inr (visiting, visited)
      else (case nexts i of
              None \<Rightarrow> Inl NilTask
            | Some ys \<Rightarrow>
                (case foldE (visit n nexts) ys (i # visiting, visited) of
                   Inl e \<Rightarrow> Inl e
                 | Inr (visiting', visited') \<Rightarrow> Inr (removeAll i visiting', i # visited'))))"

definition detectCycle :: "plan_state \<Rightarrow> (task \<Rightarrow> string list) \<Rightarrow> cycle_error option" where
  "detectCycle s edges =
     (case foldE (visit (Suc (length (Tasks s))) (\<lambda>i. map_option edges (task_at s i)))
             (task_ids s) ([], []) of
        Inl e \<Rightarrow> Some e
      | Inr _ \<Rightarrow> None)"

definition succ_rel :: "(string \<Rightarrow> string list option) \<Rightarrow> (string \<times> string) set" where
  "succ_rel nexts = {(x, y). \<exists>ys. nexts x = Some ys \<and> y \<in> set ys}"

text \<open>A finishing order: every successor of a node finished before it.\<close>

fun topo :: "(string \<Rightarrow> string list option) \<Rightarrow> string list \<Rightarrow> bool" where
  "topo nexts [] = True"
| "topo nexts (x # vd) =
     ((\<exists>ys. nexts x = Some ys \<and> set ys \<subseteq> set vd) \<and> x \<notin> set vd \<and> topo nexts vd)"

lemma topo_closed:
  "topo nexts vd \<Longrightarrow> x \<in> set vd \<Longrightarrow> \<exists>ys. nexts x = Some ys \<and> set ys \<subseteq> set vd"
  by (induction vd) auto

lemma topo_succ:
  assumes "(x, y) \<in> (succ_rel nexts)\<^sup>*" and "topo nexts vd" and "x \<in> set vd"
  shows "y \<in> set vd"
  using assms(1,3)
proof (induction rule: converse_rtrancl_induct)
  case base
  then show ?case .
next
  case (step u v)
  then show ?case using topo_closed[OF assms(2), of u] by (auto simp: succ_rel_def)
qed

lemma topo_acyclic: "topo nexts vd \<Longrightarrow> x \<in> set vd \<Longrightarrow> (x, x) \<notin> (succ_rel nexts)\<^sup>+"
proof (induction vd arbitrary: x)
  case Nil
  then show ?case by simp
next
  case (Cons z vd)
  show ?case
  proof (cases "x \<in> set vd")
    case True
    with Cons show ?thesis by simp
  next
    case False
    with Cons.prems have x: "x = z" by simp
    show ?thesis
    proof
      assume "(x, x) \<in> (succ_rel nexts)\<^sup>+"
      then obtain y where y: "(x, y) \<in> succ_rel nexts" "(y, x) \<in> (succ_rel nexts)\<^sup>*"
        by (auto dest: tranclD)
      with Cons.prems(1) x have "y \<in> set vd" by (auto simp: succ_rel_def)
      with topo_succ[OF y(2)] Cons.prems(1) have "x \<in> set vd" by simp
      with False show False by simp
    qed
  qed
qed

abbreviation dfs_pre :: "(string \<Rightarrow> string list option) \<Rightarrow> string list \<Rightarrow> string list \<Rightarrow> bool" where
  "dfs_pre nexts vg vd \<equiv> topo nexts vd \<and> set vg \<inter> set vd = {}"

lemma visit_sound:
  "visit n nexts i (vg, vd) = Inr (vg', vd') \<Longrightarrow> dfs_pre nexts vg vd \<Longrightarrow>
     vg' = vg \<and> dfs_pre nexts vg vd' \<and> set vd \<subseteq> set vd' \<and> i \<in> set vd'"
proof (induction n arbitrary: i vg vd vg' vd')
  case 0
  then show ?case by simp
next
  case (Suc n)
  have fold: "foldE (visit n nexts) ys (wg, wd) = Inr (wg', wd') \<Longrightarrow> dfs_pre nexts wg wd \<Longrightarrow>
      wg' = wg \<and> dfs_pre nexts wg wd' \<and> set wd \<subseteq> set wd' \<and> set ys \<subseteq> set wd'" for ys wg wd wg' wd'
  proof (induction ys arbitrary: wd)
    case Nil
    then show ?case by simp
  next
    case (Cons y ys)
    from Cons.prems(1) obtain ug ud where u: "visit n nexts y (wg, wd) = Inr (ug, ud)"
        and r: "foldE (visit n nexts) ys (ug, ud) = Inr (wg', wd')"
      by (auto split: sum.splits)
    from Suc.IH[OF u Cons.prems(2)]
    have *: "ug = wg" "dfs_pre nexts wg ud" "set wd \<subseteq> set ud" "y \<in> set ud" by auto
    from Cons.IH[of ud] r * show ?case by auto
  qed
  show ?case
  proof (cases "i \<in> set vg \<or> i \<in> set vd")
    case True
    with Suc.prems show ?thesis by (auto split: if_splits)
  next
    case False
    with Suc.prems(1) obtain ys where ys: "nexts i = Some ys"
      by (auto split: option.splits)
    with False Suc.prems(1) obtain wg' wd' where
      w: "foldE (visit n nexts) ys (i # vg, vd) = Inr (wg', wd')"
      and res: "vg' = removeAll i wg'" "vd' = i # wd'"
      by (auto split: sum.splits)
    have "dfs_pre nexts (i # vg) vd" using False Suc.prems(2) by auto
    from fold[OF w this] have "wg' = i # vg" "dfs_pre nexts (i # vg) wd'"
      "set vd \<subseteq> set wd'" "set ys \<subseteq> set wd'" by auto
    with res ys False show ?thesis by auto
  qed
qed

text \<open>
  What a search that stops has found: a task on a cycle, or a name that is no task's and can be
  reached from where it started. The fuel is enough where the tasks can be counted, since a path
  of distinct tasks is never longer than their number.
\<close>

definition bad_end :: "(string \<Rightarrow> string list option) \<Rightarrow> cycle_error \<Rightarrow> bool" where
  "bad_end nexts e \<longleftrightarrow> (\<exists>c. e = CycleAt c \<and> (c, c) \<in> (succ_rel nexts)\<^sup>+) \<or> e = NilTask \<and> (\<exists>x. nexts x = None)"

lemma visit_error:
  assumes fin: "finite (dom nexts)"
  shows "visit n nexts i (vg, vd) = Inl e \<Longrightarrow> dfs_pre nexts vg vd \<Longrightarrow>
     \<forall>v\<in>set vg. (v, i) \<in> (succ_rel nexts)\<^sup>+ \<Longrightarrow> distinct vg \<Longrightarrow> set vg \<subseteq> dom nexts \<Longrightarrow>
     card (dom nexts) < n + length vg \<Longrightarrow> bad_end nexts e"
proof (induction n arbitrary: i vg vd)
  case 0
  then have "card (set vg) \<le> card (dom nexts)" using fin by (auto intro: card_mono)
  with 0 show ?case by (simp add: distinct_card)
next
  case (Suc n)
  have fold: "foldE (visit n nexts) ys (wg, wd) = Inl e \<Longrightarrow> dfs_pre nexts wg wd \<Longrightarrow>
      \<forall>y\<in>set ys. \<forall>v\<in>set wg. (v, y) \<in> (succ_rel nexts)\<^sup>+ \<Longrightarrow> distinct wg \<Longrightarrow> set wg \<subseteq> dom nexts \<Longrightarrow>
      card (dom nexts) < n + length wg \<Longrightarrow> bad_end nexts e" for ys wg wd
  proof (induction ys arbitrary: wd)
    case Nil
    then show ?case by simp
  next
    case (Cons y ys)
    show ?case
    proof (cases "visit n nexts y (wg, wd)")
      case (Inl e')
      with Cons.prems(1) have "visit n nexts y (wg, wd) = Inl e" by simp
      then show ?thesis using Suc.IH[of y wg wd] Cons.prems by auto
    next
      case (Inr r)
      obtain ug ud where r: "r = (ug, ud)" by (cases r)
      with visit_sound[of n nexts y wg wd ug ud] Inr Cons.prems(2)
      have "ug = wg" "dfs_pre nexts wg ud" by auto
      with Cons Inr r show ?thesis by auto
    qed
  qed
  show ?case
  proof (cases "i \<in> set vg")
    case True
    with Suc.prems show ?thesis by (auto simp: bad_end_def)
  next
    case False
    with Suc.prems(1) have nvd: "i \<notin> set vd" by (auto split: if_splits)
    show ?thesis
    proof (cases "nexts i")
      case None
      with False nvd Suc.prems(1) show ?thesis by (auto simp: bad_end_def)
    next
      case (Some ys)
      with False nvd Suc.prems(1) have w: "foldE (visit n nexts) ys (i # vg, vd) = Inl e"
        by (auto split: sum.splits)
      have step: "(i, y) \<in> succ_rel nexts" if "y \<in> set ys" for y
        using that Some by (auto simp: succ_rel_def)
      have "\<forall>y\<in>set ys. \<forall>v\<in>set (i # vg). (v, y) \<in> (succ_rel nexts)\<^sup>+"
        using step Suc.prems(3) by (auto intro: trancl_into_trancl)
      with fold[OF w] show ?thesis using False nvd Suc.prems Some by auto
    qed
  qed
qed
lemma foldE_visit_sound:
  assumes "foldE (visit n nexts) xs ([], vd) = Inr (vg', vd')" and "topo nexts vd"
  shows "topo nexts vd' \<and> vg' = [] \<and> set xs \<subseteq> set vd'"
proof -
  have "vg' = [] \<and> topo nexts vd' \<and> set vd \<subseteq> set vd' \<and> set xs \<subseteq> set vd'"
    using assms
  proof (induction xs arbitrary: vd)
    case Nil
    then show ?case by simp
  next
    case (Cons x xs)
    from Cons.prems(1) obtain ug ud where u: "visit n nexts x ([], vd) = Inr (ug, ud)"
        and r: "foldE (visit n nexts) xs (ug, ud) = Inr (vg', vd')"
      by (auto split: sum.splits)
    from visit_sound[OF u] Cons.prems(2)
    have "ug = []" "topo nexts ud" "set vd \<subseteq> set ud" "x \<in> set ud" by auto
    with Cons.IH[of ud] r show ?case by auto
  qed
  then show ?thesis by blast
qed

lemma foldE_visit_error:
  assumes "foldE (visit n nexts) xs ([], vd) = Inl e" and "topo nexts vd"
    and fin: "finite (dom nexts)" and "card (dom nexts) < n"
  shows "bad_end nexts e"
  using assms(1,2)
proof (induction xs arbitrary: vd)
  case Nil
  then show ?case by simp
next
  case (Cons x xs)
  show ?case
  proof (cases "visit n nexts x ([], vd)")
    case (Inl e')
    with Cons.prems(1) have "visit n nexts x ([], vd) = Inl e" by simp
    then show ?thesis using visit_error[OF fin] Cons.prems assms(4) by auto
  next
    case (Inr r)
    obtain ug ud where r: "r = (ug, ud)" by (cases r)
    with visit_sound[of n nexts x "[]" vd ug ud] Inr Cons.prems(2)
    have "ug = []" "topo nexts ud" by auto
    with Cons Inr r show ?thesis by auto
  qed
qed
section \<open>What the search decides\<close>

definition edge_rel :: "plan_state \<Rightarrow> (task \<Rightarrow> string list) \<Rightarrow> (string \<times> string) set" where
  "edge_rel s edges = {(i, j). \<exists>t. task_at s i = Some t \<and> j \<in> set (edges t)}"

definition edges_closed :: "plan_state \<Rightarrow> (task \<Rightarrow> string list) \<Rightarrow> bool" where
  "edges_closed s edges =
     (\<forall>i t. task_at s i = Some t \<longrightarrow> (\<forall>j\<in>set (edges t). task_at s j \<noteq> None))"

lemma succ_rel_edge_rel: "succ_rel (\<lambda>i. map_option edges (task_at s i)) = edge_rel s edges"
  by (auto simp: succ_rel_def edge_rel_def)

lemma detectCycle_None_sound:
  assumes "detectCycle s edges = None"
  shows "edges_closed s edges \<and> acyclic (edge_rel s edges)"
proof -
  let ?nx = "\<lambda>i. map_option edges (task_at s i)"
  from assms obtain vg vd where
    f: "foldE (visit (Suc (length (Tasks s))) ?nx) (task_ids s) ([], []) = Inr (vg, vd)"
    unfolding detectCycle_def by (auto split: sum.splits)
  from foldE_visit_sound[OF f] have tp: "topo ?nx vd" and sub: "set (task_ids s) \<subseteq> set vd" by auto
  have "edges_closed s edges"
    unfolding edges_closed_def
  proof (intro allI impI ballI)
    fix i t j assume it: "task_at s i = Some t" and j: "j \<in> set (edges t)"
    then have "i \<in> set vd" using sub task_ids_iff by blast
    with topo_closed[OF tp this] it j have "j \<in> set vd" by auto
    with topo_closed[OF tp this] show "task_at s j \<noteq> None" by auto
  qed
  moreover have "acyclic (edge_rel s edges)"
    unfolding acyclic_def
  proof
    fix x show "(x, x) \<notin> (edge_rel s edges)\<^sup>+"
    proof
      assume c: "(x, x) \<in> (edge_rel s edges)\<^sup>+"
      then obtain y where "(x, y) \<in> edge_rel s edges" by (auto dest: tranclD)
      then have "x \<in> set vd" using sub task_ids_iff by (auto simp: edge_rel_def)
      with topo_acyclic[OF tp] c show False by (simp add: succ_rel_edge_rel)
    qed
  qed
  ultimately show ?thesis ..
qed

lemma edges_closed_succ:
  "edges_closed s edges \<Longrightarrow> (u, v) \<in> edge_rel s edges \<Longrightarrow> task_at s v \<noteq> None"
  by (auto simp: edges_closed_def edge_rel_def)

text \<open>Whatever the graph, the search stops on a cycle of it or at a name that is no task's.\<close>

lemma detectCycle_bad_end:
  assumes "detectCycle s edges = Some e"
  shows "bad_end (\<lambda>i. map_option edges (task_at s i)) e"
proof -
  let ?nx = "\<lambda>i. map_option edges (task_at s i)"
  from assms have f: "foldE (visit (Suc (length (Tasks s))) ?nx) (task_ids s) ([], []) = Inl e"
    unfolding detectCycle_def by (auto split: sum.splits)
  have d: "dom ?nx = set (task_ids s)" by (auto simp: task_ids_iff dom_def)
  have "card (set (task_ids s)) \<le> length (Tasks s)"
    using card_length[of "task_ids s"] by (simp add: length_task_ids)
  then show ?thesis using foldE_visit_error[OF f] unfolding d by simp
qed

lemma detectCycle_fuel [simp]: "detectCycle s edges \<noteq> Some GraphFuel"
  using detectCycle_bad_end by (fastforce simp: bad_end_def)

text \<open>On a graph that leads only to tasks it never reads a nil one.\<close>

lemma visit_closed_known:
  assumes cl: "\<And>x. x \<in> D \<Longrightarrow> \<exists>ys. nexts x = Some ys \<and> set ys \<subseteq> D"
  shows "i \<in> D \<Longrightarrow> visit n nexts i p \<noteq> Inl NilTask"
proof (induction n arbitrary: i p)
  case 0
  then show ?case by (cases p) simp
next
  case (Suc n)
  have fold: "foldE (visit n nexts) ys p \<noteq> Inl NilTask" if "set ys \<subseteq> D" for ys p
    using that
  proof (induction ys arbitrary: p)
    case (Cons y ys)
    then show ?case using Suc.IH[of y p] by (auto split: sum.splits)
  qed simp
  obtain ys where ys: "nexts i = Some ys" "set ys \<subseteq> D" using cl[OF Suc.prems] by blast
  obtain vg vd where p: "p = (vg, vd)" by (cases p)
  from fold[OF ys(2), of "(i # vg, vd)"] show ?case
    unfolding p by (auto simp: ys(1) split: sum.splits)
qed

lemma detectCycle_closed:
  assumes "edges_closed s edges"
  shows "detectCycle s edges \<noteq> Some NilTask"
proof -
  let ?nx = "\<lambda>i. map_option edges (task_at s i)"
  let ?D = "set (task_ids s)"
  have cl: "\<exists>ys. ?nx x = Some ys \<and> set ys \<subseteq> ?D" if "x \<in> ?D" for x
    using that assms by (auto simp: task_ids_iff edges_closed_def)
  have "foldE (visit n ?nx) xs p \<noteq> Inl NilTask" if "set xs \<subseteq> ?D" for n xs p
    using that
  proof (induction xs arbitrary: p)
    case (Cons x xs)
    then show ?case using visit_closed_known[where D = ?D and nexts = ?nx and i = x and p = p, OF cl] by (auto split: sum.splits)
  qed simp
  then show ?thesis by (auto simp: detectCycle_def split: sum.splits)
qed

lemma detectCycle_Some:
  assumes "detectCycle s edges = Some e" and cl: "edges_closed s edges"
  shows "\<exists>c. e = CycleAt c \<and> (c, c) \<in> (edge_rel s edges)\<^sup>+"
  using detectCycle_bad_end[OF assms(1)] detectCycle_closed[OF cl] assms(1)
  by (auto simp: bad_end_def succ_rel_edge_rel)

text \<open>On an acyclic graph it stops only there, and it does stop where an edge leads to no task.\<close>

lemma detectCycle_nil:
  assumes "acyclic (edge_rel s edges)" and "\<not> edges_closed s edges"
  shows "detectCycle s edges = Some NilTask"
proof (cases "detectCycle s edges")
  case None
  with detectCycle_None_sound assms(2) show ?thesis by blast
next
  case (Some e)
  with detectCycle_bad_end[OF Some] assms(1) show ?thesis by (auto simp: bad_end_def succ_rel_edge_rel acyclic_def)
qed
text \<open>
  The search accepts a graph exactly when every edge leads to a task and there is no cycle;
  so its verdict does not depend on the order Go's map iteration starts the visits in.
\<close>

lemma detectCycle_None_iff:
  "detectCycle s edges = None \<longleftrightarrow> edges_closed s edges \<and> acyclic (edge_rel s edges)"
  using detectCycle_None_sound detectCycle_Some
  by (metis acyclic_def not_Some_eq)

section \<open>Containment: the parent walk\<close>

definition parent_edges :: "task \<Rightarrow> string list" where
  "parent_edges t = (if ParentID t = '''' then [] else [ParentID t])"

definition hard_deps :: "task \<Rightarrow> string list" where
  "hard_deps t = map dep_TaskID (filter (\<lambda>d. dep_Kind d \<noteq> DepSuggests) (Dependencies t))"

abbreviation parent_rel :: "plan_state \<Rightarrow> (string \<times> string) set" where
  "parent_rel s \<equiv> edge_rel s parent_edges"

abbreviation hard_rel :: "plan_state \<Rightarrow> (string \<times> string) set" where
  "hard_rel s \<equiv> edge_rel s hard_deps"

definition parent_ptr :: "plan_state \<Rightarrow> string \<Rightarrow> string option" where
  "parent_ptr s i =
     (case task_at s i of None \<Rightarrow> None
      | Some t \<Rightarrow> if ParentID t = '''' then None else Some (ParentID t))"

lemma ptr_rel_parent: "ptr_rel (parent_ptr s) = parent_rel s"
  by (auto simp: ptr_rel_def parent_ptr_def edge_rel_def parent_edges_def split: option.splits if_splits)

fun ancestorFrom :: "nat \<Rightarrow> plan_state \<Rightarrow> string \<Rightarrow> task option \<Rightarrow> bool" where
  "ancestorFrom 0 s a current = False"
| "ancestorFrom (Suc n) s a None = False"
| "ancestorFrom (Suc n) s a (Some t) =
     (if ParentID t = '''' then False
      else if ParentID t = a then True
      else ancestorFrom n s a (task_at s (ParentID t)))"

definition ancestorOf :: "plan_state \<Rightarrow> string \<Rightarrow> string \<Rightarrow> bool" where
  "ancestorOf s ancestor descendant =
     ancestorFrom (Suc (length (Tasks s))) s ancestor (task_at s descendant)"

lemma ancestorFrom_walk:
  "ancestorFrom n s a (task_at s d) \<longleftrightarrow>
     (case parent_ptr s d of None \<Rightarrow> False | Some p \<Rightarrow> a \<in> set (walk n (parent_ptr s) p))"
proof (induction n arbitrary: d)
  case 0
  then show ?case by (simp split: option.splits)
next
  case (Suc n)
  show ?case
  proof (cases "task_at s d")
    case None
    then show ?thesis by (simp add: parent_ptr_def)
  next
    case (Some t)
    show ?thesis
    proof (cases "ParentID t = ''''")
      case True
      with Some show ?thesis by (simp add: parent_ptr_def)
    next
      case False
      with Some have p: "parent_ptr s d = Some (ParentID t)" by (simp add: parent_ptr_def)
      with Some False Suc.IH[of "ParentID t"] show ?thesis
        by (auto split: option.splits)
    qed
  qed
qed

lemma ancestorOf_iff:
  assumes cl: "edges_closed s parent_edges" and ac: "acyclic (parent_rel s)"
  shows "ancestorOf s a d \<longleftrightarrow> (d, a) \<in> (parent_rel s)\<^sup>+"
proof (cases "parent_ptr s d")
  case None
  then have "\<And>x. (d, x) \<notin> parent_rel s" by (simp add: ptr_rel_parent[symmetric] ptr_rel_def)
  then have "(d, a) \<notin> (parent_rel s)\<^sup>+" by (auto dest: tranclD)
  with None show ?thesis by (simp add: ancestorOf_def ancestorFrom_walk)
next
  case (Some p)
  let ?D = "set (task_ids s)"
  have closed: "v \<in> ?D" if "parent_ptr s u = Some v" for u v
    using cl that unfolding edges_closed_def parent_ptr_def parent_edges_def task_ids_iff
    by (auto split: option.splits if_splits)
  have "card ?D \<le> Suc (length (Tasks s))"
    using card_length[of "task_ids s"] by (simp add: length_task_ids)
  then have w: "set (walk (Suc (length (Tasks s))) (parent_ptr s) p) = {y. (p, y) \<in> (parent_rel s)\<^sup>*}"
    using walk_set[of "parent_ptr s" ?D p] ac closed Some by (simp add: ptr_rel_parent del: walk.simps)
  have e: "(d, x) \<in> parent_rel s \<longleftrightarrow> x = p" for x
    using Some by (auto simp: ptr_rel_parent[symmetric] ptr_rel_def)
  have "(d, a) \<in> (parent_rel s)\<^sup>+ \<longleftrightarrow> (p, a) \<in> (parent_rel s)\<^sup>*"
    by (metis e tranclD rtrancl_into_trancl2)
  moreover have "ancestorOf s a d \<longleftrightarrow> a \<in> set (walk (Suc (length (Tasks s))) (parent_ptr s) p)"
    unfolding ancestorOf_def ancestorFrom_walk Some option.case ..
  ultimately show ?thesis unfolding w by simp
qed

section \<open>The graph laws\<close>

definition lineageErr :: "plan_state \<Rightarrow> task \<Rightarrow> dependency \<Rightarrow> graph_error option" where
  "lineageErr s t d =
     (if dep_Kind d = DepSuggests then None
      else if ancestorOf s (ID t) (dep_TaskID d) \<or> ancestorOf s (dep_TaskID d) (ID t)
      then Some (LineageDep (ID t) (dep_TaskID d))
      else None)"

definition validateGraphs :: "plan_state \<Rightarrow> graph_error option" where
  "validateGraphs s =
     (case detectCycle s hard_deps of
        Some e \<Rightarrow> Some (DependencyGraph e)
      | None \<Rightarrow>
          (case detectCycle s parent_edges of
             Some e \<Rightarrow> Some (ContainmentGraph e)
           | None \<Rightarrow> firstErr (\<lambda>t. firstErr (lineageErr s t) (Dependencies t)) (task_list s)))"

text \<open>
  The answer an operation gives for it: the refusal, or the panic where the search reads the
  edges of a task that is nil.
\<close>

fun graphErr :: "graph_error \<Rightarrow> plan_error" where
  "graphErr (DependencyGraph NilTask) = NilDeref"
| "graphErr (ContainmentGraph NilTask) = NilDeref"
| "graphErr e = GraphRefused e"

lemma graphErr_no_change [simp]: "graphErr e \<noteq> ErrNoChange"
  by (cases e rule: graphErr.cases) auto

lemma graphErr_NilDeref:
  "graphErr e = NilDeref \<longleftrightarrow> e = DependencyGraph NilTask \<or> e = ContainmentGraph NilTask"
  by (cases e rule: graphErr.cases) auto

lemma lineage_only [simp]:
  "firstErr (\<lambda>t. firstErr (lineageErr s t) (Dependencies t)) ts \<noteq> Some (DependencyGraph e)"
  "firstErr (\<lambda>t. firstErr (lineageErr s t) (Dependencies t)) ts \<noteq> Some (ContainmentGraph e)"
  by (auto simp: lineageErr_def split: if_splits dest!: firstErr_Some_in)

text \<open>The fuel of the search is never what it stops on.\<close>

lemma validateGraphs_fuel [simp]:
  "validateGraphs s \<noteq> Some (DependencyGraph GraphFuel)" "validateGraphs s \<noteq> Some (ContainmentGraph GraphFuel)"
  by (auto simp: validateGraphs_def split: option.splits)

text \<open>The first of the two graphs decides whether it is a panic, where parents name tasks.\<close>

lemma validateGraphs_nil:
  assumes "edges_closed s parent_edges"
  shows "map_option graphErr (validateGraphs s) = Some NilDeref \<longleftrightarrow> detectCycle s hard_deps = Some NilTask"
  using detectCycle_closed[OF assms] by (auto simp: validateGraphs_def graphErr_NilDeref split: option.splits)
text \<open>What the three checks say together.\<close>

definition graphs_ok :: "plan_state \<Rightarrow> bool" where
  "graphs_ok s \<longleftrightarrow>
     edges_closed s hard_deps \<and> edges_closed s parent_edges \<and>
     acyclic (hard_rel s) \<and> acyclic (parent_rel s) \<and>
     (\<forall>i t j. task_at s i = Some t \<and> j \<in> set (hard_deps t) \<longrightarrow>
        (ID t, j) \<notin> (parent_rel s)\<^sup>+ \<and> (j, ID t) \<notin> (parent_rel s)\<^sup>+)"

lemma validateGraphs_None_iff:
  assumes "rep_ok s"
  shows "validateGraphs s = None \<longleftrightarrow> graphs_ok s"
proof (cases "edges_closed s hard_deps \<and> edges_closed s parent_edges \<and>
     acyclic (hard_rel s) \<and> acyclic (parent_rel s)")
  case False
  then show ?thesis
    by (auto simp: validateGraphs_def graphs_ok_def detectCycle_None_iff split: option.splits)
next
  case True
  then have a: "ancestorOf s x y \<longleftrightarrow> (y, x) \<in> (parent_rel s)\<^sup>+" for x y
    by (intro ancestorOf_iff) auto
  have "validateGraphs s = None \<longleftrightarrow>
      (\<forall>t\<in>set (task_list s). \<forall>d\<in>set (Dependencies t). lineageErr s t d = None)"
    using True by (simp add: validateGraphs_def detectCycle_None_iff[THEN iffD2])
  also have "\<dots> \<longleftrightarrow> (\<forall>i t j. task_at s i = Some t \<and> j \<in> set (hard_deps t) \<longrightarrow>
        (ID t, j) \<notin> (parent_rel s)\<^sup>+ \<and> (j, ID t) \<notin> (parent_rel s)\<^sup>+)"
    (is "?L \<longleftrightarrow> ?R")
  proof
    assume ?L
    then show ?R
      by (auto simp: lineageErr_def a task_list_iff[OF assms] hard_deps_def split: if_splits)
  next
    assume ?R
    then show ?L
      by (force simp: lineageErr_def a task_list_iff[OF assms] hard_deps_def)
  qed
  also have "\<dots> \<longleftrightarrow> graphs_ok s" using True by (simp add: graphs_ok_def)
  finally show ?thesis .
qed

end
