(* ===== verification/GoPath.thy ===== *)
theory GoPath
  imports GoStrings
begin

text \<open>
  The two library functions resource claims are compared with: \<^verbatim>\<open>strings.ToLower\<close> and
  \<^verbatim>\<open>path.Match\<close> (its boolean; the callers drop the error, and \<^verbatim>\<open>path.Match\<close> answers false with
  every error). A string is its bytes. Unicode's case table is the parameter \<^verbatim>\<open>uni\<close>: the
  library consults it only where a byte is not ASCII.
\<close>

section \<open>Lower case\<close>

definition byte :: "char \<Rightarrow> nat" where "byte c = of_char c"

definition lowerByte :: "char \<Rightarrow> char" where
  "lowerByte c = (if 65 \<le> byte c \<and> byte c \<le> 90 then char_of (byte c + 32) else c)"

definition ToLower :: "(string \<Rightarrow> string) \<Rightarrow> string \<Rightarrow> string" where
  "ToLower uni s = (if (\<forall>c\<in>set s. byte c < 128) then map lowerByte s else uni s)"

section \<open>Reading one UTF-8 rune\<close>

definition contByte :: "nat \<Rightarrow> nat \<Rightarrow> char \<Rightarrow> bool" where
  "contByte lo hi c = (lo \<le> byte c \<and> byte c \<le> hi)"

text \<open>The rune and its width; an ill-formed sequence is \<^verbatim>\<open>RuneError\<close> (65533) of width 1.\<close>

fun decodeRune :: "string \<Rightarrow> nat \<times> nat" where
  "decodeRune [] = (65533, 0)"
| "decodeRune (a # r) =
    (let b0 = byte a in
     if b0 < 128 then (b0, 1)
     else if 194 \<le> b0 \<and> b0 \<le> 223 then
       (case r of b # _ \<Rightarrow> if contByte 128 191 b then ((b0 mod 32) * 64 + byte b mod 64, 2) else (65533, 1)
        | [] \<Rightarrow> (65533, 1))
     else if 224 \<le> b0 \<and> b0 \<le> 239 then
       (case r of b # c # _ \<Rightarrow>
          if contByte (if b0 = 224 then 160 else 128) (if b0 = 237 then 159 else 191) b \<and> contByte 128 191 c
          then ((b0 mod 16) * 4096 + (byte b mod 64) * 64 + byte c mod 64, 3) else (65533, 1)
        | _ \<Rightarrow> (65533, 1))
     else if 240 \<le> b0 \<and> b0 \<le> 244 then
       (case r of b # c # d # _ \<Rightarrow>
          if contByte (if b0 = 240 then 144 else 128) (if b0 = 244 then 143 else 191) b
             \<and> contByte 128 191 c \<and> contByte 128 191 d
          then ((b0 mod 8) * 262144 + (byte b mod 64) * 4096 + (byte c mod 64) * 64 + byte d mod 64, 4)
          else (65533, 1)
        | _ \<Rightarrow> (65533, 1))
     else (65533, 1))"

lemma decodeRune_pos: "s \<noteq> [] \<Longrightarrow> 0 < snd (decodeRune s)"
  by (cases s) (auto simp: Let_def split: list.splits)

section \<open>Glob patterns\<close>

text \<open>\<^verbatim>\<open>getEsc\<close>: None is \<^verbatim>\<open>ErrBadPattern\<close>.\<close>

fun getEsc :: "string \<Rightarrow> (nat \<times> string) option" where
  "getEsc [] = None"
| "getEsc (c # r) =
    (if c = CHR ''-'' \<or> c = CHR '']'' then None
     else let chunk = (if c = CHR 0x5C then r else c # r) in
       if chunk = [] then None
       else let (rune, n) = decodeRune chunk; rest = drop n chunk in
         if (rune = 65533 \<and> n = 1) \<or> rest = [] then None else Some (rune, rest))"

lemma getEsc_shorter: "getEsc s = Some (r, t) \<Longrightarrow> length t < length s"
proof (cases s)
  case (Cons c u)
  assume g: "getEsc s = Some (r, t)"
  define chunk where "chunk = (if c = CHR 0x5C then u else c # u)"
  from g Cons have "chunk \<noteq> []" "t = drop (snd (decodeRune chunk)) chunk"
    by (auto simp: chunk_def[symmetric] Let_def split: if_splits prod.splits)
  moreover then have "0 < snd (decodeRune chunk)" by (intro decodeRune_pos)
  moreover have "length chunk \<le> length s" by (simp add: Cons chunk_def)
  ultimately show ?thesis by (cases chunk) auto
qed simp

text \<open>The ranges of a character class: whether the rune is in one, and the chunk after \<^verbatim>\<open>]\<close>.\<close>

function classRanges :: "nat \<Rightarrow> bool \<Rightarrow> bool \<Rightarrow> string \<Rightarrow> (bool \<times> string) option" where
  "classRanges r hit some chunk =
    (case chunk of
       c # rest \<Rightarrow> if c = CHR '']'' \<and> some then Some (hit, rest)
                  else (case getEsc chunk of None \<Rightarrow> None
                        | Some (lo, ch) \<Rightarrow>
                            (case (if hd ch = CHR ''-'' then getEsc (tl ch) else Some (lo, ch)) of
                               None \<Rightarrow> None
                             | Some (hi, ch') \<Rightarrow>
                                 if length ch' < length chunk
                                 then classRanges r (hit \<or> (lo \<le> r \<and> r \<le> hi)) True ch' else None))
     | [] \<Rightarrow> None)"
  by pat_completeness auto
termination by (relation "measure (\<lambda>(r, h, s, c). length c)") auto

declare classRanges.simps [simp del]

text \<open>The length test in \<^verbatim>\<open>classRanges\<close> is for the termination proof; it always holds.\<close>

lemma classRanges_guard:
  assumes "getEsc chunk = Some (lo, ch)"
    and "(if hd ch = CHR ''-'' then getEsc (tl ch) else Some (lo, ch)) = Some (hi, ch')"
  shows "length ch' < length chunk"
proof (cases "hd ch = CHR ''-''")
  case True
  with assms(2) have "length ch' < length (tl ch)" by (auto dest: getEsc_shorter)
  with getEsc_shorter[OF assms(1)] show ?thesis by (simp add: less_trans)
next
  case False
  with assms(2) getEsc_shorter[OF assms(1)] show ?thesis by simp
qed

lemma classRanges_shorter: "classRanges r hit some chunk = Some (h, rest) \<Longrightarrow> length rest < length chunk"
proof (induction r hit some chunk rule: classRanges.induct)
  case (1 r hit some chunk)
  show ?case
  proof (cases chunk)
    case Nil
    with 1 show ?thesis by (simp add: classRanges.simps)
  next
    case (Cons c cs)
    show ?thesis
    proof (cases "c = CHR '']'' \<and> some")
      case True
      with 1 Cons show ?thesis by (simp add: classRanges.simps)
    next
      case False
      from 1(2) Cons False obtain lo ch hi ch' where
        g: "getEsc chunk = Some (lo, ch)"
        and g2: "(if hd ch = CHR ''-'' then getEsc (tl ch) else Some (lo, ch)) = Some (hi, ch')"
        and l: "length ch' < length chunk"
        and r: "classRanges r (hit \<or> lo \<le> r \<and> r \<le> hi) True ch' = Some (h, rest)"
        by (subst (asm) classRanges.simps) (auto split: option.splits if_splits prod.splits)
      from 1(1)[OF Cons False g _ g2 _ l r] have "length rest < length ch'" by auto
      with l show ?thesis by simp
    qed
  qed
qed

text \<open>\<^verbatim>\<open>matchChunk\<close>, with \<^verbatim>\<open>failed\<close>; None is the bad-pattern error.\<close>

function matchChunk :: "bool \<Rightarrow> string \<Rightarrow> string \<Rightarrow> (string \<times> bool) option" where
  "matchChunk failed [] s = Some (if failed then ('''', False) else (s, True))"
| "matchChunk failed0 (c # chunk) s =
    (let failed = (failed0 \<or> s = []) in
     if c = CHR ''['' then
       let (r, s') = (if failed then (0, s) else (fst (decodeRune s), drop (snd (decodeRune s)) s));
           negated = (chunk \<noteq> [] \<and> hd chunk = CHR ''^'');
           chunk' = (if negated then tl chunk else chunk) in
       (case classRanges r False False chunk' of
          None \<Rightarrow> None
        | Some (hit, rest) \<Rightarrow>
            if length rest \<le> length chunk then matchChunk (failed \<or> hit = negated) rest s' else None)
     else if c = CHR ''?'' then
       (if failed then matchChunk True chunk s
        else matchChunk (hd s = CHR ''/'') chunk (drop (snd (decodeRune s)) s))
     else if c = CHR 0x5C then
       (case chunk of
          [] \<Rightarrow> None
        | d # chunk' \<Rightarrow> if failed then matchChunk True chunk' s
                       else matchChunk (d \<noteq> hd s) chunk' (tl s))
     else if failed then matchChunk True chunk s
     else matchChunk (c \<noteq> hd s) chunk (tl s))"
  by pat_completeness auto
termination by (relation "measure (\<lambda>(f, c, s). length c)") (auto split: if_splits)

fun scanTo :: "bool \<Rightarrow> string \<Rightarrow> string \<times> string" where
  "scanTo inrange [] = ([], [])"
| "scanTo inrange (c # r) =
    (if c = CHR 0x5C then
       (case r of [] \<Rightarrow> ([c], []) | d # r' \<Rightarrow> (let (a, b) = scanTo inrange r' in (c # d # a, b)))
     else if c = CHR ''*'' \<and> \<not> inrange then ([], c # r)
     else (let (a, b) = scanTo (if c = CHR ''['' then True else if c = CHR '']'' then False else inrange) r
           in (c # a, b)))"

definition scanChunk :: "string \<Rightarrow> bool \<times> string \<times> string" where
  "scanChunk p = (let p' = dropWhile (\<lambda>c. c = CHR ''*'') p;
                      (chunk, rest) = scanTo False p'
                  in (p \<noteq> [] \<and> hd p = CHR ''*'', chunk, rest))"

lemma scanTo_append: "scanTo b p = (a, r) \<Longrightarrow> p = a @ r"
  by (induction b p arbitrary: a r rule: scanTo.induct)
     (auto split: if_splits prod.splits list.splits)

lemma scanChunk_shorter: "p \<noteq> [] \<Longrightarrow> length (snd (snd (scanChunk p))) < length p"
proof (cases p)
  case (Cons c q)
  define q' where "q' = dropWhile (\<lambda>c. c = CHR ''*'') p"
  obtain a r where s: "scanTo False q' = (a, r)" by fastforce
  have r: "length r \<le> length q'" using scanTo_append[OF s] by simp
  have l: "length q' \<le> length p" by (simp add: q'_def length_dropWhile_le)
  have res: "snd (snd (scanChunk p)) = r"
    unfolding scanChunk_def q'_def[symmetric] by (simp add: s)
  show ?thesis
  proof (cases "c = CHR ''*''")
    case True
    then have "length q' \<le> length q" by (simp add: q'_def Cons length_dropWhile_le)
    with r res Cons show ?thesis by simp
  next
    case False
    then have q: "q' = c # q" by (simp add: q'_def Cons)
    with False s have "a \<noteq> []" by (auto split: if_splits prod.splits list.splits)
    with scanTo_append[OF s] have "length r < length q'" by (cases a) auto
    with l res show ?thesis by simp
  qed
qed simp

text \<open>
  The inner loop of a star: skip one more byte, never over a slash. \<^verbatim>\<open>more\<close> says a pattern
  follows. Some None is no match at any skip, None the bad-pattern error.
\<close>

fun starSkip :: "bool \<Rightarrow> string \<Rightarrow> string \<Rightarrow> string option option" where
  "starSkip more chunk [] = Some None"
| "starSkip more chunk (c # name) =
    (if c = CHR ''/'' then Some None
     else (case matchChunk False chunk name of
             None \<Rightarrow> None
           | Some (t, ok) \<Rightarrow> if ok \<and> (more \<or> t = []) then Some (Some t)
                            else starSkip more chunk name))"

function pathMatch :: "string \<Rightarrow> string \<Rightarrow> bool" where
  "pathMatch pattern name =
    (if pattern = [] then name = []
     else let (star, chunk, rest) = scanChunk pattern in
       if star \<and> chunk = [] then CHR ''/'' \<notin> set name
       else (case matchChunk False chunk name of
               None \<Rightarrow> False
             | Some (t, ok) \<Rightarrow>
                 if ok \<and> (t = [] \<or> rest \<noteq> []) then
                   (if length rest < length pattern then pathMatch rest t else False)
                 else if star then
                   (case starSkip (rest \<noteq> []) chunk name of
                      Some (Some t') \<Rightarrow>
                        if length rest < length pattern then pathMatch rest t' else False
                    | _ \<Rightarrow> False)
                 else False))"
  by pat_completeness auto
termination by (relation "measure (length o fst)") auto

declare pathMatch.simps [simp del]

lemma pathMatch_guard: "pattern \<noteq> [] \<Longrightarrow> scanChunk pattern = (star, chunk, rest) \<Longrightarrow> length rest < length pattern"
  using scanChunk_shorter[of pattern] by simp

section \<open>A pattern with no metacharacter matches itself only\<close>

definition literal :: "string \<Rightarrow> bool" where
  "literal p = (\<forall>c\<in>set p. c \<notin> {CHR ''*'', CHR ''?'', CHR ''['', CHR 0x5C})"

lemma scanTo_literal: "literal p \<Longrightarrow> scanTo b p = (p, [])"
  by (induction p arbitrary: b) (auto simp: literal_def)

lemma literal_Cons:
  "literal (c # p) \<longleftrightarrow> c \<notin> {CHR ''*'', CHR ''?'', CHR ''['', CHR 0x5C} \<and> literal p"
  by (auto simp: literal_def)

lemma matchChunk_literal_step:
  "literal (c # p) \<Longrightarrow> matchChunk failed (c # p) s =
     (if failed \<or> s = [] then matchChunk True p s else matchChunk (c \<noteq> hd s) p (tl s))"
  by (simp add: literal_Cons)

lemma matchChunk_failed_literal: "literal p \<Longrightarrow> matchChunk True p s = Some ('''', False)"
proof (induction p arbitrary: s)
  case (Cons c p)
  then show ?case
    by (simp add: matchChunk_literal_step literal_Cons del: matchChunk.simps(2))
qed simp

lemma matchChunk_literal:
  "literal p \<Longrightarrow> matchChunk False p s =
     Some (if take (length p) s = p then (drop (length p) s, True) else ('''', False))"
proof (induction p arbitrary: s)
  case (Cons c p)
  then have l: "literal p" by (simp add: literal_Cons)
  show ?case
  proof (cases s)
    case Nil
    with l show ?thesis
      by (simp add: matchChunk_literal_step[OF Cons.prems] matchChunk_failed_literal
          del: matchChunk.simps(2))
  next
    case s: (Cons d s')
    show ?thesis
    proof (cases "c = d")
      case True
      with s Cons.IH[OF l, of s'] matchChunk_literal_step[OF Cons.prems, of False s] show ?thesis
        by (simp del: matchChunk.simps(2))
    next
      case False
      with s matchChunk_failed_literal[OF l, of s'] matchChunk_literal_step[OF Cons.prems, of False s]
      show ?thesis
        by (simp del: matchChunk.simps(2))
    qed
  qed
qed simp

lemma take_all_iff: "take (length p) s = p \<and> drop (length p) s = [] \<longleftrightarrow> s = p"
  by auto

lemma pathMatch_literal: "literal p \<Longrightarrow> pathMatch p s \<longleftrightarrow> s = p"
proof (cases "p = []")
  case False
  assume l: "literal p"
  then have d: "dropWhile (\<lambda>c. c = CHR ''*'') p = p" "hd p \<noteq> CHR ''*''"
    using False by (cases p; simp add: literal_def)+
  have "scanChunk p = (False, p, [])"
    using d l by (simp add: scanChunk_def scanTo_literal)
  with False l have "pathMatch p s \<longleftrightarrow> take (length p) s = p \<and> drop (length p) s = []"
    by (subst pathMatch.simps) (auto simp: matchChunk_literal pathMatch.simps[of "[]"])
  then show ?thesis by (simp only: take_all_iff)
qed (simp add: pathMatch.simps)

end
