(* ===== verification/PlanReady.thy ===== *)
theory PlanReady
  imports PlanGraph GoPath
begin

text \<open>
  Who may run: the readiness rule, the pause rule, the finish rule, the conflict rule and
  \<^verbatim>\<open>promote\<close>, which brings every status up to them (\<^verbatim>\<open>depsDone\<close>, \<^verbatim>\<open>pausedInLineage\<close>,
  \<^verbatim>\<open>canFinish\<close>, \<^verbatim>\<open>allChildrenTerminal\<close>, \<^verbatim>\<open>executionBlockReasons\<close> and their helpers in
  \<^verbatim>\<open>internal/plandb/store.go\<close>).
\<close>

section \<open>The climb to the root\<close>

text \<open>
  \<^verbatim>\<open>for current := task; current != nil; current = Tasks[current.ParentID]\<close>, stopped at the first
  task \<^verbatim>\<open>p\<close> holds of. None is a loop that has not ended when the fuel has; \<^verbatim>\<open>climb_ends\<close> shows
  that one more step than there are tasks is enough on an acyclic containment tree.
\<close>

fun climb :: "nat \<Rightarrow> plan_state \<Rightarrow> (task \<Rightarrow> bool) \<Rightarrow> task option \<Rightarrow> bool option" where
  "climb 0 s p current = None"
| "climb (Suc n) s p None = Some False"
| "climb (Suc n) s p (Some t) = (if p t then Some True else climb n s p (task_at s (ParentID t)))"

definition climb_fuel :: "plan_state \<Rightarrow> nat" where
  "climb_fuel s = Suc (Suc (length (Tasks s)))"

definition hardDone :: "plan_state \<Rightarrow> dependency \<Rightarrow> bool" where
  "hardDone s d =
     (dep_Kind d = DepSuggests \<or>
      (case task_at s (dep_TaskID d) of None \<Rightarrow> False | Some u \<Rightarrow> Status u = StatusDone))"

definition depsDone :: "plan_state \<Rightarrow> task \<Rightarrow> bool" where
  "depsDone s t =
     (climb (climb_fuel s) s (\<lambda>u. \<not> list_all (hardDone s) (Dependencies u)) (Some t) = Some False)"

definition pausedInLineage :: "plan_state \<Rightarrow> task \<Rightarrow> bool" where
  "pausedInLineage s t = (climb (climb_fuel s) s Paused (Some t) = Some True)"

text \<open>A plan whose parent pointers lead to tasks, without a cycle and with no nameless task.\<close>

definition tree_ok :: "plan_state \<Rightarrow> bool" where
  "tree_ok s \<longleftrightarrow> edges_closed s parent_edges \<and> acyclic (parent_rel s) \<and> task_at s '''' = None"

lemma tree_okD:
  "tree_ok s \<Longrightarrow> edges_closed s parent_edges" "tree_ok s \<Longrightarrow> acyclic (parent_rel s)"
  "tree_ok s \<Longrightarrow> task_at s '''' = None"
  by (simp_all add: tree_ok_def)

lemma parent_rel_iff: "(i, j) \<in> parent_rel s \<longleftrightarrow> (\<exists>t. task_at s i = Some t \<and> ParentID t = j \<and> j \<noteq> '''')"
  by (auto simp: edge_rel_def parent_edges_def split: if_splits)

lemma parent_rel_dom: "(i, j) \<in> parent_rel s \<Longrightarrow> i \<in> set (task_ids s)"
  by (auto simp: parent_rel_iff task_ids_iff)

lemma parent_rel_ran: "tree_ok s \<Longrightarrow> (i, j) \<in> parent_rel s \<Longrightarrow> j \<in> set (task_ids s)"
  by (auto simp: edge_rel_def edges_closed_def tree_ok_def task_ids_iff)

abbreviation above :: "plan_state \<Rightarrow> string \<Rightarrow> string set" where
  "above s i \<equiv> {j. (i, j) \<in> (parent_rel s)\<^sup>*}"

lemma above_tasks: "tree_ok s \<Longrightarrow> i \<in> set (task_ids s) \<Longrightarrow> above s i \<subseteq> set (task_ids s)"
  by (auto elim: rtranclE dest: parent_rel_ran)

lemma above_unfold: "task_at s i = Some t \<Longrightarrow>
    above s i = insert i (if ParentID t = '''' then {} else above s (ParentID t))"
  (is "?t \<Longrightarrow> ?L = ?R")
proof
  assume t: ?t
  then have e: "(i, k) \<in> parent_rel s \<longleftrightarrow> k = ParentID t \<and> k \<noteq> ''''" for k
    by (auto simp: parent_rel_iff)
  show "?L \<subseteq> ?R"
  proof
    fix x assume "x \<in> ?L"
    then have "(i, x) \<in> (parent_rel s)\<^sup>*" by simp
    then show "x \<in> ?R" by (cases rule: converse_rtranclE) (auto simp: e)
  qed
  show "?R \<subseteq> ?L"
    using e by (auto intro: converse_rtrancl_into_rtrancl split: if_splits)
qed

lemma climb_ends_gen:
  assumes ok: "tree_ok s"
  shows "task_at s i = Some t \<Longrightarrow> card (above s i) < n \<Longrightarrow>
    climb n s p (Some t) = Some (\<exists>j\<in>above s i. \<exists>u. task_at s j = Some u \<and> p u)"
proof (induction n arbitrary: i t)
  case 0
  then show ?case by simp
next
  case (Suc n)
  have fin: "finite (above s i)"
  proof (rule finite_subset[OF above_tasks[OF ok]])
    show "i \<in> set (task_ids s)" using Suc.prems(1) by (auto simp: task_ids_iff)
  qed simp
  show ?case
  proof (cases "p t")
    case True
    with Suc.prems(1) show ?thesis by auto
  next
    case False
    show ?thesis
    proof (cases "ParentID t = ''''")
      case True
      have "above s i \<noteq> {}" by auto
      with fin have "0 < card (above s i)" by (simp add: card_gt_0_iff)
      with Suc.prems(2) obtain m where "n = Suc m" by (cases n) auto
      with False True ok Suc.prems(1) show ?thesis
        by (simp add: above_unfold tree_okD(3))
    next
      case par: False
      then have e: "(i, ParentID t) \<in> parent_rel s" using Suc.prems(1) by (auto simp: parent_rel_iff)
      then obtain u where u: "task_at s (ParentID t) = Some u"
        using parent_rel_ran[OF ok] by (auto simp: task_ids_iff)
      have "i \<notin> above s (ParentID t)"
        using tree_okD(2)[OF ok] e by (auto simp: acyclic_def dest: rtrancl_into_trancl2)
      then have "card (above s (ParentID t)) < card (above s i)"
        using above_unfold[OF Suc.prems(1)] par fin by (intro psubset_card_mono) auto
      with Suc.prems(2) have "card (above s (ParentID t)) < n" by simp
      from Suc.IH[OF u this] False par u Suc.prems(1) show ?thesis
        by (simp add: above_unfold[OF Suc.prems(1)])
    qed
  qed
qed

lemma climb_ends:
  assumes ok: "tree_ok s" and t: "task_at s i = Some t"
  shows "climb (climb_fuel s) s p (Some t) = Some (\<exists>j\<in>above s i. \<exists>u. task_at s j = Some u \<and> p u)"
proof (rule climb_ends_gen[OF ok t])
  have "i \<in> set (task_ids s)" using t by (auto simp: task_ids_iff)
  then have "card (above s i) \<le> card (set (task_ids s))"
    using above_tasks[OF ok] by (intro card_mono) auto
  also have "\<dots> \<le> length (Tasks s)" using card_length[of "task_ids s"] by (simp add: length_task_ids)
  finally show "card (above s i) < climb_fuel s" by (simp add: climb_fuel_def)
qed

lemma depsDone_iff:
  assumes "tree_ok s" and "task_at s i = Some t"
  shows "depsDone s t \<longleftrightarrow>
    (\<forall>j u d. (i, j) \<in> (parent_rel s)\<^sup>* \<and> task_at s j = Some u \<and> d \<in> set (Dependencies u) \<longrightarrow> hardDone s d)"
  unfolding depsDone_def climb_ends[OF assms] by (auto simp: list_all_iff)

lemma pausedInLineage_iff:
  assumes "tree_ok s" and "task_at s i = Some t"
  shows "pausedInLineage s t \<longleftrightarrow> (\<exists>j u. (i, j) \<in> (parent_rel s)\<^sup>* \<and> task_at s j = Some u \<and> Paused u)"
  unfolding pausedInLineage_def climb_ends[OF assms] by auto

section \<open>The finish rule\<close>

text \<open>\<^verbatim>\<open>canFinish\<close>: None is true, Some the reason naming the first task in the way.\<close>

definition openChildErr :: "plan_state \<Rightarrow> task \<Rightarrow> string \<Rightarrow> work_error option" where
  "openChildErr s t i =
     (case task_at s i of
        None \<Rightarrow> None
      | Some c \<Rightarrow> if ParentID c = ID t \<and> \<not> terminal (Status c) then Some (OpenChild (ID t) i) else None)"

definition openDepErr :: "plan_state \<Rightarrow> task \<Rightarrow> dependency \<Rightarrow> work_error option" where
  "openDepErr s t d = (if hardDone s d then None else Some (UnfinishedDependency (ID t) (dep_TaskID d)))"

definition canFinish :: "plan_state \<Rightarrow> task \<Rightarrow> work_error option" where
  "canFinish s t =
     (case firstErr (openChildErr s t) (Order s) of
        Some e \<Rightarrow> Some e
      | None \<Rightarrow> firstErr (openDepErr s t) (Dependencies t))"

lemma canFinish_None_iff:
  "canFinish s t = None \<longleftrightarrow>
     (\<forall>i\<in>set (Order s). \<forall>c. task_at s i = Some c \<and> ParentID c = ID t \<longrightarrow> terminal (Status c)) \<and>
     (\<forall>d\<in>set (Dependencies t). hardDone s d)"
  by (auto simp: canFinish_def openChildErr_def openDepErr_def split: option.splits if_splits)

definition allChildrenTerminal :: "plan_state \<Rightarrow> string \<Rightarrow> bool" where
  "allChildrenTerminal s i =
     (let children = filter (\<lambda>c. ParentID c = i) (task_list s)
      in children \<noteq> [] \<and> list_all (\<lambda>c. terminal (Status c)) children)"

definition hasOpenDescendants :: "plan_state \<Rightarrow> string \<Rightarrow> bool" where
  "hasOpenDescendants s rootID = list_ex (\<lambda>t. ID t \<noteq> rootID \<and> \<not> terminal (Status t)) (task_list s)"

section \<open>Conflicts between tasks that would run together\<close>

definition resourceOverlap :: "(string \<Rightarrow> string) \<Rightarrow> string \<Rightarrow> string \<Rightarrow> bool" where
  "resourceOverlap uni left0 right0 =
     (let left = TrimSpace (ToLower uni left0);
          right = TrimSpace (ToLower uni right0) in
      if left = '''' \<or> right = '''' then True
      else if left = right \<or> left = ''*'' \<or> right = ''*'' then True
      else if pathMatch left right then True
      else if pathMatch right left then True
      else let leftPrefix = TrimSuffix (TrimSuffix left ''/**'') ''/*'';
               rightPrefix = TrimSuffix (TrimSuffix right ''/**'') ''/*''
           in HasPrefix (leftPrefix @ ''/'') (rightPrefix @ ''/'') \<or>
              HasPrefix (rightPrefix @ ''/'') (leftPrefix @ ''/''))"

definition claimsConflict :: "(string \<Rightarrow> string) \<Rightarrow> resource_claim \<Rightarrow> resource_claim \<Rightarrow> bool" where
  "claimsConflict uni a b =
     (if Mode a = ''read'' \<and> Mode b = ''read'' then False else resourceOverlap uni (URI a) (URI b))"

definition executionConflict :: "(string \<Rightarrow> string) \<Rightarrow> task \<Rightarrow> task \<Rightarrow> bool" where
  "executionConflict uni l r =
     (if Parallel l = ''serial'' \<and> Parallel r = ''serial'' then True
      else if Isolation l = ''exclusive'' \<or> Isolation r = ''exclusive'' then True
      else list_ex (\<lambda>a. list_ex (claimsConflict uni a) (Resources r)) (Resources l))"

text \<open>The reasons, each naming the active task in the way.\<close>

definition conflictReason :: "string \<Rightarrow> string" where
  "conflictReason i = ''conflicts with active task '' @ i"

definition executionBlockReasons :: "(string \<Rightarrow> string) \<Rightarrow> plan_state \<Rightarrow> task \<Rightarrow> string list" where
  "executionBlockReasons uni s t =
     map (\<lambda>other. conflictReason (ID other))
       (filter (\<lambda>other. \<not> (ID other = ID t \<or> ID other = RootID s \<or> \<not> heldStatus (Status other)) \<and>
          executionConflict uni t other) (task_list s))"

lemma resourceOverlap_sym: "resourceOverlap uni a b = resourceOverlap uni b a"
  unfolding resourceOverlap_def Let_def by auto

lemma claimsConflict_sym: "claimsConflict uni a b = claimsConflict uni b a"
  unfolding claimsConflict_def by (auto simp: resourceOverlap_sym)

lemma executionConflict_sym: "executionConflict uni l r = executionConflict uni r l"
proof -
  have "(\<exists>a\<in>set (Resources l). \<exists>b\<in>set (Resources r). claimsConflict uni a b) \<longleftrightarrow>
      (\<exists>b\<in>set (Resources r). \<exists>a\<in>set (Resources l). claimsConflict uni b a)"
    using claimsConflict_sym by blast
  then show ?thesis unfolding executionConflict_def list_ex_iff by auto
qed

lemma no_block_reasons:
  "rep_ok s \<Longrightarrow> executionBlockReasons uni s t = [] \<longleftrightarrow>
     (\<forall>i u. task_at s i = Some u \<and> ID u \<noteq> ID t \<and> ID u \<noteq> RootID s \<and> heldStatus (Status u) \<longrightarrow>
        \<not> executionConflict uni t u)"
  by (auto simp: executionBlockReasons_def filter_empty_conv task_list_iff)

end
