(* ===== verification/PlanPromote.thy ===== *)
theory PlanPromote
  imports PlanReady
begin

text \<open>
  \<^verbatim>\<open>promote\<close> of \<^verbatim>\<open>internal/plandb/store.go\<close>: the loop that re-derives every status after a
  change, its termination, the frontier it leaves and what it never touches. One round is the
  source's three loops over \<^verbatim>\<open>Order\<close>; the boolean beside the state is the variable \<^verbatim>\<open>changed\<close>.
\<close>

definition demote_step :: "time \<Rightarrow> string \<Rightarrow> plan_state \<times> bool \<Rightarrow> plan_state \<times> bool" where
  "demote_step now i = (\<lambda>(s, changed).
     (case task_at s i of
        None \<Rightarrow> (s, changed)
      | Some t \<Rightarrow>
          if Status t = StatusReady \<and> \<not> depsDone s t
          then (put_task i (t\<lparr>Status := StatusPending, UpdatedAt := now\<rparr>) s, True)
          else (s, changed)))"

definition raise_step :: "time \<Rightarrow> string \<Rightarrow> plan_state \<times> bool \<Rightarrow> plan_state \<times> bool" where
  "raise_step now i = (\<lambda>(s, changed).
     (case task_at s i of
        None \<Rightarrow> (s, changed)
      | Some t \<Rightarrow>
          if Status t = StatusPending \<and> depsDone s t
          then (put_task i (t\<lparr>Status := StatusReady, UpdatedAt := now\<rparr>) s, True)
          else (s, changed)))"

text \<open>The reason a composite that did not land done is given: \<^verbatim>\<open>child %q %s\<close>.\<close>

definition childReason :: "task \<Rightarrow> string" where
  "childReason c = ''child '' @ [CHR 0x22] @ ID c @ [CHR 0x22] @ '' '' @ statusWord (Status c)"

definition closable :: "plan_state \<Rightarrow> string \<Rightarrow> task \<Rightarrow> bool" where
  "closable s i t =
     (\<not> (i = RootID s \<or> \<not> Composite t \<or> Waiting t \<or> terminal (Status t) \<or> heldStatus (Status t) \<or>
         \<not> allChildrenTerminal s i))"

definition close_task :: "plan_state \<Rightarrow> string \<Rightarrow> task \<Rightarrow> time \<Rightarrow> task" where
  "close_task s i t now =
     (let t1 = t\<lparr>Status := StatusDone\<rparr>;
          t2 = (case find (\<lambda>c. ParentID c = i \<and> Status c \<noteq> StatusDone) (task_list (put_task i t1 s)) of
                  None \<Rightarrow> t1
                | Some c \<Rightarrow> t1\<lparr>Status := StatusFailed,
                               Error := (if TrimSpace (Error t1) = '''' then childReason c else Error t1)\<rparr>)
      in t2\<lparr>UpdatedAt := now, CompletedAt := now\<rparr>)"

definition close_step :: "time \<Rightarrow> string \<Rightarrow> plan_state \<times> bool \<Rightarrow> plan_state \<times> bool" where
  "close_step now i = (\<lambda>(s, changed).
     (case task_at s i of
        None \<Rightarrow> (s, changed)
      | Some t \<Rightarrow> if closable s i t then (put_task i (close_task s i t now) s, True) else (s, changed)))"

definition promote_round :: "time \<Rightarrow> plan_state \<Rightarrow> plan_state \<times> bool" where
  "promote_round now s =
     (let r1 = fold (demote_step now) (Order s) (s, False);
          r2 = fold (raise_step now) (Order (fst r1)) r1
      in fold (close_step now) (Order (fst r2)) r2)"

section \<open>What readiness looks at\<close>

text \<open>A task's parent, its dependencies and whether it is done: all \<^verbatim>\<open>depsDone\<close> reads of the plan.\<close>

definition done_view :: "plan_state \<Rightarrow> string \<Rightarrow> (string \<times> dependency list \<times> bool) option" where
  "done_view s i = map_option (\<lambda>t. (ParentID t, Dependencies t, Status t = StatusDone)) (task_at s i)"

lemma done_view_SomeD:
  assumes "done_view s = done_view s'" and "task_at s i = Some t"
  shows "\<exists>t'. task_at s' i = Some t' \<and> ParentID t' = ParentID t \<and> Dependencies t' = Dependencies t \<and>
      (Status t' = StatusDone \<longleftrightarrow> Status t = StatusDone)"
  using fun_cong[OF assms(1), of i] assms(2) by (cases "task_at s' i") (auto simp: done_view_def)

lemma done_view_NoneD: "done_view s = done_view s' \<Longrightarrow> task_at s i = None \<Longrightarrow> task_at s' i = None"
  by (drule fun_cong[of _ _ i]) (cases "task_at s' i"; simp add: done_view_def)

lemma hardDone_cong: assumes v: "done_view s = done_view s'" shows "hardDone s d = hardDone s' d"
proof (cases "task_at s (dep_TaskID d)")
  case None
  with done_view_NoneD[OF v None] show ?thesis by (simp add: hardDone_def)
next
  case (Some t)
  with done_view_SomeD[OF v Some] show ?thesis by (auto simp: hardDone_def)
qed

lemma climb_cong:
  assumes v: "done_view s = done_view s'"
  shows "ParentID t = ParentID t' \<Longrightarrow> Dependencies t = Dependencies t' \<Longrightarrow>
    climb n s (\<lambda>u. \<not> list_all (hardDone s) (Dependencies u)) (Some t) =
    climb n s' (\<lambda>u. \<not> list_all (hardDone s') (Dependencies u)) (Some t')"
proof (induction n arbitrary: t t')
  case (Suc n)
  have h: "list_all (hardDone s) (Dependencies t) = list_all (hardDone s') (Dependencies t')"
    using Suc.prems hardDone_cong[OF v] by (simp add: list_all_iff)
  show ?case
  proof (cases "task_at s (ParentID t)")
    case None
    with done_view_NoneD[OF v None] Suc.prems h show ?thesis by (cases n) auto
  next
    case (Some u)
    then obtain u' where "task_at s' (ParentID t) = Some u'" "ParentID u' = ParentID u"
      "Dependencies u' = Dependencies u" using done_view_SomeD[OF v Some] by blast
    with Some Suc.IH[of u u'] Suc.prems h show ?thesis by simp
  qed
qed simp

lemma depsDone_cong:
  assumes "done_view s = done_view s'" and "length (Tasks s) = length (Tasks s')"
    and "ParentID t = ParentID t'" and "Dependencies t = Dependencies t'"
  shows "depsDone s t = depsDone s' t'"
  unfolding depsDone_def climb_fuel_def using climb_cong[OF assms(1,3,4)] assms(2) by simp

lemma length_Tasks_put [simp]: "task_at s i = Some u \<Longrightarrow> length (Tasks (put_task i t s)) = length (Tasks s)"
  by (simp add: put_task_def task_at_def length_update_present map_of_in_keys)

lemma done_view_put:
  "task_at s i = Some u \<Longrightarrow> ParentID t = ParentID u \<Longrightarrow> Dependencies t = Dependencies u \<Longrightarrow>
   (Status t = StatusDone \<longleftrightarrow> Status u = StatusDone) \<Longrightarrow> done_view (put_task i t s) = done_view s"
  by (auto simp: done_view_def task_at_put fun_eq_iff)

section \<open>Demoting and raising do not change who is ready\<close>

text \<open>States that differ only by Pending against Ready (and the time of the last change).\<close>

definition same_frontier :: "plan_state \<Rightarrow> plan_state \<Rightarrow> bool" where
  "same_frontier s s' \<longleftrightarrow> done_view s = done_view s' \<and> length (Tasks s) = length (Tasks s') \<and>
     Order s = Order s' \<and>
     (\<forall>i. map_option (\<lambda>t. terminal (Status t)) (task_at s i) = map_option (\<lambda>t. terminal (Status t)) (task_at s' i))"

lemma same_frontier_refl [simp]: "same_frontier s s"
  by (simp add: same_frontier_def)

lemma same_frontier_trans: "same_frontier s s' \<Longrightarrow> same_frontier s' s'' \<Longrightarrow> same_frontier s s''"
  by (simp add: same_frontier_def)

lemma demote_same: "same_frontier s (fst (demote_step now i (s, c)))"
  by (auto simp: demote_step_def same_frontier_def done_view_put task_at_put split: option.splits)

lemma raise_same: "same_frontier s (fst (raise_step now i (s, c)))"
  by (auto simp: raise_step_def same_frontier_def done_view_put task_at_put split: option.splits)

lemma same_frontier_depsDone:
  "same_frontier s s' \<Longrightarrow> ParentID t = ParentID t' \<Longrightarrow> Dependencies t = Dependencies t' \<Longrightarrow>
     depsDone s t = depsDone s' t'"
  by (rule depsDone_cong) (simp_all add: same_frontier_def)

text \<open>A task is misplaced when its status disagrees with the rule.\<close>

definition ready_bad :: "plan_state \<Rightarrow> string \<Rightarrow> bool" where
  "ready_bad s i = (case task_at s i of None \<Rightarrow> False
     | Some t \<Rightarrow> Status t = StatusReady \<and> \<not> depsDone s t)"

definition pending_bad :: "plan_state \<Rightarrow> string \<Rightarrow> bool" where
  "pending_bad s i = (case task_at s i of None \<Rightarrow> False
     | Some t \<Rightarrow> Status t = StatusPending \<and> depsDone s t)"

lemma demote_cases:
  obtains "demote_step now i (s, c) = (s, c)" "\<not> ready_bad s i"
  | t where "task_at s i = Some t" "Status t = StatusReady" "\<not> depsDone s t"
      "demote_step now i (s, c) = (put_task i (t\<lparr>Status := StatusPending, UpdatedAt := now\<rparr>) s, True)"
proof (cases "ready_bad s i")
  case True
  then obtain t where t: "task_at s i = Some t" "Status t = StatusReady" "\<not> depsDone s t"
    by (auto simp: ready_bad_def split: option.splits)
  then show ?thesis by (intro that(2)) (simp_all add: demote_step_def)
next
  case False
  then have "demote_step now i (s, c) = (s, c)"
    by (auto simp: demote_step_def ready_bad_def split: option.splits)
  with False show ?thesis by (intro that(1))
qed

lemma raise_cases:
  obtains "raise_step now i (s, c) = (s, c)" "\<not> pending_bad s i"
  | t where "task_at s i = Some t" "Status t = StatusPending" "depsDone s t"
      "raise_step now i (s, c) = (put_task i (t\<lparr>Status := StatusReady, UpdatedAt := now\<rparr>) s, True)"
proof (cases "pending_bad s i")
  case True
  then obtain t where t: "task_at s i = Some t" "Status t = StatusPending" "depsDone s t"
    by (auto simp: pending_bad_def split: option.splits)
  then show ?thesis by (intro that(2)) (simp_all add: raise_step_def)
next
  case False
  then have "raise_step now i (s, c) = (s, c)"
    by (auto simp: raise_step_def pending_bad_def split: option.splits)
  with False show ?thesis by (intro that(1))
qed

lemma bad_other:
  assumes f: "same_frontier s s'" and j: "task_at s' j = task_at s j"
  shows "ready_bad s' j = ready_bad s j" "pending_bad s' j = pending_bad s j"
proof -
  have "depsDone s' t = depsDone s t" for t by (rule same_frontier_depsDone[OF f, symmetric]) auto
  with j show "ready_bad s' j = ready_bad s j" "pending_bad s' j = pending_bad s j"
    by (auto simp: ready_bad_def pending_bad_def split: option.splits)
qed

lemma demote_bad: "ready_bad (fst (demote_step now i (s, c))) j \<longleftrightarrow> j \<noteq> i \<and> ready_bad s j"
proof (rule demote_cases[of now i s c])
  fix t assume a: "task_at s i = Some t"
    "demote_step now i (s, c) = (put_task i (t\<lparr>Status := StatusPending, UpdatedAt := now\<rparr>) s, True)"
  show ?thesis
  proof (cases "j = i")
    case True
    with a show ?thesis by (simp add: ready_bad_def)
  next
    case False
    with bad_other(1)[OF demote_same, of now i s c j] a show ?thesis by simp
  qed
qed auto

lemma raise_bad:
  "pending_bad (fst (raise_step now i (s, c))) j \<longleftrightarrow> j \<noteq> i \<and> pending_bad s j"
  "ready_bad (fst (raise_step now i (s, c))) j \<longleftrightarrow> ready_bad s j"
proof -
  show "pending_bad (fst (raise_step now i (s, c))) j \<longleftrightarrow> j \<noteq> i \<and> pending_bad s j"
  proof (rule raise_cases[of now i s c])
    fix t assume a: "task_at s i = Some t"
      "raise_step now i (s, c) = (put_task i (t\<lparr>Status := StatusReady, UpdatedAt := now\<rparr>) s, True)"
    show ?thesis
    proof (cases "j = i")
      case True
      with a show ?thesis by (simp add: pending_bad_def)
    next
      case False
      with bad_other(2)[OF raise_same, of now i s c j] a show ?thesis by simp
    qed
  qed auto
  show "ready_bad (fst (raise_step now i (s, c))) j \<longleftrightarrow> ready_bad s j"
  proof (rule raise_cases[of now i s c])
    fix t assume a: "task_at s i = Some t" "Status t = StatusPending" "depsDone s t"
      "raise_step now i (s, c) = (put_task i (t\<lparr>Status := StatusReady, UpdatedAt := now\<rparr>) s, True)"
    show ?thesis
    proof (cases "j = i")
      case True
      have "depsDone (fst (raise_step now i (s, c))) (t\<lparr>Status := StatusReady, UpdatedAt := now\<rparr>) = depsDone s t"
        by (rule same_frontier_depsDone[symmetric, OF raise_same]) auto
      with True a show ?thesis by (simp add: ready_bad_def)
    next
      case False
      with bad_other(1)[OF raise_same, of now i s c j] a show ?thesis by simp
    qed
  qed auto
qed

lemma demote_keeps_pending_bad: "pending_bad (fst (demote_step now i (s, c))) j \<longleftrightarrow> pending_bad s j"
proof (rule demote_cases[of now i s c])
  fix t assume a: "task_at s i = Some t" "Status t = StatusReady" "\<not> depsDone s t"
    "demote_step now i (s, c) = (put_task i (t\<lparr>Status := StatusPending, UpdatedAt := now\<rparr>) s, True)"
  show ?thesis
  proof (cases "j = i")
    case True
    have "depsDone (fst (demote_step now i (s, c))) (t\<lparr>Status := StatusPending, UpdatedAt := now\<rparr>) = depsDone s t"
      by (rule same_frontier_depsDone[symmetric, OF demote_same]) auto
    with True a show ?thesis by (simp add: pending_bad_def)
  next
    case False
    with bad_other(2)[OF demote_same, of now i s c j] a show ?thesis by simp
  qed
qed auto

section \<open>One round\<close>

lemma demote_fold:
  "fold (demote_step now) xs (s, c) = (s', c') \<Longrightarrow>
     same_frontier s s' \<and> (\<forall>j. ready_bad s' j \<longleftrightarrow> j \<notin> set xs \<and> ready_bad s j) \<and>
     (\<forall>j. pending_bad s' j \<longleftrightarrow> pending_bad s j) \<and> (c' \<longrightarrow> c \<or> (\<exists>j\<in>set xs. ready_bad s j)) \<and>
     (c \<longrightarrow> c') \<and> (c' \<or> s' = s)"
proof (induction xs arbitrary: s c)
  case Nil
  then show ?case by auto
next
  case (Cons i xs)
  obtain s1 c1 where e: "demote_step now i (s, c) = (s1, c1)" by fastforce
  have fst: "fst (demote_step now i (s, c)) = s1" by (simp add: e)
  have c1: "c1 \<longrightarrow> c \<or> ready_bad s i" "c1 \<or> s1 = s" "c \<longrightarrow> c1"
    using e by (cases rule: demote_cases[of now i s c]; auto simp: ready_bad_def)+
  from Cons.IH[of s1 c1] Cons.prems e
  have ih: "same_frontier s1 s'" "\<forall>j. ready_bad s' j \<longleftrightarrow> j \<notin> set xs \<and> ready_bad s1 j"
    "\<forall>j. pending_bad s' j \<longleftrightarrow> pending_bad s1 j" "c' \<longrightarrow> c1 \<or> (\<exists>j\<in>set xs. ready_bad s1 j)"
    "c1 \<longrightarrow> c'" "c' \<or> s' = s1"
    by auto
  from demote_bad[of now i s c] fst have rb: "ready_bad s1 j \<longleftrightarrow> j \<noteq> i \<and> ready_bad s j" for j by simp
  from demote_keeps_pending_bad[of now i s c] fst have pb: "pending_bad s1 j \<longleftrightarrow> pending_bad s j" for j by simp
  from demote_same[of s now i c] fst have sf: "same_frontier s s1" by simp
  from same_frontier_trans[OF sf ih(1)] ih rb pb c1 show ?case by auto
qed

lemma raise_fold:
  "fold (raise_step now) xs (s, c) = (s', c') \<Longrightarrow>
     same_frontier s s' \<and> (\<forall>j. pending_bad s' j \<longleftrightarrow> j \<notin> set xs \<and> pending_bad s j) \<and>
     (\<forall>j. ready_bad s' j \<longleftrightarrow> ready_bad s j) \<and> (c' \<longrightarrow> c \<or> (\<exists>j\<in>set xs. pending_bad s j)) \<and>
     (c \<longrightarrow> c') \<and> (c' \<or> s' = s)"
proof (induction xs arbitrary: s c)
  case Nil
  then show ?case by auto
next
  case (Cons i xs)
  obtain s1 c1 where e: "raise_step now i (s, c) = (s1, c1)" by fastforce
  have fst: "fst (raise_step now i (s, c)) = s1" by (simp add: e)
  have c1: "c1 \<longrightarrow> c \<or> pending_bad s i" "c1 \<or> s1 = s" "c \<longrightarrow> c1"
    using e by (cases rule: raise_cases[of now i s c]; auto simp: pending_bad_def)+
  from Cons.IH[of s1 c1] Cons.prems e
  have ih: "same_frontier s1 s'" "\<forall>j. pending_bad s' j \<longleftrightarrow> j \<notin> set xs \<and> pending_bad s1 j"
    "\<forall>j. ready_bad s' j \<longleftrightarrow> ready_bad s1 j" "c' \<longrightarrow> c1 \<or> (\<exists>j\<in>set xs. pending_bad s1 j)"
    "c1 \<longrightarrow> c'" "c' \<or> s' = s1"
    by auto
  from raise_bad[of now i s c] fst
  have rb: "pending_bad s1 j \<longleftrightarrow> j \<noteq> i \<and> pending_bad s j" "ready_bad s1 j \<longleftrightarrow> ready_bad s j" for j by simp_all
  from raise_same[of s now i c] fst have sf: "same_frontier s s1" by simp
  from same_frontier_trans[OF sf ih(1)] ih rb c1 show ?case by auto
qed

definition open_ids :: "plan_state \<Rightarrow> string set" where
  "open_ids s = {i \<in> set (task_ids s). case task_at s i of None \<Rightarrow> False | Some t \<Rightarrow> \<not> terminal (Status t)}"

definition misplaced :: "plan_state \<Rightarrow> string set" where
  "misplaced s = {i \<in> set (Order s). ready_bad s i \<or> pending_bad s i}"

lemma finite_open_ids [simp]: "finite (open_ids s)"
  by (simp add: open_ids_def)

lemma finite_misplaced [simp]: "finite (misplaced s)"
  by (simp add: misplaced_def)

lemma open_ids_iff: "i \<in> open_ids s \<longleftrightarrow> (\<exists>t. task_at s i = Some t \<and> \<not> terminal (Status t))"
  by (auto simp: open_ids_def task_ids_iff split: option.splits)

lemma same_frontier_open: "same_frontier s s' \<Longrightarrow> open_ids s' = open_ids s"
proof -
  assume f: "same_frontier s s'"
  have "i \<in> open_ids s' \<longleftrightarrow> i \<in> open_ids s" for i
  proof -
    have "map_option (\<lambda>t. terminal (Status t)) (task_at s i) = map_option (\<lambda>t. terminal (Status t)) (task_at s' i)"
      using f by (simp add: same_frontier_def)
    then show ?thesis by (cases "task_at s i"; cases "task_at s' i") (auto simp: open_ids_iff)
  qed
  then show ?thesis by blast
qed

lemma close_task_terminal: "terminal (Status (close_task s i t now))"
  by (simp add: close_task_def Let_def split: option.split)

lemma close_cases:
  obtains "close_step now i (s, c) = (s, c)" "\<And>t. task_at s i = Some t \<Longrightarrow> \<not> closable s i t"
  | t where "task_at s i = Some t" "closable s i t" "\<not> terminal (Status t)"
      "close_step now i (s, c) = (put_task i (close_task s i t now) s, True)"
proof (cases "\<exists>t. task_at s i = Some t \<and> closable s i t")
  case True
  then obtain t where "task_at s i = Some t" "closable s i t" by blast
  then show ?thesis by (intro that(2)) (simp_all add: close_step_def closable_def)
next
  case False
  then have "close_step now i (s, c) = (s, c)" by (auto simp: close_step_def split: option.splits)
  with False show ?thesis by (intro that(1)) auto
qed

lemma close_fold:
  "fold (close_step now) xs (s, c) = (s', c') \<Longrightarrow>
     Order s' = Order s \<and> RootID s' = RootID s \<and> (c \<longrightarrow> c') \<and>
     (s' = s \<and> c' = c \<and> (\<forall>i\<in>set xs. \<forall>t. task_at s i = Some t \<longrightarrow> \<not> closable s i t) \<or>
      c' \<and> open_ids s' \<subset> open_ids s)"
proof (induction xs arbitrary: s c)
  case Nil
  then show ?case by auto
next
  case (Cons i xs)
  show ?case
  proof (cases rule: close_cases[of now i s c])
    case 1
    with Cons.IH[of s c] Cons.prems show ?thesis by auto
  next
    case (2 t)
    let ?s = "put_task i (close_task s i t now) s"
    have "open_ids ?s = open_ids s - {i}"
      using close_task_terminal[of s i t now] by (auto simp: open_ids_iff task_at_put split: if_splits)
    moreover have "i \<in> open_ids s" using 2 by (auto simp: open_ids_iff)
    ultimately have "open_ids ?s \<subset> open_ids s" by blast
    with Cons.IH[of ?s True] Cons.prems 2 show ?thesis by auto
  qed
qed

text \<open>What a round leaves: nothing changed and nothing to do, or a smaller measure.\<close>

lemma round_result:
  assumes "promote_round now s = (s', c)"
  shows "Order s' = Order s"
    and "\<not> c \<Longrightarrow> s' = s \<and> misplaced s = {} \<and>
        (\<forall>i\<in>set (Order s). \<forall>t. task_at s i = Some t \<longrightarrow> \<not> closable s i t)"
    and "c \<Longrightarrow> open_ids s' \<subset> open_ids s \<or>
        open_ids s' = open_ids s \<and> misplaced s' = {} \<and> misplaced s \<noteq> {}"
proof -
  obtain s1 c1 where 1: "fold (demote_step now) (Order s) (s, False) = (s1, c1)" by fastforce
  obtain s2 c2 where 2: "fold (raise_step now) (Order s1) (s1, c1) = (s2, c2)" by fastforce
  from assms 1 2 have 3: "fold (close_step now) (Order s2) (s2, c2) = (s', c)"
    by (simp add: promote_round_def)
  note d = demote_fold[OF 1] note r = raise_fold[OF 2] note cl = close_fold[OF 3]
  from d have o1: "Order s1 = Order s" and f1: "same_frontier s s1" by (auto simp: same_frontier_def)
  from r have o2: "Order s2 = Order s" and f2: "same_frontier s s2"
    using same_frontier_trans[OF f1] o1 by (auto simp: same_frontier_def)
  from cl o2 show "Order s' = Order s" by simp
  have m2: "misplaced s2 = {}" using d r o1 o2 by (auto simp: misplaced_def)
  have c2: "c2 \<longrightarrow> misplaced s \<noteq> {}" using d r o1 unfolding misplaced_def by blast
  { assume "\<not> c"
    with cl have "c2 = False" and s': "s' = s2"
      and nc: "\<forall>i\<in>set (Order s2). \<forall>t. task_at s2 i = Some t \<longrightarrow> \<not> closable s2 i t" by auto
    with d r have "s2 = s" by auto
    with s' m2 nc show "s' = s \<and> misplaced s = {} \<and>
        (\<forall>i\<in>set (Order s). \<forall>t. task_at s i = Some t \<longrightarrow> \<not> closable s i t)" by simp }
  { assume c
    from cl consider "s' = s2" "c = c2" | "open_ids s' \<subset> open_ids s2" by blast
    then show "open_ids s' \<subset> open_ids s \<or>
        open_ids s' = open_ids s \<and> misplaced s' = {} \<and> misplaced s \<noteq> {}"
      using \<open>c\<close> c2 m2 same_frontier_open[OF f2] by cases auto }
qed

section \<open>The loop\<close>

function promote :: "time \<Rightarrow> plan_state \<Rightarrow> plan_state" where
  "promote now s = (let (s', changed) = promote_round now s in if changed then promote now s' else s')"
  by pat_completeness auto
termination
proof (relation "measures [\<lambda>(now, s). card (open_ids s), \<lambda>(now, s). card (misplaced s)]")
  fix now s s' c x
  assume x: "x = promote_round now s" "(s', c) = x" and c: c
  then have r: "promote_round now s = (s', c)" by simp
  from round_result(3)[OF r c] show "((now, s'), now, s) \<in>
      measures [\<lambda>(now, s). card (open_ids s), \<lambda>(now, s). card (misplaced s)]"
    by (auto simp: card_gt_0_iff intro: psubset_card_mono)
qed simp

declare promote.simps [simp del]

text \<open>Every property of a state that one step of a round keeps, the loop keeps.\<close>

lemma round_invariant:
  assumes "P s"
    and "\<And>s i t. P s \<Longrightarrow> task_at s i = Some t \<Longrightarrow> Status t = StatusReady \<Longrightarrow> \<not> depsDone s t \<Longrightarrow>
          P (put_task i (t\<lparr>Status := StatusPending, UpdatedAt := now\<rparr>) s)"
    and "\<And>s i t. P s \<Longrightarrow> task_at s i = Some t \<Longrightarrow> Status t = StatusPending \<Longrightarrow> depsDone s t \<Longrightarrow>
          P (put_task i (t\<lparr>Status := StatusReady, UpdatedAt := now\<rparr>) s)"
    and "\<And>s i t. P s \<Longrightarrow> task_at s i = Some t \<Longrightarrow> closable s i t \<Longrightarrow> P (put_task i (close_task s i t now) s)"
  shows "P (fst (promote_round now s))"
proof -
  have "P (fst (fold (demote_step now) xs r))" if "P (fst r)" for xs r
    by (rule fold_invariant_set[of "\<lambda>r. P (fst r)", OF that])
       (auto simp: demote_step_def split: option.splits prod.splits intro!: assms(2))
  moreover have "P (fst (fold (raise_step now) xs r))" if "P (fst r)" for xs r
    by (rule fold_invariant_set[of "\<lambda>r. P (fst r)", OF that])
       (auto simp: raise_step_def split: option.splits prod.splits intro!: assms(3))
  moreover have "P (fst (fold (close_step now) xs r))" if "P (fst r)" for xs r
    by (rule fold_invariant_set[of "\<lambda>r. P (fst r)", OF that])
       (auto simp: close_step_def split: option.splits prod.splits intro!: assms(4))
  ultimately show ?thesis using assms(1) by (simp add: promote_round_def Let_def)
qed

lemma promote_invariant:
  assumes "P s"
    and "\<And>s i t. P s \<Longrightarrow> task_at s i = Some t \<Longrightarrow> Status t = StatusReady \<Longrightarrow> \<not> depsDone s t \<Longrightarrow>
          P (put_task i (t\<lparr>Status := StatusPending, UpdatedAt := now\<rparr>) s)"
    and "\<And>s i t. P s \<Longrightarrow> task_at s i = Some t \<Longrightarrow> Status t = StatusPending \<Longrightarrow> depsDone s t \<Longrightarrow>
          P (put_task i (t\<lparr>Status := StatusReady, UpdatedAt := now\<rparr>) s)"
    and "\<And>s i t. P s \<Longrightarrow> task_at s i = Some t \<Longrightarrow> closable s i t \<Longrightarrow> P (put_task i (close_task s i t now) s)"
  shows "P (promote now s)"
  using assms
proof (induction now s rule: promote.induct)
  case (1 now s)
  obtain s' c where r: "promote_round now s = (s', c)" by fastforce
  have "P (fst (promote_round now s))" by (rule round_invariant[where P = P]) (use "1.prems" in auto)
  with r have "P s'" by simp
  with 1 r show ?case
    by (subst promote.simps) (simp add: Let_def)
qed

lemma promote_result:
  shows "Order (promote now s) = Order s" and "misplaced (promote now s) = {}"
    and "\<forall>i\<in>set (Order s). \<forall>t. task_at (promote now s) i = Some t \<longrightarrow> \<not> closable (promote now s) i t"
proof -
  have "Order (promote now s) = Order s \<and> misplaced (promote now s) = {} \<and>
     (\<forall>i\<in>set (Order s). \<forall>t. task_at (promote now s) i = Some t \<longrightarrow> \<not> closable (promote now s) i t)"
  proof (induction now s rule: promote.induct)
    case (1 now s)
    obtain s' c where r: "promote_round now s = (s', c)" by fastforce
    note rr = round_result[OF r]
    show ?case
    proof (cases c)
      case True
      with 1 r rr(1) show ?thesis by (subst (1 2 3 4) promote.simps) simp
    next
      case False
      with r rr(2) show ?thesis by (subst (1 2 3 4) promote.simps) simp
    qed
  qed
  then show "Order (promote now s) = Order s" and "misplaced (promote now s) = {}"
    and "\<forall>i\<in>set (Order s). \<forall>t. task_at (promote now s) i = Some t \<longrightarrow> \<not> closable (promote now s) i t"
    by auto
qed

text \<open>A state the rules already agree with is left as it is.\<close>

lemma promote_fixpoint: "promote now (promote now s) = promote now s"
proof -
  let ?s = "promote now s"
  obtain s' c where r: "promote_round now ?s = (s', c)" by fastforce
  note p = promote_result[where now = now and s = s]
  have "\<not> c"
  proof
    assume c
    have d: "fold (demote_step now) (Order ?s) (?s, False) = (?s, False)"
    proof -
      obtain s1 c1 where e: "fold (demote_step now) (Order ?s) (?s, False) = (s1, c1)" by fastforce
      from demote_fold[OF e] p(2) show ?thesis by (auto simp: e misplaced_def)
    qed
    have u: "fold (raise_step now) (Order ?s) (?s, False) = (?s, False)"
    proof -
      obtain s1 c1 where e: "fold (raise_step now) (Order ?s) (?s, False) = (s1, c1)" by fastforce
      from raise_fold[OF e] p(2) show ?thesis by (auto simp: e misplaced_def)
    qed
    have "fold (close_step now) xs (?s, False) = (?s, False)" if "set xs \<subseteq> set (Order s)" for xs
      using that
    proof (induction xs)
      case (Cons i xs)
      with p(3) have "close_step now i (?s, False) = (?s, False)"
        by (auto simp: close_step_def split: option.splits)
      with Cons show ?case by simp
    qed simp
    with d u r \<open>c\<close> p(1) show False by (simp add: promote_round_def)
  qed
  with r round_result(2)[OF r] show ?thesis by (subst promote.simps) simp
qed

section \<open>What promotion never touches\<close>

text \<open>
  A promoted task differs only in its status, its error and the two times; a task that is held
  or has ended does not differ at all.
\<close>

definition promoted :: "task \<Rightarrow> task \<Rightarrow> bool" where
  "promoted t t' \<longleftrightarrow>
     t' = t\<lparr>Status := Status t', Error := Error t', UpdatedAt := UpdatedAt t', CompletedAt := CompletedAt t'\<rparr> \<and>
     (terminal (Status t) \<or> heldStatus (Status t) \<longrightarrow> t' = t) \<and>
     (Status t' = Status t \<or> Status t' \<in> {StatusPending, StatusReady} \<or>
      Composite t \<and> Status t' \<in> {StatusDone, StatusFailed})"

lemma promoted_refl [simp]: "promoted t t"
  by (simp add: promoted_def)

lemma promoted_step:
  assumes p: "promoted t u" and n: "\<not> terminal (Status u)" "\<not> heldStatus (Status u)"
    and v: "v = u\<lparr>Status := Status v, Error := Error v, UpdatedAt := UpdatedAt v, CompletedAt := CompletedAt v\<rparr>"
    and st: "Status v \<in> {StatusPending, StatusReady} \<or> Composite u \<and> Status v \<in> {StatusDone, StatusFailed}"
  shows "promoted t v"
proof -
  from p have u: "u = t\<lparr>Status := Status u, Error := Error u, UpdatedAt := UpdatedAt u, CompletedAt := CompletedAt u\<rparr>"
    by (simp add: promoted_def)
  have "v = t\<lparr>Status := Status v, Error := Error v, UpdatedAt := UpdatedAt v, CompletedAt := CompletedAt v\<rparr>"
    by (subst v, subst u) simp
  moreover have "Composite u = Composite t" by (subst u) simp
  moreover have "\<not> terminal (Status t) \<and> \<not> heldStatus (Status t)" using p n by (auto simp: promoted_def)
  ultimately show ?thesis using st by (auto simp: promoted_def)
qed

lemma close_task_shape:
  "close_task s i t now = t\<lparr>Status := Status (close_task s i t now), Error := Error (close_task s i t now),
     UpdatedAt := UpdatedAt (close_task s i t now), CompletedAt := CompletedAt (close_task s i t now)\<rparr>"
  "Status (close_task s i t now) \<in> {StatusDone, StatusFailed}"
  by (simp_all add: close_task_def Let_def split: option.split)

definition promoted_from :: "plan_state \<Rightarrow> plan_state \<Rightarrow> bool" where
  "promoted_from s s' \<longleftrightarrow>
     s' = s\<lparr>Tasks := Tasks s'\<rparr> \<and> task_ids s' = task_ids s \<and>
     (\<forall>i t'. task_at s' i = Some t' \<longrightarrow> (\<exists>t. task_at s i = Some t \<and> promoted t t'))"

lemma promoted_from_put:
  assumes f: "promoted_from s0 s" and u: "task_at s i = Some u"
    and n: "\<not> terminal (Status u)" "\<not> heldStatus (Status u)"
    and v: "v = u\<lparr>Status := Status v, Error := Error v, UpdatedAt := UpdatedAt v, CompletedAt := CompletedAt v\<rparr>"
    and st: "Status v \<in> {StatusPending, StatusReady} \<or> Composite u \<and> Status v \<in> {StatusDone, StatusFailed}"
  shows "promoted_from s0 (put_task i v s)"
proof -
  from f u obtain t where t: "task_at s0 i = Some t" "promoted t u" by (auto simp: promoted_from_def)
  have "promoted t v" by (rule promoted_step[OF t(2) n v st])
  moreover have "put_task i v s = s0\<lparr>Tasks := Tasks (put_task i v s)\<rparr>"
  proof -
    have s: "s = s0\<lparr>Tasks := Tasks s\<rparr>" using f by (simp add: promoted_from_def)
    show ?thesis by (subst (1) s) (simp add: put_task_def)
  qed
  ultimately show ?thesis using f t(1) u by (auto simp: promoted_from_def task_at_put)
qed

lemma promote_frame: "promoted_from s (promote now s)"
proof (rule promote_invariant[where P = "promoted_from s"])
  show "promoted_from s s" by (auto simp: promoted_from_def)
next
  fix s1 i t
  assume p: "promoted_from s s1" and t: "task_at s1 i = Some t"
  { assume "Status t = StatusReady"
    then show "promoted_from s (put_task i (t\<lparr>Status := StatusPending, UpdatedAt := now\<rparr>) s1)"
      by (intro promoted_from_put[OF p t]) simp_all }
  { assume "Status t = StatusPending"
    then show "promoted_from s (put_task i (t\<lparr>Status := StatusReady, UpdatedAt := now\<rparr>) s1)"
      by (intro promoted_from_put[OF p t]) simp_all }
  { assume c: "closable s1 i t"
    show "promoted_from s (put_task i (close_task s1 i t now) s1)"
    proof (rule promoted_from_put[OF p t])
      show "\<not> terminal (Status t)" "\<not> heldStatus (Status t)" using c by (auto simp: closable_def)
      show "close_task s1 i t now = t\<lparr>Status := Status (close_task s1 i t now), Error := Error (close_task s1 i t now),
          UpdatedAt := UpdatedAt (close_task s1 i t now), CompletedAt := CompletedAt (close_task s1 i t now)\<rparr>"
        by (rule close_task_shape(1))
      show "Status (close_task s1 i t now) \<in> {StatusPending, StatusReady} \<or>
          Composite t \<and> Status (close_task s1 i t now) \<in> {StatusDone, StatusFailed}"
        using c close_task_shape(2)[of s1 i t now] by (auto simp: closable_def)
    qed }
qed

end
