(* ===== verification/PlanWf.thy ===== *)
theory PlanWf
  imports PlanSpec PlanPromote
begin

text \<open>
  The laws a stored plan keeps: \<^verbatim>\<open>validateLoadedState\<close> of \<^verbatim>\<open>internal/plandb/persist.go\<close>, the
  declarative invariant \<^verbatim>\<open>plan_wf\<close> it decides, and the relation \<^verbatim>\<open>same_shape\<close> under which a
  change keeps it. \<^verbatim>\<open>plan_inv\<close> is what every operation of the store is proved to preserve.
\<close>

section \<open>The check every load makes\<close>

fun orderErr :: "plan_state \<Rightarrow> string list \<Rightarrow> string list \<Rightarrow> load_error option" where
  "orderErr s seen [] = None"
| "orderErr s seen (i # is) =
     (if i \<in> set seen \<or> task_at s i = None then Some (BadOrder i) else orderErr s (i # seen) is)"

definition loadTaskErr :: "plan_state \<Rightarrow> string \<times> task \<Rightarrow> load_error option" where
  "loadTaskErr s = (\<lambda>(i, t).
     if i \<noteq> ID t then Some (KeyMismatch i (ID t))
     else if \<not> validStatus (Status t) then Some (InvalidStatus i (Status t))
     else case (if i \<noteq> RootID s
                then (case validateSpec t of
                        Some e \<Rightarrow> Some (SpecOf i e)
                      | None \<Rightarrow> if task_at s (ParentID t) = None then Some (UnknownParentOf i (ParentID t))
                               else None)
                else None) of
            Some e \<Rightarrow> Some e
          | None \<Rightarrow> firstErr (\<lambda>d. if task_at s (dep_TaskID d) = None
                                   then Some (UnknownDependencyOf i (dep_TaskID d)) else None) (Dependencies t))"

definition compositeErr :: "plan_state \<Rightarrow> string \<times> task \<Rightarrow> load_error option" where
  "compositeErr s = (\<lambda>(i, t).
     if Composite t \<noteq> list_ex (\<lambda>c. ParentID c = i) (task_list s) then Some (InconsistentComposite i) else None)"

definition validateLoadedState :: "plan_state \<Rightarrow> load_error option" where
  "validateLoadedState s =
     (let root = task_at s (RootID s) in
      if root = None \<and> RootID s \<in> Deleted s \<and> length (Tasks s) = 0 then None
      else case root of
        None \<Rightarrow> Some RootMissing
      | Some r \<Rightarrow>
          if ParentID r \<noteq> '''' then Some RootMissing
          else case orderErr s [] (Order s) of
            Some e \<Rightarrow> Some e
          | None \<Rightarrow>
              if length (remdups (Order s)) \<noteq> length (Tasks s) then Some OrderIncomplete
              else case firstErr (loadTaskErr s) (Tasks s) of
                Some e \<Rightarrow> Some e
              | None \<Rightarrow>
                  (case validateGraphs s of
                     Some e \<Rightarrow> Some (BadGraph e)
                   | None \<Rightarrow> firstErr (compositeErr s) (Tasks s)))"

section \<open>What it decides\<close>

definition has_child :: "plan_state \<Rightarrow> string \<Rightarrow> bool" where
  "has_child s i \<longleftrightarrow> (\<exists>j u. task_at s j = Some u \<and> ParentID u = i)"

definition task_wf :: "plan_state \<Rightarrow> string \<Rightarrow> task \<Rightarrow> bool" where
  "task_wf s i t \<longleftrightarrow> ID t = i \<and> validStatus (Status t) \<and>
     (i \<noteq> RootID s \<longrightarrow> validateSpec t = None \<and> task_at s (ParentID t) \<noteq> None) \<and>
     (\<forall>d\<in>set (Dependencies t). task_at s (dep_TaskID d) \<noteq> None) \<and>
     (Composite t \<longleftrightarrow> has_child s i)"

definition plan_wf :: "plan_state \<Rightarrow> bool" where
  "plan_wf s \<longleftrightarrow>
     Tasks s = [] \<and> RootID s \<in> Deleted s \<or>
     (\<exists>r. task_at s (RootID s) = Some r \<and> ParentID r = '''') \<and>
     distinct (Order s) \<and> set (Order s) = set (task_ids s) \<and>
     (\<forall>i t. task_at s i = Some t \<longrightarrow> task_wf s i t) \<and> graphs_ok s"

lemma orderErr_None: "orderErr s seen is = None \<longleftrightarrow>
    distinct is \<and> set is \<inter> set seen = {} \<and> set is \<subseteq> set (task_ids s)"
  by (induction s seen "is" rule: orderErr.induct) (auto simp: task_ids_iff)

lemma orderErr_complete:
  assumes "rep_ok s" and "orderErr s [] (Order s) = None"
  shows "length (remdups (Order s)) = length (Tasks s) \<longleftrightarrow> set (Order s) = set (task_ids s)"
proof -
  from assms(2) have d: "distinct (Order s)" "set (Order s) \<subseteq> set (task_ids s)"
    by (simp_all add: orderErr_None)
  have dt: "distinct (task_ids s)" using assms(1) by (simp add: rep_ok_def task_ids_def)
  have "length (remdups (Order s)) = card (set (Order s))" by (simp add: length_remdups_card_conv)
  moreover have "length (Tasks s) = card (set (task_ids s))"
    using distinct_card[OF dt] by (simp add: length_task_ids)
  ultimately show ?thesis using d(2) by (metis card_subset_eq finite_set)
qed

lemma Tasks_iff: "rep_ok s \<Longrightarrow> (i, t) \<in> set (Tasks s) \<longleftrightarrow> task_at s i = Some t"
  by (simp add: rep_ok_def task_at_def)

lemma firstErr_Tasks_None:
  "rep_ok s \<Longrightarrow> firstErr f (Tasks s) = None \<longleftrightarrow> (\<forall>i t. task_at s i = Some t \<longrightarrow> f (i, t) = None)"
  by (auto simp: Tasks_iff[symmetric])

lemma loadTaskErr_None:
  "loadTaskErr s (i, t) = None \<longleftrightarrow> ID t = i \<and> validStatus (Status t) \<and>
     (i \<noteq> RootID s \<longrightarrow> validateSpec t = None \<and> task_at s (ParentID t) \<noteq> None) \<and>
     (\<forall>d\<in>set (Dependencies t). task_at s (dep_TaskID d) \<noteq> None)"
  by (auto simp: loadTaskErr_def split: option.splits if_splits)

lemma list_ex_child: "rep_ok s \<Longrightarrow> list_ex (\<lambda>c. ParentID c = i) (task_list s) \<longleftrightarrow> has_child s i"
  unfolding list_ex_iff has_child_def Bex_def using task_list_iff by blast

lemma compositeErr_None:
  "rep_ok s \<Longrightarrow> compositeErr s (i, t) = None \<longleftrightarrow> (Composite t \<longleftrightarrow> has_child s i)"
  by (auto simp: compositeErr_def list_ex_child)

lemma validateLoadedState_None_iff:
  assumes r: "rep_ok s"
  shows "validateLoadedState s = None \<longleftrightarrow> plan_wf s"
proof (cases "task_at s (RootID s)")
  case None
  then show ?thesis by (auto simp: validateLoadedState_def plan_wf_def)
next
  case (Some t)
  then have ne: "Tasks s \<noteq> []" by (auto simp: task_at_def)
  have "validateLoadedState s = None \<longleftrightarrow> ParentID t = '''' \<and> orderErr s [] (Order s) = None \<and>
      length (remdups (Order s)) = length (Tasks s) \<and> firstErr (loadTaskErr s) (Tasks s) = None \<and>
      validateGraphs s = None \<and> firstErr (compositeErr s) (Tasks s) = None"
    unfolding validateLoadedState_def Some Let_def by (simp del: firstErr_None_iff)
  also have "\<dots> \<longleftrightarrow> ParentID t = '''' \<and> (distinct (Order s) \<and> set (Order s) = set (task_ids s)) \<and>
      (\<forall>i t. task_at s i = Some t \<longrightarrow> loadTaskErr s (i, t) = None) \<and>
      graphs_ok s \<and> (\<forall>i t. task_at s i = Some t \<longrightarrow> compositeErr s (i, t) = None)"
    unfolding firstErr_Tasks_None[OF r] validateGraphs_None_iff[OF r]
    using orderErr_complete[OF r] by (auto simp: orderErr_None)
  also have "\<dots> \<longleftrightarrow> plan_wf s"
    unfolding plan_wf_def loadTaskErr_None compositeErr_None[OF r] task_wf_def using Some ne by auto
  finally show ?thesis .
qed

text \<open>
  The check of a load asks whether the parents and the dependencies are known before it searches
  for cycles, so the search of a load never reads a nil task.
\<close>

lemma load_never_panics:
  assumes "rep_ok s"
  shows "validateLoadedState s \<noteq> Some (BadGraph (DependencyGraph NilTask))"
    and "validateLoadedState s \<noteq> Some (BadGraph (ContainmentGraph NilTask))"
proof -
  { fix g assume g: "validateLoadedState s = Some (BadGraph g)" "g = DependencyGraph NilTask \<or> g = ContainmentGraph NilTask"
    have o: "orderErr s seen is \<noteq> Some (BadGraph g)" for seen "is" g
      by (induction s seen "is" rule: orderErr.induct) auto
    have l: "loadTaskErr s p \<noteq> Some (BadGraph g)" for p g
      by (cases p) (auto simp: loadTaskErr_def split: option.splits if_splits dest!: firstErr_Some_in)
    have c: "compositeErr s p \<noteq> Some (BadGraph g)" for p g
      by (cases p) (auto simp: compositeErr_def)
    obtain r where r: "task_at s (RootID s) = Some r" "ParentID r = ''''" "firstErr (loadTaskErr s) (Tasks s) = None"
      "validateGraphs s = Some g"
      using g(1) o l c by (auto simp: validateLoadedState_def Let_def simp del: firstErr_None_iff split: option.splits if_splits
          dest!: firstErr_Some_in)
    have k: "\<forall>i t. task_at s i = Some t \<longrightarrow> loadTaskErr s (i, t) = None"
      using r(3) unfolding firstErr_Tasks_None[OF assms] .
    have pe: "edges_closed s parent_edges"
      unfolding edges_closed_def parent_edges_def
    proof (intro allI impI ballI)
      fix i t j assume "task_at s i = Some t" "j \<in> set (if ParentID t = '''' then [] else [ParentID t])"
      with k r(1,2) show "task_at s j \<noteq> None" by (cases "i = RootID s") (auto simp: loadTaskErr_None split: if_splits)
    qed
    have "edges_closed s hard_deps" using k by (auto simp: edges_closed_def hard_deps_def loadTaskErr_None)
    with detectCycle_closed validateGraphs_nil[OF pe] r(4) g(2) have False by (auto simp: graphErr_NilDeref) }
  then show "validateLoadedState s \<noteq> Some (BadGraph (DependencyGraph NilTask))"
    "validateLoadedState s \<noteq> Some (BadGraph (ContainmentGraph NilTask))" by blast+
qed

text \<open>
  What \<^verbatim>\<open>loadState\<close> accepts: the version, a project and a root with a name, and the laws. (A
  nameless root would make every climb endless.) An order over no tasks is empty: \<^verbatim>\<open>loadTasks\<close>
  reads both from the same rows.
\<close>

definition stateVersion :: nat where "stateVersion = 2"

definition plan_inv :: "plan_state \<Rightarrow> bool" where
  "plan_inv s \<longleftrightarrow> rep_ok s \<and> Version s = stateVersion \<and> RootID s \<noteq> '''' \<and> PlanProject s \<noteq> '''' \<and>
     (Tasks s = [] \<longrightarrow> Order s = []) \<and> validateLoadedState s = None"

lemma plan_inv_iff: "plan_inv s \<longleftrightarrow>
    rep_ok s \<and> Version s = stateVersion \<and> RootID s \<noteq> '''' \<and> PlanProject s \<noteq> '''' \<and>
    (Tasks s = [] \<longrightarrow> Order s = []) \<and> plan_wf s"
  using validateLoadedState_None_iff by (auto simp: plan_inv_def)

lemma plan_invD:
  assumes "plan_inv s" and "task_at s i = Some t"
  shows "rep_ok s" "graphs_ok s" "task_wf s i t" "distinct (Order s)" "set (Order s) = set (task_ids s)"
    "\<exists>r. task_at s (RootID s) = Some r \<and> ParentID r = ''''" "RootID s \<noteq> ''''" "i \<in> set (Order s)"
proof -
  have "Tasks s \<noteq> []" using assms(2) by (auto simp: task_at_def)
  with assms(1) have w: "rep_ok s" "RootID s \<noteq> ''''" "distinct (Order s)" "set (Order s) = set (task_ids s)"
      "\<exists>r. task_at s (RootID s) = Some r \<and> ParentID r = ''''"
      "\<forall>i t. task_at s i = Some t \<longrightarrow> task_wf s i t" "graphs_ok s"
    by (auto simp: plan_inv_iff plan_wf_def)
  then show "rep_ok s" "graphs_ok s" "task_wf s i t" "distinct (Order s)" "set (Order s) = set (task_ids s)"
    "\<exists>r. task_at s (RootID s) = Some r \<and> ParentID r = ''''" "RootID s \<noteq> ''''"
    using assms(2) by blast+
  from w(4) assms(2) show "i \<in> set (Order s)" by (auto simp: task_ids_iff)
qed

lemma plan_inv_ID: "plan_inv s \<Longrightarrow> task_at s i = Some t \<Longrightarrow> ID t = i"
  using plan_invD(3) by (auto simp: task_wf_def)

text \<open>The laws of the order hold of every accepted plan, the deleted run's empty one included.\<close>

lemma plan_inv_order:
  assumes "plan_inv s"
  shows "distinct (Order s)" "set (Order s) = set (task_ids s)"
  using assms by (auto simp: plan_inv_iff plan_wf_def task_ids_def)

lemma plan_inv_tree:
  assumes "plan_inv s"
  shows "tree_ok s"
proof (cases "Tasks s = []")
  case True
  then show ?thesis by (auto simp: tree_ok_def edges_closed_def edge_rel_def acyclic_def task_at_def)
next
  case False
  then obtain p ps where "Tasks s = p # ps" by (cases "Tasks s") auto
  then have it: "task_at s (fst p) = Some (snd p)" by (simp add: task_at_def)
  note w = plan_invD[OF assms it]
  have "task_at s '''' = None"
  proof (rule ccontr)
    assume "task_at s '''' \<noteq> None"
    then obtain u where "task_at s '''' = Some u" by blast
    from plan_invD(3)[OF assms this] w(7) show False by (auto simp: task_wf_def validateSpec_def split: if_splits)
  qed
  with w(2) show ?thesis by (simp add: tree_ok_def graphs_ok_def)
qed

end
