(* ===== verification/PlanChange.thy ===== *)
theory PlanChange
  imports PlanWf
begin

text \<open>
  How a change reaches the plan: \<^verbatim>\<open>transact\<close> and \<^verbatim>\<open>changeTask\<close> of \<^verbatim>\<open>internal/plandb/store.go\<close>,
  over a storage that loads and saves whole plans, and the interface every operation of the
  store meets (the locale \<^verbatim>\<open>plan_operation\<close>): what it returns still passes the check the next
  load makes. A change is a function of the fresh plan and the time; an error is \<^verbatim>\<open>Inl\<close>.
\<close>

section \<open>Changes that leave the shape of the plan alone\<close>

definition keeps :: "task \<Rightarrow> task \<Rightarrow> bool" where
  "keeps t t' \<longleftrightarrow> ID t' = ID t \<and> ParentID t' = ParentID t \<and> Dependencies t' = Dependencies t \<and>
     Composite t' = Composite t \<and> (validateSpec t = None \<longrightarrow> validateSpec t' = None) \<and>
     (validStatus (Status t) \<longrightarrow> validStatus (Status t'))"

definition same_shape :: "plan_state \<Rightarrow> plan_state \<Rightarrow> bool" where
  "same_shape s s' \<longleftrightarrow>
     Version s' = Version s \<and> PlanProject s' = PlanProject s \<and> RootID s' = RootID s \<and>
     Order s' = Order s \<and> Deleted s' = Deleted s \<and> task_ids s' = task_ids s \<and>
     (\<forall>i t'. task_at s' i = Some t' \<longrightarrow> (\<exists>t. task_at s i = Some t \<and> keeps t t'))"

lemma keeps_refl [simp]: "keeps t t"
  by (simp add: keeps_def)

lemma keeps_ID: "keeps t t' \<Longrightarrow> ID t' = ID t"
  by (simp add: keeps_def)

lemma keeps_trans: "keeps t u \<Longrightarrow> keeps u v \<Longrightarrow> keeps t v"
  by (simp add: keeps_def)

text \<open>The fields beside the spec and the composite flag move freely.\<close>

lemma validateSpec_update [simp]:
  "validateSpec (t\<lparr>Status := st\<rparr>) = validateSpec t" "validateSpec (t\<lparr>Error := x\<rparr>) = validateSpec t"
  "validateSpec (t\<lparr>UpdatedAt := n\<rparr>) = validateSpec t" "validateSpec (t\<lparr>CompletedAt := n\<rparr>) = validateSpec t"
  "validateSpec (t\<lparr>Composite := b\<rparr>) = validateSpec t" "validateSpec (t\<lparr>Paused := b\<rparr>) = validateSpec t"
  "validateSpec (t\<lparr>Waiting := b\<rparr>) = validateSpec t" "validateSpec (t\<lparr>WaitedAt := n\<rparr>) = validateSpec t"
  "validateSpec (t\<lparr>Project := x\<rparr>) = validateSpec t" "validateSpec (t\<lparr>Chat := x\<rparr>) = validateSpec t"
  "validateSpec (t\<lparr>ClaimedBy := x\<rparr>) = validateSpec t" "validateSpec (t\<lparr>Owner := x\<rparr>) = validateSpec t"
  "validateSpec (t\<lparr>SeenAt := n\<rparr>) = validateSpec t" "validateSpec (t\<lparr>Result := x\<rparr>) = validateSpec t"
  "validateSpec (t\<lparr>Artifacts := xs\<rparr>) = validateSpec t" "validateSpec (t\<lparr>Evidence := xs\<rparr>) = validateSpec t"
  "validateSpec (t\<lparr>VerdictBasis := vb\<rparr>) = validateSpec t"
  by (simp_all add: validateSpec_def)

lemma same_shape_refl [simp]: "same_shape s s"
  by (simp add: same_shape_def)

lemma same_shape_trans: "same_shape s s' \<Longrightarrow> same_shape s' s'' \<Longrightarrow> same_shape s s''"
  unfolding same_shape_def by (metis keeps_trans)

lemma same_shape_put:
  "task_at s i = Some t \<Longrightarrow> keeps t t' \<Longrightarrow> same_shape s (put_task i t' s)"
  by (auto simp: same_shape_def task_at_put)

lemma same_shape_upd: "(\<And>t. keeps t (f t)) \<Longrightarrow> same_shape s (upd_task i f s)"
  by (simp add: upd_task_def same_shape_put split: option.split)

lemma same_shape_fold:
  "(\<And>x s. same_shape s (f x s)) \<Longrightarrow> same_shape s (fold f xs s)"
proof (induction xs arbitrary: s)
  case (Cons x xs)
  from Cons.prems[of s x] Cons.IH[OF Cons.prems, of "f x s"] show ?case
    by (simp add: same_shape_trans)
qed simp

lemma same_shape_fields:
  "same_shape s (s\<lparr>Notes := ns\<rparr>)" "same_shape s (s\<lparr>Contexts := cs\<rparr>)" "same_shape s (s\<lparr>NextID := n\<rparr>)"
  by (auto simp: same_shape_def task_at_def task_ids_def)

lemma same_shape_back: "same_shape s s' \<Longrightarrow> task_at s' i = Some t' \<Longrightarrow> \<exists>t. task_at s i = Some t \<and> keeps t t'"
  by (simp add: same_shape_def)

lemma same_shape_task: "same_shape s s' \<Longrightarrow> task_at s i = Some t \<Longrightarrow> \<exists>t'. task_at s' i = Some t' \<and> keeps t t'"
proof -
  assume s: "same_shape s s'" and t: "task_at s i = Some t"
  then have "i \<in> set (task_ids s')" by (auto simp: same_shape_def task_ids_iff)
  then obtain t' where t': "task_at s' i = Some t'" by (auto simp: task_ids_iff)
  from same_shape_back[OF s t'] t t' show ?thesis by auto
qed

lemma same_shape_rep_ok: "same_shape s s' \<Longrightarrow> rep_ok s' = rep_ok s"
  by (simp add: same_shape_def rep_ok_def task_ids_def)

lemma same_shape_edges:
  assumes s: "same_shape s s'" and e: "\<And>t t'. keeps t t' \<Longrightarrow> edges t' = edges t"
  shows "edge_rel s' edges = edge_rel s edges" "edges_closed s' edges = edges_closed s edges"
proof -
  have iff: "(\<exists>t'. task_at s' i = Some t' \<and> P (edges t')) \<longleftrightarrow> (\<exists>t. task_at s i = Some t \<and> P (edges t))" for i P
  proof
    assume "\<exists>t'. task_at s' i = Some t' \<and> P (edges t')"
    then obtain t' where t': "task_at s' i = Some t'" "P (edges t')" by blast
    from same_shape_back[OF s t'(1)] obtain t where t: "task_at s i = Some t" "keeps t t'" by blast
    with t' e[OF t(2)] show "\<exists>t. task_at s i = Some t \<and> P (edges t)" by auto
  next
    assume "\<exists>t. task_at s i = Some t \<and> P (edges t)"
    then obtain t where t: "task_at s i = Some t" "P (edges t)" by blast
    with same_shape_task[OF s t(1)] obtain t' where "task_at s' i = Some t'" "keeps t t'" by blast
    with t e show "\<exists>t'. task_at s' i = Some t' \<and> P (edges t')" by auto
  qed
  have none: "task_at s' j = None \<longleftrightarrow> task_at s j = None" for j
    using same_shape_task[OF s, of j] same_shape_back[OF s, of j]
    by (cases "task_at s j"; cases "task_at s' j") auto
  show "edge_rel s' edges = edge_rel s edges"
    unfolding edge_rel_def using iff[of _ "\<lambda>es. _ \<in> set es"] by auto
  have "edges_closed s' edges \<longleftrightarrow> (\<forall>i. \<not> (\<exists>t'. task_at s' i = Some t' \<and> (\<exists>j\<in>set (edges t'). task_at s j = None)))"
    by (auto simp: edges_closed_def none)
  also have "\<dots> \<longleftrightarrow> edges_closed s edges"
    using iff[of _ "\<lambda>es. \<exists>j\<in>set es. task_at s j = None"] by (auto simp: edges_closed_def)
  finally show "edges_closed s' edges = edges_closed s edges" .
qed

lemma keeps_edges:
  "keeps t t' \<Longrightarrow> hard_deps t' = hard_deps t" "keeps t t' \<Longrightarrow> parent_edges t' = parent_edges t"
  by (simp_all add: keeps_def hard_deps_def parent_edges_def)

lemma same_shape_graphs:
  assumes s: "same_shape s s'" and g: "graphs_ok s"
  shows "graphs_ok s'"
proof -
  have e: "hard_rel s' = hard_rel s" "edges_closed s' hard_deps = edges_closed s hard_deps"
    "parent_rel s' = parent_rel s" "edges_closed s' parent_edges = edges_closed s parent_edges"
    by (rule same_shape_edges[OF s], erule keeps_edges)+
  have "(ID t', j) \<notin> (parent_rel s)\<^sup>+ \<and> (j, ID t') \<notin> (parent_rel s)\<^sup>+"
    if t': "task_at s' i = Some t'" and j: "j \<in> set (hard_deps t')" for i t' j
  proof -
    from same_shape_back[OF s t'] obtain t where t: "task_at s i = Some t" "keeps t t'" by blast
    have "j \<in> set (hard_deps t)" "ID t' = ID t"
      using j keeps_edges(1)[OF t(2)] keeps_ID[OF t(2)] by simp_all
    with g t(1) show ?thesis by (auto simp: graphs_ok_def)
  qed
  with g show ?thesis unfolding graphs_ok_def e by blast
qed

lemma same_shape_has_child: "same_shape s s' \<Longrightarrow> has_child s' i \<longleftrightarrow> has_child s i"
proof -
  assume s: "same_shape s s'"
  show ?thesis
  proof
    assume "has_child s' i"
    then obtain j u' where "task_at s' j = Some u'" "ParentID u' = i" by (auto simp: has_child_def)
    with s show "has_child s i" unfolding has_child_def same_shape_def keeps_def by metis
  next
    assume "has_child s i"
    then obtain j u where u: "task_at s j = Some u" "ParentID u = i" by (auto simp: has_child_def)
    with same_shape_task[OF s u(1)] show "has_child s' i" by (auto simp: has_child_def keeps_def)
  qed
qed

theorem same_shape_inv:
  assumes inv: "plan_inv s" and s: "same_shape s s'"
  shows "plan_inv s'"
proof -
  have base: "rep_ok s'" "RootID s' \<noteq> ''''" "Version s' = stateVersion" "PlanProject s' \<noteq> ''''"
    "Tasks s' = [] \<longrightarrow> Order s' = []"
    using inv s same_shape_rep_ok[OF s] by (auto simp: plan_inv_iff same_shape_def task_ids_def)
  have "plan_wf s'"
  proof (cases "Tasks s = []")
    case True
    with inv s have "Tasks s' = []" "RootID s \<in> Deleted s"
      by (auto simp: plan_inv_iff plan_wf_def same_shape_def task_ids_def task_at_def)
    with s show ?thesis by (auto simp: plan_wf_def same_shape_def)
  next
    case False
    then obtain p ps where "Tasks s = p # ps" by (cases "Tasks s") auto
    then have it: "task_at s (fst p) = Some (snd p)" by (simp add: task_at_def)
    note w = plan_invD[OF inv it]
    obtain r where r: "task_at s (RootID s) = Some r" "ParentID r = ''''" using w(6) by blast
    have "\<exists>r'. task_at s' (RootID s') = Some r' \<and> ParentID r' = ''''"
      using same_shape_task[OF s r(1)] s r(2) by (auto simp: same_shape_def keeps_def)
    moreover have "task_wf s' i t'" if t': "task_at s' i = Some t'" for i t'
    proof -
      from same_shape_back[OF s t'] obtain t where t: "task_at s i = Some t" "keeps t t'" by blast
      have k: "ID t' = ID t" "ParentID t' = ParentID t" "Dependencies t' = Dependencies t"
        "Composite t' = Composite t" "validateSpec t = None \<Longrightarrow> validateSpec t' = None"
        "validStatus (Status t) \<Longrightarrow> validStatus (Status t')"
        using t(2) by (auto simp: keeps_def)
      have ex: "task_at s j \<noteq> None \<Longrightarrow> task_at s' j \<noteq> None" for j
        using same_shape_task[OF s, of j] by fastforce
      have root: "RootID s' = RootID s" using s by (simp add: same_shape_def)
      from plan_invD(3)[OF inv t(1)] show ?thesis
        unfolding task_wf_def k(1-4) root same_shape_has_child[OF s] using k(5,6) ex by blast
    qed
    moreover have "graphs_ok s'" by (rule same_shape_graphs[OF s w(2)])
    ultimately show ?thesis using w(4,5) s by (auto simp: plan_wf_def same_shape_def)
  qed
  with base show ?thesis by (simp add: plan_inv_iff)
qed

lemma promoted_keeps: "promoted t t' \<Longrightarrow> keeps t t'"
proof -
  assume p: "promoted t t'"
  then have e: "t' = t\<lparr>Status := Status t', Error := Error t', UpdatedAt := UpdatedAt t', CompletedAt := CompletedAt t'\<rparr>"
    by (simp add: promoted_def)
  have "ID t' = ID t" "ParentID t' = ParentID t" "Dependencies t' = Dependencies t" "Composite t' = Composite t"
    "validateSpec t' = validateSpec t"
    by (subst e, simp)+
  with p show ?thesis by (auto simp: keeps_def promoted_def)
qed

lemma same_shape_promote [simp]: "same_shape s (promote now s)"
proof -
  note f = promote_frame[of s now, unfolded promoted_from_def]
  have e: "promote now s = s\<lparr>Tasks := Tasks (promote now s)\<rparr>" using f by blast
  have "Version (promote now s) = Version s" "PlanProject (promote now s) = PlanProject s"
    "RootID (promote now s) = RootID s" "Order (promote now s) = Order s" "Deleted (promote now s) = Deleted s"
    by (subst e, simp)+
  with f promoted_keeps show ?thesis unfolding same_shape_def by blast
qed

lemma same_shape_promoteI: "same_shape s s' \<Longrightarrow> same_shape s (promote now s')"
  by (rule same_shape_trans[OF _ same_shape_promote])

end
