(* ===== verification/PlanStore.thy ===== *)
theory PlanStore
  imports PlanChange
begin

text \<open>
  The store's handle and its one write road: \<^verbatim>\<open>Store\<close>, \<^verbatim>\<open>beginWrite\<close>, \<^verbatim>\<open>transact\<close>, \<^verbatim>\<open>refresh\<close>,
  \<^verbatim>\<open>changeTask\<close> and \<^verbatim>\<open>Close\<close> of \<^verbatim>\<open>internal/plandb/store.go\<close>. The database is an argument (\<^verbatim>\<open>'db\<close>)
  with the two functions that read and rewrite the whole plan in it; \<^verbatim>\<open>PlanPersist\<close> provides
  them. What the operating system decides is the record \<^verbatim>\<open>io\<close>: whether the write lock was
  obtained before the deadline, and whether the commit and the read succeeded. A change is a function of
  the fresh plan; an operation of the store is \<^verbatim>\<open>transact\<close> of its change.
\<close>

section \<open>The handle\<close>

record store =
  data :: plan_state
  closed :: bool

record io =
  io_lock :: bool
  io_commit :: bool
  io_read :: bool

definition errIfClosed :: "store \<Rightarrow> plan_error option" where
  "errIfClosed st = (if closed st then Some ErrClosed else None)"

text \<open>\<^verbatim>\<open>beginWrite\<close> retries a busy database until its deadline; \<^verbatim>\<open>io_lock\<close> is how that ended.\<close>

definition beginWrite :: "io \<Rightarrow> store \<Rightarrow> plan_error option" where
  "beginWrite w st =
     (case errIfClosed st of Some e \<Rightarrow> Some e | None \<Rightarrow> if io_lock w then None else Some StoreBusy)"

definition transact :: "('db \<Rightarrow> plan_error + plan_state) \<Rightarrow> (plan_state \<Rightarrow> 'db \<Rightarrow> plan_error + 'db) \<Rightarrow>
    io \<Rightarrow> (plan_state \<Rightarrow> plan_error + plan_state) \<Rightarrow> store \<Rightarrow> 'db \<Rightarrow> plan_error option \<times> store \<times> 'db" where
  "transact load save w change st db =
     (case beginWrite w st of
        Some e \<Rightarrow> (Some e, st, db)
      | None \<Rightarrow>
          (case load db of
             Inl e \<Rightarrow> (Some e, st, db)
           | Inr fresh \<Rightarrow>
               let st1 = st\<lparr>data := fresh\<rparr> in
               (case change fresh of
                  Inl e \<Rightarrow> if e = ErrNoChange then (None, st1, db) else (Some e, st1, db)
                | Inr nxt \<Rightarrow>
                    (case save nxt db of
                       Inl e \<Rightarrow> (Some e, st1, db)
                     | Inr db' \<Rightarrow> if io_commit w then (None, st1\<lparr>data := nxt\<rparr>, db')
                                 else (Some CommitFailed, st1, db)))))"

definition refresh :: "('db \<Rightarrow> plan_error + plan_state) \<Rightarrow> io \<Rightarrow> store \<Rightarrow> 'db \<Rightarrow> store" where
  "refresh load w st db =
     (if closed st \<or> \<not> io_read w then st
      else case load db of Inl e \<Rightarrow> st | Inr fresh \<Rightarrow> st\<lparr>data := fresh\<rparr>)"

definition Close :: "store \<Rightarrow> store" where
  "Close st = st\<lparr>closed := True\<rparr>"

definition changeTask :: "string \<Rightarrow> (plan_state \<Rightarrow> task \<Rightarrow> plan_error + plan_state) \<Rightarrow>
    plan_state \<Rightarrow> plan_error + plan_state" where
  "changeTask i change s =
     (case task_at s i of None \<Rightarrow> Inl (TaskNotFound i) | Some t \<Rightarrow> change s t)"

lemma changeTask_Inr [simp]:
  "changeTask i change s = Inr s' \<longleftrightarrow> (\<exists>t. task_at s i = Some t \<and> change s t = Inr s')"
  by (simp add: changeTask_def split: option.split)

section \<open>What a write promises\<close>

lemma transact_closed: "closed st \<Longrightarrow> transact load save w change st db = (Some ErrClosed, st, db)"
  by (simp add: transact_def beginWrite_def errIfClosed_def)

lemma transact_error_keeps_db:
  "transact load save w change st db = (Some e, st', db') \<Longrightarrow> db' = db"
  by (auto simp: transact_def Let_def split: option.splits sum.splits if_splits)

lemma transact_commit:
  assumes "transact load save w change st db = (None, st', db')"
  obtains fresh where "load db = Inr fresh" "change fresh = Inl ErrNoChange" "db' = db" "data st' = fresh"
  | fresh nxt where "load db = Inr fresh" "change fresh = Inr nxt" "save nxt db = Inr db'" "data st' = nxt"
  using assms by (auto simp: transact_def Let_def split: option.splits sum.splits if_splits)

lemma transact_ignores_memory:
  assumes "closed st1 = closed st2"
  shows "fst (transact load save w change st1 db) = fst (transact load save w change st2 db) \<and>
    snd (snd (transact load save w change st1 db)) = snd (snd (transact load save w change st2 db))"
  using assms by (auto simp: transact_def beginWrite_def errIfClosed_def Let_def split: sum.splits)

section \<open>The interface of an operation\<close>

text \<open>
  What a saved plan reads back as: the tasks may be listed in another order, a live task has no
  archive moment, a note with no author is a worker's, and tombstones are only ever added.
\<close>

definition signed :: "plan_note \<Rightarrow> plan_note" where
  "signed n = n\<lparr>note_From := orElse (note_From n) NoteFromWorker\<rparr>"

definition reads_back :: "plan_state \<Rightarrow> plan_state \<Rightarrow> bool" where
  "reads_back s s' \<longleftrightarrow> Version s' = Version s \<and> PlanProject s' = PlanProject s \<and> RootID s' = RootID s \<and>
     Order s' = Order s \<and> NextID s' = NextID s \<and> Contexts s' = Contexts s \<and> Notes s' = map signed (Notes s) \<and>
     Deleted s \<subseteq> Deleted s' \<and> (\<forall>i. task_at s' i = map_option (\<lambda>t. t\<lparr>ArchivedAt := 0\<rparr>) (task_at s i))"

locale plan_operation =
  fixes op :: "'a \<Rightarrow> time \<Rightarrow> plan_state \<Rightarrow> plan_error + plan_state"
  assumes op_inv: "plan_inv s \<Longrightarrow> op a now s = Inr s' \<Longrightarrow> plan_inv s'"
    and op_run: "op a now s = Inr s' \<Longrightarrow> RootID s' = RootID s \<and> PlanProject s' = PlanProject s"

locale plan_storage =
  fixes load :: "'db \<Rightarrow> plan_error + plan_state"
    and save :: "plan_state \<Rightarrow> 'db \<Rightarrow> plan_error + 'db"
  assumes load_inv: "load db = Inr s \<Longrightarrow> plan_inv s"
    and load_normal: "load db = Inr s \<Longrightarrow> reads_back s s"
    and save_load: "plan_inv s \<Longrightarrow> save s db = Inr db' \<Longrightarrow> \<exists>s2. load db' = Inr s2 \<and> reads_back s s2"

locale stored_operation = plan_storage load save + plan_operation op
  for load :: "'db \<Rightarrow> plan_error + plan_state" and save
    and op :: "'a \<Rightarrow> time \<Rightarrow> plan_state \<Rightarrow> plan_error + plan_state"
begin

text \<open>A write never leaves a database the next load refuses, and never changes whose plan it is.\<close>

lemma readable_after:
  assumes "load db = Inr s" and "transact load save w (op a now) st db = (r, st', db')"
  shows "\<exists>s'. load db' = Inr s' \<and> RootID s' = RootID s \<and> PlanProject s' = PlanProject s"
proof (cases r)
  case (Some e)
  with assms transact_error_keeps_db[of load save w "op a now" st db e st' db'] show ?thesis by auto
next
  case None
  with assms(2) have t: "transact load save w (op a now) st db = (None, st', db')" by simp
  show ?thesis
  proof (rule transact_commit[OF t])
    assume "db' = db"
    with assms(1) show ?thesis by auto
  next
    fix fresh nxt
    assume l: "load db = Inr fresh" and c: "op a now fresh = Inr nxt" and sv: "save nxt db = Inr db'"
    have "plan_inv nxt" using op_inv[OF load_inv[OF l] c] .
    from save_load[OF this sv] obtain s2 where s2: "load db' = Inr s2" "reads_back nxt s2" by blast
    have "RootID nxt = RootID s \<and> PlanProject nxt = PlanProject s" using op_run[OF c] l assms(1) by simp
    moreover have "RootID s2 = RootID nxt \<and> PlanProject s2 = PlanProject nxt"
      using s2(2) by (simp add: reads_back_def)
    ultimately show ?thesis using s2(1) by auto
  qed
qed

text \<open>After a write that was not refused the handle holds the plan the database holds.\<close>

lemma memory_is_database:
  assumes "transact load save w (op a now) st db = (None, st', db')"
  shows "\<exists>s2. load db' = Inr s2 \<and> reads_back (data st') s2"
proof (rule transact_commit[OF assms])
  fix fresh assume "load db = Inr fresh" "db' = db" "data st' = fresh"
  then show ?thesis using load_normal by auto
next
  fix fresh nxt
  assume l: "load db = Inr fresh" and c: "op a now fresh = Inr nxt" and sv: "save nxt db = Inr db'"
    and d: "data st' = nxt"
  from save_load[OF op_inv[OF load_inv[OF l] c] sv] d show ?thesis by auto
qed

end

text \<open>The operations whose change leaves the shape alone meet the interface.\<close>

lemma shape_operation:
  assumes "\<And>a now s s'. op a now s = Inr s' \<Longrightarrow> same_shape s s'"
  shows "plan_operation op"
proof
  fix s a now s' assume "plan_inv s" "op a now s = Inr s'"
  with assms show "plan_inv s'" by (blast intro: same_shape_inv)
next
  fix a now s s' assume "op a now s = Inr s'"
  with assms have "same_shape s s'" by blast
  then show "RootID s' = RootID s \<and> PlanProject s' = PlanProject s" by (simp add: same_shape_def)
qed

end
