(* ===== verification/PlanVerdict.thy ===== *)
theory PlanVerdict
  imports PlanSpec
begin

text \<open>
  How a review verdict is earned: \<^verbatim>\<open>isReviewConclusion\<close>, \<^verbatim>\<open>recordedRuns\<close> and
  \<^verbatim>\<open>checkVerdictBasis\<close> of \<^verbatim>\<open>internal/plandb/store.go\<close>. The trajectory file and the JSON
  decoding of one of its lines are the record \<^verbatim>\<open>traj_world\<close>.
\<close>

record traj_step =
  ts_Kind :: string
  ts_Command :: string
  ts_ExitCode :: "int option"
  ts_ExitsRecorded :: bool

text \<open>\<^verbatim>\<open>tw_read\<close>: a task's \<^verbatim>\<open>trajectory.jsonl\<close>, None where it cannot be read. \<^verbatim>\<open>tw_line\<close>: None where a line does not decode.\<close>

record traj_world =
  tw_read :: "string \<Rightarrow> string option"
  tw_line :: "string \<Rightarrow> traj_step option"

text \<open>\<^verbatim>\<open>strings.Split(data, "\n")\<close>\<close>

fun splitLines :: "string \<Rightarrow> string list" where
  "splitLines [] = [[]]"
| "splitLines (c # s) =
     (if c = CHR 0x0A then [] # splitLines s
      else (case splitLines s of [] \<Rightarrow> [[c]] | l # ls \<Rightarrow> (c # l) # ls))"

text \<open>The belt's \<^verbatim>\<open>cd <absolute root> && \<close> wrapper, and nothing else, is taken off a command.\<close>

definition stripWrapper :: "string \<Rightarrow> string" where
  "stripWrapper raw =
     (let command = TrimSpace raw in
      case Cut command '' && '' of
        None \<Rightarrow> command
      | Some (pre, inner) \<Rightarrow>
          (case Fields pre of
             [a, b] \<Rightarrow> if a = ''cd'' \<and> HasPrefix b ''/'' then TrimSpace inner else command
           | _ \<Rightarrow> command))"

type_synonym runs = "(string \<times> int) list \<times> bool \<times> bool"

definition readLine :: "traj_world \<Rightarrow> string \<Rightarrow> runs \<Rightarrow> runs" where
  "readLine w line r =
     (case r of (out, newBuild, hasRecord) \<Rightarrow>
       (case tw_line w line of
          None \<Rightarrow> (out, newBuild, hasRecord)
        | Some st \<Rightarrow>
            let stamped = (newBuild \<or> ts_ExitsRecorded st) in
            if ts_Kind st \<noteq> ''step'' then (out, stamped, True)
            else (case ts_ExitCode st of
                    None \<Rightarrow> (out, stamped, True)
                  | Some code \<Rightarrow> (AList.update (stripWrapper (ts_Command st)) code out, True, True))))"

definition recordedRuns :: "traj_world \<Rightarrow> string \<Rightarrow> runs" where
  "recordedRuns w i =
     (case tw_read w i of
        None \<Rightarrow> ([], False, False)
      | Some contents \<Rightarrow> fold (readLine w) (splitLines contents) ([], False, False))"

fun verdictRuns :: "(string \<times> int) list \<Rightarrow> string list \<Rightarrow> string list \<Rightarrow> verdict_run list \<times> bool" where
  "verdictRuns recorded seen [] = ([], True)"
| "verdictRuns recorded seen (raw # raws) =
     (let command = TrimSpace raw in
      if command = '''' \<or> command \<in> set seen then verdictRuns recorded seen raws
      else let (runs, earned) = verdictRuns recorded (command # seen) raws;
               ok = auditableDeclaredCheck command
           in (case map_of recorded command of
                 None \<Rightarrow> (runs, False)
               | Some exit \<Rightarrow> (\<lparr>vr_Command = command, vr_ExitCode = exit\<rparr> # runs,
                               earned \<and> ok \<and> exit = 0)))"

definition checkVerdictBasis :: "traj_world \<Rightarrow> task \<Rightarrow> verdict_basis \<times> bool" where
  "checkVerdictBasis w t =
     (if Checks t = [] then (\<lparr>vb_Kind = ''reading'', vb_Runs = [], vb_Unobserved = []\<rparr>, True)
      else case recordedRuns w (ID t) of (recorded, newBuild, hasRecord) \<Rightarrow>
        if \<not> newBuild then
          (if \<not> hasRecord
           then (\<lparr>vb_Kind = ''reading'', vb_Runs = [], vb_Unobserved = Checks t\<rparr>, False)
           else (\<lparr>vb_Kind = ''reading'', vb_Runs = [], vb_Unobserved = Checks t\<rparr>, True))
        else (case verdictRuns recorded [] (Checks t) of (runs, earned) \<Rightarrow>
                (\<lparr>vb_Kind = ''run'', vb_Runs = runs, vb_Unobserved = []\<rparr>, earned)))"

definition isReviewConclusion :: "string \<Rightarrow> bool" where
  "isReviewConclusion result =
     (let r = TrimSpace result in HasPrefix r ''holds:'' \<or> HasPrefix r ''does not hold:'')"

section \<open>What an earned verdict rests on\<close>

lemma verdictRuns_earned:
  "snd (verdictRuns recorded seen raws) \<longleftrightarrow>
     (\<forall>raw\<in>set raws. TrimSpace raw = '''' \<or> TrimSpace raw \<in> set seen \<or>
        auditableDeclaredCheck (TrimSpace raw) \<and> map_of recorded (TrimSpace raw) = Some 0)"
proof (induction raws arbitrary: seen)
  case (Cons raw raws)
  show ?case
  proof (cases "TrimSpace raw = '''' \<or> TrimSpace raw \<in> set seen")
    case True
    with Cons show ?thesis by (auto simp: Let_def)
  next
    case False
    obtain runs earned where v: "verdictRuns recorded (TrimSpace raw # seen) raws = (runs, earned)" by fastforce
    with Cons[of "TrimSpace raw # seen"] have e: "earned \<longleftrightarrow>
       (\<forall>r\<in>set raws. TrimSpace r = '''' \<or> TrimSpace r = TrimSpace raw \<or> TrimSpace r \<in> set seen \<or>
          auditableDeclaredCheck (TrimSpace r) \<and> map_of recorded (TrimSpace r) = Some 0)" by auto
    show ?thesis
    proof (cases "map_of recorded (TrimSpace raw)")
      case None
      with False v show ?thesis by (auto simp: Let_def)
    next
      case (Some exit)
      with False v have "snd (verdictRuns recorded seen (raw # raws)) \<longleftrightarrow>
          earned \<and> auditableDeclaredCheck (TrimSpace raw) \<and> exit = 0" by (auto simp: Let_def)
      with e Some False show ?thesis by auto
    qed
  qed
qed simp

lemma verdictRuns_recorded:
  "r \<in> set (fst (verdictRuns recorded seen raws)) \<Longrightarrow> map_of recorded (vr_Command r) = Some (vr_ExitCode r)"
proof (induction raws arbitrary: seen)
  case (Cons raw raws)
  show ?case
  proof (cases "TrimSpace raw = '''' \<or> TrimSpace raw \<in> set seen")
    case True
    with Cons show ?thesis by (auto simp: Let_def)
  next
    case False
    obtain runs earned where v: "verdictRuns recorded (TrimSpace raw # seen) raws = (runs, earned)" by fastforce
    with Cons.IH[of "TrimSpace raw # seen"] Cons.prems False show ?thesis
      by (auto simp: Let_def split: option.splits)
  qed
qed simp

text \<open>
  A declaration is earned by a new record only when every declared command passed the gate and
  its last recorded run exited zero; with nothing observed it is never earned.
\<close>

lemma verdict_earned:
  assumes "checkVerdictBasis w t = (basis, True)" and "Checks t \<noteq> []"
  obtains (run) recorded has where "recordedRuns w (ID t) = (recorded, True, has)" "vb_Kind basis = ''run''"
      "\<forall>raw\<in>set (Checks t). TrimSpace raw = '''' \<or>
         auditableDeclaredCheck (TrimSpace raw) \<and> map_of recorded (TrimSpace raw) = Some 0"
  | (old) recorded where "recordedRuns w (ID t) = (recorded, False, True)" "vb_Unobserved basis = Checks t"
proof -
  obtain recorded newBuild has where r: "recordedRuns w (ID t) = (recorded, newBuild, has)"
    by (metis prod_cases3)
  obtain runs earned where v: "verdictRuns recorded [] (Checks t) = (runs, earned)" by fastforce
  show ?thesis
  proof (cases newBuild)
    case True
    with assms r v have "earned" "vb_Kind basis = ''run''" by (auto simp: checkVerdictBasis_def)
    with verdictRuns_earned[of recorded "[]" "Checks t"] v r True show ?thesis by (intro run) auto
  next
    case False
    with assms r have "has" "vb_Unobserved basis = Checks t"
      by (auto simp: checkVerdictBasis_def split: if_splits)
    with r False show ?thesis by (intro old) auto
  qed
qed

lemma no_record_never_earned:
  "Checks t \<noteq> [] \<Longrightarrow> tw_read w (ID t) = None \<Longrightarrow> \<not> snd (checkVerdictBasis w t)"
  by (simp add: checkVerdictBasis_def recordedRuns_def)

end
