(* ===== verification/PlanLifecycle.thy ===== *)
theory PlanLifecycle
  imports PlanStore PlanVerdict
begin

text \<open>
  A task's life: the operations of \<^verbatim>\<open>internal/plandb/store.go\<close> that move one task between
  statuses. Each is the change its method hands \<^verbatim>\<open>transact\<close>, on the fresh plan and the time
  of the write; \<^verbatim>\<open>upd\<close> is the assignment through the task's pointer.
\<close>

abbreviation upd :: "string \<Rightarrow> (task \<Rightarrow> task) \<Rightarrow> plan_state \<Rightarrow> plan_state" where
  "upd \<equiv> upd_task"

abbreviation work :: "work_error \<Rightarrow> plan_error" where
  "work \<equiv> WorkRefused"

section \<open>Who may write to a task\<close>

definition requireOwner :: "task \<Rightarrow> string \<Rightarrow> plan_error option" where
  "requireOwner t agent0 =
     (let agent = TrimSpace agent0 in
      if ClaimedBy t = '''' then Some (work (NotClaimed (ID t)))
      else if agent = '''' \<or> agent \<noteq> ClaimedBy t then Some (work (OwnedBy (ID t) (ClaimedBy t)))
      else None)"

definition refuseParked :: "task \<Rightarrow> plan_error option" where
  "refuseParked t = refuse (Waiting t) (work (ParkedTask (ID t)))"

lemma requireOwner_None:
  "requireOwner t agent = None \<longleftrightarrow> ClaimedBy t \<noteq> '''' \<and> ClaimedBy t = TrimSpace agent"
  by (auto simp: requireOwner_def Let_def)

section \<open>Claiming\<close>

definition claimant :: "string \<Rightarrow> string list \<Rightarrow> string" where
  "claimant agent owner =
     (case owner of [] \<Rightarrow> TrimSpace agent
      | o1 # _ \<Rightarrow> if TrimSpace o1 \<noteq> '''' then TrimSpace o1 else TrimSpace agent)"

definition claimed :: "string \<Rightarrow> string list \<Rightarrow> time \<Rightarrow> task \<Rightarrow> task" where
  "claimed agent owner now t =
     t\<lparr>Status := StatusRunning, ClaimedBy := TrimSpace agent, UpdatedAt := now,
       Owner := claimant agent owner, SeenAt := now\<rparr>"

definition Claim :: "string \<Rightarrow> string \<Rightarrow> string list \<Rightarrow> time \<Rightarrow> plan_state \<Rightarrow> plan_error + plan_state" where
  "Claim i agent owner now = changeTask i (\<lambda>s t.
     orFail (refuse (Status t \<noteq> StatusReady \<or> Composite t) (work (NotRunnableLeaf i)))
     (orFail (refuse (TrimSpace agent = '''') (work AgentRequired))
     (Inr (upd i (claimed agent owner now) s))))"

definition ClaimWake :: "string \<Rightarrow> string \<Rightarrow> string list \<Rightarrow> time \<Rightarrow> plan_state \<Rightarrow> plan_error + plan_state" where
  "ClaimWake i agent owner now = changeTask i (\<lambda>s t.
     orFail (refuse (Status t \<noteq> StatusReady \<or> \<not> Composite t) (work (NotReadyComposite i)))
     (orFail (refuse (TrimSpace agent = '''') (work AgentRequired))
     (Inr (upd i (claimed agent owner now) s))))"

section \<open>Ending\<close>

definition rootWorker :: "plan_state \<Rightarrow> string \<Rightarrow> string \<Rightarrow> bool" where
  "rootWorker s i agent = (i = RootID s \<and> TrimSpace agent = i)"

text \<open>A finish the store wrote for a composite nobody had finished.\<close>

definition placeholder :: "task \<Rightarrow> bool" where
  "placeholder t = (Status t = StatusDone \<and> TrimSpace (Result t) = '''' \<and> ClaimedBy t = '''')"

definition verdictStep :: "traj_world \<Rightarrow> task \<Rightarrow> string \<Rightarrow> plan_error + task" where
  "verdictStep w t txt =
     (if Role t = RoleCheck \<and> isReviewConclusion txt
      then (case checkVerdictBasis w t of (basis, earned) \<Rightarrow>
              if HasPrefix txt ''holds:'' \<and> \<not> earned then Inl (work HoldsUnearned)
              else Inr (t\<lparr>VerdictBasis := basis\<rparr>))
      else Inr t)"

definition ownFinish :: "plan_state \<Rightarrow> string \<Rightarrow> string \<Rightarrow> task \<Rightarrow> plan_error option" where
  "ownFinish s i agent t =
     (if placeholder t then None
      else case (if rootWorker s i agent then None else requireOwner t agent) of
        Some e \<Rightarrow> Some e
      | None \<Rightarrow>
          (case canFinish s t of
             Some e \<Rightarrow> Some (work e)
           | None \<Rightarrow> refuse (\<not> rootWorker s i agent \<and> \<not> heldStatus (Status t))
                      (work (CannotComplete i (Status t)))))"

definition Done :: "traj_world \<Rightarrow> string \<Rightarrow> string \<Rightarrow> string \<Rightarrow> string list \<Rightarrow> string list \<Rightarrow>
    time \<Rightarrow> plan_state \<Rightarrow> plan_error + plan_state" where
  "Done w i agent result artifacts evidence now = changeTask i (\<lambda>s t.
     orFail (refuseParked t)
     (orFail (refuse (\<not> placeholder t \<and> terminal (Status t)) (work (AlreadyTerminal i)))
     (case verdictStep w t (TrimSpace result) of
        Inl e \<Rightarrow> Inl e
      | Inr t1 \<Rightarrow>
          orFail (refuse (length result > 65536) (work ResultTooLong))
          (orFail (refuse (i = RootID s \<and> \<not> rootWorker s i agent) (work HarnessOwnsRootCompletion))
          (orFail (ownFinish s i agent t)
          (orFail (refuse (EvidenceRequirements t \<noteq> [] \<and> cleanStrings evidence = []) (work (EvidenceRequired i)))
          (Inr (promote now (put_task i
             (t1\<lparr>Status := StatusDone, Result := result, ClaimedBy := TrimSpace agent,
                 Artifacts := cleanStrings artifacts, Evidence := cleanStrings evidence,
                 UpdatedAt := now, CompletedAt := now\<rparr>) s)))))))))"

definition SetVerdictBasis :: "string \<Rightarrow> verdict_basis \<Rightarrow> plan_state \<Rightarrow> plan_error + plan_state" where
  "SetVerdictBasis i basis = changeTask i (\<lambda>s t. Inr (upd i (\<lambda>t. t\<lparr>VerdictBasis := basis\<rparr>) s))"

definition Fail :: "string \<Rightarrow> string \<Rightarrow> string \<Rightarrow> time \<Rightarrow> plan_state \<Rightarrow> plan_error + plan_state" where
  "Fail i agent message now = changeTask i (\<lambda>s t.
     orFail (refuseParked t)
     (orFail (refuse (length message > 32768) (work FailureTooLong))
     (orFail (refuse (i = RootID s) (work HarnessOwnsRoot))
     (orFail (refuse (terminal (Status t)) (work (AlreadyTerminal i)))
     (orFail (requireOwner t agent)
     (Inr (promote now (upd i (\<lambda>t. t\<lparr>Status := StatusFailed, Error := message,
                                     UpdatedAt := now, CompletedAt := now\<rparr>) s))))))))"

definition Release :: "string \<Rightarrow> string \<Rightarrow> time \<Rightarrow> plan_state \<Rightarrow> plan_error + plan_state" where
  "Release i agent now = changeTask i (\<lambda>s t.
     orFail (refuse (i = RootID s) (work HarnessOwnsRoot))
     (orFail (refuse (\<not> (Status t = StatusClaimed \<or> Status t = StatusRunning)) (work (NotHeld i)))
     (orFail (requireOwner t agent)
     (Inr (promote now (upd i (\<lambda>t. t\<lparr>Status := StatusPending, ClaimedBy := '''', UpdatedAt := now,
                                     Owner := '''', SeenAt := 0\<rparr>) s))))))"

section \<open>Waiting\<close>

definition openWaits :: "plan_state \<Rightarrow> task \<Rightarrow> string list" where
  "openWaits s t =
     sort (map dep_TaskID (filter (\<lambda>d. case task_at s (dep_TaskID d) of None \<Rightarrow> True
                                        | Some u \<Rightarrow> Status u \<noteq> StatusDone) (Dependencies t)) @
           filter (\<lambda>i. case task_at s i of None \<Rightarrow> False
                       | Some c \<Rightarrow> ParentID c = ID t \<and> \<not> terminal (Status c)) (Order s))"

definition OpenWaits :: "plan_state \<Rightarrow> string \<Rightarrow> string list" where
  "OpenWaits s i = (case task_at s i of None \<Rightarrow> [] | Some t \<Rightarrow> openWaits s t)"

definition Wait :: "string \<Rightarrow> string \<Rightarrow> time \<Rightarrow> plan_state \<Rightarrow> plan_error + plan_state" where
  "Wait i agent now = changeTask i (\<lambda>s t.
     orFail (if rootWorker s i agent then None
             else case requireOwner t agent of Some e \<Rightarrow> Some e
                  | None \<Rightarrow> refuse (\<not> heldStatus (Status t)) (work (NotHeld i)))
     (orFail (refuse (openWaits s t = []) (work (NothingToWaitFor i)))
     (Inr (promote now (upd i (\<lambda>t. t\<lparr>Waiting := True, WaitedAt := now, ClaimedBy := '''', Owner := '''',
                                     SeenAt := 0, Status := StatusPending\<rparr>) s)))))"

definition Wake :: "string \<Rightarrow> time \<Rightarrow> plan_state \<Rightarrow> plan_error + plan_state" where
  "Wake i now = changeTask i (\<lambda>s t.
     if \<not> Waiting t then Inr s
     else Inr (upd i (\<lambda>t. t\<lparr>Waiting := False, WaitedAt := 0, UpdatedAt := now\<rparr>) s))"

section \<open>The heartbeat and the claims it keeps alive\<close>

definition holds_claim :: "string \<Rightarrow> task \<Rightarrow> bool" where
  "holds_claim owner t = (Owner t = owner \<and> heldStatus (Status t))"

definition ownsHeld :: "plan_state \<Rightarrow> string \<Rightarrow> bool" where
  "ownsHeld s owner =
     list_ex (\<lambda>i. case task_at s i of None \<Rightarrow> False | Some t \<Rightarrow> holds_claim owner t) (Order s)"

definition touch_step :: "string \<Rightarrow> time \<Rightarrow> string \<Rightarrow> plan_state \<times> nat \<Rightarrow> plan_state \<times> nat" where
  "touch_step owner now i = (\<lambda>(s, touched).
     (case task_at s i of
        None \<Rightarrow> (s, touched)
      | Some t \<Rightarrow> if holds_claim owner t then (put_task i (t\<lparr>SeenAt := now\<rparr>) s, touched + 1) else (s, touched)))"

text \<open>The change of \<^verbatim>\<open>TouchClaims\<close>; the method first returns where the owner is blank or holds nothing.\<close>

definition touchChange :: "string \<Rightarrow> time \<Rightarrow> plan_state \<Rightarrow> plan_error + plan_state" where
  "touchChange owner now s =
     (case fold (touch_step owner now) (Order s) (s, 0) of
        (s', touched) \<Rightarrow> if touched = 0 then Inl ErrNoChange else Inr s')"

definition TouchClaims :: "string \<Rightarrow> time \<Rightarrow> plan_state \<Rightarrow> plan_error + plan_state" where
  "TouchClaims owner0 now s =
     (let owner = TrimSpace owner0 in
      if owner = '''' \<or> \<not> ownsHeld s owner then Inl ErrNoChange else touchChange owner now s)"

definition StaleClaims :: "time \<Rightarrow> time \<Rightarrow> plan_state \<Rightarrow> task list" where
  "StaleClaims olderThan now s =
     (let cutoff = now - olderThan in
      filter (\<lambda>t. \<not> (ID t = RootID s \<or> \<not> heldStatus (Status t)) \<and> SeenAt t < cutoff)
        (List.map_filter (task_at s) (Order s)))"

section \<open>Holding, reopening\<close>

definition hold :: "string \<Rightarrow> bool \<Rightarrow> time \<Rightarrow> plan_state \<Rightarrow> plan_error + plan_state" where
  "hold i0 paused now =
     (let i = bareID i0 in changeTask i (\<lambda>s t.
        orFail (refuse (ID t = RootID s) (work HarnessOwnsRoot))
        (orFail (refuse (Paused t = paused) ErrNoChange)
        (Inr (upd i (\<lambda>t. t\<lparr>Paused := paused, UpdatedAt := now\<rparr>) s)))))"

definition Pause :: "string \<Rightarrow> time \<Rightarrow> plan_state \<Rightarrow> plan_error + plan_state" where
  "Pause i = hold i True"

definition Resume :: "string \<Rightarrow> time \<Rightarrow> plan_state \<Rightarrow> plan_error + plan_state" where
  "Resume i = hold i False"

definition Retry :: "string \<Rightarrow> time \<Rightarrow> plan_state \<Rightarrow> plan_error + plan_state" where
  "Retry i now = changeTask i (\<lambda>s t.
     orFail (refuse (i = RootID s) (work HarnessOwnsRoot))
     (orFail (refuse (Status t \<noteq> StatusFailed) (work (NotFailed i)))
     (Inr (promote now (upd i (\<lambda>t. t\<lparr>Status := StatusPending, Error := '''', ClaimedBy := '''', Owner := '''',
                                     SeenAt := 0, CompletedAt := 0, UpdatedAt := now\<rparr>) s)))))"

section \<open>Every one of them leaves the shape of the plan alone\<close>

lemma same_shape_updI [intro]: "(\<And>t. keeps t (f t)) \<Longrightarrow> same_shape s (upd_task i f s)"
  by (rule same_shape_upd)

lemma same_shape_promote_upd [intro]: "(\<And>t. keeps t (f t)) \<Longrightarrow> same_shape s (promote now (upd_task i f s))"
  by (rule same_shape_promoteI) (rule same_shape_upd)

lemma claimed_keeps [simp]: "keeps t (claimed agent owner now t)"
  by (simp add: claimed_def keeps_def)

lemma Claim_shape: "Claim i agent owner now s = Inr s' \<Longrightarrow> same_shape s s'"
  by (auto simp: Claim_def split: if_splits)

lemma ClaimWake_shape: "ClaimWake i agent owner now s = Inr s' \<Longrightarrow> same_shape s s'"
  by (auto simp: ClaimWake_def split: if_splits)

lemma verdictStep_keeps: "verdictStep w t txt = Inr t1 \<Longrightarrow> \<exists>b. t1 = t\<lparr>VerdictBasis := b\<rparr>"
proof -
  have same: "t = t\<lparr>VerdictBasis := VerdictBasis t\<rparr>" by simp
  assume "verdictStep w t txt = Inr t1"
  then have "t1 = t \<or> (\<exists>b. t1 = t\<lparr>VerdictBasis := b\<rparr>)"
    by (auto simp: verdictStep_def split: if_splits prod.splits)
  with same show ?thesis by metis
qed

lemma Done_cases:
  assumes "Done w i agent result artifacts evidence now s = Inr s'"
  obtains t b where "task_at s i = Some t" "\<not> Waiting t" "placeholder t \<or> \<not> terminal (Status t)"
    "verdictStep w t (TrimSpace result) = Inr (t\<lparr>VerdictBasis := b\<rparr>)" "length result \<le> 65536"
    "i = RootID s \<longrightarrow> rootWorker s i agent" "ownFinish s i agent t = None"
    "EvidenceRequirements t = [] \<or> cleanStrings evidence \<noteq> []"
    "s' = promote now (put_task i (t\<lparr>VerdictBasis := b, Status := StatusDone, Result := result,
        ClaimedBy := TrimSpace agent, Artifacts := cleanStrings artifacts, Evidence := cleanStrings evidence,
        UpdatedAt := now, CompletedAt := now\<rparr>) s)"
proof -
  from assms obtain t t1 where t: "task_at s i = Some t" and v: "verdictStep w t (TrimSpace result) = Inr t1"
    and r: "\<not> Waiting t" "placeholder t \<or> \<not> terminal (Status t)" "length result \<le> 65536"
      "i = RootID s \<longrightarrow> rootWorker s i agent" "ownFinish s i agent t = None"
      "EvidenceRequirements t = [] \<or> cleanStrings evidence \<noteq> []"
    and s': "s' = promote now (put_task i (t1\<lparr>Status := StatusDone, Result := result,
        ClaimedBy := TrimSpace agent, Artifacts := cleanStrings artifacts, Evidence := cleanStrings evidence,
        UpdatedAt := now, CompletedAt := now\<rparr>) s)"
    by (auto simp: Done_def refuseParked_def bindE_Inr)
  from verdictStep_keeps[OF v] obtain b where b: "t1 = t\<lparr>VerdictBasis := b\<rparr>" by blast
  show ?thesis by (rule that[OF t r(1,2) _ r(3-6)]) (use v s' b in simp_all)
qed

lemma Done_shape: "Done w i agent result artifacts evidence now s = Inr s' \<Longrightarrow> same_shape s s'"
proof -
  assume "Done w i agent result artifacts evidence now s = Inr s'"
  then show ?thesis
    by (rule Done_cases) (auto intro!: same_shape_promoteI same_shape_put simp: keeps_def)
qed

lemma SetVerdictBasis_shape: "SetVerdictBasis i basis s = Inr s' \<Longrightarrow> same_shape s s'"
  by (auto simp: SetVerdictBasis_def keeps_def)

lemma Fail_shape: "Fail i agent message now s = Inr s' \<Longrightarrow> same_shape s s'"
  by (auto simp: Fail_def keeps_def split: if_splits)

lemma Release_shape: "Release i agent now s = Inr s' \<Longrightarrow> same_shape s s'"
  by (auto simp: Release_def keeps_def split: if_splits)

lemma Wait_shape: "Wait i agent now s = Inr s' \<Longrightarrow> same_shape s s'"
  by (auto simp: Wait_def keeps_def split: if_splits)

lemma Wake_shape: "Wake i now s = Inr s' \<Longrightarrow> same_shape s s'"
  by (auto simp: Wake_def keeps_def split: if_splits)

lemma hold_shape: "hold i p now s = Inr s' \<Longrightarrow> same_shape s s'"
  by (auto simp: hold_def Let_def keeps_def split: if_splits)

lemma Retry_shape: "Retry i now s = Inr s' \<Longrightarrow> same_shape s s'"
  by (auto simp: Retry_def keeps_def split: if_splits)

lemma touch_step_shape: "same_shape s (fst (touch_step owner now i (s, n)))"
  by (auto simp: touch_step_def intro!: same_shape_put split: option.split) (simp add: keeps_def)

lemma touch_fold_shape: "same_shape (fst r) (fst (fold (touch_step owner now) is r))"
proof (induction "is" arbitrary: r)
  case (Cons i "is")
  from touch_step_shape[of "fst r" owner now i "snd r"] Cons.IH[of "touch_step owner now i r"] show ?case
    by (auto intro: same_shape_trans)
qed simp

lemma TouchClaims_shape: "TouchClaims owner now s = Inr s' \<Longrightarrow> same_shape s s'"
  using touch_fold_shape[of "(s, 0)" "TrimSpace owner" now "Order s"]
  by (auto simp: TouchClaims_def touchChange_def Let_def split: if_splits prod.splits)

section \<open>What the operations promise\<close>

text \<open>An ending, once written, is there after a later change.\<close>

definition endings_kept :: "plan_state \<Rightarrow> plan_state \<Rightarrow> bool" where
  "endings_kept s s' \<longleftrightarrow> (\<forall>i t. task_at s i = Some t \<and> terminal (Status t) \<longrightarrow>
     (\<exists>t'. task_at s' i = Some t' \<and> Status t' = Status t))"

text \<open>Stronger: an ended task is not touched at all.\<close>

definition ended_frozen :: "plan_state \<Rightarrow> plan_state \<Rightarrow> bool" where
  "ended_frozen s s' \<longleftrightarrow> (\<forall>i t. task_at s i = Some t \<and> terminal (Status t) \<longrightarrow> task_at s' i = Some t)"

lemma ended_frozen_refl [simp]: "ended_frozen s s"
  by (simp add: ended_frozen_def)

lemma ended_frozen_trans: "ended_frozen s s' \<Longrightarrow> ended_frozen s' s'' \<Longrightarrow> ended_frozen s s''"
  by (simp add: ended_frozen_def)

lemma ended_frozen_kept: "ended_frozen s s' \<Longrightarrow> endings_kept s s'"
  by (auto simp: ended_frozen_def endings_kept_def)

lemma ended_frozen_put: "task_at s i = Some t \<Longrightarrow> \<not> terminal (Status t) \<Longrightarrow> ended_frozen s (put_task i t' s)"
  by (auto simp: ended_frozen_def task_at_put)

lemma ended_frozen_upd: "task_at s i = Some t \<Longrightarrow> \<not> terminal (Status t) \<Longrightarrow> ended_frozen s (upd_task i f s)"
  by (simp add: upd_task_def ended_frozen_put)

lemma promote_task:
  assumes "task_at s i = Some t"
  shows "\<exists>t'. task_at (promote now s) i = Some t' \<and> promoted t t'"
proof -
  note f = promote_frame[of s now, unfolded promoted_from_def]
  from assms f have "i \<in> set (task_ids (promote now s))" by (metis task_ids_iff)
  then obtain t' where "task_at (promote now s) i = Some t'" by (auto simp: task_ids_iff)
  with f assms show ?thesis by fastforce
qed

lemma promote_settled:
  "task_at s i = Some t \<Longrightarrow> terminal (Status t) \<or> heldStatus (Status t) \<Longrightarrow> task_at (promote now s) i = Some t"
  using promote_task[of s i t now] by (auto simp: promoted_def)

lemma ended_frozen_promote [simp]: "ended_frozen s (promote now s)"
  by (simp add: ended_frozen_def promote_settled)

lemma ended_frozen_promoteI: "ended_frozen s s' \<Longrightarrow> ended_frozen s (promote now s')"
  by (rule ended_frozen_trans[OF _ ended_frozen_promote])

text \<open>A finish is admitted only where the finish law allows it, and only to the task's owner.\<close>

lemma Done_finish_law:
  assumes d: "Done w i agent result artifacts evidence now s = Inr s'"
    and t: "task_at s i = Some t" and np: "\<not> placeholder t"
  shows "canFinish s t = None" and "rootWorker s i agent \<or> ClaimedBy t = TrimSpace agent \<and> heldStatus (Status t)"
  using d
proof (rule Done_cases)
  fix u b assume u: "task_at s i = Some u" and f: "ownFinish s i agent u = None"
  from u t have [simp]: "u = t" by simp
  from f np show "canFinish s t = None" by (auto simp: ownFinish_def split: option.splits)
next
  from d show "rootWorker s i agent \<or> ClaimedBy t = TrimSpace agent \<and> heldStatus (Status t)"
  proof (rule Done_cases)
    fix u b assume u: "task_at s i = Some u" and f: "ownFinish s i agent u = None"
    from u t have [simp]: "u = t" by simp
    from f np show ?thesis
      by (auto simp: ownFinish_def requireOwner_None split: option.splits if_splits)
  qed
qed

lemma Done_result:
  assumes d: "Done w i agent result artifacts evidence now s = Inr s'"
  shows "\<exists>t'. task_at s' i = Some t' \<and> Status t' = StatusDone \<and> Result t' = result \<and>
     ClaimedBy t' = TrimSpace agent \<and> Evidence t' = cleanStrings evidence \<and> CompletedAt t' = now"
  using d
proof (rule Done_cases)
  fix t :: task and b
  let ?t = "t\<lparr>VerdictBasis := b, Status := StatusDone, Result := result, ClaimedBy := TrimSpace agent,
      Artifacts := cleanStrings artifacts, Evidence := cleanStrings evidence, UpdatedAt := now, CompletedAt := now\<rparr>"
  assume s': "s' = promote now (put_task i ?t s)"
  have "task_at (promote now (put_task i ?t s)) i = Some ?t" by (rule promote_settled) simp_all
  then show ?thesis by (auto simp: s')
qed

lemma parked_refused:
  assumes "task_at s i = Some t" and "Waiting t"
  shows "Done w i agent result artifacts evidence now s = Inl (work (ParkedTask (ID t)))"
    and "Fail i agent message now s = Inl (work (ParkedTask (ID t)))"
  using assms by (simp_all add: Done_def Fail_def changeTask_def refuseParked_def orFail_refuse)

lemma Done_holds_earned:
  assumes d: "Done w i agent result artifacts evidence now s = Inr s'" and t: "task_at s i = Some t"
    and c: "Role t = RoleCheck" "HasPrefix (TrimSpace result) ''holds:''"
  shows "snd (checkVerdictBasis w t)"
  using d
proof (rule Done_cases)
  fix u b assume u: "task_at s i = Some u"
    and v: "verdictStep w u (TrimSpace result) = Inr (u\<lparr>VerdictBasis := b\<rparr>)"
  from u t have [simp]: "u = t" by simp
  from v c show ?thesis
    by (auto simp: verdictStep_def isReviewConclusion_def Let_def split: prod.splits if_splits)
qed

lemma Claim_result:
  assumes "Claim i agent owner now s = Inr s'"
  shows "\<exists>t. task_at s i = Some t \<and> Status t = StatusReady \<and> \<not> Composite t \<and>
     s' = put_task i (claimed agent owner now t) s \<and> TrimSpace agent \<noteq> ''''"
  using assms by (auto simp: Claim_def upd_task_def)

lemma claimed_frozen:
  "Claim i agent owner now s = Inr s' \<Longrightarrow> ended_frozen s s'"
  "ClaimWake i agent owner now s = Inr s' \<Longrightarrow> ended_frozen s s'"
  by (auto simp: Claim_def ClaimWake_def intro!: ended_frozen_upd)

lemma Fail_frozen: "Fail i agent message now s = Inr s' \<Longrightarrow> ended_frozen s s'"
  by (auto simp: Fail_def intro!: ended_frozen_promoteI ended_frozen_upd)

lemma Release_frozen: "Release i agent now s = Inr s' \<Longrightarrow> ended_frozen s s'"
  by (auto simp: Release_def intro!: ended_frozen_promoteI ended_frozen_upd)

lemma touch_frozen: "TouchClaims owner now s = Inr s' \<Longrightarrow> ended_frozen s s'"
proof -
  have step: "ended_frozen (fst r) (fst (touch_step o1 now i r))" for o1 i r
    by (cases r) (auto simp: touch_step_def holds_claim_def split: option.splits
        intro!: ended_frozen_put dest: held_not_terminal)
  have "ended_frozen (fst r) (fst (fold (touch_step o1 now) is r))" for o1 "is" r
  proof (induction "is" arbitrary: r)
    case (Cons i "is")
    from ended_frozen_trans[OF step[of r o1 i] Cons.IH[of "touch_step o1 now i r"]] show ?case by simp
  qed simp
  from this[of "(s, 0)" "TrimSpace owner" "Order s"] show "TouchClaims owner now s = Inr s' \<Longrightarrow> ended_frozen s s'"
    by (auto simp: TouchClaims_def touchChange_def Let_def split: if_splits prod.splits)
qed

text \<open>
  A parked task is open: it waits on something, its claim is released, and the ordinary
  promotion does not close it.
\<close>

lemma Wait_result:
  assumes "Wait i agent now s = Inr s'"
  shows "\<exists>t t'. task_at s i = Some t \<and> openWaits s t \<noteq> [] \<and> task_at s' i = Some t' \<and> Waiting t' \<and>
     ClaimedBy t' = '''' \<and> Owner t' = '''' \<and> Status t' \<in> {StatusPending, StatusReady}"
proof -
  let ?f = "\<lambda>t::task. t\<lparr>Waiting := True, WaitedAt := now, ClaimedBy := '''', Owner := '''', SeenAt := 0, Status := StatusPending\<rparr>"
  from assms obtain t where t: "task_at s i = Some t" "openWaits s t \<noteq> []"
    and s': "s' = promote now (upd_task i ?f s)"
    by (auto simp: Wait_def)
  let ?P = "\<lambda>s1. \<exists>u. task_at s1 i = Some u \<and> Waiting u \<and> ClaimedBy u = '''' \<and> Owner u = '''' \<and>
      Status u \<in> {StatusPending, StatusReady}"
  have "?P (promote now (upd_task i ?f s))"
  proof (rule promote_invariant[where P = ?P])
    show "?P (upd_task i ?f s)" using t by (simp add: task_at_upd)
  next
    fix s1 j u assume p: "?P s1" and u: "task_at s1 j = Some u"
    { assume "Status u = StatusReady"
      with p u show "?P (put_task j (u\<lparr>Status := StatusPending, UpdatedAt := now\<rparr>) s1)" by (cases "j = i") auto }
    { assume "Status u = StatusPending"
      with p u show "?P (put_task j (u\<lparr>Status := StatusReady, UpdatedAt := now\<rparr>) s1)" by (cases "j = i") auto }
    { assume "closable s1 j u"
      with p u have "j \<noteq> i" by (auto simp: closable_def)
      with p show "?P (put_task j (close_task s1 j u now) s1)" by auto }
  qed
  with t s' show ?thesis by blast
qed

section \<open>The interface, met\<close>

interpretation claim: plan_operation "\<lambda>(i, agent, owner). Claim i agent owner"
  by (rule shape_operation) (auto intro: Claim_shape)

interpretation claim_wake: plan_operation "\<lambda>(i, agent, owner). ClaimWake i agent owner"
  by (rule shape_operation) (auto intro: ClaimWake_shape)

interpretation finish: plan_operation "\<lambda>(w, i, agent, result, artifacts, evidence). Done w i agent result artifacts evidence"
  by (rule shape_operation) (auto intro: Done_shape)

interpretation set_basis: plan_operation "\<lambda>(i, basis) now. SetVerdictBasis i basis"
  by (rule shape_operation) (auto intro: SetVerdictBasis_shape)

interpretation fail: plan_operation "\<lambda>(i, agent, message). Fail i agent message"
  by (rule shape_operation) (auto intro: Fail_shape)

interpretation release: plan_operation "\<lambda>(i, agent). Release i agent"
  by (rule shape_operation) (auto intro: Release_shape)

interpretation wait: plan_operation "\<lambda>(i, agent). Wait i agent"
  by (rule shape_operation) (auto intro: Wait_shape)

interpretation wake: plan_operation Wake
  by (rule shape_operation) (auto intro: Wake_shape)

interpretation touch: plan_operation TouchClaims
  by (rule shape_operation) (auto intro: TouchClaims_shape)

interpretation hold: plan_operation "\<lambda>(i, paused). hold i paused"
  by (rule shape_operation) (auto intro: hold_shape)

interpretation retry: plan_operation Retry
  by (rule shape_operation) (auto intro: Retry_shape)

end
