(* ===== verification/PlanSamples.thy ===== *)
theory PlanSamples
  imports PlanLifecycle
begin

text \<open>
  Small concrete plans the witnesses evaluate: a run with a root and two leaves, the second
  waiting on the first, and variants of it. \<^verbatim>\<open>demo_eval\<close> unfolds what they are made of.
\<close>

definition leaf :: "string \<Rightarrow> string \<Rightarrow> task" where
  "leaf i p = \<lparr>ID = i, Title = ''a title'', Description = '''', Model = '''', Question = '''', Kind = ''generic'',
     ParentID = p, Dependencies = [], Priority = 0, Capabilities = [], Resources = [], Effect = EffectObserve,
     Parallel = ''safe'', Isolation = ''shared'', Role = RoleWork, ContextInputs = [], Deliverables = [],
     EvidenceRequirements = [], Agent = '''', Acceptance = '''', Checks = [],
     Status = StatusReady, Composite = False, Paused = False, Waiting = False, WaitedAt = 0,
     Project = ''p'', Chat = '''', ClaimedBy = '''', Owner = '''', SeenAt = 0, Result = '''', Error = '''',
     Artifacts = [], Evidence = [], VerdictBasis = noVerdict, CreatedAt = 1, UpdatedAt = 1,
     CompletedAt = 0, ArchivedAt = 0\<rparr>"

definition demo_root :: task where
  "demo_root = (leaf ''root'' '''')\<lparr>Composite := True, Status := StatusRunning, ClaimedBy := ''runtime''\<rparr>"

definition plan_of :: "(string \<times> task) list \<Rightarrow> plan_state" where
  "plan_of ts = \<lparr>Version = 2, PlanProject = ''p'', RootID = ''root'', Tasks = ts, Order = map fst ts,
     Notes = [], Contexts = [], NextID = 1, Deleted = {}\<rparr>"

definition after_a :: "task \<Rightarrow> task" where
  "after_a t = t\<lparr>Dependencies := [\<lparr>dep_TaskID = ''a'', dep_Kind = DepFeedsInto\<rparr>], Status := StatusPending\<rparr>"

definition demo :: plan_state where
  "demo = plan_of [(''root'', demo_root), (''a'', leaf ''a'' ''root''), (''b'', after_a (leaf ''b'' ''root''))]"

text \<open>The same run while a worker holds the first leaf.\<close>

definition demo_held :: plan_state where
  "demo_held = plan_of [(''root'', demo_root),
     (''a'', (leaf ''a'' ''root'')\<lparr>Status := StatusRunning, ClaimedBy := ''a'', Owner := ''host:1'', SeenAt := 3\<rparr>),
     (''b'', after_a (leaf ''b'' ''root''))]"

lemmas spec_eval = validateSpec_def validID_plain idPattern_def HasPrefix_def idHead_def idTail_def oneOf_def validRole_def roleWords_def
  EffectObserve_def RolePlan_def RoleWork_def RoleCheck_def RoleProbe_def DepFeedsInto_def DepSuggests_def

lemmas demo_eval = demo_def demo_held_def plan_of_def demo_root_def leaf_def after_a_def task_at_def task_ids_def
  task_list_def

lemmas ready_eval = depsDone_def climb_fuel_def hardDone_def eval_nat_numeral DepSuggests_def DepFeedsInto_def

lemma demo_valid: "validateLoadedState demo = None"
proof -
  have "detectCycle demo hard_deps = None" "detectCycle demo parent_edges = None"
    by (simp_all add: detectCycle_def demo_eval hard_deps_def parent_edges_def DepSuggests_def DepFeedsInto_def)
  then have "validateGraphs demo = None"
    by (simp add: validateGraphs_def lineageErr_def ancestorOf_def demo_eval DepSuggests_def DepFeedsInto_def eval_nat_numeral)
  then show ?thesis
    by (simp add: validateLoadedState_def loadTaskErr_def compositeErr_def demo_eval spec_eval)
qed

lemma demo_inv: "plan_inv demo"
  using demo_valid by (simp add: plan_inv_def rep_ok_def demo_eval stateVersion_def)

lemma demo_held_shape: "same_shape demo demo_held"
  by (auto simp: same_shape_def demo_eval keeps_def validateSpec_def)

lemma demo_held_inv: "plan_inv demo_held"
  by (rule same_shape_inv[OF demo_inv demo_held_shape])

lemma demo_tasks: "task_at demo ''a'' = Some (leaf ''a'' ''root'')" "task_at demo ''b'' = Some (after_a (leaf ''b'' ''root''))"
  "task_at demo ''root'' = Some demo_root" "set (Order demo) = {''root'', ''a'', ''b''}" "RootID demo = ''root''"
  by (simp_all add: demo_eval)

lemma demo_deps: "depsDone demo (leaf ''a'' ''root'')" "\<not> depsDone demo (after_a (leaf ''b'' ''root''))"
  by (simp_all add: ready_eval demo_eval)

lemma demo_promote: "promote now demo = demo"
proof -
  have "promote_round now demo = (demo, False)"
    by (simp add: promote_round_def demote_step_def raise_step_def close_step_def closable_def
        demo_eval ready_eval)
  then show ?thesis by (subst promote.simps) simp
qed

end
