(* ===== verification/ApprovalLoad.thy ===== *)
theory ApprovalLoad
  imports ApprovalPolicy
begin

text \<open>
  Reading a policy from a settings map: \<^verbatim>\<open>Load\<close>, \<^verbatim>\<open>loadPatterns\<close>, \<^verbatim>\<open>firstPresent\<close> and \<^verbatim>\<open>toList\<close>
  of \<^verbatim>\<open>internal/approval/approval.go\<close>. A decoded settings value (\<^verbatim>\<open>any\<close>) is a \<^verbatim>\<open>gval\<close>.
\<close>

datatype gval =
    GNil | GString string | GMap "(string \<times> gval) list" | GList "gval list"
  | GMapList "(string \<times> gval) list list" | GOther string

type_synonym settings = "(string \<times> gval) list"

datatype load_fault =
    DefaultNotString | BadDefault | ToolsNotMap | ToolNotString string | BadTool string
  | BashNotMap | PatternsNotList | PatternNotMap nat | PatternNoMatch nat | PatternNoApproval nat
  | ApprovalNotString nat | BadApproval nat

fun firstPresent :: "settings \<Rightarrow> string list \<Rightarrow> gval option" where
  "firstPresent raw [] = None"
| "firstPresent raw (k # ks) =
     (case map_of raw k of
        None \<Rightarrow> firstPresent raw ks
      | Some v \<Rightarrow> if v \<noteq> GNil then Some v else firstPresent raw ks)"

fun toList :: "gval \<Rightarrow> gval list option" where
  "toList (GList vs) = Some vs"
| "toList (GMapList ms) = Some (map GMap ms)"
| "toList v = None"

definition loadPattern :: "nat \<Rightarrow> gval \<Rightarrow> load_fault + rule" where
  "loadPattern index item =
     (case item of
        GMap entry \<Rightarrow>
          (let m = (case map_of entry ''match'' of Some (GString t) \<Rightarrow> t | _ \<Rightarrow> '''') in
           if TrimSpace m = '''' then Inl (PatternNoMatch index)
           else (case map_of entry ''approval'' of
                   None \<Rightarrow> Inl (PatternNoApproval index)
                 | Some (GString t) \<Rightarrow>
                     (case ParseAction t of
                        None \<Rightarrow> Inl (BadApproval index)
                      | Some a \<Rightarrow> Inr \<lparr>Match = m, rule_Action = a\<rparr>)
                 | Some v \<Rightarrow> Inl (ApprovalNotString index)))
      | _ \<Rightarrow> Inl (PatternNotMap index))"

fun loadPatternList :: "nat \<Rightarrow> gval list \<Rightarrow> load_fault + rule list" where
  "loadPatternList n [] = Inr []"
| "loadPatternList n (item # items) =
     (case loadPattern n item of
        Inl e \<Rightarrow> Inl e
      | Inr r \<Rightarrow> (case loadPatternList (Suc n) items of Inl e \<Rightarrow> Inl e | Inr rs \<Rightarrow> Inr (r # rs)))"

text \<open>The list the patterns come from: None where neither shape of the key is present.\<close>

definition patternsValue :: "settings \<Rightarrow> load_fault + gval option" where
  "patternsValue raw =
     (case map_of raw ''bash.patterns'' of
        Some v \<Rightarrow> Inr (Some v)
      | None \<Rightarrow>
          (case map_of raw ''bash'' of
             None \<Rightarrow> Inr None
           | Some GNil \<Rightarrow> Inr None
           | Some (GMap section) \<Rightarrow> Inr (map_of section ''patterns'')
           | Some v \<Rightarrow> Inl BashNotMap))"

definition loadPatterns :: "settings \<Rightarrow> load_fault + rule list" where
  "loadPatterns raw =
     (case patternsValue raw of
        Inl e \<Rightarrow> Inl e
      | Inr None \<Rightarrow> Inr []
      | Inr (Some GNil) \<Rightarrow> Inr []
      | Inr (Some v) \<Rightarrow> (case toList v of None \<Rightarrow> Inl PatternsNotList | Some items \<Rightarrow> loadPatternList 0 items))"

definition loadTool :: "settings \<Rightarrow> string \<Rightarrow> (string \<times> action) list \<Rightarrow> load_fault + (string \<times> action) list" where
  "loadTool tools name acc =
     (case map_of tools name of
        Some (GString t) \<Rightarrow>
          (case ParseAction t of None \<Rightarrow> Inl (BadTool name) | Some a \<Rightarrow> Inr (AList.update name a acc))
      | _ \<Rightarrow> Inl (ToolNotString name))"

definition loadTools :: "settings \<Rightarrow> load_fault + (string \<times> action) list" where
  "loadTools raw =
     (case map_of raw ''tools'' of
        None \<Rightarrow> Inr []
      | Some GNil \<Rightarrow> Inr []
      | Some (GMap tools) \<Rightarrow> foldE (loadTool tools) (sort (map fst tools)) []
      | Some v \<Rightarrow> Inl ToolsNotMap)"

definition loadDefault :: "settings \<Rightarrow> load_fault + action" where
  "loadDefault raw =
     (case firstPresent raw [''default'', ''mode''] of
        None \<Rightarrow> Inr (ActionOther '''')
      | Some (GString t) \<Rightarrow> (case ParseAction t of None \<Rightarrow> Inl BadDefault | Some a \<Rightarrow> Inr a)
      | Some v \<Rightarrow> Inl DefaultNotString)"

definition Load :: "settings \<Rightarrow> load_fault + policy" where
  "Load raw =
     (case loadDefault raw of
        Inl e \<Rightarrow> Inl e
      | Inr d \<Rightarrow>
          (case loadTools raw of
             Inl e \<Rightarrow> Inl e
           | Inr ts \<Rightarrow>
               (case loadPatterns raw of
                  Inl e \<Rightarrow> Inl e
                | Inr ps \<Rightarrow> Inr \<lparr>Default = d, Tools = ts, BashPatterns = ps\<rparr>)))"

section \<open>Nothing malformed is skipped\<close>

lemma ParseAction_valid: "ParseAction t = Some a \<Longrightarrow> validAction a"
  by (auto simp: ParseAction_def Let_def split: if_splits)

lemma loadPattern_ok:
  "loadPattern n item = Inr r \<Longrightarrow> validAction (rule_Action r) \<and> TrimSpace (Match r) \<noteq> ''''"
  by (auto simp: loadPattern_def Let_def ParseAction_valid split: gval.splits option.splits if_splits)

lemma loadPatternList_ok:
  "loadPatternList n items = Inr rs \<Longrightarrow> length rs = length items \<and>
     (\<forall>k<length items. \<exists>m. loadPattern m (items ! k) = Inr (rs ! k)) \<and>
     (\<forall>r\<in>set rs. validAction (rule_Action r) \<and> TrimSpace (Match r) \<noteq> '''')"
proof (induction n items arbitrary: rs rule: loadPatternList.induct)
  case (2 n item items)
  from "2.prems" obtain r rs' where r: "loadPattern n item = Inr r"
    and rs': "loadPatternList (Suc n) items = Inr rs'" and rs: "rs = r # rs'"
    by (auto split: sum.splits)
  from "2.IH"[OF r rs'] loadPattern_ok[OF r] r show ?case
    by (auto simp: rs nth_Cons split: nat.splits)
qed simp

lemma loadTool_valid:
  assumes "foldE (loadTool tools) names acc = Inr ts" and "\<forall>a\<in>snd ` set acc. validAction a"
  shows "\<forall>a\<in>snd ` set ts. validAction a"
proof -
  have "\<forall>x\<in>set ts. validAction (snd x)"
  proof (rule foldE_invariant[where P = "\<lambda>ts. \<forall>x\<in>set ts. validAction (snd x)", OF assms(1)])
    show "\<forall>x\<in>set acc. validAction (snd x)" using assms(2) by auto
  next
    fix x s s' assume v: "\<forall>x\<in>set s. validAction (snd x)" and l: "loadTool tools x s = Inr s'"
    from l obtain t a where t: "ParseAction t = Some a" and s': "s' = AList.update x a s"
      by (auto simp: loadTool_def split: option.splits gval.splits)
    have "set s' \<subseteq> insert (x, a) (set s)"
      unfolding s' by (induction s) auto
    with v ParseAction_valid[OF t] show "\<forall>x\<in>set s'. validAction (snd x)" by auto
  qed
  then show ?thesis by auto
qed

lemma Load_rules:
  assumes "Load raw = Inr p"
  shows "(\<forall>r\<in>set (BashPatterns p). validAction (rule_Action r) \<and> TrimSpace (Match r) \<noteq> '''') \<and>
    (\<forall>a\<in>snd ` set (Tools p). validAction a)"
proof -
  from assms have ps: "loadPatterns raw = Inr (BashPatterns p)" and ts: "loadTools raw = Inr (Tools p)"
    by (auto simp: Load_def split: sum.splits)
  from ps have "\<forall>r\<in>set (BashPatterns p). validAction (rule_Action r) \<and> TrimSpace (Match r) \<noteq> ''''"
    by (auto simp: loadPatterns_def dest!: loadPatternList_ok split: sum.splits option.splits gval.splits)
  moreover from ts have "\<forall>a\<in>snd ` set (Tools p). validAction a"
    by (auto simp: loadTools_def dest!: loadTool_valid split: option.splits gval.splits)
  ultimately show ?thesis by blast
qed

text \<open>Every pattern written is a rule, in the order it was written.\<close>

lemma Load_keeps_patterns:
  assumes "Load raw = Inr p" and "map_of raw ''bash.patterns'' = Some v" and "toList v = Some items"
  shows "length (BashPatterns p) = length items \<and>
    (\<forall>k<length items. \<exists>m. loadPattern m (items ! k) = Inr (BashPatterns p ! k))"
proof -
  from assms have "loadPatternList 0 items = Inr (BashPatterns p)"
    by (auto simp: Load_def loadPatterns_def patternsValue_def split: sum.splits gval.splits)
  from loadPatternList_ok[OF this] show ?thesis by blast
qed

end
