(* ===== verification/PlanReadyList.thy ===== *)
theory PlanReadyList
  imports PlanLifecycle
begin

text \<open>
  What can run: \<^verbatim>\<open>ReadyLeaves\<close>, \<^verbatim>\<open>ReadySet\<close> and \<^verbatim>\<open>ClaimNext\<close> of \<^verbatim>\<open>internal/plandb/store.go\<close>, and
  the read road every query of the store takes. A query is a function of the plan; None is the
  panic of a loop over \<^verbatim>\<open>Order\<close> that finds no task under an id, which \<^verbatim>\<open>ordered_inv\<close> rules out
  for every plan a load accepts. \<^verbatim>\<open>uni\<close> is \<^verbatim>\<open>strings.ToLower\<close> beyond ASCII.
\<close>

section \<open>The read road\<close>

definition readPlan :: "('db \<Rightarrow> plan_error + plan_state) \<Rightarrow> io \<Rightarrow> (plan_state \<Rightarrow> 'a) \<Rightarrow> store \<Rightarrow> 'db \<Rightarrow> 'a \<times> store" where
  "readPlan load w q st db = (let st' = refresh load w st db in (q (data st'), st'))"

definition readOpen :: "('db \<Rightarrow> plan_error + plan_state) \<Rightarrow> io \<Rightarrow> (plan_state \<Rightarrow> plan_error + 'a) \<Rightarrow>
    store \<Rightarrow> 'db \<Rightarrow> (plan_error + 'a) \<times> store" where
  "readOpen load w q st db =
     (case errIfClosed st of Some e \<Rightarrow> (Inl e, st) | None \<Rightarrow> readPlan load w q st db)"

section \<open>The tasks in admission order\<close>

definition ordered :: "plan_state \<Rightarrow> (string \<times> task) list option" where
  "ordered s = those (map (\<lambda>i. map_option (Pair i) (task_at s i)) (Order s))"

lemma those_pairs:
  "those (map (\<lambda>i. map_option (Pair i) (f i)) is) =
     (if \<forall>i\<in>set is. f i \<noteq> None then Some (map (\<lambda>i. (i, the (f i))) is) else None)"
  by (induction "is") (auto split: option.splits)

lemma ordered_inv:
  assumes "plan_inv s"
  obtains ps where "ordered s = Some ps" "map fst ps = Order s" "distinct (map fst ps)"
    "\<And>i t. (i, t) \<in> set ps \<longleftrightarrow> task_at s i = Some t"
proof -
  note f = plan_inv_order[OF assms]
  let ?ps = "map (\<lambda>i. (i, the (task_at s i))) (Order s)"
  have "ordered s = Some ?ps" using f(2) by (auto simp: ordered_def those_pairs task_ids_iff)
  moreover have m: "map fst ?ps = Order s" by (simp add: comp_def)
  moreover have "(i, t) \<in> set ?ps \<longleftrightarrow> task_at s i = Some t" for i t
    using f(2) by (auto simp: task_ids_iff)
  moreover have "distinct (map fst ?ps)" using f(1) unfolding m .
  ultimately show ?thesis by (intro that) auto
qed

section \<open>Ready leaves\<close>

definition byPriority :: "task list \<Rightarrow> task list" where
  "byPriority ts = SliceStable (\<lambda>t u. Priority t > Priority u) ts"

text \<open>Which is a stable sort by the negated priority.\<close>

lemma byPriority_key: "byPriority ts = sort_key (\<lambda>t. - Priority t) ts"
  by (simp add: byPriority_def SliceStable_desc)

text \<open>The guard the three loops share, without its look at parked tasks.\<close>

definition dispatchable :: "plan_state \<Rightarrow> task \<Rightarrow> bool" where
  "dispatchable s t = (Status t = StatusReady \<and> \<not> Composite t \<and> \<not> pausedInLineage s t)"

definition ReadyLeaves :: "(string \<Rightarrow> string) \<Rightarrow> plan_state \<Rightarrow> task list option" where
  "ReadyLeaves uni s = map_option (\<lambda>ps. byPriority
     (filter (\<lambda>t. dispatchable s t \<and> \<not> Waiting t \<and> executionBlockReasons uni s t = []) (map snd ps))) (ordered s)"

record ready_set =
  Runnable :: "task list"
  Blocked :: "(task \<times> string list) list"

definition ReadySet :: "(string \<Rightarrow> string) \<Rightarrow> tag_filter list \<Rightarrow> plan_state \<Rightarrow> ready_set option" where
  "ReadySet uni filters s = map_option (\<lambda>ps.
     let offered = filter (\<lambda>t. admits (firstFilter filters) (Project t) (Chat t) \<and> dispatchable s t \<and> \<not> Waiting t)
                     (map snd ps)
     in \<lparr>Runnable = byPriority (filter (\<lambda>t. executionBlockReasons uni s t = []) offered),
         Blocked = map (\<lambda>t. (t, executionBlockReasons uni s t))
                     (filter (\<lambda>t. executionBlockReasons uni s t \<noteq> []) offered)\<rparr>) (ordered s)"

lemma set_byPriority [simp]: "set (byPriority ts) = set ts"
  by (simp add: byPriority_def)

lemma byPriority_sorted: "sorted_wrt (\<lambda>t u. Priority t \<ge> Priority u) (byPriority ts)"
  unfolding byPriority_key by (rule sorted_sort_key_desc)

lemma byPriority_stable:
  "filter (\<lambda>t. Priority t = k) (byPriority ts) = filter (\<lambda>t. Priority t = k) ts"
  using sort_key_stable[of "\<lambda>t. - Priority t" "- k" ts] by (simp add: byPriority_key)

text \<open>The ready leaves are exactly the tasks that may start now, the most urgent first.\<close>

lemma ReadyLeaves_exact:
  assumes "plan_inv s"
  obtains ts where "ReadyLeaves uni s = Some ts" "sorted_wrt (\<lambda>t u. Priority t \<ge> Priority u) ts"
    "\<And>t. t \<in> set ts \<longleftrightarrow> (\<exists>i. task_at s i = Some t) \<and> dispatchable s t \<and> \<not> Waiting t \<and>
        executionBlockReasons uni s t = []"
proof -
  from assms obtain ps where ps: "ordered s = Some ps" "\<And>i t. (i, t) \<in> set ps \<longleftrightarrow> task_at s i = Some t"
    by (rule ordered_inv) blast
  have "t \<in> snd ` set ps \<longleftrightarrow> (\<exists>i. task_at s i = Some t)" for t
    unfolding ps(2)[symmetric] by force
  then have "t \<in> set (filter f (map snd ps)) \<longleftrightarrow> (\<exists>i. task_at s i = Some t) \<and> f t" for f t
    by simp
  moreover have "ReadyLeaves uni s = Some (byPriority (filter (\<lambda>t. dispatchable s t \<and> \<not> Waiting t \<and>
      executionBlockReasons uni s t = []) (map snd ps)))"
    by (simp add: ReadyLeaves_def ps(1))
  ultimately show ?thesis using byPriority_sorted by (intro that) (assumption, assumption, simp)
qed

lemma ReadySet_leaves:
  "map_option Runnable (ReadySet uni [] s) = ReadyLeaves uni s"
  by (auto simp: ReadySet_def ReadyLeaves_def Let_def option.map_comp comp_def intro!: arg_cong2[where f = map_option]
      arg_cong[where f = byPriority] filter_cong)

lemma ReadySet_partition:
  assumes "ReadySet uni filters s = Some r" and "ordered s = Some ps"
  shows "(\<exists>rs. (t, rs) \<in> set (Blocked r)) \<or> t \<in> set (Runnable r) \<longleftrightarrow>
      t \<in> snd ` set ps \<and> admits (firstFilter filters) (Project t) (Chat t) \<and> dispatchable s t \<and> \<not> Waiting t"
    and "\<not> ((\<exists>rs. (t, rs) \<in> set (Blocked r)) \<and> t \<in> set (Runnable r))"
    and "(t, rs) \<in> set (Blocked r) \<Longrightarrow> rs = executionBlockReasons uni s t \<and> rs \<noteq> []"
proof -
  define offered where "offered = filter (\<lambda>t. admits (firstFilter filters) (Project t) (Chat t) \<and>
      dispatchable s t \<and> \<not> Waiting t) (map snd ps)"
  have r: "r = \<lparr>Runnable = byPriority (filter (\<lambda>t. executionBlockReasons uni s t = []) offered),
      Blocked = map (\<lambda>t. (t, executionBlockReasons uni s t))
        (filter (\<lambda>t. executionBlockReasons uni s t \<noteq> []) offered)\<rparr>"
    using assms by (simp add: ReadySet_def offered_def Let_def)
  have "t \<in> set offered \<longleftrightarrow> t \<in> snd ` set ps \<and> admits (firstFilter filters) (Project t) (Chat t) \<and>
      dispatchable s t \<and> \<not> Waiting t"
    by (simp add: offered_def)
  moreover have "(\<exists>rs. (t, rs) \<in> set (Blocked r)) \<or> t \<in> set (Runnable r) \<longleftrightarrow> t \<in> set offered"
    by (auto simp: r)
  ultimately show "(\<exists>rs. (t, rs) \<in> set (Blocked r)) \<or> t \<in> set (Runnable r) \<longleftrightarrow>
      t \<in> snd ` set ps \<and> admits (firstFilter filters) (Project t) (Chat t) \<and> dispatchable s t \<and> \<not> Waiting t"
    by simp
  show "\<not> ((\<exists>rs. (t, rs) \<in> set (Blocked r)) \<and> t \<in> set (Runnable r))" by (auto simp: r)
  show "rs = executionBlockReasons uni s t \<and> rs \<noteq> []" if "(t, rs) \<in> set (Blocked r)"
    using that by (auto simp: r)
qed

section \<open>The next task an agent is given\<close>

definition nextable :: "(string \<Rightarrow> string) \<Rightarrow> plan_state \<Rightarrow> task \<Rightarrow> bool" where
  "nextable uni s t = (dispatchable s t \<and> executionBlockReasons uni s t = [])"

definition pick_step :: "(string \<Rightarrow> string) \<Rightarrow> plan_state \<Rightarrow> string \<times> task \<Rightarrow> (string \<times> task) option \<Rightarrow>
    (string \<times> task) option" where
  "pick_step uni s it pick =
     (if \<not> nextable uni s (snd it) then pick
      else case pick of None \<Rightarrow> Some it
           | Some p \<Rightarrow> if Priority (snd it) > Priority (snd p) then Some it else pick)"

text \<open>The plan with the task claimed, and which task it was (\<^verbatim>\<open>best\<close>).\<close>

definition ClaimNext :: "(string \<Rightarrow> string) \<Rightarrow> string \<Rightarrow> time \<Rightarrow> plan_state \<Rightarrow> plan_error + plan_state \<times> string" where
  "ClaimNext uni agent now s =
     orFail (refuse (TrimSpace agent = '''') (work AgentRequired))
     (case ordered s of
        None \<Rightarrow> Inl NilDeref
      | Some ps \<Rightarrow>
          (case fold (pick_step uni s) ps None of
             None \<Rightarrow> Inl ErrNoChange
           | Some (i, t) \<Rightarrow> Inr (upd i (claimed agent [] now) s, ID t)))"

lemma hd_insort_key: "hd (insort_key f x xs) = (if xs = [] \<or> f x \<le> f (hd xs) then x else hd xs)"
  by (cases xs) auto

text \<open>The loop picks what a stable sort by falling priority puts first.\<close>

lemma pick_fold_gen:
  "fold (pick_step uni s) ps (Some p) =
     Some (hd (sort_key (\<lambda>it. - Priority (snd it)) (p # filter (\<lambda>it. nextable uni s (snd it)) ps)))"
proof (induction ps arbitrary: p)
  case (Cons q ps)
  show ?case
  proof (cases "nextable uni s (snd q)")
    case True
    then show ?thesis using Cons.IH[of "if Priority (snd q) > Priority (snd p) then q else p"]
      by (auto simp: pick_step_def hd_insort_key split: if_splits)
  next
    case False
    then show ?thesis using Cons.IH[of p] by (simp add: pick_step_def)
  qed
qed simp

lemma pick_fold:
  "fold (pick_step uni s) ps None =
     (case sort_key (\<lambda>it. - Priority (snd it)) (filter (\<lambda>it. nextable uni s (snd it)) ps) of
        [] \<Rightarrow> None | p # _ \<Rightarrow> Some p)"
proof (induction ps)
  case (Cons q ps)
  show ?case
  proof (cases "nextable uni s (snd q)")
    case True
    let ?l = "sort_key (\<lambda>it. - Priority (snd it)) (q # filter (\<lambda>it. nextable uni s (snd it)) ps)"
    have "?l \<noteq> []" by (metis list.distinct(1) length_sort length_0_conv)
    then have "(case ?l of [] \<Rightarrow> None | p # _ \<Rightarrow> Some p) = Some (hd ?l)" by (cases ?l) auto
    moreover have "pick_step uni s q None = Some q" using True by (simp add: pick_step_def)
    ultimately show ?thesis using True pick_fold_gen[of uni s ps q] by simp
  next
    case False
    with Cons show ?thesis by (simp add: pick_step_def)
  qed
qed simp

lemma ClaimNext_shape: "ClaimNext uni agent now s = Inr (s', i) \<Longrightarrow> same_shape s s'"
  by (auto simp: ClaimNext_def split: option.splits)

text \<open>
  The handed task is a startable leaf, no other startable leaf is more urgent, and it conflicts with
  no task a worker holds; the plan then differs in that one task.
\<close>

lemma ClaimNext_result:
  assumes inv: "plan_inv s" and c: "ClaimNext uni agent now s = Inr (s', i)"
  obtains t where "task_at s i = Some t" "nextable uni s t" "s' = put_task i (claimed agent [] now t) s"
    "\<And>j u. task_at s j = Some u \<Longrightarrow> nextable uni s u \<Longrightarrow> Priority u \<le> Priority t"
proof -
  from inv obtain ps where ps: "ordered s = Some ps" "\<And>i t. (i, t) \<in> set ps \<longleftrightarrow> task_at s i = Some t"
    by (rule ordered_inv) blast
  let ?c = "filter (\<lambda>it. nextable uni s (snd it)) ps"
  let ?l = "sort_key (\<lambda>it. - Priority (snd it)) ?c"
  from c ps(1) obtain k t where pick: "fold (pick_step uni s) ps None = Some (k, t)"
    and s': "s' = upd k (claimed agent [] now) s" and i: "i = ID t"
    by (auto simp: ClaimNext_def split: option.splits)
  from pick[unfolded pick_fold] obtain l where l: "?l = (k, t) # l"
    by (cases ?l) auto
  then have "(k, t) \<in> set ?l" by simp
  then have kt: "task_at s k = Some t" "nextable uni s t" using ps(2) by auto
  have k: "k = i" using plan_inv_ID[OF inv kt(1)] i by simp
  have "sorted (map (\<lambda>it. - Priority (snd it)) ?l)" by simp
  then have best: "Priority u \<le> Priority t" if "(j, u) \<in> set ?l" for j u
    using that unfolding l by auto
  have "Priority u \<le> Priority t" if "task_at s j = Some u" "nextable uni s u" for j u
    using best[of j u] that ps(2) by simp
  with kt k s' show ?thesis by (intro that[of t]) (simp_all add: upd_task_def)
qed

lemma ClaimNext_no_conflict:
  assumes inv: "plan_inv s" and c: "ClaimNext uni agent now s = Inr (s', i)" and t: "task_at s i = Some t"
    and u: "task_at s j = Some u" "j \<noteq> i" "j \<noteq> RootID s" "heldStatus (Status u)"
  shows "\<not> executionConflict uni t u"
proof -
  from inv c obtain t' where t': "task_at s i = Some t'" "nextable uni s t'" by (rule ClaimNext_result)
  have "executionBlockReasons uni s t = []" using t t' by (simp add: nextable_def)
  moreover have "ID t = i" "ID u = j" using plan_inv_ID[OF inv] t u(1) by auto
  ultimately show ?thesis using u plan_invD(1)[OF inv t] by (auto simp: no_block_reasons)
qed

text \<open>Where no task is parked, the next task is the first of the ready leaves.\<close>

lemma ClaimNext_first_leaf:
  assumes inv: "plan_inv s" and np: "\<And>i t. task_at s i = Some t \<Longrightarrow> \<not> Waiting t"
    and c: "ClaimNext uni agent now s = Inr (s', i)"
  shows "\<exists>ts t. ReadyLeaves uni s = Some ts \<and> ts \<noteq> [] \<and> t \<in> set ts \<and> ID t = i \<and> Priority t = Priority (hd ts)"
proof -
  from inv c obtain t where t: "task_at s i = Some t" "nextable uni s t"
    "\<And>j u. task_at s j = Some u \<Longrightarrow> nextable uni s u \<Longrightarrow> Priority u \<le> Priority t"
    by (rule ClaimNext_result) blast
  from inv obtain ts where ts: "ReadyLeaves uni s = Some ts" "sorted_wrt (\<lambda>t u. Priority t \<ge> Priority u) ts"
    "\<And>t. t \<in> set ts \<longleftrightarrow> (\<exists>i. task_at s i = Some t) \<and> dispatchable s t \<and> \<not> Waiting t \<and>
        executionBlockReasons uni s t = []"
    by (rule ReadyLeaves_exact) blast
  have m: "t \<in> set ts" using ts(3) t(1,2) np by (auto simp: nextable_def)
  then obtain h hs where h: "ts = h # hs" by (cases ts) auto
  have "h \<in> set ts" by (simp add: h)
  with ts(3) obtain j where "task_at s j = Some h" "nextable uni s h" by (auto simp: nextable_def)
  with t(3) have "Priority h \<le> Priority t" by blast
  moreover have "Priority t \<le> Priority h" using m ts(2) unfolding h by auto
  ultimately show ?thesis using ts(1) m h plan_inv_ID[OF inv t(1)] by auto
qed

definition claim_next_op :: "(string \<Rightarrow> string) \<times> string \<Rightarrow> time \<Rightarrow> plan_state \<Rightarrow> plan_error + plan_state" where
  "claim_next_op = (\<lambda>(uni, agent) now s. map_sum (\<lambda>e. e) fst (ClaimNext uni agent now s))"

interpretation claim_next: plan_operation claim_next_op
proof (rule shape_operation)
  fix a now s s' assume "claim_next_op a now s = Inr s'"
  then obtain uni agent i where "ClaimNext uni agent now s = Inr (s', i)"
    by (cases a; cases "ClaimNext (fst a) (snd a) now s") (auto simp: claim_next_op_def)
  then show "same_shape s s'" by (rule ClaimNext_shape)
qed

end
