(* ===== verification/PlanSearch.thy ===== *)
theory PlanSearch
  imports PlanReadyList
begin

text \<open>
  The analytic readings of \<^verbatim>\<open>internal/plandb/store.go\<close>: \<^verbatim>\<open>Search\<close> with its terms and scores,
  \<^verbatim>\<open>CriticalPath\<close> and \<^verbatim>\<open>Bottlenecks\<close>.
\<close>

section \<open>Terms and scores\<close>

definition termByte :: "char \<Rightarrow> bool" where
  "termByte c = (CHR ''a'' \<le> c \<and> c \<le> CHR ''z'' \<or> CHR ''0'' \<le> c \<and> c \<le> CHR ''9'' \<or> c = CHR ''_'' \<or> c = CHR ''-'')"

text \<open>
  \<^verbatim>\<open>strings.FieldsFunc\<close>: the maximal runs of bytes that stay. Every kept rune is one ASCII byte, and
  no byte of a longer rune is one of them.
\<close>

fun runsFrom :: "(char \<Rightarrow> bool) \<Rightarrow> string \<Rightarrow> string \<Rightarrow> string list" where
  "runsFrom keep cur [] = (if cur = [] then [] else [cur])"
| "runsFrom keep cur (c # s) =
     (if keep c then runsFrom keep (cur @ [c]) s
      else if cur = [] then runsFrom keep [] s else cur # runsFrom keep [] s)"

definition stopwords :: "string list" where
  "stopwords = [''the'', ''a'', ''an'', ''of'', ''and'', ''to'', ''in'', ''for'', ''on'', ''is'', ''it'']"

fun newTerms :: "string list \<Rightarrow> string list \<Rightarrow> string list" where
  "newTerms seen [] = []"
| "newTerms seen (w # ws) =
     (if length w < 2 \<or> w \<in> set stopwords \<or> w \<in> set seen then newTerms seen ws
      else w # newTerms (w # seen) ws)"

definition searchTerms :: "(string \<Rightarrow> string) \<Rightarrow> string \<Rightarrow> string list" where
  "searchTerms uni query = newTerms [] (runsFrom termByte [] (ToLower uni query))"

text \<open>\<^verbatim>\<open>strings.Count\<close> of a nonempty substring: occurrences that do not overlap.\<close>

function CountOf :: "string \<Rightarrow> string \<Rightarrow> nat" where
  "CountOf s sub =
     (if s = [] \<or> sub = [] then 0
      else if HasPrefix s sub then Suc (CountOf (drop (length sub) s) sub)
      else CountOf (tl s) sub)"
  by pat_completeness auto
termination by (relation "measure (\<lambda>(s, sub). length s)") auto

declare CountOf.simps [simp del]

definition scoreText :: "(string \<Rightarrow> string) \<Rightarrow> string list \<Rightarrow> string \<Rightarrow> nat" where
  "scoreText uni terms s =
     (if s = '''' then 0
      else let lower = ToLower uni s in
        fold (\<lambda>term score. let count = CountOf lower term in if count > 0 then score + count else score) terms 0)"

definition firstLine :: "string \<Rightarrow> string" where
  "firstLine s =
     (let line = (case Cut s [CHR 0x0A] of None \<Rightarrow> s | Some (a, b) \<Rightarrow> a) in
      if TrimSpace line \<noteq> '''' then TrimSpace line else TrimSpace s)"

section \<open>Search\<close>

record search_result =
  sr_Kind :: string
  sr_ID :: string
  sr_TaskID :: string
  sr_Title :: string
  sr_Detail :: string
  sr_Score :: nat

definition taskHit :: "(string \<Rightarrow> string) \<Rightarrow> string list \<Rightarrow> task \<Rightarrow> search_result list" where
  "taskHit uni terms t =
     (let score = scoreText uni terms (Title t) * 4 + scoreText uni terms (Description t) in
      if score > 0 then [\<lparr>sr_Kind = ''task'', sr_ID = ID t, sr_TaskID = '''', sr_Title = Title t,
                          sr_Detail = firstLine (Description t), sr_Score = score\<rparr>] else [])"

definition noteHit :: "(string \<Rightarrow> string) \<Rightarrow> string list \<Rightarrow> plan_note \<Rightarrow> search_result list" where
  "noteHit uni terms n =
     (let score = scoreText uni terms (note_Body n) in
      if score > 0 then [\<lparr>sr_Kind = ''note'', sr_ID = note_ID n, sr_TaskID = note_TaskID n, sr_Title = '''',
                          sr_Detail = firstLine (note_Body n), sr_Score = score\<rparr>] else [])"

definition contextHit :: "(string \<Rightarrow> string) \<Rightarrow> string list \<Rightarrow> context_entry \<Rightarrow> search_result list" where
  "contextHit uni terms e =
     (let score = scoreText uni terms (ce_Content e) in
      if score > 0 then [\<lparr>sr_Kind = ''context'', sr_ID = ce_ID e, sr_TaskID = '''', sr_Title = '''',
                          sr_Detail = firstLine (ce_Content e), sr_Score = score\<rparr>] else [])"

definition ranksBefore :: "search_result \<Rightarrow> search_result \<Rightarrow> bool" where
  "ranksBefore a b = (if sr_Score a \<noteq> sr_Score b then sr_Score a > sr_Score b else sr_Kind a < sr_Kind b)"

definition searchHits :: "(string \<Rightarrow> string) \<Rightarrow> string list \<Rightarrow> tag_filter list \<Rightarrow> plan_state \<Rightarrow>
    search_result list option" where
  "searchHits uni terms filters s =
     (let f = firstFilter filters in
      map_option (\<lambda>ps.
        concat (map (taskHit uni terms) (filter (\<lambda>t. admits f (Project t) (Chat t)) (map snd ps))) @
        concat (map (noteHit uni terms) (filter (\<lambda>n. admits f (note_Project n) (note_Chat n)) (Notes s))) @
        concat (map (contextHit uni terms) (filter (\<lambda>e. admits f (ce_Project e) (ce_Chat e)) (Contexts s))))
        (ordered s))"

definition Search :: "(string \<Rightarrow> string) \<Rightarrow> string \<Rightarrow> int \<Rightarrow> tag_filter list \<Rightarrow> plan_state \<Rightarrow>
    search_result list option" where
  "Search uni query limit filters s =
     (let terms = searchTerms uni query in
      if terms = [] then Some []
      else map_option (\<lambda>rs. take (nat (if limit \<le> 0 \<or> limit > 50 then 10 else limit)) (SliceStable ranksBefore rs))
             (searchHits uni terms filters s))"

lemma newTerms_set: "set (newTerms seen ws) = {w \<in> set ws. 2 \<le> length w \<and> w \<notin> set stopwords \<and> w \<notin> set seen}"
proof (induction ws arbitrary: seen)
  case (Cons w ws)
  then show ?case by (cases "length w < 2 \<or> w \<in> set stopwords \<or> w \<in> set seen") auto
qed simp

lemma newTerms_distinct: "distinct (newTerms seen ws)"
  by (induction ws arbitrary: seen) (simp_all add: newTerms_set)
lemma runsFrom_keep: "w \<in> set (runsFrom keep cur s) \<Longrightarrow> list_all keep cur \<Longrightarrow> list_all keep w \<and> w \<noteq> []"
  by (induction keep cur s rule: runsFrom.induct) (auto split: if_splits)

text \<open>A search term is two or more term bytes, no stopword, and named once.\<close>

lemma searchTerms_ok:
  "distinct (searchTerms uni q)"
  "w \<in> set (searchTerms uni q) \<Longrightarrow> 2 \<le> length w \<and> w \<notin> set stopwords \<and> list_all termByte w"
  using runsFrom_keep[of w termByte "[]" "ToLower uni q"]
  by (simp_all add: searchTerms_def newTerms_distinct newTerms_set)

lemma scoreText_sum:
  "scoreText uni terms s = (if s = '''' then 0 else sum_list (map (CountOf (ToLower uni s)) terms))"
proof -
  have "fold (\<lambda>term score. let count = CountOf l term in if count > 0 then score + count else score) terms n =
      n + sum_list (map (CountOf l) terms)" for l n
    by (induction terms arbitrary: n) (simp_all add: Let_def)
  then show ?thesis by (simp add: scoreText_def Let_def)
qed

lemma CountOf_pos: "sub \<noteq> [] \<Longrightarrow> 0 < CountOf s sub \<longleftrightarrow> Contains s sub"
proof (induction s sub rule: CountOf.induct)
  case (1 s sub)
  show ?case
  proof (cases s)
    case Nil
    with "1.prems" show ?thesis by (simp add: CountOf.simps[of "[]"] Contains_Nil)
  next
    case (Cons c t)
    with 1 show ?thesis by (subst CountOf.simps) (auto simp: Contains_Cons)
  qed
qed

lemma ranksBefore_weak: "weak_order ranksBefore"
  by (auto simp: weak_order_def ranksBefore_def)

text \<open>Results come ranked, at most as many as asked for, and each matched a term in what it is made of.\<close>

lemma Search_ranked:
  assumes "Search uni q limit filters s = Some rs"
  shows "sorted_wrt (\<lambda>a b. \<not> ranksBefore b a) rs" "length rs \<le> 50" "\<And>r. r \<in> set rs \<Longrightarrow> 0 < sr_Score r"
proof -
  have len: "length (take (nat (if limit \<le> 0 \<or> limit > 50 then 10 else limit)) xs) \<le> 50"
    for xs :: "search_result list"
    by auto
  consider "rs = []" | hs where "searchHits uni (searchTerms uni q) filters s = Some hs"
      "rs = take (nat (if limit \<le> 0 \<or> limit > 50 then 10 else limit)) (SliceStable ranksBefore hs)"
    using assms by (auto simp: Search_def Let_def split: if_splits)
  then have "sorted_wrt (\<lambda>a b. \<not> ranksBefore b a) rs \<and> length rs \<le> 50 \<and> (\<forall>r\<in>set rs. 0 < sr_Score r)"
  proof cases
    case 2
    have "\<forall>r\<in>set hs. 0 < sr_Score r"
      using 2(1) by (auto simp: searchHits_def Let_def taskHit_def noteHit_def contextHit_def split: if_splits)
    then have "\<forall>r\<in>set rs. 0 < sr_Score r" using 2(2) by (auto dest: in_set_takeD)
    moreover have "sorted_wrt (\<lambda>a b. \<not> ranksBefore b a) rs"
      unfolding 2(2) by (rule sorted_wrt_take[OF SliceStable_sorted[OF ranksBefore_weak]])
    ultimately show ?thesis using len 2(2) by blast
  qed simp
  then show "sorted_wrt (\<lambda>a b. \<not> ranksBefore b a) rs" "length rs \<le> 50" "\<And>r. r \<in> set rs \<Longrightarrow> 0 < sr_Score r"
    by auto
qed

end
