(* ===== verification/PlanPath.thy ===== *)
theory PlanPath
  imports PlanReadyList
begin

text \<open>
  \<^verbatim>\<open>CriticalPath\<close> and \<^verbatim>\<open>Bottlenecks\<close> of \<^verbatim>\<open>internal/plandb/store.go\<close>. The walk recurses along the
  hard edges with a seen-set; \<^verbatim>\<open>cpWalk\<close> carries the fuel one more than there are tasks, and
  \<^verbatim>\<open>CriticalPath_longest\<close> shows that this is enough: no chain of an accepted plan is missed.
\<close>

section \<open>The longest chain\<close>

text \<open>\<^verbatim>\<open>children[dep]\<close>: an entry for every hard dependency on it, and \<^verbatim>\<open>hasUpstream\<close>.\<close>

definition cpChildren :: "plan_state \<Rightarrow> string \<Rightarrow> string list" where
  "cpChildren s j = concat (map (\<lambda>t. map (\<lambda>d. ID t)
     (filter (\<lambda>d. \<not> dep_Kind d = DepSuggests \<and> dep_TaskID d = j) (Dependencies t))) (task_list s))"

definition hasUpstream :: "plan_state \<Rightarrow> string \<Rightarrow> bool" where
  "hasUpstream s i = list_ex (\<lambda>t. ID t = i \<and> list_ex (\<lambda>d. \<not> dep_Kind d = DepSuggests) (Dependencies t)) (task_list s)"

definition longer :: "string list \<Rightarrow> string list \<Rightarrow> string list" where
  "longer chain best = (if length chain > length best then chain else best)"

fun cpWalk :: "nat \<Rightarrow> (string \<Rightarrow> string list) \<Rightarrow> string \<Rightarrow> string list \<Rightarrow> string list \<Rightarrow> string list \<Rightarrow> string list" where
  "cpWalk 0 children i seen chain best = best"
| "cpWalk (Suc n) children i seen chain best =
     fold (\<lambda>nxt best. if nxt \<in> set seen then best
                      else cpWalk n children nxt (nxt # seen) (chain @ [nxt]) best)
       (children i) (longer chain best)"

definition criticalIDs :: "plan_state \<Rightarrow> string list" where
  "criticalIDs s = fold (\<lambda>i best. if hasUpstream s i then best
       else cpWalk (Suc (length (Tasks s))) (cpChildren s) i [i] [i] best) (Order s) []"

text \<open>\<^verbatim>\<open>cloneTask\<close> answers nil for nil: an id without a task would be a None in the answer.\<close>

definition CriticalPath :: "plan_state \<Rightarrow> task option list" where
  "CriticalPath s = map (task_at s) (criticalIDs s)"

section \<open>Every chain the walk looks at\<close>

fun cpChains :: "nat \<Rightarrow> (string \<Rightarrow> string list) \<Rightarrow> string \<Rightarrow> string list \<Rightarrow> string list \<Rightarrow> string list list" where
  "cpChains 0 children i seen chain = []"
| "cpChains (Suc n) children i seen chain =
     chain # concat (map (\<lambda>nxt. if nxt \<in> set seen then []
                                else cpChains n children nxt (nxt # seen) (chain @ [nxt])) (children i))"

lemma cpWalk_chains: "cpWalk n children i seen chain best = fold longer (cpChains n children i seen chain) best"
proof (induction n arbitrary: i seen chain best)
  case (Suc n)
  have "fold (\<lambda>nxt best. if nxt \<in> set seen then best
            else cpWalk n children nxt (nxt # seen) (chain @ [nxt]) best) xs b =
      fold longer (concat (map (\<lambda>nxt. if nxt \<in> set seen then []
            else cpChains n children nxt (nxt # seen) (chain @ [nxt])) xs)) b" for xs b
    by (induction xs arbitrary: b) (simp_all add: Suc.IH)
  then show ?case by simp
qed simp

lemma fold_longer:
  "fold longer cs best \<in> insert best (set cs) \<and> (\<forall>c\<in>insert best (set cs). length c \<le> length (fold longer cs best))"
proof (induction cs arbitrary: best)
  case (Cons c cs)
  from Cons.IH[of "longer c best"] show ?case by (auto simp: longer_def split: if_splits)
qed simp

abbreviation is_chain :: "(string \<Rightarrow> string list) \<Rightarrow> string list \<Rightarrow> bool" where
  "is_chain children \<equiv> successively (\<lambda>x y. y \<in> set (children x))"

lemma cpChains_sound:
  "c \<in> set (cpChains n children i seen chain) \<Longrightarrow> \<exists>p. c = chain @ p \<and> is_chain children (i # p)"
proof (induction n arbitrary: i seen chain c)
  case (Suc n)
  then consider "c = chain" | nxt where "nxt \<in> set (children i)"
      "c \<in> set (cpChains n children nxt (nxt # seen) (chain @ [nxt]))"
    by (auto split: if_splits)
  then show ?case
  proof cases
    case 1
    then have "c = chain @ [] \<and> is_chain children [i]" by simp
    then show ?thesis by blast
  next
    case 2
    from Suc.IH[OF 2(2)] obtain p where "c = (chain @ [nxt]) @ p" "is_chain children (nxt # p)" by blast
    with 2(1) have "c = chain @ (nxt # p) \<and> is_chain children (i # nxt # p)" by simp
    then show ?thesis by blast
  qed
qed simp

lemma cpChains_complete:
  "is_chain children (i # p) \<Longrightarrow> distinct p \<Longrightarrow> set p \<inter> set seen = {} \<Longrightarrow> length p < n \<Longrightarrow>
     chain @ p \<in> set (cpChains n children i seen chain)"
proof (induction p arbitrary: n i seen chain)
  case Nil
  then show ?case by (cases n) auto
next
  case (Cons x p)
  then obtain m where n: "n = Suc m" by (cases n) auto
  have "(chain @ [x]) @ p \<in> set (cpChains m children x (x # seen) (chain @ [x]))"
    by (rule Cons.IH) (use Cons.prems n in auto)
  moreover have "x \<in> set (children i)" "x \<notin> set seen" using Cons.prems by auto
  ultimately show ?case by (auto simp: n intro!: bexI[of _ x])
qed

lemma criticalIDs_chains:
  "criticalIDs s = fold longer (concat (map (\<lambda>i. if hasUpstream s i then []
     else cpChains (Suc (length (Tasks s))) (cpChildren s) i [i] [i]) (Order s))) []"
proof -
  have "fold (\<lambda>i best. if hasUpstream s i then best else cpWalk n (cpChildren s) i [i] [i] best) xs b =
      fold longer (concat (map (\<lambda>i. if hasUpstream s i then [] else cpChains n (cpChildren s) i [i] [i]) xs)) b"
    for n xs b
    by (induction xs arbitrary: b) (simp_all add: cpWalk_chains del: cpChains.simps)
  then show ?thesis by (simp only: criticalIDs_def)
qed

section \<open>Chains of hard dependencies\<close>

text \<open>Upstream first: each task hard-depends on the one before it.\<close>

definition hard_chain :: "plan_state \<Rightarrow> string list \<Rightarrow> bool" where
  "hard_chain s ids \<longleftrightarrow> set ids \<subseteq> set (task_ids s) \<and> successively (\<lambda>x y. (y, x) \<in> hard_rel s) ids"

lemma cpChildren_iff:
  assumes "plan_inv s"
  shows "y \<in> set (cpChildren s x) \<longleftrightarrow> (y, x) \<in> hard_rel s"
proof -
  have r: "t \<in> set (task_list s) \<longleftrightarrow> (\<exists>i. task_at s i = Some t)" for t
    using assms by (simp add: plan_inv_iff task_list_iff)
  have "y \<in> set (cpChildren s x) \<longleftrightarrow> (\<exists>t. t \<in> set (task_list s) \<and> ID t = y \<and> x \<in> set (hard_deps t))"
    by (auto simp: cpChildren_def hard_deps_def)
  also have "\<dots> \<longleftrightarrow> (\<exists>t. task_at s y = Some t \<and> x \<in> set (hard_deps t))"
    unfolding r using plan_inv_ID[OF assms] by blast
  finally show ?thesis by (simp add: edge_rel_def)
qed

lemma hasUpstream_iff:
  assumes "plan_inv s"
  shows "hasUpstream s i \<longleftrightarrow> (\<exists>j. (i, j) \<in> hard_rel s)"
proof -
  have r: "t \<in> set (task_list s) \<longleftrightarrow> (\<exists>i. task_at s i = Some t)" for t
    using assms by (simp add: plan_inv_iff task_list_iff)
  have "hasUpstream s i \<longleftrightarrow> (\<exists>t. t \<in> set (task_list s) \<and> ID t = i \<and> hard_deps t \<noteq> [])"
    by (auto simp: hasUpstream_def hard_deps_def list_ex_iff filter_empty_conv)
  also have "\<dots> \<longleftrightarrow> (\<exists>t. task_at s i = Some t \<and> hard_deps t \<noteq> [])"
    unfolding r using plan_inv_ID[OF assms] by blast
  finally show ?thesis by (auto simp: edge_rel_def neq_Nil_conv) (metis list.set_intros(1) neq_Nil_conv empty_iff list.set(1))
qed

lemma plan_inv_hard:
  assumes "plan_inv s"
  shows "acyclic (hard_rel s)" "(i, j) \<in> hard_rel s \<Longrightarrow> i \<in> set (task_ids s) \<and> j \<in> set (task_ids s)"
proof -
  have g: "graphs_ok s" if "task_at s i = Some t" for i t using plan_invD(2)[OF assms that] .
  have "hard_rel s = {}" if "Tasks s = []" using that by (auto simp: edge_rel_def task_at_def)
  moreover have "graphs_ok s" if "Tasks s \<noteq> []"
  proof -
    from that obtain p ps where "Tasks s = p # ps" by (cases "Tasks s") auto
    then have "task_at s (fst p) = Some (snd p)" by (simp add: task_at_def)
    then show ?thesis by (rule g)
  qed
  ultimately show "acyclic (hard_rel s)" by (cases "Tasks s = []") (auto simp: graphs_ok_def acyclic_def)
  assume e: "(i, j) \<in> hard_rel s"
  then obtain t where t: "task_at s i = Some t" "j \<in> set (hard_deps t)" by (auto simp: edge_rel_def)
  with g[OF t(1)] show "i \<in> set (task_ids s) \<and> j \<in> set (task_ids s)"
    by (auto simp: graphs_ok_def edges_closed_def task_ids_iff)
qed

lemma chain_distinct:
  assumes "acyclic r" and "successively (\<lambda>x y. (y, x) \<in> r) c"
  shows "distinct c"
proof -
  have below: "successively (\<lambda>x y. (y, x) \<in> r) (x # p) \<Longrightarrow> y \<in> set p \<Longrightarrow> (y, x) \<in> r\<^sup>+" for x y p
  proof (induction p arbitrary: x)
    case (Cons z p)
    then show ?case by (cases "y = z") (auto intro: trancl_into_trancl)
  qed simp
  from assms(2) show ?thesis
  proof (induction c)
    case (Cons x p)
    have "x \<notin> set p" using below[OF Cons.prems, of x] assms(1) by (auto simp: acyclic_def)
    with Cons show ?case by (auto simp: successively_Cons)
  qed simp
qed

lemma chain_from_source:
  assumes inv: "plan_inv s" and c: "hard_chain s (x # p)"
  shows "\<exists>r q. hard_chain s (r # q) \<and> \<not> hasUpstream s r \<and> length p \<le> length q"
proof -
  have "hard_rel s \<subseteq> set (task_ids s) \<times> set (task_ids s)" using plan_inv_hard(2)[OF inv] by auto
  then have "finite (hard_rel s)" by (rule finite_subset) simp
  then have wf: "wf ((hard_rel s)\<inverse>)" using plan_inv_hard(1)[OF inv] by (rule finite_acyclic_wf_converse)
  from c show ?thesis
  proof (induction x arbitrary: p rule: wf_induct_rule[OF wf])
    case (1 x)
    show ?case
    proof (cases "hasUpstream s x")
      case True
      then obtain j where j: "(x, j) \<in> hard_rel s" using hasUpstream_iff[OF inv] by blast
      with "1.prems" plan_inv_hard(2)[OF inv j] have "hard_chain s (j # x # p)"
        by (simp add: hard_chain_def)
      with "1.IH"[of j "x # p"] j show ?thesis by fastforce
    qed (use "1.prems" in blast)
  qed
qed

text \<open>The answer is a chain of hard dependencies, and no chain of the plan is longer.\<close>

lemma criticalIDs_longest:
  assumes inv: "plan_inv s"
  shows "hard_chain s (criticalIDs s)" and "hard_chain s c \<Longrightarrow> length c \<le> length (criticalIDs s)"
proof -
  let ?n = "Suc (length (Tasks s))"
  let ?cs = "concat (map (\<lambda>i. if hasUpstream s i then [] else cpChains ?n (cpChildren s) i [i] [i]) (Order s))"
  have o: "set (Order s) = set (task_ids s)" using plan_inv_order[OF inv] by blast
  have best: "criticalIDs s \<in> insert [] (set ?cs)" "\<forall>c\<in>insert [] (set ?cs). length c \<le> length (criticalIDs s)"
    unfolding criticalIDs_chains using fold_longer[of ?cs "[]"] by blast+
  have "hard_chain s c" if "c \<in> set ?cs" for c
  proof -
    from that obtain i where i: "i \<in> set (Order s)" "c \<in> set (cpChains ?n (cpChildren s) i [i] [i])"
      by (auto split: if_splits simp del: cpChains.simps)
    from cpChains_sound[OF i(2)] obtain p where p: "c = i # p" "is_chain (cpChildren s) (i # p)" by auto
    then have "successively (\<lambda>x y. (y, x) \<in> hard_rel s) (i # p)" by (simp only: cpChildren_iff[OF inv])
    moreover have "successively (\<lambda>x y. (y, x) \<in> hard_rel s) (i # p) \<Longrightarrow> set p \<subseteq> set (task_ids s)" for i p
      by (induction p arbitrary: i) (use plan_inv_hard(2)[OF inv] in auto)
    ultimately show ?thesis using i(1) o p(1) by (auto simp: hard_chain_def)
  qed
  with best(1) show "hard_chain s (criticalIDs s)" by (auto simp: hard_chain_def)
  assume c: "hard_chain s c"
  show "length c \<le> length (criticalIDs s)"
  proof (cases c)
    case (Cons x p)
    with chain_from_source[OF inv] c obtain r q where rq: "hard_chain s (r # q)" "\<not> hasUpstream s r"
      "length p \<le> length q" by blast
    then have d: "distinct (r # q)" using chain_distinct[OF plan_inv_hard(1)[OF inv]]
      by (simp only: hard_chain_def)
    then have "length (r # q) = card (set (r # q))" by (rule distinct_card[symmetric])
    also have "\<dots> \<le> card (set (task_ids s))" using rq(1) by (intro card_mono) (auto simp: hard_chain_def)
    also have "\<dots> \<le> length (Tasks s)" by (metis card_length length_task_ids)
    finally have "length q < ?n" by simp
    moreover have "is_chain (cpChildren s) (r # q)" using rq(1) by (simp only: hard_chain_def cpChildren_iff[OF inv])
    ultimately have "[r] @ q \<in> set (cpChains ?n (cpChildren s) r [r] [r])"
      using d by (intro cpChains_complete) auto
    moreover have "r \<in> set (Order s)" using rq(1) o by (simp add: hard_chain_def)
    ultimately have "[r] @ q \<in> set ?cs" using rq(2) by (auto simp del: cpChains.simps)
    with best(2) have "length ([r] @ q) \<le> length (criticalIDs s)" by blast
    with rq(3) Cons show ?thesis by simp
  qed simp
qed

lemma CriticalPath_some:
  assumes inv: "plan_inv s"
  shows "\<exists>ts. CriticalPath s = map Some ts \<and> map ID ts = criticalIDs s"
proof -
  have t: "\<forall>i\<in>set (criticalIDs s). \<exists>t. task_at s i = Some t \<and> ID t = i"
    using criticalIDs_longest(1)[OF inv] plan_inv_ID[OF inv] by (auto simp: hard_chain_def task_ids_iff subset_iff)
  have "\<forall>i\<in>set is. \<exists>t. task_at s i = Some t \<and> ID t = i \<Longrightarrow> \<exists>ts. map (task_at s) is = map Some ts \<and> map ID ts = is" for "is"
  proof (induction "is")
    case (Cons i "is")
    from Cons.prems obtain t where t: "task_at s i = Some t" "ID t = i" by auto
    have "\<forall>i\<in>set is. \<exists>t. task_at s i = Some t \<and> ID t = i" using Cons.prems by simp
    from Cons.IH[OF this] obtain ts where "map (task_at s) is = map Some ts" "map ID ts = is" by blast
    with t show ?case by (intro exI[of _ "t # ts"]) simp
  qed simp
  from this[OF t] show ?thesis by (simp add: CriticalPath_def)
qed

section \<open>Bottlenecks\<close>

definition directCount :: "plan_state \<Rightarrow> string \<Rightarrow> nat" where
  "directCount s i = sum_list (map (\<lambda>t. length (filter (\<lambda>d. \<not> dep_Kind d = DepSuggests \<and> dep_TaskID d = i)
     (Dependencies t))) (task_list s))"

record blocked_count =
  bc_Task :: task
  bc_Downstream :: nat

definition blocksMore :: "blocked_count \<Rightarrow> blocked_count \<Rightarrow> bool" where
  "blocksMore a b = (if bc_Downstream a \<noteq> bc_Downstream b then bc_Downstream a > bc_Downstream b
                     else ID (bc_Task a) > ID (bc_Task b))"

definition bottleneckRows :: "plan_state \<Rightarrow> blocked_count list option" where
  "bottleneckRows s = map_option (\<lambda>ps. map (\<lambda>t. \<lparr>bc_Task = t, bc_Downstream = directCount s (ID t)\<rparr>)
     (filter (\<lambda>t. \<not> (ID t = RootID s \<or> terminal (Status t) \<or> directCount s (ID t) = 0)) (map snd ps))) (ordered s)"

definition Bottlenecks :: "int \<Rightarrow> plan_state \<Rightarrow> blocked_count list option" where
  "Bottlenecks limit s =
     map_option (\<lambda>rows. take (nat (if limit \<le> 0 \<or> limit > 50 then 5 else limit)) (SliceStable blocksMore rows))
       (bottleneckRows s)"

lemma blocksMore_weak: "weak_order blocksMore"
  by (auto simp: weak_order_def blocksMore_def)

lemma directCount_pos:
  assumes "plan_inv s"
  shows "0 < directCount s i \<longleftrightarrow> (\<exists>j. (j, i) \<in> hard_rel s)"
proof -
  have r: "t \<in> set (task_list s) \<longleftrightarrow> (\<exists>i. task_at s i = Some t)" for t
    using assms by (simp add: plan_inv_iff task_list_iff)
  have "directCount s i = 0 \<longleftrightarrow> (\<forall>t\<in>set (task_list s). i \<notin> set (hard_deps t))"
    unfolding directCount_def sum_list_zero_iff_nat by (auto simp: hard_deps_def filter_empty_conv)
  then have "directCount s i \<noteq> 0 \<longleftrightarrow> (\<exists>t. (\<exists>j. task_at s j = Some t) \<and> i \<in> set (hard_deps t))"
    unfolding r Ball_def by simp
  then show ?thesis unfolding edge_rel_def by auto
qed

text \<open>
  A row is an open task other than the root that something hard-depends on, with how many
  dependencies name it; the rows left out hold up no more than the rows given.
\<close>

lemma Bottlenecks_exact:
  assumes inv: "plan_inv s" and b: "Bottlenecks limit s = Some rows"
  shows "sorted_wrt (\<lambda>a b. \<not> blocksMore b a) rows"
    and "r \<in> set rows \<Longrightarrow> (\<exists>i. task_at s i = Some (bc_Task r)) \<and> ID (bc_Task r) \<noteq> RootID s \<and>
      \<not> terminal (Status (bc_Task r)) \<and> bc_Downstream r = directCount s (ID (bc_Task r)) \<and>
      (\<exists>j. (j, ID (bc_Task r)) \<in> hard_rel s)"
    and "\<lbrakk>task_at s i = Some t; i \<noteq> RootID s; \<not> terminal (Status t); (j, i) \<in> hard_rel s;
      t \<notin> bc_Task ` set rows; r \<in> set rows\<rbrakk> \<Longrightarrow> directCount s i \<le> bc_Downstream r"
proof -
  from inv obtain ps where ps: "ordered s = Some ps" "\<And>i t. (i, t) \<in> set ps \<longleftrightarrow> task_at s i = Some t"
    by (rule ordered_inv) blast
  let ?f = "\<lambda>t. \<lparr>bc_Task = t, bc_Downstream = directCount s (ID t)\<rparr>"
  define all where "all = map ?f
     (filter (\<lambda>t. \<not> (ID t = RootID s \<or> terminal (Status t) \<or> directCount s (ID t) = 0)) (map snd ps))"
  define n where "n = nat (if limit \<le> 0 \<or> limit > 50 then 5 else limit)"
  let ?srt = "SliceStable blocksMore all"
  have rows: "rows = take n ?srt" using b by (simp add: Bottlenecks_def bottleneckRows_def ps(1) all_def n_def)
  have srt: "sorted_wrt (\<lambda>a b. \<not> blocksMore b a) ?srt" by (rule SliceStable_sorted[OF blocksMore_weak])
  show "sorted_wrt (\<lambda>a b. \<not> blocksMore b a) rows" unfolding rows by (rule sorted_wrt_take[OF srt])
  have mem: "t \<in> snd ` set ps \<longleftrightarrow> (\<exists>i. task_at s i = Some t)" for t
    unfolding ps(2)[symmetric] by force
  have all: "r \<in> set all \<longleftrightarrow> (\<exists>t. r = ?f t \<and> (\<exists>i. task_at s i = Some t) \<and> ID t \<noteq> RootID s \<and>
      \<not> terminal (Status t) \<and> directCount s (ID t) \<noteq> 0)" for r
    unfolding all_def by (auto simp: image_iff Bex_def ps(2))
  show "(\<exists>i. task_at s i = Some (bc_Task r)) \<and> ID (bc_Task r) \<noteq> RootID s \<and>
      \<not> terminal (Status (bc_Task r)) \<and> bc_Downstream r = directCount s (ID (bc_Task r)) \<and>
      (\<exists>j. (j, ID (bc_Task r)) \<in> hard_rel s)" if "r \<in> set rows"
  proof -
    from that have "r \<in> set all" unfolding rows by (auto dest: in_set_takeD)
    then show ?thesis unfolding all using directCount_pos[OF inv] by auto
  qed
  assume t: "task_at s i = Some t" "i \<noteq> RootID s" "\<not> terminal (Status t)" "(j, i) \<in> hard_rel s"
    and out: "t \<notin> bc_Task ` set rows" and r: "r \<in> set rows"
  have i: "ID t = i" by (rule plan_inv_ID[OF inv t(1)])
  have "0 < directCount s i" using directCount_pos[OF inv] t(4) by blast
  then have "?f t \<in> set all" unfolding all using t i by auto
  then have "?f t \<in> set (take n ?srt) \<union> set (drop n ?srt)" by (simp flip: set_append)
  with out have "?f t \<in> set (drop n ?srt)" unfolding rows by (auto simp: image_iff)
  moreover have "sorted_wrt (\<lambda>a b. \<not> blocksMore b a) (take n ?srt @ drop n ?srt)" using srt by simp
  ultimately have "\<not> blocksMore (?f t) r" using r unfolding rows sorted_wrt_append by blast
  then show "directCount s i \<le> bc_Downstream r" by (auto simp: blocksMore_def i split: if_splits)
qed

end
