(* ===== verification/PlanRows.thy ===== *)
theory PlanRows
  imports PlanLifecycle
begin

text \<open>
  The plan's database as the store reads and writes it: \<^verbatim>\<open>schemaStatements\<close>, \<^verbatim>\<open>scanTask\<close>,
  \<^verbatim>\<open>encodeJSON\<close>, \<^verbatim>\<open>decodeJSON\<close>, \<^verbatim>\<open>formatTime\<close>, \<^verbatim>\<open>parseTime\<close> and \<^verbatim>\<open>boolInt\<close> of
  \<^verbatim>\<open>internal/plandb/persist.go\<close>. A table is the list of its rows in insertion order, and a
  column holds what its text says: a stamp column is empty, an instant or unreadable, a JSON
  column is empty, a JSON value or not JSON. Strings inside JSON are taken to be UTF-8.
\<close>

section \<open>Columns\<close>

datatype stamp = Blank | Instant time | Unreadable

definition formatTime :: "time \<Rightarrow> stamp" where
  "formatTime value = (if value = 0 then Blank else Instant value)"

fun parseTime :: "stamp \<Rightarrow> plan_error + time" where
  "parseTime Blank = Inr 0"
| "parseTime (Instant value) = Inr value"
| "parseTime Unreadable = Inl (LoadRefused BadColumn)"

definition boolInt :: "bool \<Rightarrow> int" where
  "boolInt value = (if value then 1 else 0)"

datatype json = JNull | JString string | JInt int | JList "json list" | JObject "(string \<times> json) list"

datatype json_text = NoText | JSON json | NotJSON

fun decodeJSON :: "(json \<Rightarrow> 'a option) \<Rightarrow> 'a \<Rightarrow> json_text \<Rightarrow> plan_error + 'a" where
  "decodeJSON of_json nil NoText = Inr nil"
| "decodeJSON of_json nil NotJSON = Inl (LoadRefused BadColumn)"
| "decodeJSON of_json nil (JSON JNull) = Inr nil"
| "decodeJSON of_json nil (JSON v) = (case of_json v of None \<Rightarrow> Inl (LoadRefused BadColumn) | Some x \<Rightarrow> Inr x)"

text \<open>A nil field is written as null. Elements and fields that are null keep their zero value.\<close>

fun ofString :: "json \<Rightarrow> string option" where
  "ofString (JString s) = Some s" | "ofString JNull = Some ''''" | "ofString _ = None"

fun ofInt :: "json \<Rightarrow> int option" where
  "ofInt (JInt n) = Some n" | "ofInt JNull = Some 0" | "ofInt _ = None"

fun ofList :: "(json \<Rightarrow> 'a option) \<Rightarrow> json \<Rightarrow> 'a list option" where
  "ofList f (JList vs) = those (map f vs)" | "ofList f JNull = Some []" | "ofList f _ = None"

definition listJSON :: "('a \<Rightarrow> json) \<Rightarrow> 'a list \<Rightarrow> json" where
  "listJSON f xs = (if xs = [] then JNull else JList (map f xs))"

text \<open>An object sets its fields one after the other, unknown names skipped.\<close>

fun setFields :: "('r \<Rightarrow> string \<Rightarrow> json \<Rightarrow> 'r option) \<Rightarrow> (string \<times> json) list \<Rightarrow> 'r \<Rightarrow> 'r option" where
  "setFields put [] r = Some r"
| "setFields put ((k, v) # kvs) r = (case put r k v of None \<Rightarrow> None | Some r1 \<Rightarrow> setFields put kvs r1)"

fun ofObject :: "('r \<Rightarrow> string \<Rightarrow> json \<Rightarrow> 'r option) \<Rightarrow> 'r \<Rightarrow> json \<Rightarrow> 'r option" where
  "ofObject put zero (JObject kvs) = setFields put kvs zero"
| "ofObject put zero JNull = Some zero"
| "ofObject put zero _ = None"

definition putClaim :: "resource_claim \<Rightarrow> string \<Rightarrow> json \<Rightarrow> resource_claim option" where
  "putClaim r k v =
     (if k = ''uri'' then map_option (\<lambda>s. r\<lparr>URI := s\<rparr>) (ofString v)
      else if k = ''mode'' then map_option (\<lambda>s. r\<lparr>Mode := s\<rparr>) (ofString v)
      else Some r)"

definition ofClaim :: "json \<Rightarrow> resource_claim option" where
  "ofClaim = ofObject putClaim \<lparr>URI = '''', Mode = ''''\<rparr>"

definition toClaim :: "resource_claim \<Rightarrow> json" where
  "toClaim r = JObject [(''uri'', JString (URI r)), (''mode'', JString (Mode r))]"

definition putRun :: "verdict_run \<Rightarrow> string \<Rightarrow> json \<Rightarrow> verdict_run option" where
  "putRun r k v =
     (if k = ''command'' then map_option (\<lambda>s. r\<lparr>vr_Command := s\<rparr>) (ofString v)
      else if k = ''exitCode'' then map_option (\<lambda>n. r\<lparr>vr_ExitCode := n\<rparr>) (ofInt v)
      else Some r)"

definition ofRun :: "json \<Rightarrow> verdict_run option" where
  "ofRun = ofObject putRun \<lparr>vr_Command = '''', vr_ExitCode = 0\<rparr>"

definition toRun :: "verdict_run \<Rightarrow> json" where
  "toRun r = JObject [(''command'', JString (vr_Command r)), (''exitCode'', JInt (vr_ExitCode r))]"

definition putBasis :: "verdict_basis \<Rightarrow> string \<Rightarrow> json \<Rightarrow> verdict_basis option" where
  "putBasis b k v =
     (if k = ''kind'' then map_option (\<lambda>s. b\<lparr>vb_Kind := s\<rparr>) (ofString v)
      else if k = ''runs'' then map_option (\<lambda>rs. b\<lparr>vb_Runs := rs\<rparr>) (ofList ofRun v)
      else if k = ''unobserved'' then map_option (\<lambda>us. b\<lparr>vb_Unobserved := us\<rparr>) (ofList ofString v)
      else Some b)"

definition ofBasis :: "json \<Rightarrow> verdict_basis option" where
  "ofBasis = ofObject putBasis noVerdict"

definition toBasis :: "verdict_basis \<Rightarrow> json" where
  "toBasis b = JObject ([(''kind'', JString (vb_Kind b))] @
     (if vb_Runs b = [] then [] else [(''runs'', JList (map toRun (vb_Runs b)))]) @
     (if vb_Unobserved b = [] then [] else [(''unobserved'', JList (map JString (vb_Unobserved b)))]))"

section \<open>Rows\<close>

record task_row =
  r_id :: string
  r_ord :: int
  r_title :: string
  r_description :: string
  r_question :: string
  r_kind :: string
  r_parent_id :: string
  r_priority :: int
  r_effect :: string
  r_parallel :: string
  r_isolation :: string
  r_role :: string
  r_agent :: string
  r_acceptance :: string
  r_checks :: json_text
  r_capabilities :: json_text
  r_resources :: json_text
  r_context_inputs :: json_text
  r_deliverables :: json_text
  r_evidence_requirements :: json_text
  r_status :: string
  r_composite :: int
  r_claimed_by :: string
  r_result :: string
  r_err :: string
  r_artifacts :: json_text
  r_evidence :: json_text
  r_created_at :: stamp
  r_updated_at :: stamp
  r_completed_at :: stamp
  r_project :: string
  r_chat :: string
  r_paused :: int
  r_owner :: string
  r_seen_at :: stamp
  r_waiting :: int
  r_waited_at :: stamp
  r_verdict_basis :: json_text
  r_model :: string

record archived_row = task_row +
  r_archived_at :: stamp

record dep_row =
  d_downstream :: string
  d_upstream :: string
  d_kind :: string
  d_ord :: int

record note_row =
  n_seq :: int
  n_id :: string
  n_task_id :: string
  n_agent :: string
  n_body :: string
  n_at :: stamp
  n_project :: string
  n_chat :: string
  n_from :: string

record context_row =
  c_seq :: int
  c_id :: string
  c_task_id :: string
  c_kind :: string
  c_content :: string
  c_created_at :: stamp
  c_project :: string
  c_chat :: string

record meta_row =
  m_project :: string
  m_root_id :: string
  m_next_id :: int
  m_version :: int

record live_row =
  l_task_id :: string
  l_step :: int
  l_command :: string
  l_since :: stamp

text \<open>The dollars of a charge are a float64, whose type is an argument.\<close>

record 'usd spend_row =
  s_task_id :: string
  s_model :: string
  s_role :: string
  s_usd :: 'usd
  s_in_tokens :: "64 word"
  s_out_tokens :: "64 word"
  s_at :: stamp

record 'usd plan_db =
  t_meta :: "meta_row option"
  t_tasks :: "task_row list"
  t_deps :: "dep_row list"
  t_notes :: "note_row list"
  t_contexts :: "context_row list"
  t_deleted :: "string set"
  t_archived :: "archived_row list"
  t_live :: "live_row list"
  t_spend :: "'usd spend_row list"

text \<open>An insert is refused where the table already holds a row of that primary key.\<close>

definition insertRow :: "('r \<Rightarrow> 'k) \<Rightarrow> 'r \<Rightarrow> 'r list \<Rightarrow> plan_error + 'r list" where
  "insertRow key r rows = (if key r \<in> set (map key rows) then Inl UniqueViolation else Inr (rows @ [r]))"

section \<open>A task's row\<close>

text \<open>A step that may fail, and what follows it.\<close>

definition andThen :: "'e + 'a \<Rightarrow> ('a \<Rightarrow> 'e + 'b) \<Rightarrow> 'e + 'b" where
  "andThen x f = (case x of Inl e \<Rightarrow> Inl e | Inr y \<Rightarrow> f y)"

lemma andThen_Inr [simp]: "andThen (Inr y) f = f y" "andThen (Inl e) f = Inl e"
  by (simp_all add: andThen_def)

lemma andThen_iff: "andThen x f = Inr z \<longleftrightarrow> (\<exists>y. x = Inr y \<and> f y = Inr z)"
  by (simp add: andThen_def split: sum.split)

definition stringsOf :: "json_text \<Rightarrow> plan_error + string list" where
  "stringsOf = decodeJSON (ofList ofString) []"

definition claimsOf :: "json_text \<Rightarrow> plan_error + resource_claim list" where
  "claimsOf = decodeJSON (ofList ofClaim) []"

definition basisOf :: "json_text \<Rightarrow> plan_error + verdict_basis" where
  "basisOf = decodeJSON ofBasis noVerdict"

definition scanTask :: "'z task_row_scheme \<Rightarrow> plan_error + task" where
  "scanTask row =
     andThen (stringsOf (r_checks row)) (\<lambda>checks.
     andThen (stringsOf (r_capabilities row)) (\<lambda>capabilities.
     andThen (claimsOf (r_resources row)) (\<lambda>resources.
     andThen (stringsOf (r_context_inputs row)) (\<lambda>contextInputs.
     andThen (stringsOf (r_deliverables row)) (\<lambda>deliverables.
     andThen (stringsOf (r_evidence_requirements row)) (\<lambda>requirements.
     andThen (stringsOf (r_artifacts row)) (\<lambda>artifacts.
     andThen (stringsOf (r_evidence row)) (\<lambda>evidence.
     andThen (basisOf (r_verdict_basis row)) (\<lambda>basis.
     andThen (parseTime (r_created_at row)) (\<lambda>created.
     andThen (parseTime (r_updated_at row)) (\<lambda>updated.
     andThen (parseTime (r_completed_at row)) (\<lambda>completed.
     andThen (parseTime (r_seen_at row)) (\<lambda>seen.
     andThen (parseTime (r_waited_at row)) (\<lambda>waited.
       Inr \<lparr>ID = r_id row, Title = r_title row, Description = r_description row, Model = r_model row,
            Question = r_question row, Kind = r_kind row, ParentID = r_parent_id row, Dependencies = [],
            Priority = r_priority row, Capabilities = capabilities, Resources = resources, Effect = r_effect row,
            Parallel = r_parallel row, Isolation = r_isolation row, Role = r_role row, ContextInputs = contextInputs,
            Deliverables = deliverables, EvidenceRequirements = requirements, Agent = r_agent row,
            Acceptance = r_acceptance row, Checks = checks, Status = statusOf (r_status row),
            Composite = (r_composite row \<noteq> 0), Paused = (r_paused row \<noteq> 0), Waiting = (r_waiting row \<noteq> 0),
            WaitedAt = waited, Project = r_project row, Chat = r_chat row, ClaimedBy = r_claimed_by row,
            Owner = r_owner row, SeenAt = seen, Result = r_result row, Error = r_err row, Artifacts = artifacts,
            Evidence = evidence, VerdictBasis = basis, CreatedAt = created, UpdatedAt = updated,
            CompletedAt = completed, ArchivedAt = 0\<rparr>))))))))))))))"

text \<open>
  A list as the value its text says. \<^verbatim>\<open>encodeJSON\<close> writes the text of a string whose bytes are
  valid UTF-8 as that string; of any other string \<^verbatim>\<open>json.Marshal\<close> replaces the bytes that are not,
  which is not modelled, so what is proved of these columns is about UTF-8 strings.
\<close>

definition textOf :: "string list \<Rightarrow> json_text" where
  "textOf xs = JSON (listJSON JString xs)"

definition taskRow :: "nat \<Rightarrow> task \<Rightarrow> task_row" where
  "taskRow ord t =
     \<lparr>r_id = ID t, r_ord = int ord, r_title = Title t, r_description = Description t, r_question = Question t,
      r_kind = Kind t, r_parent_id = ParentID t, r_priority = Priority t, r_effect = Effect t,
      r_parallel = Parallel t, r_isolation = Isolation t, r_role = Role t, r_agent = Agent t,
      r_acceptance = Acceptance t, r_checks = textOf (Checks t), r_capabilities = textOf (Capabilities t),
      r_resources = JSON (listJSON toClaim (Resources t)), r_context_inputs = textOf (ContextInputs t),
      r_deliverables = textOf (Deliverables t), r_evidence_requirements = textOf (EvidenceRequirements t),
      r_status = statusWord (Status t), r_composite = boolInt (Composite t), r_claimed_by = ClaimedBy t,
      r_result = Result t, r_err = Error t, r_artifacts = textOf (Artifacts t), r_evidence = textOf (Evidence t),
      r_created_at = formatTime (CreatedAt t), r_updated_at = formatTime (UpdatedAt t),
      r_completed_at = formatTime (CompletedAt t), r_project = Project t, r_chat = Chat t,
      r_paused = boolInt (Paused t), r_owner = Owner t, r_seen_at = formatTime (SeenAt t),
      r_waiting = boolInt (Waiting t), r_waited_at = formatTime (WaitedAt t),
      r_verdict_basis = JSON (toBasis (VerdictBasis t)), r_model = Model t\<rparr>"

section \<open>Columns read back as they were written\<close>

lemma parse_format [simp]: "parseTime (formatTime t) = Inr t"
  by (simp add: formatTime_def)

lemma boolInt_nonzero [simp]: "boolInt b \<noteq> 0 \<longleftrightarrow> b" "boolInt b = 0 \<longleftrightarrow> \<not> b"
  by (simp_all add: boolInt_def)

lemma those_map: "(\<And>x. x \<in> set xs \<Longrightarrow> f (g x) = Some x) \<Longrightarrow> those (map (\<lambda>x. f (g x)) xs) = Some xs"
  by (induction xs) auto


lemma decode_listJSON: "(\<And>x. f (g x) = Some x) \<Longrightarrow> decodeJSON (ofList f) [] (JSON (listJSON g xs)) = Inr xs"
  using those_map[of xs f g] by (simp add: listJSON_def comp_def)

lemma strings_text [simp]: "stringsOf (textOf xs) = Inr xs"
  by (simp add: stringsOf_def textOf_def decode_listJSON)

lemma of_toClaim [simp]: "ofClaim (toClaim r) = Some r"
  by (simp add: ofClaim_def toClaim_def putClaim_def)

lemma of_toRun [simp]: "ofRun (toRun r) = Some r"
  by (simp add: ofRun_def toRun_def putRun_def)

lemma claims_text [simp]: "claimsOf (JSON (listJSON toClaim xs)) = Inr xs"
  by (simp add: claimsOf_def decode_listJSON)

lemma basis_text [simp]: "basisOf (JSON (toBasis b)) = Inr b"
proof -
  have "ofList ofRun (JList (map toRun rs)) = Some rs" "ofList ofString (JList (map JString us)) = Some us" for rs us
    using those_map[of rs ofRun toRun] those_map[of us ofString JString] by (simp_all add: comp_def)
  then have "ofBasis (toBasis b) = Some b"
    by (cases b) (auto simp: ofBasis_def toBasis_def putBasis_def noVerdict_def)
  then show ?thesis by (simp add: basisOf_def toBasis_def)
qed

text \<open>A live task's row gives the task back, without its edges (kept in their own table) and archive moment.\<close>

lemma scan_taskRow: "validStatus (Status t) \<Longrightarrow> scanTask (taskRow n t) = Inr (t\<lparr>Dependencies := [], ArchivedAt := 0\<rparr>)"
  by (cases t) (simp add: scanTask_def taskRow_def)

end
