(* ===== verification/PlanAdmit.thy ===== *)
theory PlanAdmit
  imports PlanReadyList
begin

text \<open>
  How tasks enter the plan: \<^verbatim>\<open>AddMany\<close> of \<^verbatim>\<open>internal/plandb/store.go\<close>.
  A batch is checked whole before any of it is written, and \<^verbatim>\<open>AddMany_inv\<close> shows that what it
  writes passes the check of the next load. The loop that resolves a new task's tags through
  parents of the same batch carries fuel one more than the batch has tasks; None would be a loop
  that has not ended, and \<^verbatim>\<open>inheritFrom_ends\<close> rules it out after the graph check.
\<close>

section \<open>The batch\<close>

definition specCheckErr :: "nat \<Rightarrow> plan_state \<Rightarrow> string list \<Rightarrow> task_spec \<Rightarrow> admit_error option" where
  "specCheckErr n s batch spec =
     (case validateSpec spec of Some e \<Rightarrow> Some (SpecInvalid n e)
      | None \<Rightarrow>
          (case validateCheckDeclarations (Checks spec) of Some e \<Rightarrow> Some (SpecInvalid n e)
           | None \<Rightarrow> refuse (task_at s (ID spec) \<noteq> None \<or> ID spec \<in> Deleted s \<or> ID spec \<in> set batch)
                       (DuplicateID (ID spec))))"

fun batchErr :: "nat \<Rightarrow> plan_state \<Rightarrow> string list \<Rightarrow> task_spec list \<Rightarrow> admit_error option" where
  "batchErr n s batch [] = None"
| "batchErr n s batch (spec # specs) =
     (case specCheckErr n s batch spec of Some e \<Rightarrow> Some e
      | None \<Rightarrow> batchErr (Suc n) s (ID spec # batch) specs)"

definition depAdmitErr :: "plan_state \<Rightarrow> string list \<Rightarrow> task_spec \<Rightarrow> dependency \<Rightarrow> admit_error option" where
  "depAdmitErr s batch spec d =
     (if task_at s (dep_TaskID d) = None \<and> dep_TaskID d \<notin> set batch then Some (UnknownDependency (ID spec) (dep_TaskID d))
      else refuse (dep_TaskID d = ID spec) (SelfDependency (ID spec)))"

definition placeErr :: "plan_state \<Rightarrow> string list \<Rightarrow> task_spec \<Rightarrow> admit_error option" where
  "placeErr s batch spec =
     (if task_at s (ParentID spec) = None \<and> ParentID spec \<notin> set batch
      then Some (UnknownParent (ID spec) (ParentID spec))
      else if (case task_at s (ParentID spec) of None \<Rightarrow> False | Some p \<Rightarrow> terminal (Status p))
      then Some (TerminalParent (ID spec) (ParentID spec))
      else firstErr (depAdmitErr s batch spec) (Dependencies spec))"

definition newTask :: "task_spec \<Rightarrow> time \<Rightarrow> task" where
  "newTask spec now = task_spec.extend spec
     (task.fields StatusPending False False False 0 '''' '''' '''' '''' 0 '''' '''' [] [] noVerdict now now 0 0)"

definition insertTask :: "time \<Rightarrow> task_spec \<Rightarrow> plan_state \<Rightarrow> plan_state" where
  "insertTask now spec s =
     (let s1 = put_task (ID spec) (newTask spec now) s in s1\<lparr>Order := Order s1 @ [ID spec]\<rparr>)"

definition markComposite :: "time \<Rightarrow> task \<Rightarrow> task" where
  "markComposite now p = p\<lparr>Composite := True, UpdatedAt := now\<rparr>"

fun inheritFrom :: "nat \<Rightarrow> plan_state \<Rightarrow> string list \<Rightarrow> string \<Rightarrow> string option" where
  "inheritFrom 0 s born p = None"
| "inheritFrom (Suc n) s born p =
     (if p \<in> set born
      then (case task_at s p of None \<Rightarrow> None | Some t \<Rightarrow> inheritFrom n s born (ParentID t))
      else Some p)"

definition inheritTags :: "string list \<Rightarrow> task_spec \<Rightarrow> plan_state \<Rightarrow> plan_error + plan_state" where
  "inheritTags born spec s =
     (case inheritFrom (Suc (length born)) s born (ParentID spec) of
        None \<Rightarrow> Inl NilDeref
      | Some p \<Rightarrow>
          (case task_at s p of
             None \<Rightarrow> Inr s
           | Some stored \<Rightarrow> Inr (upd (ID spec) (\<lambda>t. t\<lparr>Project := Project stored, Chat := Chat stored\<rparr>) s)))"

definition AddMany :: "task_spec list \<Rightarrow> time \<Rightarrow> plan_state \<Rightarrow> plan_error + plan_state" where
  "AddMany specs0 now s =
     orFail (refuse (length specs0 = 0) (AdmitRefused TasksEmpty))
     (orFail (refuse (length specs0 > 256) (AdmitRefused PlanTooLarge))
     (orFail (refuse (length (Tasks s) + length specs0 > 1024) (AdmitRefused RunTooLarge))
     (let specs = map (\<lambda>spec. normalizeSpec spec (RootID s)) specs0;
          batch = map ID specs
      in orFail (map_option AdmitRefused (batchErr 0 s [] specs))
        (orFail (map_option AdmitRefused (firstErr (placeErr s batch) specs))
        (let s1 = fold (insertTask now) specs s;
             s2 = fold (\<lambda>spec. upd (ParentID spec) (markComposite now)) specs s1
         in orFail (map_option graphErr (validateGraphs s2))
           (case foldE (inheritTags batch) specs s2 of
              Inl e \<Rightarrow> Inl e
            | Inr s3 \<Rightarrow> Inr (promote now s3)))))))"

text \<open>The tasks the method answers with, read from the plan it committed.\<close>

definition created :: "task_spec list \<Rightarrow> plan_state \<Rightarrow> task option list" where
  "created specs0 s' = map (\<lambda>spec. task_at s' (ID (normalizeSpec spec (RootID s')))) specs0"

section \<open>What the gate lets through\<close>

lemma batchErr_None:
  "batchErr n s batch specs = None \<longleftrightarrow>
     (\<forall>spec\<in>set specs. validateSpec spec = None \<and> validateCheckDeclarations (Checks spec) = None \<and>
        task_at s (ID spec) = None \<and> ID spec \<notin> Deleted s \<and> ID spec \<notin> set batch) \<and> distinct (map ID specs)"
proof (induction n s batch specs rule: batchErr.induct)
  case (2 n s batch spec specs)
  show ?case
  proof (cases "specCheckErr n s batch spec")
    case None
    then have "validateSpec spec = None \<and> validateCheckDeclarations (Checks spec) = None \<and>
        task_at s (ID spec) = None \<and> ID spec \<notin> Deleted s \<and> ID spec \<notin> set batch"
      by (simp add: specCheckErr_def)
    with None 2 show ?thesis by (simp add: image_iff) metis
  next
    case (Some e)
    then have "\<not> (validateSpec spec = None \<and> validateCheckDeclarations (Checks spec) = None \<and>
        task_at s (ID spec) = None \<and> ID spec \<notin> Deleted s \<and> ID spec \<notin> set batch)"
      by (auto simp: specCheckErr_def split: option.splits)
    with Some show ?thesis by auto
  qed
qed simp

lemma placeErr_None:
  "placeErr s batch spec = None \<longleftrightarrow>
     (task_at s (ParentID spec) \<noteq> None \<or> ParentID spec \<in> set batch) \<and>
     (\<forall>p. task_at s (ParentID spec) = Some p \<longrightarrow> \<not> terminal (Status p)) \<and>
     (\<forall>d\<in>set (Dependencies spec). (task_at s (dep_TaskID d) \<noteq> None \<or> dep_TaskID d \<in> set batch) \<and>
        dep_TaskID d \<noteq> ID spec)"
  by (auto simp: placeErr_def depAdmitErr_def split: option.splits)

lemma newTask_fields [simp]:
  "ID (newTask spec now) = ID spec" "ParentID (newTask spec now) = ParentID spec"
  "Dependencies (newTask spec now) = Dependencies spec" "Status (newTask spec now) = StatusPending"
  "Composite (newTask spec now) = False" "Title (newTask spec now) = Title spec"
  "validateSpec (newTask spec now) = validateSpec spec" "Waiting (newTask spec now) = False"
  "ClaimedBy (newTask spec now) = ''''" "Role (newTask spec now) = Role spec"
  by (simp_all add: newTask_def task_spec.extend_def task.fields_def validateSpec_def)

section \<open>What the batch writes\<close>

lemma insertTask_at: "task_at (insertTask now spec s) = (task_at s)(ID spec \<mapsto> newTask spec now)"
proof -
  have "task_at (s1\<lparr>Order := x\<rparr>) = task_at s1" for s1 x by (simp add: task_at_def fun_eq_iff)
  then show ?thesis by (simp add: insertTask_def Let_def task_at_put)
qed

lemma insertTask_frame:
  "RootID (insertTask now spec s) = RootID s" "Version (insertTask now spec s) = Version s"
  "PlanProject (insertTask now spec s) = PlanProject s" "Deleted (insertTask now spec s) = Deleted s"
  "Order (insertTask now spec s) = Order s @ [ID spec]" "rep_ok s \<Longrightarrow> rep_ok (insertTask now spec s)"
  "task_at s (ID spec) = None \<Longrightarrow> task_ids (insertTask now spec s) = task_ids s @ [ID spec]"
proof -
  have "task_ids (s1\<lparr>Order := x\<rparr>) = task_ids s1" "rep_ok (s1\<lparr>Order := x\<rparr>) = rep_ok s1" for s1 x
    by (simp_all add: task_ids_def rep_ok_def)
  then show "rep_ok s \<Longrightarrow> rep_ok (insertTask now spec s)"
    "task_at s (ID spec) = None \<Longrightarrow> task_ids (insertTask now spec s) = task_ids s @ [ID spec]"
    by (simp_all add: insertTask_def Let_def task_ids_put_absent)
qed (simp_all add: insertTask_def Let_def)

lemma insertTasks:
  assumes "distinct (map ID specs)" and "\<forall>spec\<in>set specs. task_at s (ID spec) = None"
  shows "RootID (fold (insertTask now) specs s) = RootID s \<and> Version (fold (insertTask now) specs s) = Version s \<and>
     PlanProject (fold (insertTask now) specs s) = PlanProject s \<and> Deleted (fold (insertTask now) specs s) = Deleted s \<and>
     Order (fold (insertTask now) specs s) = Order s @ map ID specs \<and>
     (rep_ok s \<longrightarrow> rep_ok (fold (insertTask now) specs s)) \<and>
     task_ids (fold (insertTask now) specs s) = task_ids s @ map ID specs \<and>
     (\<forall>spec\<in>set specs. task_at (fold (insertTask now) specs s) (ID spec) = Some (newTask spec now)) \<and>
     (\<forall>j. j \<notin> ID ` set specs \<longrightarrow> task_at (fold (insertTask now) specs s) j = task_at s j)"
  using assms
proof (induction specs arbitrary: s)
  case (Cons spec specs)
  let ?s = "insertTask now spec s"
  have "ID sp \<noteq> ID spec" if "sp \<in> set specs" for sp
    using Cons.prems(1) imageI[OF that, of ID] by auto
  then have "\<forall>spec\<in>set specs. task_at ?s (ID spec) = None" using Cons.prems(2) by (simp add: insertTask_at)
  with Cons.prems have ih: "RootID (fold (insertTask now) specs ?s) = RootID ?s \<and> Version (fold (insertTask now) specs ?s) = Version ?s \<and>
     PlanProject (fold (insertTask now) specs ?s) = PlanProject ?s \<and> Deleted (fold (insertTask now) specs ?s) = Deleted ?s \<and>
     Order (fold (insertTask now) specs ?s) = Order ?s @ map ID specs \<and>
     (rep_ok ?s \<longrightarrow> rep_ok (fold (insertTask now) specs ?s)) \<and>
     task_ids (fold (insertTask now) specs ?s) = task_ids ?s @ map ID specs \<and>
     (\<forall>spec\<in>set specs. task_at (fold (insertTask now) specs ?s) (ID spec) = Some (newTask spec now)) \<and>
     (\<forall>j. j \<notin> ID ` set specs \<longrightarrow> task_at (fold (insertTask now) specs ?s) j = task_at ?s j)"
    by (intro Cons.IH) auto
  have "task_at s (ID spec) = None" "ID spec \<notin> ID ` set specs" using Cons.prems by auto
  with ih show ?case by (simp add: insertTask_frame insertTask_at)
qed simp

lemma markComposites:
  "task_at (fold (\<lambda>spec. upd (ParentID spec) (markComposite now)) specs s) j =
     (if j \<in> ParentID ` set specs then map_option (markComposite now) (task_at s j) else task_at s j)"
  "(fold (\<lambda>spec. upd (ParentID spec) (markComposite now)) specs s)\<lparr>Tasks := []\<rparr> = s\<lparr>Tasks := []\<rparr>"
  "task_ids (fold (\<lambda>spec. upd (ParentID spec) (markComposite now)) specs s) = task_ids s"
  "rep_ok s \<Longrightarrow> rep_ok (fold (\<lambda>spec. upd (ParentID spec) (markComposite now)) specs s)"
proof -
  show "task_at (fold (\<lambda>spec. upd (ParentID spec) (markComposite now)) specs s) j =
     (if j \<in> ParentID ` set specs then map_option (markComposite now) (task_at s j) else task_at s j)"
  proof (induction specs arbitrary: s)
    case (Cons spec specs)
    then show ?case by (cases "task_at s j") (auto simp: task_at_upd markComposite_def)
  qed simp
  show "(fold (\<lambda>spec. upd (ParentID spec) (markComposite now)) specs s)\<lparr>Tasks := []\<rparr> = s\<lparr>Tasks := []\<rparr>"
  proof (induction specs arbitrary: s)
    case (Cons spec specs)
    have "(upd (ParentID spec) (markComposite now) s)\<lparr>Tasks := []\<rparr> = s\<lparr>Tasks := []\<rparr>"
      by (simp add: upd_task_def put_task_def split: option.split)
    with Cons show ?case by simp
  qed simp
  show "task_ids (fold (\<lambda>spec. upd (ParentID spec) (markComposite now)) specs s) = task_ids s"
    by (induction specs arbitrary: s) simp_all
  show "rep_ok s \<Longrightarrow> rep_ok (fold (\<lambda>spec. upd (ParentID spec) (markComposite now)) specs s)"
    by (induction specs arbitrary: s) simp_all
qed

lemma markComposite_simps [simp]:
  "ID (markComposite now t) = ID t" "ParentID (markComposite now t) = ParentID t"
  "Dependencies (markComposite now t) = Dependencies t" "Status (markComposite now t) = Status t"
  "Composite (markComposite now t)" "validateSpec (markComposite now t) = validateSpec t"
  by (simp_all add: markComposite_def validateSpec_def)

section \<open>A batch keeps the laws\<close>

lemma same_rest:
  assumes "s'\<lparr>Tasks := []\<rparr> = s\<lparr>Tasks := []\<rparr>"
  shows "Version s' = Version s" "PlanProject s' = PlanProject s" "RootID s' = RootID s" "Order s' = Order s"
    "Notes s' = Notes s" "Contexts s' = Contexts s" "NextID s' = NextID s" "Deleted s' = Deleted s"
  using assms by (metis plan_state.select_convs(1) plan_state.surjective plan_state.update_convs(4)
      plan_state.select_convs(2,3,5,6,7,8,9))+

lemma plan_inv_rebuild:
  assumes "plan_inv s" and "rep_ok s'" and "Version s' = Version s" and "PlanProject s' = PlanProject s"
    and "RootID s' = RootID s" and "task_at s' (RootID s) = Some r" and "ParentID r = ''''"
    and "distinct (Order s')" and "set (Order s') = set (task_ids s')"
    and "\<And>i t. task_at s' i = Some t \<Longrightarrow> task_wf s' i t" and "graphs_ok s'"
  shows "plan_inv s'"
proof -
  have "Tasks s' \<noteq> []" using assms(6) by (auto simp: task_at_def)
  then show ?thesis using assms by (auto simp: plan_inv_iff plan_wf_def)
qed

text \<open>On finitely many tasks a containment tree has a top: a task whose parent is not among them.\<close>

lemma parent_top:
  assumes "acyclic (parent_rel s)" and "finite D" and "D \<noteq> {}"
    and "\<And>i. i \<in> D \<Longrightarrow> \<exists>t. task_at s i = Some t \<and> ParentID t \<in> D \<and> ParentID t \<noteq> ''''"
  shows False
proof -
  let ?r = "parent_rel s \<inter> (D \<times> D)"
  have "finite ?r" using assms(2) by simp
  moreover have "acyclic ?r" using assms(1) by (rule acyclic_subset) blast
  ultimately have "wf (?r\<inverse>)" by (rule finite_acyclic_wf_converse)
  then obtain z where z: "z \<in> D" "\<And>y. (y, z) \<in> ?r\<inverse> \<Longrightarrow> y \<notin> D"
    using assms(3) by (metis ex_in_conv wfE_min)
  from assms(4)[OF z(1)] obtain t where "task_at s z = Some t" "ParentID t \<in> D" "ParentID t \<noteq> ''''" by blast
  then have "(ParentID t, z) \<in> ?r\<inverse>" using z(1) by (auto simp: parent_rel_iff)
  with z(2) show False by blast
qed

text \<open>What the gate guarantees of a batch, and the plan with the batch written.\<close>

definition admissible :: "plan_state \<Rightarrow> task_spec list \<Rightarrow> bool" where
  "admissible s specs \<longleftrightarrow> distinct (map ID specs) \<and>
     (\<forall>sp\<in>set specs. validateSpec sp = None \<and> task_at s (ID sp) = None \<and>
        (task_at s (ParentID sp) \<noteq> None \<or> ParentID sp \<in> ID ` set specs) \<and>
        (\<forall>d\<in>set (Dependencies sp). task_at s (dep_TaskID d) \<noteq> None \<or> dep_TaskID d \<in> ID ` set specs))"

definition admitted :: "time \<Rightarrow> task_spec list \<Rightarrow> plan_state \<Rightarrow> plan_state" where
  "admitted now specs s = fold (\<lambda>spec. upd (ParentID spec) (markComposite now)) specs (fold (insertTask now) specs s)"

definition marked :: "time \<Rightarrow> task_spec list \<Rightarrow> string \<Rightarrow> task \<Rightarrow> task" where
  "marked now specs j t = (if j \<in> ParentID ` set specs then markComposite now t else t)"

lemma marked_simps [simp]:
  "ID (marked now specs j t) = ID t" "ParentID (marked now specs j t) = ParentID t"
  "Dependencies (marked now specs j t) = Dependencies t" "Status (marked now specs j t) = Status t"
  "Composite (marked now specs j t) \<longleftrightarrow> j \<in> ParentID ` set specs \<or> Composite t"
  "validateSpec (marked now specs j t) = validateSpec t"
  by (simp_all add: marked_def)

lemma admissibleI:
  assumes "batchErr 0 s [] specs = None" and "firstErr (placeErr s (map ID specs)) specs = None"
  shows "admissible s specs"
  using assms by (auto simp: admissible_def batchErr_None placeErr_None)

lemma admissible_ID: "admissible s specs \<Longrightarrow> sp \<in> set specs \<Longrightarrow> ID sp \<noteq> ''''"
  by (auto simp: admissible_def validateSpec_def split: if_splits)

lemma admitted_frame:
  assumes "admissible s specs"
  shows "RootID (admitted now specs s) = RootID s" "Version (admitted now specs s) = Version s"
    "PlanProject (admitted now specs s) = PlanProject s" "Order (admitted now specs s) = Order s @ map ID specs"
    "task_ids (admitted now specs s) = task_ids s @ map ID specs" "rep_ok s \<Longrightarrow> rep_ok (admitted now specs s)"
proof -
  have a: "distinct (map ID specs)" "\<forall>sp\<in>set specs. task_at s (ID sp) = None"
    using assms by (simp_all add: admissible_def)
  note i = insertTasks[OF a, of now]
  note r = same_rest[OF markComposites(2)[of now specs "fold (insertTask now) specs s"]]
  show "RootID (admitted now specs s) = RootID s" "Version (admitted now specs s) = Version s"
    "PlanProject (admitted now specs s) = PlanProject s" "Order (admitted now specs s) = Order s @ map ID specs"
    using r i by (simp_all add: admitted_def)
  show "task_ids (admitted now specs s) = task_ids s @ map ID specs" using i by (simp add: admitted_def markComposites(3))
  show "rep_ok s \<Longrightarrow> rep_ok (admitted now specs s)" using i by (simp add: admitted_def markComposites(4))
qed

lemma admitted_at:
  assumes "admissible s specs"
  shows "sp \<in> set specs \<Longrightarrow> task_at (admitted now specs s) (ID sp) = Some (marked now specs (ID sp) (newTask sp now))"
    and "j \<notin> ID ` set specs \<Longrightarrow> task_at (admitted now specs s) j = map_option (marked now specs j) (task_at s j)"
proof -
  have a: "distinct (map ID specs)" "\<forall>sp\<in>set specs. task_at s (ID sp) = None"
    using assms by (simp_all add: admissible_def)
  note i = insertTasks[OF a, of now]
  have v: "task_at (admitted now specs s) j = map_option (marked now specs j) (task_at (fold (insertTask now) specs s) j)" for j
    unfolding admitted_def markComposites(1) by (cases "task_at (fold (insertTask now) specs s) j") (auto simp: marked_def)
  show "sp \<in> set specs \<Longrightarrow> task_at (admitted now specs s) (ID sp) = Some (marked now specs (ID sp) (newTask sp now))"
    using i v by simp
  show "j \<notin> ID ` set specs \<Longrightarrow> task_at (admitted now specs s) j = map_option (marked now specs j) (task_at s j)"
    using i v by simp
qed

lemma admitted_view:
  assumes a: "admissible s specs" and t: "task_at (admitted now specs s) j = Some t"
  obtains (old) u where "t = marked now specs j u" "task_at s j = Some u"
  | (new) sp where "t = marked now specs j (newTask sp now)" "sp \<in> set specs" "j = ID sp"
proof (cases "j \<in> ID ` set specs")
  case True
  then obtain sp where "sp \<in> set specs" "j = ID sp" by blast
  with admitted_at(1)[OF a this(1), of now] t show ?thesis by (intro new[of sp]) simp_all
next
  case False
  with admitted_at(2)[OF a False, of now] t obtain u where "task_at s j = Some u" "t = marked now specs j u"
    by (cases "task_at s j") auto
  then show ?thesis by (intro old[of u])
qed

lemma admitted_dom:
  assumes "admissible s specs"
  shows "task_at (admitted now specs s) j \<noteq> None \<longleftrightarrow> task_at s j \<noteq> None \<or> j \<in> ID ` set specs"
proof -
  have "task_at (admitted now specs s) j \<noteq> None \<longleftrightarrow> j \<in> set (task_ids (admitted now specs s))"
    by (simp add: task_ids_iff)
  then show ?thesis unfolding admitted_frame(5)[OF assms] by (auto simp: task_ids_iff)
qed

lemma admitted_child:
  assumes a: "admissible s specs"
  shows "has_child (admitted now specs s) j \<longleftrightarrow> j \<in> ParentID ` set specs \<or> has_child s j"
proof
  assume "has_child (admitted now specs s) j"
  then obtain k t where k: "task_at (admitted now specs s) k = Some t" "ParentID t = j" by (auto simp: has_child_def)
  from a k(1) show "j \<in> ParentID ` set specs \<or> has_child s j"
    by (rule admitted_view) (use k(2) in \<open>auto simp: has_child_def\<close>)
next
  assume "j \<in> ParentID ` set specs \<or> has_child s j"
  then show "has_child (admitted now specs s) j"
  proof
    assume "j \<in> ParentID ` set specs"
    then obtain sp where sp: "sp \<in> set specs" "j = ParentID sp" by blast
    from admitted_at(1)[OF a sp(1), of now] sp(2) show ?thesis
      unfolding has_child_def by (intro exI[of _ "ID sp"] exI[of _ "marked now specs (ID sp) (newTask sp now)"]) simp
  next
    assume "has_child s j"
    then obtain k u where k: "task_at s k = Some u" "ParentID u = j" by (auto simp: has_child_def)
    then have "k \<notin> ID ` set specs" using a by (auto simp: admissible_def)
    from admitted_at(2)[OF a this, of now] k show ?thesis
      unfolding has_child_def by (intro exI[of _ k] exI[of _ "marked now specs k u"]) simp
  qed
qed

lemma admitted_nonempty:
  assumes a: "admissible s specs" and ne: "specs \<noteq> []" and g: "graphs_ok (admitted now specs s)"
  shows "Tasks s \<noteq> []"
proof
  assume "Tasks s = []"
  then have none: "task_at s j = None" for j by (simp add: task_at_def)
  have "\<exists>t. task_at (admitted now specs s) i = Some t \<and> ParentID t \<in> ID ` set specs \<and> ParentID t \<noteq> ''''"
    if "i \<in> ID ` set specs" for i
  proof -
    from that obtain sp where sp: "sp \<in> set specs" "i = ID sp" by blast
    have "ParentID sp \<in> ID ` set specs" using a sp(1) by (auto simp: admissible_def none)
    moreover from this have "ParentID sp \<noteq> ''''" using admissible_ID[OF a] by fastforce
    ultimately show ?thesis using admitted_at(1)[OF a sp(1), of now] sp(2) by simp
  qed
  with parent_top[of "admitted now specs s" "ID ` set specs"] g ne show False by (auto simp: graphs_ok_def)
qed

lemma admitted_wf:
  assumes inv: "plan_inv s" and a: "admissible s specs" and root: "task_at s (RootID s) = Some r" "ParentID r = ''''"
    and t: "task_at (admitted now specs s) i = Some t"
  shows "task_wf (admitted now specs s) i t"
  using a t
proof (rule admitted_view)
  fix u assume t: "t = marked now specs i u" and u: "task_at s i = Some u"
  from plan_invD(3)[OF inv u] show ?thesis
    unfolding task_wf_def t marked_simps admitted_child[OF a] admitted_frame(1)[OF a] admitted_dom[OF a] by blast
next
  fix sp assume t: "t = marked now specs i (newTask sp now)" and sp: "sp \<in> set specs" "i = ID sp"
  have "\<not> has_child s i"
  proof
    assume "has_child s i"
    then obtain k w where k: "task_at s k = Some w" "ParentID w = i" by (auto simp: has_child_def)
    moreover have "task_at s i = None" "i \<noteq> ''''" using a sp admissible_ID[OF a] by (auto simp: admissible_def)
    ultimately show False using plan_invD(3)[OF inv k(1)] root by (auto simp: task_wf_def)
  qed
  then show ?thesis using a sp
    unfolding task_wf_def t marked_simps admitted_child[OF a] admitted_frame(1)[OF a] admitted_dom[OF a]
    by (auto simp: admissible_def)
qed

lemma admitted_inv:
  assumes inv: "plan_inv s" and ne: "specs \<noteq> []" and a: "admissible s specs"
    and g: "validateGraphs (admitted now specs s) = None"
  shows "plan_inv (admitted now specs s)"
proof -
  have rep: "rep_ok (admitted now specs s)" using inv admitted_frame(6)[OF a] by (simp add: plan_inv_iff)
  then have graphs: "graphs_ok (admitted now specs s)" using g by (simp add: validateGraphs_None_iff)
  from admitted_nonempty[OF a ne graphs] obtain q qs where "Tasks s = q # qs" by (cases "Tasks s") auto
  then have "task_at s (fst q) = Some (snd q)" by (simp add: task_at_def)
  from plan_invD(6)[OF inv this] obtain r where r: "task_at s (RootID s) = Some r" "ParentID r = ''''" by blast
  then have "RootID s \<notin> ID ` set specs" using a by (auto simp: admissible_def)
  from admitted_at(2)[OF a this, of now] r
  have root: "task_at (admitted now specs s) (RootID s) = Some (marked now specs (RootID s) r)"
    "ParentID (marked now specs (RootID s) r) = ''''" by auto
  have "set (Order s) \<inter> ID ` set specs = {}"
    using plan_inv_order(2)[OF inv] a by (auto simp: admissible_def task_ids_iff)
  then have "distinct (Order (admitted now specs s))" "set (Order (admitted now specs s)) = set (task_ids (admitted now specs s))"
    using plan_inv_order[OF inv] a admitted_frame(4,5)[OF a, of now] by (auto simp: admissible_def)
  then show ?thesis
    by (intro plan_inv_rebuild[OF inv rep admitted_frame(2,3,1)[OF a] root] admitted_wf[OF inv a r] graphs)
qed

section \<open>The whole operation\<close>

lemma inheritTags_shape: "inheritTags born spec s = Inr s' \<Longrightarrow> same_shape s s'"
  by (auto simp: inheritTags_def keeps_def split: option.splits)

lemma inheritTags_fold_shape: "foldE (inheritTags born) specs s = Inr s' \<Longrightarrow> same_shape s s'"
  by (erule foldE_invariant[where P = "same_shape s"])
     (auto intro: same_shape_trans inheritTags_shape)

text \<open>The tag walk ends: each step climbs to a parent, and the containment graph has no cycle.\<close>

lemma inheritFrom_None:
  assumes "\<And>q. q \<in> set born \<Longrightarrow> \<exists>t. task_at s q = Some t \<and> ParentID t \<noteq> ''''"
  shows "inheritFrom n s born p = None \<Longrightarrow>
    length (walk n (parent_ptr s) p) = n \<and> set (walk n (parent_ptr s) p) \<subseteq> set born"
proof (induction n arbitrary: p)
  case (Suc n)
  then have p: "p \<in> set born" by (auto split: if_splits)
  with assms obtain t where t: "task_at s p = Some t" "ParentID t \<noteq> ''''" by blast
  with Suc.prems p have "inheritFrom n s born (ParentID t) = None" by simp
  with Suc.IH[OF this] t p show ?case by (simp add: parent_ptr_def)
qed simp

lemma inheritFrom_out: "inheritFrom n s born p = Some q \<Longrightarrow> q \<notin> set born"
  by (induction n arbitrary: p) (auto split: if_splits option.splits)

lemma inheritFrom_ends:
  assumes ac: "acyclic (parent_rel s)"
    and born: "\<And>q. q \<in> set born \<Longrightarrow> \<exists>t. task_at s q = Some t \<and> ParentID t \<noteq> ''''"
  shows "\<exists>q. inheritFrom (Suc (length born)) s born p = Some q \<and> q \<notin> set born"
proof -
  define w where "w = walk (Suc (length born)) (parent_ptr s) p"
  have "inheritFrom (Suc (length born)) s born p \<noteq> None"
  proof
    assume "inheritFrom (Suc (length born)) s born p = None"
    from inheritFrom_None[OF born this] have w: "length w = Suc (length born)" "set w \<subseteq> set born"
      by (simp_all only: w_def)
    have "distinct w" unfolding w_def using ac by (intro walk_distinct) (simp add: ptr_rel_parent)
    then have "length w = card (set w)" by (simp add: distinct_card)
    also have "\<dots> \<le> length born" using w(2) by (metis List.finite_set card_length card_mono le_trans)
    finally show False using w(1) by simp
  qed
  then show ?thesis using inheritFrom_out by blast
qed
lemma AddMany_cases:
  assumes "AddMany specs0 now s = Inr s'"
  obtains specs s3 where "specs = map (\<lambda>spec. normalizeSpec spec (RootID s)) specs0" "specs \<noteq> []"
    "length specs \<le> 256" "length (Tasks s) + length specs \<le> 1024"
    "batchErr 0 s [] specs = None" "firstErr (placeErr s (map ID specs)) specs = None"
    "validateGraphs (admitted now specs s) = None"
    "foldE (inheritTags (map ID specs)) specs (admitted now specs s) = Inr s3" "s' = promote now s3"
proof -
  let ?specs = "map (\<lambda>spec. normalizeSpec spec (RootID s)) specs0"
  from assms have c: "specs0 \<noteq> []" "length specs0 \<le> 256" "length (Tasks s) + length specs0 \<le> 1024"
    "batchErr 0 s [] ?specs = None" "firstErr (placeErr s (map ID ?specs)) ?specs = None"
    "validateGraphs (admitted now ?specs s) = None"
    and f: "(case foldE (inheritTags (map ID ?specs)) ?specs (admitted now ?specs s) of
       Inl e \<Rightarrow> Inl e | Inr s3 \<Rightarrow> Inr (promote now s3)) = Inr s'"
    by (auto simp: AddMany_def Let_def admitted_def simp del: firstErr_None_iff)
  from f obtain s3 where "foldE (inheritTags (map ID ?specs)) ?specs (admitted now ?specs s) = Inr s3"
    "s' = promote now s3" by (auto split: sum.splits)
  with c show ?thesis by (intro that[of ?specs s3]) simp_all
qed

lemma AddMany_shape:
  assumes "AddMany specs now s = Inr s'"
  obtains specs' where "specs' = map (\<lambda>spec. normalizeSpec spec (RootID s)) specs" "specs' \<noteq> []"
    "admissible s specs'" "validateGraphs (admitted now specs' s) = None" "same_shape (admitted now specs' s) s'"
  using assms
proof (rule AddMany_cases)
  fix nspecs s3
  assume "nspecs = map (\<lambda>spec. normalizeSpec spec (RootID s)) specs" and "nspecs \<noteq> []"
    and "batchErr 0 s [] nspecs = None" "firstErr (placeErr s (map ID nspecs)) nspecs = None"
    and "validateGraphs (admitted now nspecs s) = None"
    and "foldE (inheritTags (map ID nspecs)) nspecs (admitted now nspecs s) = Inr s3" "s' = promote now s3"
  then show ?thesis by (intro that[of nspecs])
      (auto intro: admissibleI same_shape_promoteI inheritTags_fold_shape simp del: firstErr_None_iff)
qed

lemma AddMany_inv:
  assumes "plan_inv s" and "AddMany specs now s = Inr s'"
  shows "plan_inv s'"
  using assms(2) by (rule AddMany_shape) (metis admitted_inv[OF assms(1)] same_shape_inv)

lemma AddMany_run:
  assumes "AddMany specs now s = Inr s'"
  shows "RootID s' = RootID s \<and> PlanProject s' = PlanProject s"
  using assms
proof (rule AddMany_shape)
  fix specs'
  assume "admissible s specs'" and "same_shape (admitted now specs' s) s'"
  then show ?thesis using admitted_frame[of s specs' now] by (simp add: same_shape_def)
qed
interpretation add_many: plan_operation AddMany
  by unfold_locales (rule AddMany_inv, assumption+, rule AddMany_run)

text \<open>The batch is in the plan, in order, as it was declared; nothing that was there is gone.\<close>

lemma AddMany_result:
  assumes c: "AddMany specs now s = Inr s'" and n: "specs' = map (\<lambda>spec. normalizeSpec spec (RootID s)) specs"
  shows "Order s' = Order s @ map ID specs'"
    and "sp \<in> set specs' \<Longrightarrow> task_at s (ID sp) = None \<and> (\<exists>t. task_at s' (ID sp) = Some t \<and> ID t = ID sp \<and>
        ParentID t = ParentID sp \<and> Dependencies t = Dependencies sp \<and> (Composite t \<longleftrightarrow> ID sp \<in> ParentID ` set specs'))"
    and "task_at s i = Some u \<Longrightarrow> \<exists>t. task_at s' i = Some t \<and> ParentID t = ParentID u \<and> Dependencies t = Dependencies u"
proof -
  from c n have a: "admissible s specs'" and sh: "same_shape (admitted now specs' s) s'"
    by (auto elim!: AddMany_shape)
  show "Order s' = Order s @ map ID specs'" using sh admitted_frame(4)[OF a] by (simp add: same_shape_def)
  { assume sp: "sp \<in> set specs'"
    from same_shape_task[OF sh admitted_at(1)[OF a sp]] a sp
    show "task_at s (ID sp) = None \<and> (\<exists>t. task_at s' (ID sp) = Some t \<and> ID t = ID sp \<and>
        ParentID t = ParentID sp \<and> Dependencies t = Dependencies sp \<and> (Composite t \<longleftrightarrow> ID sp \<in> ParentID ` set specs'))"
      by (auto simp: keeps_def admissible_def) }
  assume u: "task_at s i = Some u"
  then have "i \<notin> ID ` set specs'" using a by (auto simp: admissible_def)
  then have "task_at (admitted now specs' s) i = Some (marked now specs' i u)" using admitted_at(2)[OF a] u by simp
  from same_shape_task[OF sh this]
  show "\<exists>t. task_at s' i = Some t \<and> ParentID t = ParentID u \<and> Dependencies t = Dependencies u"
    by (auto simp: keeps_def)
qed

end
