(* ===== verification/PlanReview.thy ===== *)
theory PlanReview
  imports PlanAdmit
begin

text \<open>
  Seating a review check under a task that may already read done: \<^verbatim>\<open>AddReviewCheck\<close> of
  \<^verbatim>\<open>internal/plandb/store.go\<close>. The loop over the ancestors ends on every accepted plan. The operation
  does not ask, as \<^verbatim>\<open>AddMany\<close> does, whether the check's dependencies are tasks of the plan: an unknown
  hard one makes the cycle search panic, an unknown soft one is stored and the next load refuses it.
\<close>

section \<open>A review check\<close>

definition reopen :: "time \<Rightarrow> task \<Rightarrow> task" where
  "reopen now a =
     (let a1 = a\<lparr>Composite := True\<rparr>;
          a2 = (if Status a1 = StatusDone then a1\<lparr>Status := StatusPending, CompletedAt := 0\<rparr> else a1)
      in a2\<lparr>UpdatedAt := now\<rparr>)"

text \<open>
  \<^verbatim>\<open>for ancestor := parent; ancestor != nil; ancestor = Tasks[ancestor.ParentID]\<close>, from the key of
  the parent; None is a loop that has not ended with the fuel, which \<^verbatim>\<open>reopenFrom_ends\<close> rules out.
\<close>

fun reopenFrom :: "nat \<Rightarrow> time \<Rightarrow> string \<Rightarrow> plan_state \<Rightarrow> plan_state option" where
  "reopenFrom 0 now i s = None"
| "reopenFrom (Suc n) now i s =
     (case task_at s i of None \<Rightarrow> Some s
      | Some a \<Rightarrow> reopenFrom n now (ParentID a) (put_task i (reopen now a) s))"

definition AddReviewCheck :: "task_spec \<Rightarrow> time \<Rightarrow> plan_state \<Rightarrow> plan_error + plan_state" where
  "AddReviewCheck spec0 now s =
     (let spec = normalizeSpec spec0 (RootID s) in
      orFail (map_option SpecRefused (validateSpec spec))
      (orFail (map_option SpecRefused (validateCheckDeclarations (Checks spec)))
      (orFail (refuse (Role spec \<noteq> RoleCheck) (AdmitRefused OnlyCheckRole))
      (orFail (refuse (task_at s (ID spec) \<noteq> None) (AdmitRefused (DuplicateID (ID spec))))
      (orFail (refuse (task_at s (ParentID spec) = None) (AdmitRefused (ParentMissing (ParentID spec))))
      (let s1 = insertTask now spec s in
       case reopenFrom (climb_fuel s1) now (ParentID spec) s1 of
         None \<Rightarrow> Inl NilDeref
       | Some s2 \<Rightarrow>
           (let s3 = promote now s2 in
            orFail (map_option graphErr (validateGraphs s3)) (Inr s3))))))))"

lemma reopen_simps [simp]:
  "ID (reopen now a) = ID a" "ParentID (reopen now a) = ParentID a" "Dependencies (reopen now a) = Dependencies a"
  "Composite (reopen now a)" "validateSpec (reopen now a) = validateSpec a" "reopen now (reopen now a) = reopen now a"
  "Status (reopen now a) = (if Status a = StatusDone then StatusPending else Status a)"
  "Result (reopen now a) = Result a"
  by (simp_all add: reopen_def Let_def)

lemma reopenFrom_ends:
  "length (walk n (parent_ptr s) i) < n \<Longrightarrow> task_at s '''' = None \<Longrightarrow>
     \<exists>s'. reopenFrom n now i s = Some s' \<and> s'\<lparr>Tasks := []\<rparr> = s\<lparr>Tasks := []\<rparr> \<and> task_ids s' = task_ids s \<and>
       (\<forall>j. task_at s' j = map_option (\<lambda>t. if j \<in> set (walk n (parent_ptr s) i) then reopen now t else t) (task_at s j))"
proof (induction n arbitrary: i s)
  case (Suc n)
  show ?case
  proof (cases "task_at s i")
    case None
    then show ?thesis by (auto simp: parent_ptr_def option.map_ident intro!: option.map_cong0[of _ "\<lambda>t. t", simplified])
  next
    case (Some a)
    let ?s1 = "put_task i (reopen now a) s"
    have p: "parent_ptr ?s1 = parent_ptr s" using Some by (auto simp: parent_ptr_def task_at_put fun_eq_iff)
    have e: "task_at ?s1 '''' = None" using Suc.prems(2) Some by (auto simp: task_at_put)
    have f: "?s1\<lparr>Tasks := []\<rparr> = s\<lparr>Tasks := []\<rparr>" "task_ids ?s1 = task_ids s"
      using Some by (simp_all add: put_task_def task_ids_def task_at_def map_of_in_keys)
    show ?thesis
    proof (cases "ParentID a = ''''")
      case True
      then have w: "walk (Suc n) (parent_ptr s) i = [i]" using Some by (simp add: parent_ptr_def)
      with Suc.prems(1) obtain m where "n = Suc m" by (cases n) auto
      with Some True e have "reopenFrom (Suc n) now i s = Some ?s1" by simp
      moreover have "task_at ?s1 j = map_option (\<lambda>t. if j \<in> set (walk (Suc n) (parent_ptr s) i) then reopen now t else t) (task_at s j)" for j
        unfolding w using Some by (cases "task_at s j") (auto simp: task_at_put)
      ultimately show ?thesis using f by blast
    next
      case False
      then have pi: "parent_ptr s i = Some (ParentID a)" using Some by (simp add: parent_ptr_def)
      with Suc.prems(1) have "length (walk n (parent_ptr ?s1) (ParentID a)) < n" by (simp add: p)
      from Suc.IH[OF this e] obtain s' where s': "reopenFrom n now (ParentID a) ?s1 = Some s'"
        "s'\<lparr>Tasks := []\<rparr> = ?s1\<lparr>Tasks := []\<rparr>" "task_ids s' = task_ids ?s1"
        "\<And>j. task_at s' j = map_option (\<lambda>t. if j \<in> set (walk n (parent_ptr s) (ParentID a)) then reopen now t else t) (task_at ?s1 j)"
        unfolding p by blast
      have "task_at s' j = map_option (\<lambda>t. if j \<in> set (walk (Suc n) (parent_ptr s) i) then reopen now t else t) (task_at s j)" for j
        unfolding s'(4) using Some pi by (cases "task_at s j") (auto simp: task_at_put)
      moreover have "reopenFrom (Suc n) now i s = Some s'" using Some s'(1) by simp
      ultimately show ?thesis using s'(2,3) f by (intro exI[of _ s']) simp
    qed
  qed
qed simp

lemma walk_short:
  assumes tr: "tree_ok s" and i: "i \<in> set (task_ids s)"
  shows "length (walk n (parent_ptr s) i) \<le> length (Tasks s)" and "set (walk n (parent_ptr s) i) \<subseteq> set (task_ids s)"
proof -
  have step: "v \<in> set (task_ids s)" if "parent_ptr s u = Some v" for u v
  proof -
    from that have "(u, v) \<in> parent_rel s" unfolding ptr_rel_parent[symmetric] by (simp add: ptr_rel_def)
    with tr show ?thesis by (rule parent_rel_ran)
  qed
  show sub: "set (walk n (parent_ptr s) i) \<subseteq> set (task_ids s)" using i step by (rule walk_ptr_closed)
  have "distinct (walk n (parent_ptr s) i)"
    using tr by (intro walk_distinct) (simp add: ptr_rel_parent tree_ok_def)
  then have "length (walk n (parent_ptr s) i) = card (set (walk n (parent_ptr s) i))" by (simp add: distinct_card)
  also have "\<dots> \<le> length (Tasks s)" using sub by (metis List.finite_set card_length card_mono le_trans length_task_ids)
  finally show "length (walk n (parent_ptr s) i) \<le> length (Tasks s)" .
qed

section \<open>Inserting one task under another\<close>

lemma insert_tree:
  assumes inv: "plan_inv s" and new: "task_at s (ID sp) = None" "ID sp \<noteq> ''''" and par: "task_at s (ParentID sp) \<noteq> None"
  shows "tree_ok (insertTask now sp s)"
    and "parent_rel (insertTask now sp s) = insert (ID sp, ParentID sp) (parent_rel s)"
proof -
  let ?s = "insertTask now sp s"
  have tr: "tree_ok s" by (rule plan_inv_tree[OF inv])
  then have pn: "ParentID sp \<noteq> ''''" using par by (auto simp: tree_ok_def)
  have "(i, j) \<in> parent_rel ?s \<longleftrightarrow> (i, j) = (ID sp, ParentID sp) \<or> (i, j) \<in> parent_rel s" for i j
    using new pn by (auto simp: parent_rel_iff insertTask_at split: if_splits)
  then show rel: "parent_rel ?s = insert (ID sp, ParentID sp) (parent_rel s)" by auto
  have "(ParentID sp, ID sp) \<notin> (parent_rel s)\<^sup>*"
  proof
    assume "(ParentID sp, ID sp) \<in> (parent_rel s)\<^sup>*"
    moreover have "ParentID sp \<noteq> ID sp" using new par by metis
    ultimately obtain k where "(k, ID sp) \<in> parent_rel s" by (metis rtranclE)
    from parent_rel_ran[OF tr this] new show False by (auto simp: task_ids_iff)
  qed
  then have "acyclic (parent_rel ?s)" unfolding rel acyclic_insert using tr by (simp add: tree_ok_def)
  moreover have "edges_closed ?s parent_edges"
    using tr par by (auto simp: tree_ok_def edges_closed_def parent_edges_def insertTask_at split: if_splits)
  moreover have "task_at ?s '''' = None" using tr new by (simp add: tree_ok_def insertTask_at)
  ultimately show "tree_ok ?s" by (simp add: tree_ok_def)
qed

text \<open>What the loop over the ancestors does: everything from the parent up is reopened, nothing else.\<close>

lemma reopen_view:
  assumes inv: "plan_inv s" and new: "task_at s (ID sp) = None" "ID sp \<noteq> ''''" and par: "task_at s (ParentID sp) \<noteq> None"
  obtains s2 where "reopenFrom (climb_fuel (insertTask now sp s)) now (ParentID sp) (insertTask now sp s) = Some s2"
    "s2\<lparr>Tasks := []\<rparr> = (insertTask now sp s)\<lparr>Tasks := []\<rparr>" "task_ids s2 = task_ids s @ [ID sp]"
    "task_at s2 (ID sp) = Some (newTask sp now)"
    "\<And>j. j \<noteq> ID sp \<Longrightarrow> task_at s2 j = map_option (\<lambda>t. if j \<in> above s (ParentID sp) then reopen now t else t) (task_at s j)"
proof -
  let ?s = "insertTask now sp s"
  let ?n = "climb_fuel ?s"
  have tr: "tree_ok ?s" and rel: "parent_rel ?s = insert (ID sp, ParentID sp) (parent_rel s)"
    by (rule insert_tree[OF inv new par])+
  have ids: "task_ids ?s = task_ids s @ [ID sp]" using new(1) by (rule insertTask_frame)
  have pin: "ParentID sp \<in> set (task_ids ?s)" unfolding ids using par by (simp add: task_ids_iff)
  have "length (walk ?n (parent_ptr ?s) (ParentID sp)) < ?n"
    using walk_short(1)[OF tr pin, of ?n] by (simp add: climb_fuel_def)
  moreover have "task_at ?s '''' = None" using tr by (simp add: tree_ok_def)
  ultimately obtain s2 where s2: "reopenFrom ?n now (ParentID sp) ?s = Some s2" "s2\<lparr>Tasks := []\<rparr> = ?s\<lparr>Tasks := []\<rparr>"
    "task_ids s2 = task_ids ?s"
    "\<And>j. task_at s2 j = map_option (\<lambda>t. if j \<in> set (walk ?n (parent_ptr ?s) (ParentID sp)) then reopen now t else t) (task_at ?s j)"
    using reopenFrom_ends by blast
  have "finite (set (task_ids ?s))" "card (set (task_ids ?s)) \<le> ?n"
    using card_length[of "task_ids ?s"] by (auto simp: climb_fuel_def length_task_ids)
  moreover have "v \<in> set (task_ids ?s)" if "parent_ptr ?s u = Some v" for u v
  proof -
    from that have "(u, v) \<in> parent_rel ?s" unfolding ptr_rel_parent[symmetric] by (simp add: ptr_rel_def)
    with tr show ?thesis by (rule parent_rel_ran)
  qed
  moreover have "acyclic (ptr_rel (parent_ptr ?s))" using tr by (simp add: ptr_rel_parent tree_ok_def)
  ultimately have w: "set (walk ?n (parent_ptr ?s) (ParentID sp)) = above ?s (ParentID sp)"
    using pin walk_set[of "parent_ptr ?s" "set (task_ids ?s)" "ParentID sp" ?n] by (simp add: ptr_rel_parent)
  have out: "(ParentID sp, ID sp) \<notin> (parent_rel s)\<^sup>*"
    using tr unfolding tree_ok_def rel acyclic_insert by blast
  have up: "above ?s (ParentID sp) = above s (ParentID sp)"
  proof (intro set_eqI iffI; clarsimp)
    fix j assume "(ParentID sp, j) \<in> (parent_rel ?s)\<^sup>*"
    then show "(ParentID sp, j) \<in> (parent_rel s)\<^sup>*"
    proof (induction rule: rtrancl_induct)
      case (step k j)
      from step.hyps(2) out step.IH have "(k, j) \<in> parent_rel s" unfolding rel by blast
      with step.IH show ?case by (rule rtrancl_into_rtrancl)
    qed simp
  next
    fix j assume "(ParentID sp, j) \<in> (parent_rel s)\<^sup>*"
    then show "(ParentID sp, j) \<in> (parent_rel ?s)\<^sup>*" by (rule rtrancl_mono[THEN subsetD, rotated]) (auto simp: rel)
  qed
  show ?thesis
  proof (rule that[OF s2(1,2) _ _ _])
    show "task_ids s2 = task_ids s @ [ID sp]" using s2(3) ids by simp
    show "task_at s2 (ID sp) = Some (newTask sp now)" unfolding s2(4) w up using out by (simp add: insertTask_at)
    show "task_at s2 j = map_option (\<lambda>t. if j \<in> above s (ParentID sp) then reopen now t else t) (task_at s j)"
      if "j \<noteq> ID sp" for j unfolding s2(4) w up using that by (simp add: insertTask_at)
  qed
qed

section \<open>What the operation keeps\<close>

text \<open>
  The refusals that come before the walk; past them, on an accepted plan, the loop over the
  ancestors ends and only the cycle search is left to stop the operation.
\<close>

definition seatable :: "plan_state \<Rightarrow> task_spec \<Rightarrow> bool" where
  "seatable s sp \<longleftrightarrow> validateSpec sp = None \<and> validateCheckDeclarations (Checks sp) = None \<and> Role sp = RoleCheck \<and>
     task_at s (ID sp) = None \<and> task_at s (ParentID sp) \<noteq> None"

lemma AddReviewCheck_unseatable:
  "\<not> seatable s (normalizeSpec spec (RootID s)) \<Longrightarrow> \<exists>e. AddReviewCheck spec now s = Inl e \<and> e \<noteq> NilDeref"
  unfolding seatable_def AddReviewCheck_def Let_def orFail_def refuse_def by (auto split: option.splits)

lemma AddReviewCheck_seats:
  assumes inv: "plan_inv s" and sp: "sp = normalizeSpec spec (RootID s)" and seat: "seatable s sp"
  obtains s2 where "s2\<lparr>Tasks := []\<rparr> = (insertTask now sp s)\<lparr>Tasks := []\<rparr>" "task_ids s2 = task_ids s @ [ID sp]"
    "task_at s2 (ID sp) = Some (newTask sp now)"
    "\<And>j. j \<noteq> ID sp \<Longrightarrow> task_at s2 j = map_option (\<lambda>t. if j \<in> above s (ParentID sp) then reopen now t else t) (task_at s j)"
    "AddReviewCheck spec now s = orFail (map_option graphErr (validateGraphs (promote now s2))) (Inr (promote now s2))"
proof -
  from seat have v: "validateSpec sp = None" "validateCheckDeclarations (Checks sp) = None" "Role sp = RoleCheck"
    "task_at s (ID sp) = None" "task_at s (ParentID sp) \<noteq> None" by (simp_all add: seatable_def)
  have ne: "ID sp \<noteq> ''''" using v(1) by (auto simp: validateSpec_def split: if_splits)
  show ?thesis
  proof (rule reopen_view[OF inv v(4) ne v(5), of now])
    fix s2
    assume r: "reopenFrom (climb_fuel (insertTask now sp s)) now (ParentID sp) (insertTask now sp s) = Some s2"
    assume "s2\<lparr>Tasks := []\<rparr> = (insertTask now sp s)\<lparr>Tasks := []\<rparr>" "task_ids s2 = task_ids s @ [ID sp]"
      "task_at s2 (ID sp) = Some (newTask sp now)"
      "\<And>j. j \<noteq> ID sp \<Longrightarrow> task_at s2 j = map_option (\<lambda>t. if j \<in> above s (ParentID sp) then reopen now t else t) (task_at s j)"
    then show ?thesis using r v sp by (intro that) (auto simp: AddReviewCheck_def Let_def refuse_def orFail_def)
  qed
qed
lemma AddReviewCheck_cases:
  assumes inv: "plan_inv s" and c: "AddReviewCheck spec now s = Inr s'"
  obtains sp s2 where "sp = normalizeSpec spec (RootID s)" "validateSpec sp = None" "Role sp = RoleCheck"
    "ID sp \<noteq> ''''" "task_at s (ID sp) = None" "task_at s (ParentID sp) \<noteq> None"
    "s2\<lparr>Tasks := []\<rparr> = (insertTask now sp s)\<lparr>Tasks := []\<rparr>" "task_ids s2 = task_ids s @ [ID sp]"
    "task_at s2 (ID sp) = Some (newTask sp now)"
    "\<And>j. j \<noteq> ID sp \<Longrightarrow> task_at s2 j = map_option (\<lambda>t. if j \<in> above s (ParentID sp) then reopen now t else t) (task_at s j)"
    "s' = promote now s2" "validateGraphs s' = None"
proof -
  let ?sp = "normalizeSpec spec (RootID s)"
  from c obtain s2 where v: "validateSpec ?sp = None" "Role ?sp = RoleCheck" "task_at s (ID ?sp) = None"
    "task_at s (ParentID ?sp) \<noteq> None"
    and r: "reopenFrom (climb_fuel (insertTask now ?sp s)) now (ParentID ?sp) (insertTask now ?sp s) = Some s2"
    and e: "s' = promote now s2" "validateGraphs s' = None"
    by (auto simp: AddReviewCheck_def Let_def split: option.splits)
  have ne: "ID ?sp \<noteq> ''''" using v(1) by (auto simp: validateSpec_def split: if_splits)
  show ?thesis
  proof (rule reopen_view[OF inv v(3) ne v(4), of now])
    fix s3
    assume "reopenFrom (climb_fuel (insertTask now ?sp s)) now (ParentID ?sp) (insertTask now ?sp s) = Some s3"
    then have [simp]: "s3 = s2" using r by simp
    assume "s3\<lparr>Tasks := []\<rparr> = (insertTask now ?sp s)\<lparr>Tasks := []\<rparr>" "task_ids s3 = task_ids s @ [ID ?sp]"
      "task_at s3 (ID ?sp) = Some (newTask ?sp now)"
      "\<And>j. j \<noteq> ID ?sp \<Longrightarrow> task_at s3 j = map_option (\<lambda>t. if j \<in> above s (ParentID ?sp) then reopen now t else t) (task_at s j)"
    then show ?thesis by (intro that[OF refl v(1,2) ne v(3,4) _ _ _ _ e]) simp_all
  qed
qed

lemma above_composite:
  assumes inv: "plan_inv s" and j: "j \<in> above s p" "j \<noteq> p" and t: "task_at s j = Some t"
  shows "Composite t"
proof -
  from j obtain k where "(k, j) \<in> parent_rel s" by (auto elim: rtranclE)
  then have "has_child s j" by (auto simp: parent_rel_iff has_child_def)
  with plan_invD(3)[OF inv t] show ?thesis by (simp add: task_wf_def)
qed

lemma same_shape_graphs_back:
  assumes s: "same_shape s s'" and g: "graphs_ok s'"
  shows "graphs_ok s"
proof -
  have e: "hard_rel s' = hard_rel s" "edges_closed s' hard_deps = edges_closed s hard_deps"
    "parent_rel s' = parent_rel s" "edges_closed s' parent_edges = edges_closed s parent_edges"
    by (rule same_shape_edges[OF s], erule keeps_edges)+
  have "(ID t, j) \<notin> (parent_rel s)\<^sup>+ \<and> (j, ID t) \<notin> (parent_rel s)\<^sup>+"
    if t: "task_at s i = Some t" and j: "j \<in> set (hard_deps t)" for i t j
  proof -
    from same_shape_task[OF s t] obtain t' where t': "task_at s' i = Some t'" "keeps t t'" by blast
    have "j \<in> set (hard_deps t')" "ID t' = ID t"
      using j keeps_edges(1)[OF t'(2)] keeps_ID[OF t'(2)] by simp_all
    with g t'(1) show ?thesis unfolding graphs_ok_def e by metis
  qed
  with g show ?thesis unfolding graphs_ok_def e by blast
qed

text \<open>
  The cycle search asks for the tasks of the hard dependencies; nothing asks for those of the soft
  ones, and where they are known what the operation leaves loads again.
\<close>

lemma seated_deps_known:
  assumes inv: "plan_inv s" and c: "AddReviewCheck spec now s = Inr s'" and sp: "sp = normalizeSpec spec (RootID s)"
    and d: "d \<in> set (Dependencies sp)" "dep_Kind d \<noteq> DepSuggests"
  shows "task_at s (dep_TaskID d) \<noteq> None"
  using inv c
proof (rule AddReviewCheck_cases)
  fix sp' s2
  assume sp': "sp' = normalizeSpec spec (RootID s)" and at: "task_at s2 (ID sp') = Some (newTask sp' now)"
    and ids: "task_ids s2 = task_ids s @ [ID sp']" and s': "s' = promote now s2" and g: "validateGraphs s' = None"
  have "edges_closed s' hard_deps" "acyclic (hard_rel s')"
    using g by (auto simp: validateGraphs_def detectCycle_None_iff split: option.splits)
  moreover have "same_shape s2 s'" unfolding s' by simp
  from same_shape_edges[where edges = hard_deps, OF this keeps_edges(1)]
  have "hard_rel s' = hard_rel s2" "edges_closed s' hard_deps = edges_closed s2 hard_deps" by blast+
  ultimately have cl: "edges_closed s2 hard_deps" and ac: "acyclic (hard_rel s2)" by simp_all
  have e: "(ID sp, dep_TaskID d) \<in> hard_rel s2" using at d sp sp' by (auto simp: edge_rel_def hard_deps_def)
  have "dep_TaskID d \<noteq> ID sp" using e ac by (auto simp: acyclic_def dest: r_into_trancl)
  with edges_closed_succ[OF cl e] ids sp sp' show ?thesis
    using task_ids_iff[of "dep_TaskID d" s2] task_ids_iff[of "dep_TaskID d" s] by auto
qed

lemma AddReviewCheck_inv:
  assumes inv: "plan_inv s" and c: "AddReviewCheck spec now s = Inr s'"
    and soft: "\<forall>d\<in>set (Dependencies (normalizeSpec spec (RootID s))). dep_Kind d = DepSuggests \<longrightarrow> task_at s (dep_TaskID d) \<noteq> None"
  shows "plan_inv s'"
  using inv c
proof (rule AddReviewCheck_cases)
  fix sp s2
  assume sp: "sp = normalizeSpec spec (RootID s)" and v: "validateSpec sp = None" "ID sp \<noteq> ''''"
    and new: "task_at s (ID sp) = None" and par: "task_at s (ParentID sp) \<noteq> None"
    and rest: "s2\<lparr>Tasks := []\<rparr> = (insertTask now sp s)\<lparr>Tasks := []\<rparr>" and ids: "task_ids s2 = task_ids s @ [ID sp]"
    and at: "task_at s2 (ID sp) = Some (newTask sp now)"
      "\<And>j. j \<noteq> ID sp \<Longrightarrow> task_at s2 j = map_option (\<lambda>t. if j \<in> above s (ParentID sp) then reopen now t else t) (task_at s j)"
    and s': "s' = promote now s2" and g: "validateGraphs s' = None"
  have deps: "\<forall>d\<in>set (Dependencies sp). task_at s (dep_TaskID d) \<noteq> None"
    using soft seated_deps_known[OF inv c sp] sp by blast
  have a: "admissible s [sp]" using v new par deps by (auto simp: admissible_def)
  let ?a = "admitted now [sp] s"
  have ne: "ID sp \<noteq> ParentID sp" using new par by metis
  have k: "\<exists>t. task_at ?a i = Some t \<and> keeps t t2" if t2: "task_at s2 i = Some t2" for i t2
  proof (cases "i = ID sp")
    case True
    with t2 at(1) admitted_at(1)[OF a, of sp now] ne show ?thesis by (auto simp: marked_def)
  next
    case False
    with t2 at(2) obtain u where u: "task_at s i = Some u" "t2 = (if i \<in> above s (ParentID sp) then reopen now u else u)"
      by (cases "task_at s i") auto
    have "task_at ?a i = Some (marked now [sp] i u)" using admitted_at(2)[OF a, of i now] False u(1) by simp
    moreover have "keeps (marked now [sp] i u) t2"
      using u above_composite[OF inv _ _ u(1), of "ParentID sp"] by (auto simp: keeps_def)
    ultimately show ?thesis by blast
  qed
  note r = same_rest[OF rest] note f = admitted_frame[OF a, of now]
  have "Deleted ?a = Deleted s"
    by (simp add: admitted_def insertTask_frame)
  then have sh: "same_shape ?a s2"
    unfolding same_shape_def using r f ids k by (simp add: insertTask_frame)
  then have sh': "same_shape ?a s'" unfolding s' by (rule same_shape_promoteI)
  have rep: "rep_ok ?a" using inv f(6) by (simp add: plan_inv_iff)
  then have "rep_ok s'" using same_shape_rep_ok[OF sh'] by simp
  with g have "graphs_ok s'" by (simp add: validateGraphs_None_iff)
  then have "validateGraphs ?a = None" using rep same_shape_graphs_back[OF sh'] by (simp add: validateGraphs_None_iff)
  from admitted_inv[OF inv _ a this] sh' show "plan_inv s'" by (auto intro: same_shape_inv)
qed

section \<open>The panic\<close>

lemma same_shape_hard: "same_shape s s' \<Longrightarrow> hard_rel s' = hard_rel s \<and> edges_closed s' hard_deps = edges_closed s hard_deps"
  using same_shape_edges[where edges = hard_deps, OF _ keeps_edges(1)] by blast

text \<open>
  A seated check adds its own edges to the two graphs and nothing else. The parent edges lead to
  tasks; the hard edges do exactly when its hard dependencies are tasks of the plan.
\<close>

lemma seated_graphs:
  assumes inv: "plan_inv s" and seat: "seatable s sp" and self: "\<forall>d\<in>set (Dependencies sp). dep_TaskID d \<noteq> ID sp"
    and at: "task_at s2 (ID sp) = Some (newTask sp now)"
      "\<And>j. j \<noteq> ID sp \<Longrightarrow> task_at s2 j = map_option (\<lambda>t. if j \<in> above s (ParentID sp) then reopen now t else t) (task_at s j)"
  shows "edges_closed s2 parent_edges" and "acyclic (hard_rel s2)"
    and "edges_closed s2 hard_deps \<longleftrightarrow> (\<forall>d\<in>set (Dependencies sp). dep_Kind d \<noteq> DepSuggests \<longrightarrow> task_at s (dep_TaskID d) \<noteq> None)"
proof -
  note tr = plan_inv_tree[OF inv]
  have new: "task_at s (ID sp) = None" and par: "task_at s (ParentID sp) \<noteq> None" using seat by (simp_all add: seatable_def)
  have dom: "task_at s2 j \<noteq> None \<longleftrightarrow> j = ID sp \<or> task_at s j \<noteq> None" for j using at by (cases "j = ID sp") auto
  have old: "(\<exists>u. task_at s2 j = Some u \<and> P (hard_deps u) (ParentID u)) \<longleftrightarrow> (\<exists>u. task_at s j = Some u \<and> P (hard_deps u) (ParentID u))"
    if "j \<noteq> ID sp" for j P
    using at(2)[OF that] by (cases "task_at s j") (auto simp: hard_deps_def)
  have hd: "j \<in> set (hard_deps (newTask sp now)) \<longleftrightarrow> (\<exists>d\<in>set (Dependencies sp). dep_Kind d \<noteq> DepSuggests \<and> j = dep_TaskID d)" for j
    by (auto simp: hard_deps_def)
  obtain r where "task_at s (RootID s) = Some r" using par plan_invD(6)[OF inv] by blast
  then have gs: "graphs_ok s" by (rule plan_invD(2)[OF inv])
  then have cl: "edges_closed s hard_deps" and ac: "acyclic (hard_rel s)" by (simp_all add: graphs_ok_def)
  show "edges_closed s2 parent_edges" unfolding edges_closed_def
  proof (intro allI impI ballI)
    fix i t j assume t: "task_at s2 i = Some t" and j: "j \<in> set (parent_edges t)"
    show "task_at s2 j \<noteq> None"
    proof (cases "i = ID sp")
      case True
      with t j at(1) par dom show ?thesis by (auto simp: parent_edges_def split: if_splits)
    next
      case False
      then obtain u where "task_at s i = Some u" "ParentID u = ParentID t"
        using old[of i "\<lambda>_ p. p = ParentID t"] t by blast
      moreover from this j have "j \<in> set (parent_edges u)" by (simp add: parent_edges_def split: if_splits)
      ultimately have "task_at s j \<noteq> None" using tr unfolding tree_ok_def edges_closed_def by blast
      then show ?thesis using dom by blast
    qed
  qed
  have rel: "(i, j) \<in> hard_rel s2 \<longleftrightarrow> (i = ID sp \<and> j \<in> set (hard_deps (newTask sp now))) \<or> (i, j) \<in> hard_rel s" for i j
  proof (cases "i = ID sp")
    case True
    then show ?thesis using at(1) new by (auto simp: edge_rel_def)
  next
    case False
    then show ?thesis using old[of i "\<lambda>h _. j \<in> set h"] by (auto simp: edge_rel_def)
  qed
  have into: "(i, ID sp) \<notin> hard_rel s2" for i
    using rel[of i "ID sp"] edges_closed_succ[OF cl, of i "ID sp"] new self hd by auto
  show "acyclic (hard_rel s2)"
  proof (rule acyclicI, rule allI)
    fix x show "(x, x) \<notin> (hard_rel s2)\<^sup>+"
    proof
      assume c: "(x, x) \<in> (hard_rel s2)\<^sup>+"
      have "y \<noteq> ID sp \<and> (x \<noteq> ID sp \<longrightarrow> (x, y) \<in> (hard_rel s)\<^sup>+)" if "(x, y) \<in> (hard_rel s2)\<^sup>+" for y
        using that
      proof (induction rule: trancl_induct)
        case (base y)
        with into rel show ?case by blast
      next
        case (step y z)
        then have "z \<noteq> ID sp" "(y, z) \<in> hard_rel s" using into rel by blast+
        with step.IH show ?case by (auto intro: trancl_into_trancl)
      qed
      from this[OF c] ac show False by (auto simp: acyclic_def)
    qed
  qed
  show "edges_closed s2 hard_deps \<longleftrightarrow> (\<forall>d\<in>set (Dependencies sp). dep_Kind d \<noteq> DepSuggests \<longrightarrow> task_at s (dep_TaskID d) \<noteq> None)"
  proof
    assume c: "edges_closed s2 hard_deps"
    show "\<forall>d\<in>set (Dependencies sp). dep_Kind d \<noteq> DepSuggests \<longrightarrow> task_at s (dep_TaskID d) \<noteq> None"
    proof (intro ballI impI)
      fix d assume d: "d \<in> set (Dependencies sp)" "dep_Kind d \<noteq> DepSuggests"
      then have "(ID sp, dep_TaskID d) \<in> hard_rel s2" using rel hd by blast
      from edges_closed_succ[OF c this] dom d self show "task_at s (dep_TaskID d) \<noteq> None" by blast
    qed
  next
    assume k: "\<forall>d\<in>set (Dependencies sp). dep_Kind d \<noteq> DepSuggests \<longrightarrow> task_at s (dep_TaskID d) \<noteq> None"
    have "task_at s2 j \<noteq> None" if "(i, j) \<in> hard_rel s2" for i j
      using that rel[of i j] k hd[of j] dom[of j] edges_closed_succ[OF cl, of i j] by blast
    then show "edges_closed s2 hard_deps" by (auto simp: edges_closed_def edge_rel_def)
  qed
qed

text \<open>
  On an accepted plan the operation panics exactly when the check could be seated and a hard
  dependency of it names no task: the walk over the ancestors is never the reason.
\<close>

lemma AddReviewCheck_panics:
  assumes inv: "plan_inv s" and sp: "sp = normalizeSpec spec (RootID s)"
    and self: "\<forall>d\<in>set (Dependencies sp). dep_TaskID d \<noteq> ID sp"
  shows "AddReviewCheck spec now s = Inl NilDeref \<longleftrightarrow>
    seatable s sp \<and> (\<exists>d\<in>set (Dependencies sp). dep_Kind d \<noteq> DepSuggests \<and> task_at s (dep_TaskID d) = None)"
proof (cases "seatable s sp")
  case False
  with AddReviewCheck_unseatable[of s spec now] sp show ?thesis by auto
next
  case True
  show ?thesis
  proof (rule AddReviewCheck_seats[OF inv sp True, of now])
    fix s2
    assume at: "task_at s2 (ID sp) = Some (newTask sp now)"
      "\<And>j. j \<noteq> ID sp \<Longrightarrow> task_at s2 j = map_option (\<lambda>t. if j \<in> above s (ParentID sp) then reopen now t else t) (task_at s j)"
      and c: "AddReviewCheck spec now s = orFail (map_option graphErr (validateGraphs (promote now s2))) (Inr (promote now s2))"
    let ?s3 = "promote now s2"
    note g = seated_graphs[OF inv True self at]
    have sh: "same_shape s2 ?s3" by simp
    have p: "edges_closed ?s3 parent_edges" using g(1) same_shape_edges(2)[OF sh keeps_edges(2)] by simp
    have "AddReviewCheck spec now s = Inl NilDeref \<longleftrightarrow> detectCycle ?s3 hard_deps = Some NilTask"
      unfolding c validateGraphs_nil[OF p, symmetric] by (simp add: orFail_def split: option.splits)
    also have "\<dots> \<longleftrightarrow> \<not> edges_closed s2 hard_deps"
      using same_shape_hard[OF sh] g(2) detectCycle_nil[of ?s3 hard_deps] detectCycle_closed[of ?s3 hard_deps] by auto
    finally show ?thesis using True g(3) by simp
  qed
qed

text \<open>And the search for cycles never runs out of fuel.\<close>

lemma graphErr_fuel: "graphErr g = GraphRefused (DependencyGraph GraphFuel) \<longleftrightarrow> g = DependencyGraph GraphFuel"
  "graphErr g = GraphRefused (ContainmentGraph GraphFuel) \<longleftrightarrow> g = ContainmentGraph GraphFuel"
  by (cases g rule: graphErr.cases; simp)+

lemma AddReviewCheck_fuel:
  "AddReviewCheck spec now s \<noteq> Inl (GraphRefused (DependencyGraph GraphFuel))"
  "AddReviewCheck spec now s \<noteq> Inl (GraphRefused (ContainmentGraph GraphFuel))"
  by (auto simp: AddReviewCheck_def Let_def orFail_Inl graphErr_fuel split: option.splits)

text \<open>An open child keeps its parent from closing.\<close>

lemma open_child_not_closable:
  "task_at s k = Some c \<Longrightarrow> ParentID c = i \<Longrightarrow> \<not> terminal (Status c) \<Longrightarrow> \<not> closable s i t"
proof -
  assume "task_at s k = Some c" "ParentID c = i" "\<not> terminal (Status c)"
  then have "c \<in> set (task_list s)" "ParentID c = i" "\<not> terminal (Status c)"
    by (auto simp: task_list_def task_at_def dest!: map_of_SomeD intro: image_eqI[rotated])
  then have "\<not> allChildrenTerminal s i" by (auto simp: allChildrenTerminal_def Let_def list_all_iff)
  then show ?thesis by (simp add: closable_def)
qed

text \<open>
  A set of open tasks in which every composite task has an open child stays open through
  promotion: nothing in it closes, and what it carries is untouched.
\<close>

definition stays_open :: "plan_state \<Rightarrow> string set \<Rightarrow> plan_state \<Rightarrow> bool" where
  "stays_open s2 X s1 \<longleftrightarrow> (\<forall>j\<in>X. \<exists>u t. task_at s2 j = Some u \<and> task_at s1 j = Some t \<and> ParentID t = ParentID u \<and>
     Composite t = Composite u \<and> Result t = Result u \<and> \<not> terminal (Status t))"

lemma stays_open_put:
  assumes "stays_open s2 X s1" and "task_at s1 i = Some t" and "i \<in> X \<Longrightarrow> ParentID t' = ParentID t \<and>
    Composite t' = Composite t \<and> Result t' = Result t \<and> \<not> terminal (Status t')"
  shows "stays_open s2 X (put_task i t' s1)"
  unfolding stays_open_def
proof
  fix j assume j: "j \<in> X"
  with assms(1) obtain u v where uv: "task_at s2 j = Some u" "task_at s1 j = Some v" "ParentID v = ParentID u"
    "Composite v = Composite u" "Result v = Result u" "\<not> terminal (Status v)" by (auto simp: stays_open_def)
  show "\<exists>u t. task_at s2 j = Some u \<and> task_at (put_task i t' s1) j = Some t \<and> ParentID t = ParentID u \<and>
     Composite t = Composite u \<and> Result t = Result u \<and> \<not> terminal (Status t)"
  proof (cases "j = i")
    case True
    with uv assms(2,3) j show ?thesis by auto
  next
    case False
    with uv show ?thesis by auto
  qed
qed

lemma promote_stays_open:
  assumes start: "stays_open s2 X s2"
    and child: "\<And>i u. i \<in> X \<Longrightarrow> task_at s2 i = Some u \<Longrightarrow> Composite u \<Longrightarrow> \<exists>k c. k \<in> X \<and> task_at s2 k = Some c \<and> ParentID c = i"
  shows "stays_open s2 X (promote now s2)"
proof (rule promote_invariant[where P = "stays_open s2 X", OF start])
  fix s1 i t assume p: "stays_open s2 X s1" and t: "task_at s1 i = Some t"
  { assume "Status t = StatusReady"
    show "stays_open s2 X (put_task i (t\<lparr>Status := StatusPending, UpdatedAt := now\<rparr>) s1)"
      by (rule stays_open_put[OF p t]) simp }
  { assume "Status t = StatusPending"
    show "stays_open s2 X (put_task i (t\<lparr>Status := StatusReady, UpdatedAt := now\<rparr>) s1)"
      by (rule stays_open_put[OF p t]) simp }
  { assume c: "closable s1 i t"
    have "i \<notin> X"
    proof
      assume i: "i \<in> X"
      with p obtain u t' where "task_at s2 i = Some u" "task_at s1 i = Some t'" "Composite t' = Composite u"
        by (auto simp: stays_open_def)
      moreover have "Composite t" using c by (simp add: closable_def)
      ultimately obtain k c where "k \<in> X" "task_at s2 k = Some c" "ParentID c = i" using child[OF i] t by auto
      with p obtain c' where "task_at s1 k = Some c'" "ParentID c' = i" "\<not> terminal (Status c')"
        by (fastforce simp: stays_open_def)
      with c show False using open_child_not_closable by blast
    qed
    then show "stays_open s2 X (put_task i (close_task s1 i t now) s1)"
      by (intro stays_open_put[OF p t]) simp }
qed

lemma AddReviewCheck_reopens:
  assumes inv: "plan_inv s" and c: "AddReviewCheck spec now s = Inr s'" and n: "sp = normalizeSpec spec (RootID s)"
    and live: "\<And>j u. j \<in> above s (ParentID sp) \<Longrightarrow> task_at s j = Some u \<Longrightarrow> Status u \<noteq> StatusFailed \<and> Status u \<noteq> StatusCancelled"
  shows "\<exists>t. task_at s' (ID sp) = Some t \<and> ParentID t = ParentID sp \<and> \<not> terminal (Status t)"
    and "j \<in> above s (ParentID sp) \<Longrightarrow> \<exists>u t. task_at s j = Some u \<and> task_at s' j = Some t \<and> \<not> terminal (Status t) \<and>
        Result t = Result u"
proof -
  have tr: "tree_ok s" by (rule plan_inv_tree[OF inv])
  let ?A = "above s (ParentID sp)" let ?X = "insert (ID sp) ?A"
  from inv c obtain s2 where new: "task_at s (ID sp) = None" and par: "task_at s (ParentID sp) \<noteq> None"
    and at: "task_at s2 (ID sp) = Some (newTask sp now)"
      "\<And>j. j \<noteq> ID sp \<Longrightarrow> task_at s2 j = map_option (\<lambda>t. if j \<in> ?A then reopen now t else t) (task_at s j)"
    and s': "s' = promote now s2"
    by (rule AddReviewCheck_cases) (use n in blast)
  have ex: "\<exists>u. task_at s j = Some u \<and> task_at s2 j = Some (reopen now u)" if "j \<in> ?A" for j
  proof -
    have "j \<in> set (task_ids s)" using above_tasks[OF tr, of "ParentID sp"] par that by (auto simp: task_ids_iff)
    then obtain u where "task_at s j = Some u" by (auto simp: task_ids_iff)
    moreover have "j \<noteq> ID sp" using calculation new by auto
    ultimately show ?thesis using at(2) that by simp
  qed
  have "stays_open s2 ?X s2" unfolding stays_open_def
  proof
    fix j assume "j \<in> ?X"
    then show "\<exists>u t. task_at s2 j = Some u \<and> task_at s2 j = Some t \<and> ParentID t = ParentID u \<and>
      Composite t = Composite u \<and> Result t = Result u \<and> \<not> terminal (Status t)"
    proof
      assume "j = ID sp" then show ?thesis using at(1) by simp
    next
      assume j: "j \<in> ?A"
      then obtain u where u: "task_at s j = Some u" "task_at s2 j = Some (reopen now u)" using ex by blast
      with live[OF j u(1)] show ?thesis by (auto simp: terminal_def)
    qed
  qed
  then have open': "stays_open s2 ?X s'" unfolding s'
  proof (rule promote_stays_open)
    fix i u assume i: "i \<in> ?X" and u: "task_at s2 i = Some u" "Composite u"
    have iA: "i \<in> ?A" using i u at(1) by auto
    show "\<exists>k c. k \<in> ?X \<and> task_at s2 k = Some c \<and> ParentID c = i"
    proof (cases "i = ParentID sp")
      case True
      with at(1) show ?thesis by (intro exI[of _ "ID sp"] exI[of _ "newTask sp now"]) simp
    next
      case False
      with iA obtain k where k: "k \<in> ?A" "(k, i) \<in> parent_rel s" by (auto elim: rtranclE)
      from ex[OF k(1)] obtain c where "task_at s k = Some c" "task_at s2 k = Some (reopen now c)" by blast
      with k show ?thesis by (intro exI[of _ k] exI[of _ "reopen now c"]) (auto simp: parent_rel_iff)
    qed
  qed
  then have "\<exists>u t. task_at s2 (ID sp) = Some u \<and> task_at s' (ID sp) = Some t \<and> ParentID t = ParentID u \<and> \<not> terminal (Status t)"
    unfolding stays_open_def by blast
  with at(1) show "\<exists>t. task_at s' (ID sp) = Some t \<and> ParentID t = ParentID sp \<and> \<not> terminal (Status t)" by auto
  assume j: "j \<in> ?A"
  from ex[OF j] obtain u where u: "task_at s j = Some u" "task_at s2 j = Some (reopen now u)" by blast
  from open' j obtain v t where "task_at s2 j = Some v" "task_at s' j = Some t" "Result t = Result v" "\<not> terminal (Status t)"
    unfolding stays_open_def by blast
  with u show "\<exists>u t. task_at s j = Some u \<and> task_at s' j = Some t \<and> \<not> terminal (Status t) \<and> Result t = Result u"
    by auto
qed

end
