(* ===== verification/PlanRemove.thy ===== *)
theory PlanRemove
  imports PlanReview
begin

text \<open>
  What taking tasks out of a plan must leave: the loops \<^verbatim>\<open>keepIDs\<close>, \<^verbatim>\<open>keepNotes\<close>,
  \<^verbatim>\<open>keepContexts\<close>, \<^verbatim>\<open>recomputeComposite\<close> and \<^verbatim>\<open>markSubtree\<close> of \<^verbatim>\<open>internal/plandb/store.go\<close>, and
  the law \<^verbatim>\<open>survivors_inv\<close> that archiving and deleting both meet. A Go set of ids is a list;
  a plan's children are listed in admission order.
\<close>

section \<open>The shared loops\<close>

definition keepIDs :: "string list \<Rightarrow> string list \<Rightarrow> string list" where
  "keepIDs order gone = filter (\<lambda>i. i \<notin> set gone) order"

definition keepNotes :: "plan_note list \<Rightarrow> string list \<Rightarrow> plan_note list" where
  "keepNotes notes gone = filter (\<lambda>n. note_TaskID n \<notin> set gone) notes"

definition keepContexts :: "context_entry list \<Rightarrow> string list \<Rightarrow> context_entry list" where
  "keepContexts entries gone = filter (\<lambda>e. ce_TaskID e = '''' \<or> ce_TaskID e \<notin> set gone) entries"

definition childNames :: "plan_state \<Rightarrow> string list" where
  "childNames s = filter (\<lambda>p. p \<noteq> '''')
     (List.map_filter (\<lambda>i. map_option ParentID (task_at s i)) (Order s))"

text \<open>The tasks are those of \<^verbatim>\<open>Order\<close>; a missing one would be the nil dereference.\<close>

definition recomputeComposite :: "plan_state \<Rightarrow> plan_state" where
  "recomputeComposite s =
     fold (\<lambda>i. upd i (\<lambda>t. t\<lparr>Composite := (i \<in> set (childNames s))\<rparr>)) (Order s) s"

definition childrenOf :: "plan_state \<Rightarrow> string \<Rightarrow> string list" where
  "childrenOf s p = filter (\<lambda>i. map_option ParentID (task_at s i) = Some p) (Order s)"

fun markSubtree :: "nat \<Rightarrow> (string \<Rightarrow> string list) \<Rightarrow> string \<Rightarrow> string list \<Rightarrow> string list" where
  "markSubtree 0 children i into = into"
| "markSubtree (Suc n) children i into =
     (if i \<in> set into then into
      else fold (markSubtree n children) (children i) (i # into))"

section \<open>A subtree\<close>

definition under :: "plan_state \<Rightarrow> string \<Rightarrow> string set" where
  "under s i = {j. (j, i) \<in> (parent_rel s)\<^sup>*}"

lemma under_self [simp]: "i \<in> under s i"
  by (simp add: under_def)

lemma under_child: "(c, i) \<in> parent_rel s \<Longrightarrow> under s c \<subseteq> under s i"
  by (auto simp: under_def)

lemma under_unfold: "under s i = insert i (\<Union>c\<in>{c. (c, i) \<in> parent_rel s}. under s c)"
proof (intro set_eqI iffI)
  fix j assume "j \<in> under s i"
  then have "(j, i) \<in> (parent_rel s)\<^sup>*" by (simp add: under_def)
  then show "j \<in> insert i (\<Union>c\<in>{c. (c, i) \<in> parent_rel s}. under s c)"
    by (cases rule: rtranclE) (auto simp: under_def)
next
  fix j assume "j \<in> insert i (\<Union>c\<in>{c. (c, i) \<in> parent_rel s}. under s c)"
  then show "j \<in> under s i" using under_child by auto
qed

lemma childrenOf_iff:
  assumes "set (Order s) = set (task_ids s)" and "p \<noteq> ''''"
  shows "c \<in> set (childrenOf s p) \<longleftrightarrow> (c, p) \<in> parent_rel s"
  using assms by (auto simp: childrenOf_def parent_rel_iff task_ids_iff)

lemma under_tasks:
  assumes "i \<in> set (task_ids s)"
  shows "under s i \<subseteq> set (task_ids s)"
proof
  fix j assume "j \<in> under s i"
  then have "(j, i) \<in> (parent_rel s)\<^sup>*" by (simp add: under_def)
  then show "j \<in> set (task_ids s)" using assms by (cases rule: converse_rtranclE) (auto dest: parent_rel_dom)
qed

lemma under_smaller:
  assumes tr: "tree_ok s" and e: "(c, i) \<in> parent_rel s" and i: "i \<in> set (task_ids s)"
  shows "card (under s c) < card (under s i)"
proof -
  have "i \<notin> under s c"
  proof
    assume "i \<in> under s c"
    then have "(i, c) \<in> (parent_rel s)\<^sup>*" by (simp add: under_def)
    with e have "(i, i) \<in> (parent_rel s)\<^sup>+" by (rule rtrancl_into_trancl1[rotated])
    with tr show False by (simp add: tree_ok_def acyclic_def)
  qed
  with under_child[OF e] have "under s c \<subset> under s i" by auto
  moreover have "finite (under s i)" using under_tasks[OF i] finite_subset by blast
  ultimately show ?thesis by (intro psubset_card_mono)
qed

text \<open>
  The marking loop with its seen-set: what it adds is the subtree, where what was there is closed
  under children apart from the tasks the loop is still inside of.
\<close>

definition closed_but :: "plan_state \<Rightarrow> string \<Rightarrow> string set \<Rightarrow> bool" where
  "closed_but s i S \<longleftrightarrow> (\<forall>x\<in>S. (i, x) \<notin> (parent_rel s)\<^sup>+ \<longrightarrow> (\<forall>c. (c, x) \<in> parent_rel s \<longrightarrow> c \<in> S))"

lemma closed_but_under:
  assumes ac: "acyclic (parent_rel s)" and cl: "closed_but s i S" and i: "i \<in> S"
  shows "under s i \<subseteq> S"
proof
  fix j assume "j \<in> under s i"
  then have "(j, i) \<in> (parent_rel s)\<^sup>*" by (simp add: under_def)
  then show "j \<in> S"
  proof (induction rule: converse_rtrancl_induct)
    case base
    show ?case by (rule i)
  next
    case (step j k)
    have "(i, k) \<notin> (parent_rel s)\<^sup>+"
    proof
      assume "(i, k) \<in> (parent_rel s)\<^sup>+"
      with step(2) have "(i, i) \<in> (parent_rel s)\<^sup>+" by (rule trancl_rtrancl_trancl[rotated])
      with ac show False by (simp add: acyclic_def)
    qed
    with cl step show ?case by (auto simp: closed_but_def)
  qed
qed

lemma parent_rel_unique: "(i, j) \<in> parent_rel s \<Longrightarrow> (i, k) \<in> parent_rel s \<Longrightarrow> k = j"
  by (auto simp: parent_rel_iff)

lemma closed_but_child:
  assumes "(c, i) \<in> parent_rel s"
  shows "closed_but s c S \<longleftrightarrow> (\<forall>x\<in>S. x \<noteq> i \<longrightarrow> (i, x) \<notin> (parent_rel s)\<^sup>+ \<longrightarrow> (\<forall>k. (k, x) \<in> parent_rel s \<longrightarrow> k \<in> S))"
proof -
  have "(c, x) \<in> (parent_rel s)\<^sup>+ \<longleftrightarrow> x = i \<or> (i, x) \<in> (parent_rel s)\<^sup>+" for x
  proof
    assume "(c, x) \<in> (parent_rel s)\<^sup>+"
    then show "x = i \<or> (i, x) \<in> (parent_rel s)\<^sup>+"
      by (rule converse_tranclE) (use parent_rel_unique[OF assms] in auto)
  qed (use assms in \<open>auto intro: trancl_into_trancl2\<close>)
  then show ?thesis unfolding closed_but_def by blast
qed

lemma markSubtree_exact:
  assumes tr: "tree_ok s" and o: "set (Order s) = set (task_ids s)"
  shows "i \<in> set (task_ids s) \<Longrightarrow> card (under s i) \<le> n \<Longrightarrow> closed_but s i (set into) \<Longrightarrow>
    set (markSubtree n (childrenOf s) i into) = set into \<union> under s i \<and>
    closed_but s i (set (markSubtree n (childrenOf s) i into))"
proof (induction n arbitrary: i into)
  case 0
  have "finite (under s i)" using under_tasks[OF 0(1)] finite_subset by blast
  with 0(2) have "under s i = {}" by simp
  then show ?case using under_self[of i s] by simp
next
  case (Suc n)
  have ac: "acyclic (parent_rel s)" using tr by (simp add: tree_ok_def)
  have ine: "i \<noteq> ''''" using tr Suc.prems(1) by (auto simp: tree_ok_def task_ids_iff)
  note ch = childrenOf_iff[OF o ine]
  show ?case
  proof (cases "i \<in> set into")
    case True
    with closed_but_under[OF ac Suc.prems(3)] Suc.prems(3) show ?thesis by auto
  next
    case False
    have small: "c \<in> set (task_ids s) \<and> card (under s c) \<le> n" if c: "c \<in> set (childrenOf s i)" for c
    proof -
      from c have e: "(c, i) \<in> parent_rel s" using ch by blast
      from under_smaller[OF tr e Suc.prems(1)] Suc.prems(2) parent_rel_dom[OF e] show ?thesis by auto
    qed
    have loop: "set (fold (markSubtree n (childrenOf s)) cs S) = set S \<union> (\<Union>c\<in>set cs. under s c) \<and>
        (\<forall>c\<in>set (childrenOf s i). closed_but s c (set (fold (markSubtree n (childrenOf s)) cs S)))"
      if "set cs \<subseteq> set (childrenOf s i)" "\<forall>c\<in>set (childrenOf s i). closed_but s c (set S)" for cs S
      using that
    proof (induction cs arbitrary: S)
      case (Cons c cs)
      have c: "c \<in> set (childrenOf s i)" using Cons.prems by simp
      let ?S = "markSubtree n (childrenOf s) c S"
      from Suc.IH[of c S] small[OF c] Cons.prems(2) c
      have m: "set ?S = set S \<union> under s c" "closed_but s c (set ?S)" by blast+
      have "closed_but s c' (set ?S)" if "c' \<in> set (childrenOf s i)" for c'
      proof -
        have e: "(c, i) \<in> parent_rel s" "(c', i) \<in> parent_rel s" using c that ch by blast+
        from m(2) show ?thesis unfolding closed_but_child[OF e(1)] closed_but_child[OF e(2)] .
      qed
      then have "\<forall>c'\<in>set (childrenOf s i). closed_but s c' (set ?S)" by blast
      moreover have "set cs \<subseteq> set (childrenOf s i)" using Cons.prems(1) by simp
      ultimately have ih: "set (fold (markSubtree n (childrenOf s)) cs ?S) = set ?S \<union> (\<Union>c\<in>set cs. under s c)"
        "\<forall>c\<in>set (childrenOf s i). closed_but s c (set (fold (markSubtree n (childrenOf s)) cs ?S))"
        using Cons.IH[of ?S] by blast+
      from ih(2) have "\<forall>c'\<in>set (childrenOf s i). closed_but s c' (set (fold (markSubtree n (childrenOf s)) (c # cs) S))"
        by simp
      moreover have "set (fold (markSubtree n (childrenOf s)) (c # cs) S) = set S \<union> (\<Union>c\<in>set (c # cs). under s c)"
        using ih(1) m(1) by (simp add: Un_assoc)
      ultimately show ?case by blast
    qed simp
    have start: "\<forall>c\<in>set (childrenOf s i). closed_but s c (set (i # into))"
    proof
      fix c assume "c \<in> set (childrenOf s i)"
      then have e: "(c, i) \<in> parent_rel s" using ch by blast
      show "closed_but s c (set (i # into))"
        unfolding closed_but_child[OF e] list.set using Suc.prems(3)[unfolded closed_but_def] by blast
    qed
    let ?R = "fold (markSubtree n (childrenOf s)) (childrenOf s i) (i # into)"
    from loop[OF subset_refl start]
    have R: "set ?R = set (i # into) \<union> (\<Union>c\<in>set (childrenOf s i). under s c)"
      and clc: "\<forall>c\<in>set (childrenOf s i). closed_but s c (set ?R)" by blast+
    have R': "set ?R = set into \<union> under s i" unfolding R by (subst under_unfold[of s i]) (auto simp: ch)
    have "closed_but s i (set ?R)"
    proof (cases "childrenOf s i = []")
      case True
      with Suc.prems(3) ch show ?thesis by (auto simp: closed_but_def)
    next
      case nonempty: False
      then obtain c where c: "c \<in> set (childrenOf s i)" by (cases "childrenOf s i") auto
      have e: "(c, i) \<in> parent_rel s" using c ch by blast
      have cl: "closed_but s c (set ?R)" using clc c by blast
      have own: "k \<in> set ?R" if "(k, i) \<in> parent_rel s" for k
        using that ch under_self R by blast
      show ?thesis unfolding closed_but_def
      proof (intro ballI impI allI)
        fix x k assume x: "x \<in> set ?R" "(i, x) \<notin> (parent_rel s)\<^sup>+" "(k, x) \<in> parent_rel s"
        show "k \<in> set ?R"
        proof (cases "x = i")
          case True
          with x(3) own show ?thesis by simp
        next
          case False
          with x cl[unfolded closed_but_child[OF e], rule_format, of x k] show ?thesis by simp
        qed
      qed
    qed
    with False R' show ?thesis by simp
  qed
qed

section \<open>What the survivors make\<close>

lemma fold_upd_each:
  assumes "\<And>i t. g i (g i t) = g i t"
  shows "task_at (fold (\<lambda>i. upd i (g i)) is s) j = (if j \<in> set is then map_option (g j) (task_at s j) else task_at s j)"
proof (induction "is" arbitrary: s)
  case (Cons i "is")
  then show ?case by (cases "task_at s j") (auto simp: task_at_upd assms)
qed simp

lemma fold_upd_each_rest:
  "(fold (\<lambda>i. upd i (g i)) is s)\<lparr>Tasks := []\<rparr> = s\<lparr>Tasks := []\<rparr> \<and> task_ids (fold (\<lambda>i. upd i (g i)) is s) = task_ids s"
proof (induction "is" arbitrary: s)
  case (Cons i "is")
  have "(upd i (g i) s)\<lparr>Tasks := []\<rparr> = s\<lparr>Tasks := []\<rparr>"
    by (simp add: upd_task_def put_task_def split: option.split)
  with Cons show ?case by simp
qed simp

lemma recomputeComposite_at:
  "task_at (recomputeComposite s) j =
     (if j \<in> set (Order s) then map_option (\<lambda>t. t\<lparr>Composite := (j \<in> set (childNames s))\<rparr>) (task_at s j) else task_at s j)"
  unfolding recomputeComposite_def by (rule fold_upd_each) simp

lemma recomputeComposite_rest:
  "(recomputeComposite s)\<lparr>Tasks := []\<rparr> = s\<lparr>Tasks := []\<rparr>" "task_ids (recomputeComposite s) = task_ids s"
  unfolding recomputeComposite_def by (simp_all add: fold_upd_each_rest)

lemma recomputeComposite_rep: "rep_ok (recomputeComposite s) = rep_ok s"
  using recomputeComposite_rest(2)[of s] by (simp add: rep_ok_def task_ids_def)

lemma childNames_iff:
  "p \<in> set (childNames s) \<longleftrightarrow> p \<noteq> '''' \<and> (\<exists>i\<in>set (Order s). \<exists>t. task_at s i = Some t \<and> ParentID t = p)"
  by (force simp: childNames_def List.map_filter_def)

text \<open>Every task of an accepted plan is under its root.\<close>

lemma all_under_root:
  assumes inv: "plan_inv s" and t: "task_at s i = Some t"
  shows "i \<in> under s (RootID s)"
proof -
  have tr: "tree_ok s" by (rule plan_inv_tree[OF inv])
  have "parent_rel s \<subseteq> set (task_ids s) \<times> set (task_ids s)"
    using parent_rel_dom parent_rel_ran[OF tr] by auto
  then have "finite (parent_rel s)" by (rule finite_subset) simp
  then have wf: "wf ((parent_rel s)\<inverse>)" using tr by (auto intro: finite_acyclic_wf_converse simp: tree_ok_def)
  from t show ?thesis
  proof (induction i arbitrary: t rule: wf_induct_rule[OF wf])
    case (1 i)
    show ?case
    proof (cases "i = RootID s")
      case False
      with plan_invD(3)[OF inv "1.prems"] obtain u where u: "task_at s (ParentID t) = Some u"
        by (auto simp: task_wf_def)
      then have "ParentID t \<noteq> ''''" using tr by (auto simp: tree_ok_def)
      then have e: "(i, ParentID t) \<in> parent_rel s" using "1.prems" by (auto simp: parent_rel_iff)
      with "1.IH"[of "ParentID t" u] u have "ParentID t \<in> under s (RootID s)" by simp
      with e show ?thesis by (auto simp: under_def intro: converse_rtrancl_into_rtrancl)
    qed simp
  qed
qed

lemma sub_graphs:
  assumes g: "graphs_ok s" and cl: "edges_closed s' hard_deps" "edges_closed s' parent_edges"
    and sub: "\<And>i t'. task_at s' i = Some t' \<Longrightarrow> \<exists>t. task_at s i = Some t \<and> ID t' = ID t \<and> ParentID t' = ParentID t \<and>
      set (Dependencies t') \<subseteq> set (Dependencies t)"
  shows "graphs_ok s'"
proof -
  have hd: "set (hard_deps t') \<subseteq> set (hard_deps t)" if "set (Dependencies t') \<subseteq> set (Dependencies t)" for t t'
    using that by (auto simp: hard_deps_def)
  have p: "parent_rel s' \<subseteq> parent_rel s"
  proof
    fix e assume "e \<in> parent_rel s'"
    then obtain i t' where "e = (i, ParentID t')" "task_at s' i = Some t'" "ParentID t' \<noteq> ''''"
      by (cases e) (auto simp: parent_rel_iff)
    with sub[of i t'] show "e \<in> parent_rel s" by (auto simp: parent_rel_iff)
  qed
  have h: "hard_rel s' \<subseteq> hard_rel s"
  proof
    fix e assume "e \<in> hard_rel s'"
    then obtain i j t' where "e = (i, j)" "task_at s' i = Some t'" "j \<in> set (hard_deps t')"
      by (cases e) (auto simp: edge_rel_def)
    with sub[of i t'] hd show "e \<in> hard_rel s" unfolding edge_rel_def by blast
  qed
  have pp: "(x, y) \<in> (parent_rel s')\<^sup>+ \<Longrightarrow> (x, y) \<in> (parent_rel s)\<^sup>+" for x y
    using trancl_mono[OF _ p] .
  have "(ID t', j) \<notin> (parent_rel s')\<^sup>+ \<and> (j, ID t') \<notin> (parent_rel s')\<^sup>+"
    if t': "task_at s' i = Some t'" "j \<in> set (hard_deps t')" for i t' j
  proof -
    from sub[OF t'(1)] obtain t where t: "task_at s i = Some t" "ID t' = ID t" "set (Dependencies t') \<subseteq> set (Dependencies t)"
      by blast
    have "j \<in> set (hard_deps t)" using hd[OF t(3)] t'(2) by blast
    with g t(1) have "(ID t, j) \<notin> (parent_rel s)\<^sup>+ \<and> (j, ID t) \<notin> (parent_rel s)\<^sup>+"
      unfolding graphs_ok_def by blast
    with pp t(2) show ?thesis by auto
  qed
  with g cl acyclic_subset[OF _ p] acyclic_subset[OF _ h] show ?thesis unfolding graphs_ok_def by blast
qed

text \<open>
  A set of ids closed under children is taken out, and what stays keeps its place, drops the edges
  into the set and is otherwise valid: the plan then loads again.
\<close>

definition survivor :: "string list \<Rightarrow> task \<Rightarrow> task \<Rightarrow> bool" where
  "survivor gone t t' \<longleftrightarrow> ID t' = ID t \<and> ParentID t' = ParentID t \<and>
     set (Dependencies t') \<subseteq> set (Dependencies t) \<and> (\<forall>d\<in>set (Dependencies t'). dep_TaskID d \<notin> set gone) \<and>
     (validStatus (Status t) \<longrightarrow> validStatus (Status t')) \<and> (validateSpec t = None \<longrightarrow> validateSpec t' = None)"

definition without :: "string list \<Rightarrow> plan_state \<Rightarrow> plan_state \<Rightarrow> bool" where
  "without gone s s0 \<longleftrightarrow> rep_ok s0 \<and> Version s0 = Version s \<and> PlanProject s0 = PlanProject s \<and> RootID s0 = RootID s \<and>
     Order s0 = keepIDs (Order s) gone \<and> (\<forall>i\<in>set gone. task_at s0 i = None) \<and>
     (\<forall>i. task_at s i = None \<longrightarrow> task_at s0 i = None) \<and>
     (\<forall>i t. i \<notin> set gone \<and> task_at s i = Some t \<longrightarrow> (\<exists>t'. task_at s0 i = Some t' \<and> survivor gone t t')) \<and>
     Deleted s \<subseteq> Deleted s0 \<and> (RootID s \<in> set gone \<longrightarrow> RootID s \<in> Deleted s0)"

lemma withoutD:
  assumes "without gone s s0"
  shows "rep_ok s0" "Version s0 = Version s" "PlanProject s0 = PlanProject s" "RootID s0 = RootID s"
    "Order s0 = keepIDs (Order s) gone" "i \<in> set gone \<Longrightarrow> task_at s0 i = None" "task_at s i = None \<Longrightarrow> task_at s0 i = None"
    "i \<notin> set gone \<Longrightarrow> task_at s i = Some t \<Longrightarrow> \<exists>t'. task_at s0 i = Some t' \<and> survivor gone t t'"
    "Deleted s \<subseteq> Deleted s0" "RootID s \<in> set gone \<Longrightarrow> RootID s \<in> Deleted s0"
  using assms unfolding without_def by blast+

lemma without_dom:
  assumes "without gone s s0"
  shows "task_at s0 i \<noteq> None \<longleftrightarrow> task_at s i \<noteq> None \<and> i \<notin> set gone"
  using withoutD(6-8)[OF assms, of i] by (cases "task_at s i") fastforce+

lemma without_back:
  assumes "without gone s s0" and "task_at s0 i = Some t'"
  obtains t where "task_at s i = Some t" "i \<notin> set gone" "survivor gone t t'"
proof -
  have "task_at s i \<noteq> None" "i \<notin> set gone" using without_dom[OF assms(1), of i] assms(2) by auto
  then obtain t where t: "task_at s i = Some t" "i \<notin> set gone" by blast
  with withoutD(8)[OF assms(1) t(2,1)] assms(2) have "survivor gone t t'" by simp
  with t show ?thesis by (rule that)
qed

text \<open>Where the root goes everything goes, and an empty plan is lawful only with its root's tombstone.\<close>

lemma without_root:
  assumes inv: "plan_inv s" and w: "without gone s s0" and none: "\<And>i. task_at s0 i = None"
  shows "RootID s \<in> Deleted s0"
proof (cases "Tasks s = []")
  case True
  with inv have "RootID s \<in> Deleted s" by (auto simp: plan_inv_iff plan_wf_def task_at_def)
  with withoutD(9)[OF w] show ?thesis by blast
next
  case False
  then obtain q qs where "Tasks s = q # qs" by (cases "Tasks s") auto
  then have "task_at s (fst q) = Some (snd q)" by (simp add: task_at_def)
  from plan_invD(6)[OF inv this] have "task_at s (RootID s) \<noteq> None" by auto
  with without_dom[OF w, of "RootID s"] none have "RootID s \<in> set gone" by auto
  with withoutD(10)[OF w] show ?thesis by blast
qed

lemma gone_root:
  assumes inv: "plan_inv s" and root: "RootID s \<in> set gone" and t: "task_at s i = Some t"
    and closed: "\<And>i t. task_at s i = Some t \<Longrightarrow> ParentID t \<in> set gone \<Longrightarrow> i \<in> set gone"
  shows "i \<in> set gone"
proof -
  have "(i, RootID s) \<in> (parent_rel s)\<^sup>*" using all_under_root[OF inv t] by (simp add: under_def)
  then show ?thesis
  proof (induction rule: converse_rtrancl_induct)
    case (step j k)
    then show ?case using closed by (auto simp: parent_rel_iff)
  qed (rule root)
qed

lemma survivors_inv:
  assumes inv: "plan_inv s" and w: "without gone s s0"
    and closed: "\<And>i t. task_at s i = Some t \<Longrightarrow> ParentID t \<in> set gone \<Longrightarrow> i \<in> set gone"
  shows "plan_inv (recomputeComposite s0)"
proof -
  let ?r = "recomputeComposite s0"
  note o = plan_inv_order[OF inv]
  note fr = same_rest[OF recomputeComposite_rest(1)[of s0]]
  have rep: "rep_ok ?r" using w by (simp add: recomputeComposite_rep without_def)
  note dom0 = without_dom[OF w]
  have ord: "set (Order s0) = {i. task_at s0 i \<noteq> None}" "distinct (Order s0)"
    using o unfolding withoutD(5)[OF w] keepIDs_def dom0 by (auto simp: task_ids_iff)
  have at: "task_at ?r i = map_option (\<lambda>t. t\<lparr>Composite := (i \<in> set (childNames s0))\<rparr>) (task_at s0 i)" for i
    using ord(1) by (cases "task_at s0 i") (auto simp: recomputeComposite_at)
  have dom: "task_at ?r i \<noteq> None \<longleftrightarrow> task_at s i \<noteq> None \<and> i \<notin> set gone" for i
    unfolding dom0[symmetric] by (simp add: at)
  have orig: "\<exists>t. task_at s i = Some t \<and> i \<notin> set gone \<and> survivor gone t t' \<and> (Composite t' \<longleftrightarrow> i \<in> set (childNames s0))"
    if t': "task_at ?r i = Some t'" for i t'
  proof -
    from t' obtain u where u: "task_at s0 i = Some u" "t' = u\<lparr>Composite := (i \<in> set (childNames s0))\<rparr>"
      by (auto simp: at)
    from w u(1) obtain t where "task_at s i = Some t" "i \<notin> set gone" "survivor gone t u" by (rule without_back)
    with u(2) show ?thesis by (auto simp: survivor_def)
  qed
  show ?thesis
  proof (cases "\<forall>i. task_at s0 i = None")
    case True
    then have "RootID s \<in> Deleted s0" by (intro without_root[OF inv w]) simp
    moreover have "i \<notin> set (task_ids s0)" for i using True by (simp add: task_ids_iff)
    then have "set (task_ids ?r) = {}" unfolding recomputeComposite_rest(2) by (simp add: set_eq_iff)
    then have "task_ids ?r = []" by (simp only: set_empty)
    then have "Tasks ?r = []" by (simp add: task_ids_def)
    moreover have "Order s0 = []" using ord(1) True by simp
    ultimately show ?thesis using inv rep fr withoutD(2-4)[OF w] by (auto simp: plan_inv_iff plan_wf_def)
  next
    case False
    then obtain i0 where "task_at s i0 \<noteq> None" "i0 \<notin> set gone" using dom0 by blast
    then obtain t0 where t0: "task_at s i0 = Some t0" "i0 \<notin> set gone" by blast
    from plan_invD(6)[OF inv t0(1)] obtain r where r: "task_at s (RootID s) = Some r" "ParentID r = ''''" by blast
    have "RootID s \<notin> set gone"
    proof
      assume "RootID s \<in> set gone"
      from gone_root[OF inv this t0(1)] closed t0(2) show False by blast
    qed
    then obtain r' where r': "task_at ?r (RootID s) = Some r'" using dom r by blast
    with orig[OF r'] r have pr: "ParentID r' = ''''" by (auto simp: survivor_def)
    have key: "task_at s '''' = None" using plan_inv_tree[OF inv] by (simp add: tree_ok_def)
    have ch: "i \<in> set (childNames s0) \<longleftrightarrow> has_child ?r i" if "i \<noteq> ''''" for i
      using that ord(1) unfolding childNames_iff has_child_def at by fastforce
    have wf: "task_wf ?r i t'" if t': "task_at ?r i = Some t'" for i t'
    proof -
      from orig[OF t'] obtain t where t: "task_at s i = Some t" "i \<notin> set gone" "survivor gone t t'"
        "Composite t' \<longleftrightarrow> i \<in> set (childNames s0)" by blast
      have "i \<noteq> ''''" using t(1) key by auto
      then have c: "Composite t' \<longleftrightarrow> has_child ?r i" using t(4) ch by simp
      have "ParentID t \<notin> set gone" using closed[OF t(1)] t(2) by blast
      with plan_invD(3)[OF inv t(1)] t(3) c show ?thesis
        unfolding task_wf_def dom fr withoutD(4)[OF w] survivor_def by auto
    qed
    have "edges_closed ?r hard_deps" using wf by (fastforce simp: edges_closed_def task_wf_def hard_deps_def)
    moreover have "edges_closed ?r parent_edges"
      using wf pr r' fr(3) withoutD(4)[OF w] by (fastforce simp: edges_closed_def task_wf_def parent_edges_def)
    ultimately have "graphs_ok ?r"
      by (rule sub_graphs[OF plan_invD(2)[OF inv t0(1)]]) (auto dest!: orig simp: survivor_def)
    moreover have "set (Order ?r) = set (task_ids ?r)" "distinct (Order ?r)"
      using ord fr(4) by (auto simp: recomputeComposite_rest(2) task_ids_iff)
    ultimately show ?thesis
      using fr withoutD(2-4)[OF w] wf by (intro plan_inv_rebuild[OF inv rep _ _ _ r' pr]) auto
  qed
qed

end
