(* ===== verification/PlanPersist.thy ===== *)
theory PlanPersist
  imports PlanRows PlanRemove "HOL-Library.Product_Lexorder"
begin

text \<open>
  Reading and rewriting the whole plan: \<^verbatim>\<open>loadState\<close>, \<^verbatim>\<open>saveState\<close> and the loops under them,
  and the archive's two, of \<^verbatim>\<open>internal/plandb/persist.go\<close>. They are the storage the handle of
  \<^verbatim>\<open>PlanStore\<close> asks for: every write the store makes is read back as the plan it wrote.
\<close>

section \<open>Reading\<close>

definition putTask :: "task \<Rightarrow> (string \<times> task) list \<times> string list \<Rightarrow> (string \<times> task) list \<times> string list" where
  "putTask t = (\<lambda>(ts, order). (AList.update (ID t) t ts, order @ [ID t]))"

definition loadTasks :: "task_row list \<Rightarrow> plan_error + (string \<times> task) list \<times> string list" where
  "loadTasks rows =
     foldE (\<lambda>row acc. andThen (scanTask row) (\<lambda>t. Inr (putTask t acc)))
       (SliceStable (\<lambda>a b. r_ord a < r_ord b) rows) ([], [])"

definition loadArchived :: "archived_row list \<Rightarrow> plan_error + task list" where
  "loadArchived rows =
     foldE (\<lambda>row ts. andThen (scanTask row) (\<lambda>t.
              andThen (parseTime (r_archived_at row)) (\<lambda>at. Inr (ts @ [t\<lparr>ArchivedAt := at\<rparr>]))))
       (SliceStable (\<lambda>a b. r_ord a < r_ord b) rows) []"

definition addEdge :: "dep_row \<Rightarrow> (string \<times> task) list \<Rightarrow> (string \<times> task) list" where
  "addEdge row ts =
     (case map_of ts (d_downstream row) of
        None \<Rightarrow> ts
      | Some t \<Rightarrow> AList.update (d_downstream row)
          (t\<lparr>Dependencies := Dependencies t @ [\<lparr>dep_TaskID = d_upstream row, dep_Kind = d_kind row\<rparr>]\<rparr>) ts)"

definition loadDeps :: "dep_row list \<Rightarrow> (string \<times> task) list \<Rightarrow> (string \<times> task) list" where
  "loadDeps rows ts = fold addEdge (sort_key (\<lambda>row. (d_downstream row, d_ord row)) rows) ts"

definition loadNotes :: "note_row list \<Rightarrow> plan_error + plan_note list" where
  "loadNotes rows =
     foldE (\<lambda>row ns. andThen (parseTime (n_at row)) (\<lambda>at. Inr (ns @
         [\<lparr>note_ID = n_id row, note_TaskID = n_task_id row, note_Agent = n_agent row,
           note_From = orElse (n_from row) NoteFromWorker, note_Body = n_body row,
           note_Project = n_project row, note_Chat = n_chat row, note_At = at\<rparr>])))
       (SliceStable (\<lambda>a b. n_seq a < n_seq b) rows) []"

definition loadContexts :: "context_row list \<Rightarrow> plan_error + context_entry list" where
  "loadContexts rows =
     foldE (\<lambda>row es. andThen (parseTime (c_created_at row)) (\<lambda>at. Inr (es @
         [\<lparr>ce_ID = c_id row, ce_TaskID = c_task_id row, ce_Kind = c_kind row, ce_Content = c_content row,
           ce_Project = c_project row, ce_Chat = c_chat row, ce_CreatedAt = at\<rparr>])))
       (SliceStable (\<lambda>a b. c_seq a < c_seq b) rows) []"

definition loadState :: "'usd plan_db \<Rightarrow> plan_error + plan_state" where
  "loadState db =
     (case t_meta db of
        None \<Rightarrow> Inl ErrNoStore
      | Some m \<Rightarrow>
          if m_next_id m < 0 then Inl (LoadRefused BadColumn)
          else if m_version m \<noteq> int stateVersion then Inl (LoadRefused (UnsupportedVersion (nat (m_version m))))
          else if m_root_id m = '''' \<or> m_project m = '''' then Inl (LoadRefused InvalidPlanStore)
          else andThen (loadTasks (t_tasks db)) (\<lambda>(ts, order).
               andThen (loadNotes (t_notes db)) (\<lambda>ns.
               andThen (loadContexts (t_contexts db)) (\<lambda>es.
                 let value = \<lparr>Version = nat (m_version m), PlanProject = m_project m, RootID = m_root_id m,
                     Tasks = loadDeps (t_deps db) ts, Order = order, Notes = ns, Contexts = es,
                     NextID = word_of_int (m_next_id m), Deleted = t_deleted db\<rparr>
                 in (case validateLoadedState value of None \<Rightarrow> Inr value | Some e \<Rightarrow> Inl (LoadRefused e))))))"

section \<open>Writing\<close>

definition saveTasks :: "plan_state \<Rightarrow> plan_error + task_row list" where
  "saveTasks s =
     foldE (\<lambda>(ord, i) rows. case task_at s i of None \<Rightarrow> Inl NilDeref | Some t \<Rightarrow> insertRow r_id (taskRow ord t) rows)
       (enumerate 0 (Order s)) []"

definition depRow :: "string \<Rightarrow> nat \<times> dependency \<Rightarrow> dep_row" where
  "depRow i = (\<lambda>(ord, d). \<lparr>d_downstream = i, d_upstream = dep_TaskID d, d_kind = dep_Kind d, d_ord = int ord\<rparr>)"

definition edgeKey :: "dep_row \<Rightarrow> string \<times> string" where
  "edgeKey row = (d_downstream row, d_upstream row)"

definition saveDeps :: "plan_state \<Rightarrow> plan_error + dep_row list" where
  "saveDeps s =
     foldE (\<lambda>i rows. case task_at s i of
              None \<Rightarrow> Inl NilDeref
            | Some t \<Rightarrow> foldE (insertRow edgeKey) (map (depRow i) (enumerate 0 (Dependencies t))) rows)
       (Order s) []"

definition noteRow :: "nat \<times> plan_note \<Rightarrow> note_row" where
  "noteRow = (\<lambda>(seq, n). \<lparr>n_seq = int seq, n_id = note_ID n, n_task_id = note_TaskID n, n_agent = note_Agent n,
      n_body = note_Body n, n_at = formatTime (note_At n), n_project = note_Project n, n_chat = note_Chat n,
      n_from = orElse (note_From n) NoteFromWorker\<rparr>)"

definition contextRow :: "nat \<times> context_entry \<Rightarrow> context_row" where
  "contextRow = (\<lambda>(seq, e). \<lparr>c_seq = int seq, c_id = ce_ID e, c_task_id = ce_TaskID e, c_kind = ce_Kind e,
      c_content = ce_Content e, c_created_at = formatTime (ce_CreatedAt e), c_project = ce_Project e,
      c_chat = ce_Chat e\<rparr>)"

definition saveNotes :: "plan_note list \<Rightarrow> note_row list" where
  "saveNotes ns = map noteRow (enumerate 0 ns)"

definition saveContexts :: "context_entry list \<Rightarrow> context_row list" where
  "saveContexts es = map contextRow (enumerate 0 es)"

text \<open>The driver refuses an unsigned id whose high bit is set.\<close>

definition saveState :: "plan_state \<Rightarrow> 'usd plan_db \<Rightarrow> plan_error + 'usd plan_db" where
  "saveState s db =
     (if 2 ^ 63 \<le> unat (NextID s) then Inl BadValue
      else andThen (saveTasks s) (\<lambda>ts. andThen (saveDeps s) (\<lambda>ds.
        Inr (db\<lparr>t_deleted := t_deleted db \<union> Deleted s,
                t_meta := Some \<lparr>m_project = PlanProject s, m_root_id = RootID s,
                                 m_next_id = int (unat (NextID s)), m_version = int (Version s)\<rparr>,
                t_tasks := ts, t_deps := ds, t_notes := saveNotes (Notes s),
                t_contexts := saveContexts (Contexts s)\<rparr>))))"

text \<open>The archive's insert names no verdict basis, so the column takes its default.\<close>

definition archivedRow :: "time \<Rightarrow> nat \<times> task \<Rightarrow> archived_row" where
  "archivedRow now = (\<lambda>(ord, t).
     task_row.extend ((taskRow ord t)\<lparr>r_verdict_basis := JSON JNull\<rparr>) (archived_row.fields (formatTime now)))"

definition insertArchived :: "task list \<Rightarrow> time \<Rightarrow> archived_row list \<Rightarrow> plan_error + archived_row list" where
  "insertArchived moved now rows =
     foldE (insertRow r_id) (map (archivedRow now) (enumerate 0 moved)) rows"

section \<open>The loops, in closed form\<close>

lemma insert_all:
  "distinct (map key rows) \<Longrightarrow> foldE (insertRow key) rs rows = Inr out \<longleftrightarrow>
     out = rows @ rs \<and> distinct (map key (rows @ rs))"
proof (induction rs arbitrary: rows)
  case (Cons r rs)
  then show ?case
    by (cases "key r \<in> set (map key rows)") (auto simp: insertRow_def)
qed auto

lemma foldE_scan:
  "(\<And>r. r \<in> set rs \<Longrightarrow> f r = Inr (g r)) \<Longrightarrow>
   foldE (\<lambda>r acc. andThen (f r) (\<lambda>t. Inr (h t acc))) rs a = Inr (fold (\<lambda>r. h (g r)) rs a)"
  by (induction rs arbitrary: a) auto

lemma sort_key_sorted: "sorted (map f xs) \<Longrightarrow> sort_key f xs = xs"
  by (induction xs) (auto simp: insort_is_Cons)

lemma sorted_enumerate_key: "(\<And>n x. f (g (n, x)) = int n) \<Longrightarrow> sorted (map f (map g (enumerate m xs)))"
  by (induction xs arbitrary: m) (auto simp: in_set_enumerate_eq)

lemma SliceStable_enumerate:
  "(\<And>n x. f (g (n, x)) = int n) \<Longrightarrow>
    SliceStable (\<lambda>a b. f a < f b) (map g (enumerate m xs)) = map g (enumerate m xs)"
  unfolding SliceStable_key by (rule sort_key_sorted) (rule sorted_enumerate_key)

lemma map_enumerate_snd: "map (\<lambda>(n, x). f x) (enumerate m xs) = map f xs"
  by (induction xs arbitrary: m) auto

lemma enumerate_snd: "x \<in> set (enumerate m xs) \<Longrightarrow> snd x \<in> set xs"
  by (induction xs arbitrary: m) auto

lemma fold_append: "fold (\<lambda>r acc. acc @ [f r]) rs a = a @ map f rs"
  by (induction rs arbitrary: a) auto

definition taskOf :: "plan_state \<Rightarrow> string \<Rightarrow> task" where
  "taskOf s i = (the (task_at s i))\<lparr>Dependencies := [], ArchivedAt := 0\<rparr>"

definition taskRows :: "plan_state \<Rightarrow> task_row list" where
  "taskRows s = map (\<lambda>(n, i). taskRow n (the (task_at s i))) (enumerate 0 (Order s))"

lemma foldE_cong:
  "(\<And>x a. x \<in> set xs \<Longrightarrow> f x a = g x a) \<Longrightarrow> foldE f xs a = foldE g xs a"
  by (induction xs arbitrary: a) (auto split: sum.splits)
lemma foldE_map: "foldE f (map g xs) a = foldE (\<lambda>x. f (g x)) xs a"
  by (induction xs arbitrary: a) (auto split: sum.splits)

lemma listed:
  assumes "plan_inv s" and "i \<in> set (Order s)"
  shows "\<exists>t. task_at s i = Some t \<and> ID t = i \<and> validStatus (Status t)" "task_at s i \<noteq> None" "ID (the (task_at s i)) = i"
    "validStatus (Status (the (task_at s i)))" "ID (taskOf s i) = i"
proof -
  from assms(2) obtain t where t: "task_at s i = Some t"
    using plan_inv_order(2)[OF assms(1)] by (auto simp: task_ids_iff)
  with plan_inv_ID[OF assms(1) t] plan_invD(3)[OF assms(1) t]
  show "\<exists>t. task_at s i = Some t \<and> ID t = i \<and> validStatus (Status t)" "task_at s i \<noteq> None" "ID (the (task_at s i)) = i"
    "validStatus (Status (the (task_at s i)))" "ID (taskOf s i) = i" by (auto simp: task_wf_def taskOf_def)
qed

lemma taskRows_ids:
  assumes "plan_inv s"
  shows "map r_id (taskRows s) = Order s"
proof -
  have "map r_id (taskRows s) = map (\<lambda>i. ID (the (task_at s i))) (Order s)"
    unfolding taskRows_def map_map using map_enumerate_snd[of "\<lambda>i. ID (the (task_at s i))" 0 "Order s"]
    by (simp add: comp_def case_prod_beta' taskRow_def)
  also have "\<dots> = Order s" using listed(3)[OF assms] by (intro map_idI) auto
  finally show ?thesis .
qed

lemma saveTasks_rows:
  assumes inv: "plan_inv s"
  shows "saveTasks s = Inr (taskRows s)"
proof -
  have "saveTasks s = foldE (\<lambda>(ord, i) rows. insertRow r_id (taskRow ord (the (task_at s i))) rows) (enumerate 0 (Order s)) []"
    unfolding saveTasks_def
  proof (rule foldE_cong)
    fix x :: "nat \<times> string" and a :: "task_row list" assume "x \<in> set (enumerate 0 (Order s))"
    then have "snd x \<in> set (Order s)" by (rule enumerate_snd)
    from listed(2)[OF inv this] show "(case x of (ord, i) \<Rightarrow> \<lambda>rows. case task_at s i of None \<Rightarrow> Inl NilDeref
        | Some t \<Rightarrow> insertRow r_id (taskRow ord t) rows) a =
      (case x of (ord, i) \<Rightarrow> insertRow r_id (taskRow ord (the (task_at s i)))) a"
      by (cases x) auto
  qed
  also have "\<dots> = foldE (insertRow r_id) (taskRows s) []"
    unfolding taskRows_def foldE_map by (simp add: case_prod_beta')
  also have "\<dots> = Inr (taskRows s)"
    using plan_inv_order(1)[OF inv] by (simp add: insert_all taskRows_ids[OF inv])
  finally show ?thesis .
qed
lemma fold_putTask:
  "fold putTask ts (al, order) = (fold (\<lambda>t. AList.update (ID t) t) ts al, order @ map ID ts)"
  by (induction ts arbitrary: al order) (auto simp: putTask_def)

lemma map_of_fold_update:
  "map_of (fold (\<lambda>t. AList.update (ID t) t) ts al) =
     (\<lambda>i. case map_of (rev (map (\<lambda>t. (ID t, t)) ts)) i of None \<Rightarrow> map_of al i | Some t \<Rightarrow> Some t)"
proof (induction ts arbitrary: al)
  case (Cons t ts)
  show ?case by (auto simp: Cons.IH AList.update_conv' fun_eq_iff map_add_def split: option.split)
qed simp

lemma distinct_fold_update:
  "distinct (map fst al) \<Longrightarrow> distinct (map fst (fold (\<lambda>t. AList.update (ID t) t) ts al))"
  by (induction ts arbitrary: al) (auto simp: distinct_keys_update)

lemma map_of_rev_distinct: "distinct (map fst al) \<Longrightarrow> map_of (rev al) = map_of al"
  by (intro map_of_inject_set[THEN iffD2]) (simp_all add: rev_map[symmetric])

lemma loadTasks_rows:
  assumes inv: "plan_inv s"
  obtains al where "loadTasks (taskRows s) = Inr (al, Order s)" "distinct (map fst al)"
    "map_of al = (\<lambda>i. if i \<in> set (Order s) then Some (taskOf s i) else None)"
proof -
  note o = plan_inv_order[OF inv]
  have sorted: "SliceStable (\<lambda>a b. r_ord a < r_ord b) (taskRows s) = taskRows s"
    unfolding taskRows_def by (rule SliceStable_enumerate) (simp add: taskRow_def)
  have "scanTask row = Inr (taskOf s (r_id row))" if "row \<in> set (taskRows s)" for row
  proof -
    from that obtain n i where i: "row = taskRow n (the (task_at s i))" "i \<in> set (Order s)"
      by (auto simp: taskRows_def in_set_enumerate_eq)
    with listed(1)[OF inv i(2)] show ?thesis by (auto simp: scan_taskRow taskOf_def) (auto simp: taskRow_def)
  qed
  then have l: "loadTasks (taskRows s) = Inr (fold (\<lambda>row. putTask (taskOf s (r_id row))) (taskRows s) ([], []))"
    unfolding loadTasks_def sorted by (rule foldE_scan)
  let ?ts = "map (taskOf s) (Order s)"
  have idt: "map ID ?ts = Order s" unfolding map_map by (rule map_idI) (simp add: listed(5)[OF inv])
  note ids = taskRows_ids[OF inv]
  have "fold (\<lambda>row. putTask (taskOf s (r_id row))) (taskRows s) ([], []) = fold putTask ?ts ([], [])"
    unfolding ids[symmetric] by (simp add: fold_map comp_def)
  also have "\<dots> = (fold (\<lambda>t. AList.update (ID t) t) ?ts [], Order s)" unfolding fold_putTask idt by simp
  finally have l2: "loadTasks (taskRows s) = Inr (fold (\<lambda>t. AList.update (ID t) t) ?ts [], Order s)" using l by simp
  have d: "distinct (map fst (map (\<lambda>t. (ID t, t)) ?ts))" using idt o(1) by (simp add: comp_def)
  have z: "map (\<lambda>t. (ID t, t)) ?ts = map (\<lambda>i. (i, taskOf s i)) (Order s)"
    using listed(5)[OF inv] by auto
  have "map_of (rev (map (\<lambda>t. (ID t, t)) ?ts)) = map_of (map (\<lambda>t. (ID t, t)) ?ts)"
    by (rule map_of_rev_distinct[OF d])
  then have "map_of (rev (map (\<lambda>t. (ID t, t)) ?ts)) i = (if i \<in> set (Order s) then Some (taskOf s i) else None)" for i
    unfolding z by (simp add: map_of_map_restrict restrict_map_def)
  then have "map_of (fold (\<lambda>t. AList.update (ID t) t) ?ts []) = (\<lambda>i. if i \<in> set (Order s) then Some (taskOf s i) else None)"
    unfolding map_of_fold_update by (auto simp: fun_eq_iff)
  with l2 show ?thesis by (intro that[of "fold (\<lambda>t. AList.update (ID t) t) ?ts []"] distinct_fold_update) auto
qed

definition edgeRows :: "plan_state \<Rightarrow> string \<Rightarrow> dep_row list" where
  "edgeRows s i = map (depRow i) (enumerate 0 (Dependencies (the (task_at s i))))"

lemma foldE_insert_lists:
  "distinct (map key rows) \<Longrightarrow> foldE (\<lambda>i. foldE (insertRow key) (f i)) is rows = Inr out \<longleftrightarrow>
     out = rows @ concat (map f is) \<and> distinct (map key (rows @ concat (map f is)))"
proof (induction "is" arbitrary: rows)
  case (Cons i "is")
  note all = insert_all[where key = key, OF Cons.prems]
  show ?case
  proof (cases "foldE (insertRow key) (f i) rows")
    case (Inl e)
    then have "\<not> distinct (map key (rows @ f i))" using all[of "f i" "rows @ f i"] by simp
    then show ?thesis using Inl by auto
  next
    case (Inr r)
    then have r: "r = rows @ f i" "distinct (map key r)" using all by auto
    with Inr Cons.IH[of r] show ?thesis by simp
  qed
qed auto

lemma saveDeps_rows:
  assumes inv: "plan_inv s"
  shows "saveDeps s = Inr rows \<longleftrightarrow> rows = concat (map (edgeRows s) (Order s)) \<and> distinct (map edgeKey rows)"
proof -
  have "saveDeps s = foldE (\<lambda>i. foldE (insertRow edgeKey) (edgeRows s i)) (Order s) []"
    unfolding saveDeps_def
  proof (rule foldE_cong)
    fix i and a :: "dep_row list" assume "i \<in> set (Order s)"
    from listed(2)[OF inv this] show "(case task_at s i of None \<Rightarrow> Inl NilDeref
        | Some t \<Rightarrow> foldE (insertRow edgeKey) (map (depRow i) (enumerate 0 (Dependencies t))) a) =
      foldE (insertRow edgeKey) (edgeRows s i) a" by (auto simp: edgeRows_def)
  qed
  then show ?thesis using foldE_insert_lists[of edgeKey "[]"] by auto
qed

definition edgeOf :: "dep_row \<Rightarrow> dependency" where
  "edgeOf row = \<lparr>dep_TaskID = d_upstream row, dep_Kind = d_kind row\<rparr>"

lemma edges_of_rows: "map edgeOf (edgeRows s i) = Dependencies (the (task_at s i))"
proof -
  have "map edgeOf (map (depRow i) (enumerate m ds)) = ds" for m and ds :: "dependency list"
    by (induction ds arbitrary: m) (auto simp: depRow_def edgeOf_def)
  then show ?thesis by (simp add: edgeRows_def)
qed

lemma fold_addEdge:
  "map_of (fold addEdge rows ts) i =
     map_option (\<lambda>t. t\<lparr>Dependencies := Dependencies t @ map edgeOf (filter (\<lambda>r. d_downstream r = i) rows)\<rparr>) (map_of ts i)"
proof (induction rows arbitrary: ts)
  case (Cons r rows)
  have "map_of (addEdge r ts) i =
      map_option (\<lambda>t. t\<lparr>Dependencies := Dependencies t @ (if d_downstream r = i then [edgeOf r] else [])\<rparr>) (map_of ts i)"
    by (cases "map_of ts (d_downstream r)"; cases "map_of ts i")
       (auto simp: addEdge_def AList.update_conv' edgeOf_def)
  then show ?case unfolding fold_Cons comp_def Cons.IH by (cases "map_of ts i") auto
qed (simp add: option.map_ident_strong)

lemma fold_addEdge_keys: "map fst (fold addEdge rows ts) = map fst ts"
proof (induction rows arbitrary: ts)
  case (Cons r rows)
  have "map fst (addEdge r ts) = map fst ts"
    by (auto simp: addEdge_def keys_update_present map_of_in_keys split: option.split)
  with Cons show ?case by simp
qed simp

lemma filter_own_rows:
  assumes "distinct is"
  shows "filter (\<lambda>r. d_downstream r = i) (concat (map (edgeRows s) is)) = (if i \<in> set is then edgeRows s i else [])"
proof -
  have own: "d_downstream r = j" if "r \<in> set (edgeRows s j)" for r j
    using that by (auto simp: edgeRows_def depRow_def)
  have "filter (\<lambda>r. d_downstream r = i) (edgeRows s j) = (if j = i then edgeRows s i else [])" for j
    using own[of _ j] by (auto simp: filter_empty_conv intro!: filter_True)
  then show ?thesis using assms by (induction "is") auto
qed

lemma loadDeps_rows:
  assumes inv: "plan_inv s" and m: "map_of al = (\<lambda>i. if i \<in> set (Order s) then Some (taskOf s i) else None)"
  shows "map_of (loadDeps (concat (map (edgeRows s) (Order s))) al) i =
    map_option (\<lambda>t. t\<lparr>ArchivedAt := 0\<rparr>) (task_at s i)"
proof (cases "i \<in> set (Order s)")
  case True
  let ?k = "\<lambda>row. (d_downstream row, d_ord row)"
  have "sorted (map ?k (edgeRows s i))"
    unfolding edgeRows_def using sorted_enumerate_key[of d_ord "depRow i"]
    by (simp add: sorted_map depRow_def sorted_wrt_map case_prod_beta')
  then have "sort_key ?k (edgeRows s i) = edgeRows s i" by (rule sort_key_sorted)
  then have "filter (\<lambda>r. d_downstream r = i) (sort_key ?k (concat (map (edgeRows s) (Order s)))) = edgeRows s i"
    using True plan_inv_order(1)[OF inv] by (simp add: filter_sort filter_own_rows)
  then have "map_of (loadDeps (concat (map (edgeRows s) (Order s))) al) i =
      Some ((taskOf s i)\<lparr>Dependencies := Dependencies (the (task_at s i))\<rparr>)"
    using True by (simp add: loadDeps_def fold_addEdge m edges_of_rows taskOf_def)
  moreover from listed(2)[OF inv True] obtain t where "task_at s i = Some t" by blast
  ultimately show ?thesis by (simp add: taskOf_def)
next
  case False
  then have "task_at s i = None" using plan_inv_order(2)[OF inv] by (auto simp: task_ids_iff)
  with False show ?thesis by (simp add: loadDeps_def fold_addEdge m)
qed

lemma loadNotes_rows: "loadNotes (saveNotes ns) = Inr (map signed ns)"
proof -
  have s: "SliceStable (\<lambda>a b. n_seq a < n_seq b) (saveNotes ns) = saveNotes ns"
    unfolding saveNotes_def by (rule SliceStable_enumerate) (simp add: noteRow_def)
  have "foldE (\<lambda>row acc. andThen (parseTime (n_at row)) (\<lambda>at. Inr (acc @
         [\<lparr>note_ID = n_id row, note_TaskID = n_task_id row, note_Agent = n_agent row,
           note_From = orElse (n_from row) NoteFromWorker, note_Body = n_body row,
           note_Project = n_project row, note_Chat = n_chat row, note_At = at\<rparr>])))
       (map noteRow (enumerate m ns)) acc = Inr (acc @ map signed ns)" for m acc
    by (induction ns arbitrary: m acc) (auto simp: noteRow_def signed_def orElse_def NoteFromWorker_def)
  then show ?thesis unfolding loadNotes_def s by (simp add: saveNotes_def)
qed

lemma loadContexts_rows: "loadContexts (saveContexts es) = Inr es"
proof -
  have s: "SliceStable (\<lambda>a b. c_seq a < c_seq b) (saveContexts es) = saveContexts es"
    unfolding saveContexts_def by (rule SliceStable_enumerate) (simp add: contextRow_def)
  have "foldE (\<lambda>row acc. andThen (parseTime (c_created_at row)) (\<lambda>at. Inr (acc @
         [\<lparr>ce_ID = c_id row, ce_TaskID = c_task_id row, ce_Kind = c_kind row, ce_Content = c_content row,
           ce_Project = c_project row, ce_Chat = c_chat row, ce_CreatedAt = at\<rparr>])))
       (map contextRow (enumerate m es)) acc = Inr (acc @ es)" for m acc
    by (induction es arbitrary: m acc) (auto simp: contextRow_def)
  then show ?thesis unfolding loadContexts_def s by (simp add: saveContexts_def)
qed

section \<open>A saved plan reads back as it was\<close>

lemma reads_back_inv:
  assumes inv: "plan_inv s" and b: "reads_back s s2" and rep: "rep_ok s2"
  shows "plan_inv s2"
proof -
  note o = plan_inv_order[OF inv]
  have at: "task_at s2 i = map_option (\<lambda>t. t\<lparr>ArchivedAt := 0\<rparr>) (task_at s i)" for i using b by (simp add: reads_back_def)
  have ids: "set (task_ids s2) = set (task_ids s)" by (auto simp: task_ids_iff at)
  have f: "Version s2 = Version s" "PlanProject s2 = PlanProject s" "RootID s2 = RootID s" "Order s2 = Order s"
    "Deleted s \<subseteq> Deleted s2" using b by (simp_all add: reads_back_def)
  show ?thesis
  proof (cases "Tasks s = []")
    case True
    then have "task_ids s2 = []" using ids by (simp add: task_ids_def)
    then have e: "Tasks s2 = []" by (simp add: task_ids_def)
    have "Order s = []" using o(2) True by (simp add: task_ids_def)
    with inv rep e True f show ?thesis by (auto simp: plan_inv_iff plan_wf_def task_at_def)
  next
    case False
    then obtain q qs where "Tasks s = q # qs" by (cases "Tasks s") auto
    then have q: "task_at s (fst q) = Some (snd q)" by (simp add: task_at_def)
    from plan_invD(6)[OF inv q] obtain r where r: "task_at s (RootID s) = Some r" "ParentID r = ''''" by blast
    have par: "(\<exists>u. task_at s2 j = Some u \<and> ParentID u = i) \<longleftrightarrow> (\<exists>u. task_at s j = Some u \<and> ParentID u = i)" for i j
      by (cases "task_at s j") (auto simp: at)
    have ch: "has_child s2 i \<longleftrightarrow> has_child s i" for i unfolding has_child_def par ..
    have v: "validateSpec (t\<lparr>ArchivedAt := 0\<rparr>) = validateSpec t" for t by (simp add: validateSpec_def)
    have wf: "task_wf s2 i t'" if t': "task_at s2 i = Some t'" for i t'
      using t' plan_invD(3)[OF inv] by (auto simp: at task_wf_def ch v f)
    have "edges_closed s2 hard_deps" using wf by (fastforce simp: edges_closed_def task_wf_def hard_deps_def)
    moreover have "edges_closed s2 parent_edges"
    proof -
      have rt: "ParentID t' = ''''" if "task_at s2 (RootID s) = Some t'" for t' using that r by (auto simp: at)
      have "task_at s2 (ParentID t') \<noteq> None" if "task_at s2 i = Some t'" "ParentID t' \<noteq> ''''" for i t'
        using wf[OF that(1)] rt that f(3) by (cases "i = RootID s") (auto simp: task_wf_def)
      then show ?thesis by (auto simp: edges_closed_def parent_edges_def)
    qed
    ultimately have "graphs_ok s2" by (rule sub_graphs[OF plan_invD(2)[OF inv q]]) (auto simp: at)
    moreover have "task_at s2 (RootID s) = Some (r\<lparr>ArchivedAt := 0\<rparr>)" "ParentID (r\<lparr>ArchivedAt := 0\<rparr>) = ''''"
      using r by (simp_all add: at)
    moreover have "distinct (Order s2)" "set (Order s2) = set (task_ids s2)" using o f(4) ids by simp_all
    ultimately show ?thesis using plan_inv_rebuild[OF inv rep f(1-3)] wf by blast
  qed
qed

theorem save_then_load:
  assumes inv: "plan_inv s" and sv: "saveState s db = Inr db'"
  shows "\<exists>s2. loadState db' = Inr s2 \<and> reads_back s s2"
proof -
  have ver: "Version s = stateVersion" "RootID s \<noteq> ''''" "PlanProject s \<noteq> ''''" using inv by (auto simp: plan_inv_iff)
  from loadTasks_rows[OF inv] obtain al where al: "loadTasks (taskRows s) = Inr (al, Order s)" "distinct (map fst al)"
    "map_of al = (\<lambda>i. if i \<in> set (Order s) then Some (taskOf s i) else None)" by blast
  let ?ds = "concat (map (edgeRows s) (Order s))"
  from sv have db': "t_tasks db' = taskRows s" "t_deps db' = ?ds" "t_notes db' = saveNotes (Notes s)"
    "t_contexts db' = saveContexts (Contexts s)" "t_deleted db' = t_deleted db \<union> Deleted s"
    "t_meta db' = Some \<lparr>m_project = PlanProject s, m_root_id = RootID s, m_next_id = int (unat (NextID s)),
        m_version = int (Version s)\<rparr>"
    by (auto simp: saveState_def andThen_iff saveTasks_rows[OF inv] saveDeps_rows[OF inv] split: if_splits)
  let ?s2 = "\<lparr>Version = stateVersion, PlanProject = PlanProject s, RootID = RootID s, Tasks = loadDeps ?ds al,
      Order = Order s, Notes = map signed (Notes s), Contexts = Contexts s, NextID = NextID s,
      Deleted = t_deleted db \<union> Deleted s\<rparr>"
  have b: "reads_back s ?s2"
    using loadDeps_rows[OF inv al(3)] ver by (auto simp: reads_back_def task_at_def)
  moreover have "rep_ok ?s2" using al(2) by (simp add: rep_ok_def loadDeps_def fold_addEdge_keys)
  ultimately have "plan_inv ?s2" by (rule reads_back_inv[OF inv])
  then have "validateLoadedState ?s2 = None" by (simp add: plan_inv_def)
  then have "loadState db' = Inr ?s2" using ver
    by (simp add: loadState_def db' al(1) loadNotes_rows loadContexts_rows word_of_int_uint)
  with b show ?thesis by blast
qed

definition loaded_ok :: "(string \<times> task) list \<times> string list \<Rightarrow> bool" where
  "loaded_ok = (\<lambda>(al, order). distinct (map fst al) \<and> (al = [] \<longleftrightarrow> order = []) \<and>
     (\<forall>i t. map_of al i = Some t \<longrightarrow> ArchivedAt t = 0))"

lemma update_nonempty: "AList.update k v al \<noteq> []"
  by (cases al) auto

lemma scanTask_live: "scanTask row = Inr t \<Longrightarrow> ArchivedAt t = 0"
  by (auto simp: scanTask_def andThen_iff)

lemma loadTasks_ok:
  assumes "loadTasks rows = Inr r"
  shows "loaded_ok r"
proof (rule foldE_invariant[where P = loaded_ok, OF assms[unfolded loadTasks_def]])
  show "loaded_ok ([], [])" by (simp add: loaded_ok_def)
next
  fix row and acc acc' :: "(string \<times> task) list \<times> string list"
  assume ok: "loaded_ok acc" and st: "andThen (scanTask row) (\<lambda>t. Inr (putTask t acc)) = Inr acc'"
  obtain al order where acc: "acc = (al, order)" by (cases acc)
  from st acc obtain t where t: "scanTask row = Inr t" "acc' = (AList.update (ID t) t al, order @ [ID t])"
    by (auto simp: andThen_iff putTask_def)
  with ok acc scanTask_live[OF t(1)] show "loaded_ok acc'"
    by (auto simp: loaded_ok_def distinct_keys_update AList.update_conv' update_nonempty)
qed

lemma loadNotes_signed:
  assumes "loadNotes rows = Inr ns"
  shows "map signed ns = ns"
proof (rule foldE_invariant[where P = "\<lambda>ns. map signed ns = ns", OF assms[unfolded loadNotes_def]])
qed (auto simp: andThen_iff signed_def orElse_def NoteFromWorker_def)

theorem loadState_accepts:
  assumes "loadState db = Inr s"
  shows "plan_inv s \<and> reads_back s s"
proof -
  from assms obtain m ts ns es where m: "t_meta db = Some m" "m_version m = int stateVersion" "m_root_id m \<noteq> ''''"
      "m_project m \<noteq> ''''"
    and l: "loadTasks (t_tasks db) = Inr (ts, Order s)" and n: "loadNotes (t_notes db) = Inr ns"
    and s: "Version s = stateVersion" "PlanProject s = m_project m" "RootID s = m_root_id m" "Tasks s = loadDeps (t_deps db) ts"
      "Notes s = ns" and v: "validateLoadedState s = None"
    by (auto simp: loadState_def andThen_iff Let_def split: option.splits if_splits)
  from loadTasks_ok[OF l] have ok: "distinct (map fst ts)" "ts = [] \<longleftrightarrow> Order s = []"
    "\<forall>i t. map_of ts i = Some t \<longrightarrow> ArchivedAt t = 0" by (auto simp: loaded_ok_def)
  have keys: "map fst (Tasks s) = map fst ts" by (simp add: s loadDeps_def fold_addEdge_keys)
  then have e: "Tasks s = [] \<longleftrightarrow> ts = []" by (metis map_is_Nil_conv)
  have "t\<lparr>ArchivedAt := 0\<rparr> = t" if "task_at s i = Some t" for i t
    using that ok(3) by (cases "map_of ts i") (auto simp: task_at_def s loadDeps_def fold_addEdge)
  then have "\<forall>i. task_at s i = map_option (\<lambda>t. t\<lparr>ArchivedAt := 0\<rparr>) (task_at s i)"
    by (metis map_option_cong option.map_id0 id_apply)
  moreover have "Notes s = map signed (Notes s)" using loadNotes_signed[OF n] s by simp
  ultimately have "reads_back s s" by (simp add: reads_back_def)
  moreover have "plan_inv s" using keys ok e m s v by (simp add: plan_inv_def rep_ok_def)
  ultimately show ?thesis by blast
qed

interpretation plan_db: plan_storage loadState "saveState :: plan_state \<Rightarrow> 'usd plan_db \<Rightarrow> plan_error + 'usd plan_db"
  by unfold_locales (auto dest: loadState_accepts save_then_load)

end
