(* ===== verification/PlanOpen.thy ===== *)
theory PlanOpen
  imports PlanPersist
begin

text \<open>
  Opening a plan and the road every write takes once it is open: \<^verbatim>\<open>Open\<close>, \<^verbatim>\<open>loadOrCreate\<close> and
  \<^verbatim>\<open>adoptState\<close> of \<^verbatim>\<open>internal/plandb/store.go\<close>. Another process may write between the snapshot
  the open reads first and the write lock it takes after, so the two databases are two arguments.
\<close>

section \<open>Creating or adopting\<close>

definition adoptState :: "plan_state \<Rightarrow> string \<Rightarrow> string \<Rightarrow> plan_error + plan_state" where
  "adoptState loaded project rootID =
     (if rootID \<noteq> '''' \<and> RootID loaded \<noteq> rootID \<or> project \<noteq> '''' \<and> PlanProject loaded \<noteq> project
      then Inl DifferentRun else Inr loaded)"

definition seedRoot :: "string \<Rightarrow> string \<Rightarrow> string \<Rightarrow> string \<Rightarrow> string \<Rightarrow> time \<Rightarrow> task" where
  "seedRoot project rootID title description chat now =
     \<lparr>ID = rootID, Title = TrimSpace title, Description = description, Model = '''', Question = '''',
      Kind = ''generic'', ParentID = '''', Dependencies = [], Priority = 0, Capabilities = [], Resources = [],
      Effect = '''', Parallel = ''safe'', Isolation = ''shared'', Role = '''', ContextInputs = [],
      Deliverables = [], EvidenceRequirements = [], Agent = '''', Acceptance = '''', Checks = [],
      Status = StatusRunning, Composite = False, Paused = False, Waiting = False, WaitedAt = 0,
      Project = project, Chat = chat, ClaimedBy = ''runtime'', Owner = '''', SeenAt = 0, Result = '''',
      Error = '''', Artifacts = [], Evidence = [], VerdictBasis = noVerdict, CreatedAt = now,
      UpdatedAt = now, CompletedAt = 0, ArchivedAt = 0\<rparr>"

definition seedState :: "string \<Rightarrow> string \<Rightarrow> string \<Rightarrow> string \<Rightarrow> string \<Rightarrow> time \<Rightarrow> plan_state" where
  "seedState project rootID title description chat now =
     \<lparr>Version = stateVersion, PlanProject = project, RootID = rootID,
      Tasks = [(rootID, seedRoot project rootID title description chat now)], Order = [rootID],
      Notes = [], Contexts = [], NextID = 1, Deleted = {}\<rparr>"

definition loadOrCreate :: "io \<Rightarrow> string \<Rightarrow> string \<Rightarrow> string \<Rightarrow> string \<Rightarrow> string \<Rightarrow> time \<Rightarrow>
    'usd plan_db \<Rightarrow> 'usd plan_db \<Rightarrow> plan_error + plan_state \<times> 'usd plan_db" where
  "loadOrCreate w project rootID title description chat now seen db =
     (let adopt = (\<lambda>loaded. andThen (adoptState loaded project rootID) (\<lambda>s. Inr (s, db))) in
      if \<not> io_read w then Inl ReadFailed
      else case loadState seen of
        Inr loaded \<Rightarrow> adopt loaded
      | Inl e \<Rightarrow>
          if e \<noteq> ErrNoStore then Inl e
          else if \<not> io_lock w then Inl StoreBusy
          else (case loadState db of
                  Inr loaded \<Rightarrow> adopt loaded
                | Inl e \<Rightarrow>
                    if e \<noteq> ErrNoStore then Inl e
                    else if TrimSpace project = '''' \<or> \<not> validID rootID then Inl NeedProject
                    else let fresh = seedState project rootID title description chat now in
                         andThen (saveState fresh db) (\<lambda>db'.
                           if io_commit w then Inr (fresh, db') else Inl CommitFailed)))"

text \<open>What the path is, as the file system answers it.\<close>

datatype path_kind = Missing | Present | Symlink | NoAnswer

definition Open :: "io \<Rightarrow> path_kind \<Rightarrow> bool \<Rightarrow> string \<Rightarrow> string \<Rightarrow> string \<Rightarrow> string \<Rightarrow> string list \<Rightarrow> time \<Rightarrow>
    'usd plan_db \<Rightarrow> 'usd plan_db \<Rightarrow> plan_error + store \<times> 'usd plan_db" where
  "Open w path opens project rootID title description chat now seen db =
     (let tag = (case chat of [] \<Rightarrow> '''' | c # _ \<Rightarrow> TrimSpace c) in
      orFail (case path of
                Present \<Rightarrow> None
              | Symlink \<Rightarrow> Some SymlinkPath
              | Missing \<Rightarrow> refuse (TrimSpace project = '''' \<or> \<not> validID rootID) NeedProject
              | NoAnswer \<Rightarrow> Some StatFailed)
      (orFail (refuse (\<not> opens) OpenFailed)
      (andThen (loadOrCreate w project rootID title description tag now seen db) (\<lambda>(s, db').
         Inr (\<lparr>data = s, closed = False\<rparr>, db')))))"

section \<open>What an open promises\<close>

lemma seed_inv:
  assumes "TrimSpace project \<noteq> ''''" and "validID rootID"
  shows "plan_inv (seedState project rootID title description chat now)" (is "plan_inv ?s")
proof -
  have ne: "project \<noteq> ''''" "rootID \<noteq> ''''" using assms by auto
  have at: "task_at ?s i = (if i = rootID then Some (seedRoot project rootID title description chat now) else None)" for i
    by (auto simp: task_at_def seedState_def)
  have e: "hard_deps (seedRoot project rootID title description chat now) = []"
    "parent_edges (seedRoot project rootID title description chat now) = []"
    by (simp_all add: hard_deps_def parent_edges_def seedRoot_def)
  then have "parent_rel ?s = {}" "hard_rel ?s = {}" by (auto simp: at edge_rel_def split: if_splits)
  then have "graphs_ok ?s"
    using e unfolding graphs_ok_def by (auto simp: at edges_closed_def acyclic_def split: if_splits)
  moreover have "\<not> has_child ?s rootID" using ne by (auto simp: has_child_def at seedRoot_def split: if_splits)
  then have "task_wf ?s i t" if "task_at ?s i = Some t" for i t
    using that ne by (auto simp: task_wf_def at seedRoot_def split: if_splits) (auto simp: seedState_def)
  ultimately show ?thesis using ne at[of rootID]
    by (auto simp: plan_inv_iff plan_wf_def rep_ok_def task_ids_def) (auto simp: seedState_def seedRoot_def)
qed

text \<open>
  A successful open answers the plan its database now reads back as, of the run that was asked
  for; it writes only where there was no plan, and the plan it found under the lock wins.
\<close>

lemma adoptState_iff:
  "adoptState loaded project rootID = Inr s \<longleftrightarrow> s = loaded \<and> (rootID \<noteq> '''' \<longrightarrow> RootID s = rootID) \<and>
     (project \<noteq> '''' \<longrightarrow> PlanProject s = project)"
  by (auto simp: adoptState_def)

lemma loadOrCreate_cases:
  assumes "loadOrCreate w project rootID title description chat now seen db = Inr (s, db')"
  obtains (seen) "loadState seen = Inr s" "adoptState s project rootID = Inr s" "db' = db"
  | (locked) "loadState seen = Inl ErrNoStore" "loadState db = Inr s" "adoptState s project rootID = Inr s" "db' = db"
  | (created) "loadState seen = Inl ErrNoStore" "loadState db = Inl ErrNoStore"
      "TrimSpace project \<noteq> ''''" "validID rootID" "s = seedState project rootID title description chat now"
      "saveState s db = Inr db'"
proof (cases "loadState seen")
  case (Inr u)
  with assms have "loadState seen = Inr s \<and> adoptState s project rootID = Inr s \<and> db' = db"
    by (auto simp: loadOrCreate_def Let_def andThen_iff adoptState_iff split: if_splits)
  with seen show ?thesis by blast
next
  case e1: (Inl e)
  with assms have e: "e = ErrNoStore" and w: "io_read w" "io_lock w"
    by (auto simp: loadOrCreate_def Let_def split: if_splits)
  show ?thesis
  proof (cases "loadState db")
    case (Inr u)
    with assms e1 e w have "loadState db = Inr s \<and> adoptState s project rootID = Inr s \<and> db' = db"
      by (auto simp: loadOrCreate_def Let_def andThen_iff adoptState_iff split: if_splits)
    with e1 e locked show ?thesis by blast
  next
    case (Inl e2)
    with assms e1 e w show ?thesis
      by (intro created) (auto simp: loadOrCreate_def andThen_iff Let_def split: if_splits)
  qed
qed

lemma loadOrCreate_result:
  assumes r: "loadOrCreate w project rootID title description chat now seen db = Inr (s, db')"
  shows "plan_inv s" and "rootID \<noteq> '''' \<Longrightarrow> RootID s = rootID" and "project \<noteq> '''' \<Longrightarrow> PlanProject s = project"
    and "loadState db \<noteq> Inl ErrNoStore \<Longrightarrow> db' = db"
    and "loadState seen = Inl ErrNoStore \<Longrightarrow> \<exists>s2. loadState db' = Inr s2 \<and> reads_back s s2"
proof -
  have "plan_inv s \<and> (rootID \<noteq> '''' \<longrightarrow> RootID s = rootID) \<and> (project \<noteq> '''' \<longrightarrow> PlanProject s = project) \<and>
    (loadState db \<noteq> Inl ErrNoStore \<longrightarrow> db' = db) \<and>
    (loadState seen = Inl ErrNoStore \<longrightarrow> (\<exists>s2. loadState db' = Inr s2 \<and> reads_back s s2))"
    using r
  proof (cases rule: loadOrCreate_cases)
    case seen
    then show ?thesis using loadState_accepts by (auto simp: adoptState_iff)
  next
    case locked
    then show ?thesis using loadState_accepts by (auto simp: adoptState_iff)
  next
    case created
    with seed_inv have "plan_inv s" by simp
    with created save_then_load show ?thesis by (auto simp: seedState_def)
  qed
  then show "plan_inv s" "rootID \<noteq> '''' \<Longrightarrow> RootID s = rootID" "project \<noteq> '''' \<Longrightarrow> PlanProject s = project"
    "loadState db \<noteq> Inl ErrNoStore \<Longrightarrow> db' = db"
    "loadState seen = Inl ErrNoStore \<Longrightarrow> \<exists>s2. loadState db' = Inr s2 \<and> reads_back s s2" by blast+
qed

lemma Open_result:
  assumes "Open w path opens project rootID title description chat now seen db = Inr (st, db')"
  shows "plan_inv (data st)" "\<not> closed st" "path \<noteq> Symlink"
    "path = Missing \<Longrightarrow> TrimSpace project \<noteq> '''' \<and> validID rootID"
    "rootID \<noteq> '''' \<Longrightarrow> RootID (data st) = rootID" "project \<noteq> '''' \<Longrightarrow> PlanProject (data st) = project"
  using assms loadOrCreate_result(1-3)
  by (auto simp: Open_def Let_def andThen_iff split: path_kind.splits)

text \<open>
  A handle writes nothing where a plan was found, before or under the lock, and holds the plan it
  found; where there was none it holds the new plan, and that is what it saved.
\<close>

lemma Open_writes:
  assumes "Open w path opens project rootID title description chat now seen db = Inr (st, db')"
  shows "db' = db \<and> (loadState seen = Inr (data st) \<or> loadState db = Inr (data st)) \<or>
    loadState seen = Inl ErrNoStore \<and> loadState db = Inl ErrNoStore \<and> saveState (data st) db = Inr db' \<and>
    data st = seedState project rootID title description (case chat of [] \<Rightarrow> '''' | c # _ \<Rightarrow> TrimSpace c) now"
proof -
  from assms have "loadOrCreate w project rootID title description (case chat of [] \<Rightarrow> '''' | c # _ \<Rightarrow> TrimSpace c)
      now seen db = Inr (data st, db')"
    by (auto simp: Open_def Let_def andThen_iff split: path_kind.splits)
  then show ?thesis by (cases rule: loadOrCreate_cases) auto
qed

end
