(* ===== verification/PlanLive.thy ===== *)
theory PlanLive
  imports PlanOpen
begin

text \<open>
  What a task is doing right now: \<^verbatim>\<open>internal/plandb/live.go\<close>. A live step is a row beside the
  plan, one per task, written under the same lock as the plan but never part of it.
\<close>

section \<open>The table\<close>

record live_step =
  Step :: int
  Command :: string
  Since :: time

definition noStep :: live_step where
  "noStep = \<lparr>Step = 0, Command = '''', Since = 0\<rparr>"

definition Empty :: "live_step \<Rightarrow> bool" where
  "Empty l = (Step l = 0)"

definition bareTaskID :: "string \<Rightarrow> string" where
  "bareTaskID i = TrimSpace (TrimPrefix (TrimSpace i) ''t-'')"

text \<open>A write of its own: the lock, one statement, the commit.\<close>

definition writeTable :: "io \<Rightarrow> store \<Rightarrow> ('db \<Rightarrow> 'db) \<Rightarrow> 'db \<Rightarrow> plan_error option \<times> 'db" where
  "writeTable w st f db =
     (case beginWrite w st of
        Some e \<Rightarrow> (Some e, db)
      | None \<Rightarrow> if io_commit w then (None, f db) else (Some CommitFailed, db))"

definition upsertLive :: "live_row \<Rightarrow> live_row list \<Rightarrow> live_row list" where
  "upsertLive row rows =
     (if l_task_id row \<in> set (map l_task_id rows)
      then map (\<lambda>r. if l_task_id r = l_task_id row then row else r) rows
      else rows @ [row])"

definition SetLive :: "io \<Rightarrow> string \<Rightarrow> int \<Rightarrow> string \<Rightarrow> time \<Rightarrow> store \<Rightarrow> 'usd plan_db \<Rightarrow> plan_error option \<times> 'usd plan_db" where
  "SetLive w taskID step command now st =
     writeTable w st (\<lambda>db. db\<lparr>t_live := upsertLive
       \<lparr>l_task_id = bareTaskID taskID, l_step = step, l_command = command, l_since = formatTime now\<rparr> (t_live db)\<rparr>)"

definition ClearLive :: "io \<Rightarrow> string \<Rightarrow> store \<Rightarrow> 'usd plan_db \<Rightarrow> plan_error option \<times> 'usd plan_db" where
  "ClearLive w taskID st =
     writeTable w st (\<lambda>db. db\<lparr>t_live := filter (\<lambda>r. l_task_id r \<noteq> bareTaskID taskID) (t_live db)\<rparr>)"

definition liveStep :: "live_row \<Rightarrow> (string \<times> live_step) option" where
  "liveStep r = (case parseTime (l_since r) of
       Inl e \<Rightarrow> None
     | Inr moment \<Rightarrow> Some (l_task_id r, \<lparr>Step = l_step r, Command = l_command r, Since = moment\<rparr>))"

definition LiveSteps :: "io \<Rightarrow> store \<Rightarrow> 'usd plan_db \<Rightarrow> (string \<times> live_step) list" where
  "LiveSteps w st db =
     (if closed st \<or> \<not> io_read w then []
      else fold (\<lambda>(i, l). AList.update i l) (List.map_filter liveStep (t_live db)) [])"

definition Live :: "io \<Rightarrow> string \<Rightarrow> store \<Rightarrow> 'usd plan_db \<Rightarrow> live_step" where
  "Live w taskID st db =
     (case map_of (LiveSteps w st db) (bareTaskID taskID) of None \<Rightarrow> noStep | Some l \<Rightarrow> l)"

section \<open>What the table answers\<close>

text \<open>The table's primary key: one row per task.\<close>

definition one_live :: "'usd plan_db \<Rightarrow> bool" where
  "one_live db \<longleftrightarrow> distinct (map l_task_id (t_live db))"

lemma LiveSteps_row:
  assumes o: "one_live db" and st: "\<not> closed st" "io_read w"
  shows "map_of (LiveSteps w st db) i =
    (case find (\<lambda>r. l_task_id r = i) (t_live db) of None \<Rightarrow> None | Some r \<Rightarrow> map_option snd (liveStep r))"
proof -
  have "map_of (fold (\<lambda>(i, l). AList.update i l) (List.map_filter liveStep rows) al) i =
      (case find (\<lambda>r. l_task_id r = i) rows of
         None \<Rightarrow> map_of al i
       | Some r \<Rightarrow> (case liveStep r of None \<Rightarrow> map_of al i | Some p \<Rightarrow> Some (snd p)))"
    if "distinct (map l_task_id rows)" for rows al
    using that
  proof (induction rows arbitrary: al)
    case (Cons r rows)
    have f: "find (\<lambda>r. l_task_id r = i) rows = None" if "l_task_id r = i"
      using that Cons.prems by (auto simp: find_None_iff image_iff)
    show ?case
    proof (cases "liveStep r")
      case None
      with Cons f show ?thesis by (auto simp: List.map_filter_def split: option.splits)
    next
      case (Some p)
      then have "fst p = l_task_id r" by (auto simp: liveStep_def split: sum.splits)
      with Cons f Some show ?thesis
        by (cases p) (auto simp: List.map_filter_def AList.update_conv' split: option.splits)
    qed
  qed (simp add: List.map_filter_def)
  from this[of "t_live db" "[]"] o st show ?thesis
    by (auto simp: LiveSteps_def one_live_def split: option.splits)
qed

lemma find_upsert:
  "find (\<lambda>r. l_task_id r = i) (upsertLive row rows) =
     (if l_task_id row = i then Some row else find (\<lambda>r. l_task_id r = i) rows)"
proof -
  have m: "find (\<lambda>r. l_task_id r = i) (map (\<lambda>r. if l_task_id r = l_task_id row then row else r) rows) =
      (if l_task_id row = i then (if i \<in> l_task_id ` set rows then Some row else None) else find (\<lambda>r. l_task_id r = i) rows)"
    by (induction rows) auto
  have a: "find P (rows @ [row]) = (case find P rows of None \<Rightarrow> if P row then Some row else None | x \<Rightarrow> x)" for P
    by (induction rows) auto
  have n: "find (\<lambda>r. l_task_id r = i) rows = None" if "i \<notin> l_task_id ` set rows"
    using that by (auto simp: find_None_iff)
  show ?thesis
  proof (cases "l_task_id row \<in> l_task_id ` set rows")
    case True
    then show ?thesis by (auto simp: upsertLive_def m)
  next
    case False
    then show ?thesis using n by (auto simp: upsertLive_def a split: option.split)
  qed
qed

lemma upsert_one: "distinct (map l_task_id rows) \<Longrightarrow> distinct (map l_task_id (upsertLive row rows))"
proof -
  assume d: "distinct (map l_task_id rows)"
  have "map l_task_id (map (\<lambda>r. if l_task_id r = l_task_id row then row else r) rows) = map l_task_id rows"
    by auto
  with d show ?thesis unfolding upsertLive_def by (simp del: map_map)
qed

text \<open>What was set is what is read, under either spelling of the id; another task's row is left alone.\<close>

lemma Live_after_Set:
  assumes o: "one_live db" and st: "\<not> closed st" "io_read r" and s: "SetLive w i step command now st db = (None, db')"
  shows "one_live db'"
    and "Live r j st db' = (if bareTaskID j = bareTaskID i then \<lparr>Step = step, Command = command, Since = now\<rparr> else Live r j st db)"
proof -
  let ?row = "\<lparr>l_task_id = bareTaskID i, l_step = step, l_command = command, l_since = formatTime now\<rparr>"
  from s have db': "db' = db\<lparr>t_live := upsertLive ?row (t_live db)\<rparr>"
    by (auto simp: SetLive_def writeTable_def split: option.splits if_splits)
  show o': "one_live db'" using o upsert_one by (simp add: one_live_def db')
  show "Live r j st db' = (if bareTaskID j = bareTaskID i then \<lparr>Step = step, Command = command, Since = now\<rparr> else Live r j st db)"
    unfolding Live_def LiveSteps_row[OF o' st] LiveSteps_row[OF o st]
    by (auto simp: db' find_upsert liveStep_def)
qed

lemma Live_after_Clear:
  assumes o: "one_live db" and st: "\<not> closed st" "io_read r" and c: "ClearLive w i st db = (None, db')"
  shows "one_live db'"
    and "Live r j st db' = (if bareTaskID j = bareTaskID i then noStep else Live r j st db)"
proof -
  from c have db': "db' = db\<lparr>t_live := filter (\<lambda>r. l_task_id r \<noteq> bareTaskID i) (t_live db)\<rparr>"
    by (auto simp: ClearLive_def writeTable_def split: option.splits if_splits)
  show o': "one_live db'" using o by (simp add: one_live_def db' distinct_map_filter)
  have f: "find (\<lambda>r. l_task_id r = k) (filter (\<lambda>r. l_task_id r \<noteq> b) rows) =
      (if k = b then None else find (\<lambda>r. l_task_id r = k) rows)" for k b rows
    by (induction rows) auto
  show "Live r j st db' = (if bareTaskID j = bareTaskID i then noStep else Live r j st db)"
    unfolding Live_def LiveSteps_row[OF o' st] LiveSteps_row[OF o st] by (simp add: db' f)
qed

text \<open>The live rows are no part of the plan: writing them leaves what the next load reads.\<close>

lemma loadState_live: "loadState (db\<lparr>t_live := rows\<rparr>) = loadState db"
  unfolding loadState_def by (cases "t_meta db") simp_all

lemma writeTable_cases: "writeTable w st f db = (e, db') \<Longrightarrow> db' = db \<or> db' = f db"
  by (auto simp: writeTable_def split: option.splits if_splits)

lemma live_beside_plan:
  "SetLive w i step command now st db = (e, db') \<Longrightarrow> loadState db' = loadState db"
  "ClearLive w i st db = (e, db') \<Longrightarrow> loadState db' = loadState db"
  unfolding SetLive_def ClearLive_def by (auto dest: writeTable_cases simp only: loadState_live)

end
