(* ===== verification/PlanSpend.thy ===== *)
theory PlanSpend
  imports PlanLive
begin

text \<open>
  The ledger of charges: \<^verbatim>\<open>AddSpend\<close>, \<^verbatim>\<open>spendTotals\<close>, \<^verbatim>\<open>SpendSummary\<close>, \<^verbatim>\<open>SpendBy\<close> and
  \<^verbatim>\<open>LastSpendAt\<close> of \<^verbatim>\<open>internal/plandb/store.go\<close>. A charge's dollars are a float64: its zero,
  its addition and its order, and the database's SUM, are the record \<^verbatim>\<open>money\<close>. Token counts are
  Go's \<^verbatim>\<open>int\<close>, 64 bits wide, so their sums wrap around; a count of calls is a number of rows, which
  never reaches the width.
\<close>

section \<open>The ledger\<close>

record 'usd money =
  usd_zero :: 'usd
  usd_plus :: "'usd \<Rightarrow> 'usd \<Rightarrow> 'usd"
  usd_less :: "'usd \<Rightarrow> 'usd \<Rightarrow> bool"
  usd_sum :: "'usd list \<Rightarrow> 'usd"

definition AddSpend :: "io \<Rightarrow> string \<Rightarrow> string \<Rightarrow> string \<Rightarrow> 'usd \<Rightarrow> 64 word \<Rightarrow> 64 word \<Rightarrow> time \<Rightarrow> store \<Rightarrow>
    'usd plan_db \<Rightarrow> plan_error option \<times> 'usd plan_db" where
  "AddSpend w taskID model role usd inTokens outTokens now st =
     writeTable w st (\<lambda>db. db\<lparr>t_spend := t_spend db @
       [\<lparr>s_task_id = TrimSpace (TrimPrefix taskID ''t-''), s_model = TrimSpace model, s_role = TrimSpace role,
         s_usd = usd, s_in_tokens = inTokens, s_out_tokens = outTokens, s_at = formatTime now\<rparr>]\<rparr>)"

section \<open>Totals\<close>

record 'usd spend_total =
  USD :: 'usd
  Calls :: int

definition addSpend :: "'usd money \<Rightarrow> 'usd spend_total \<Rightarrow> 'usd spend_total \<Rightarrow> 'usd spend_total" where
  "addSpend m into add = \<lparr>USD = usd_plus m (USD into) (USD add), Calls = Calls into + Calls add\<rparr>"

definition totalAt :: "'usd money \<Rightarrow> (string \<times> 'usd spend_total) list \<Rightarrow> string \<Rightarrow> 'usd spend_total" where
  "totalAt m totals k = (case map_of totals k of None \<Rightarrow> \<lparr>USD = usd_zero m, Calls = 0\<rparr> | Some t \<Rightarrow> t)"

definition addTo :: "'usd money \<Rightarrow> string \<Rightarrow> 'usd spend_total \<Rightarrow> (string \<times> 'usd spend_total) list \<Rightarrow>
    (string \<times> 'usd spend_total) list" where
  "addTo m k t totals = AList.update k (addSpend m (totalAt m totals k) t) totals"

text \<open>GROUP BY two columns: one row per pair present, with the group's SUM and COUNT.\<close>

definition groupRows :: "'usd money \<Rightarrow> ((string \<times> string) \<times> 'usd) list \<Rightarrow> ((string \<times> string) \<times> 'usd spend_total) list" where
  "groupRows m rows = map (\<lambda>k. let us = map snd (filter (\<lambda>r. fst r = k) rows)
     in (k, \<lparr>USD = usd_sum m us, Calls = int (length us)\<rparr>)) (remdups (map fst rows))"

definition splitTotals :: "'usd money \<Rightarrow> ((string \<times> string) \<times> 'usd spend_total) list \<Rightarrow>
    (string \<times> 'usd spend_total) list \<times> (string \<times> 'usd spend_total) list" where
  "splitTotals m groups = fold (\<lambda>((a, b), t) (left, right). (addTo m a t left, addTo m b t right)) groups ([], [])"

definition spendTags :: "'usd plan_db \<Rightarrow> ((string \<times> string) \<times> 'usd) list" where
  "spendTags db = concat (map (\<lambda>s. map (\<lambda>t. ((r_project t, r_chat t), s_usd s))
     (filter (\<lambda>t. r_id t = s_task_id s) (t_tasks db))) (t_spend db))"

definition spendTotals :: "'usd money \<Rightarrow> store \<Rightarrow> 'usd plan_db \<Rightarrow>
    plan_error + (string \<times> 'usd spend_total) list \<times> (string \<times> 'usd spend_total) list" where
  "spendTotals m st db =
     (case errIfClosed st of Some e \<Rightarrow> Inl e | None \<Rightarrow> Inr (splitTotals m (groupRows m (spendTags db))))"

definition SpendSummary :: "'usd money \<Rightarrow> io \<Rightarrow> store \<Rightarrow> 'usd plan_db \<Rightarrow>
    (string \<times> 'usd spend_total) list \<times> (string \<times> 'usd spend_total) list" where
  "SpendSummary m w st db =
     (if closed st \<or> \<not> io_read w then ([], [])
      else splitTotals m (groupRows m (map (\<lambda>s. ((s_role s, s_model s), s_usd s)) (t_spend db))))"

section \<open>Rollups\<close>

record 'usd spend_line =
  sl_Key :: string
  sl_Model :: string
  sl_Role :: string
  sl_USD :: 'usd
  sl_In :: "64 word"
  sl_Out :: "64 word"
  sl_Calls :: int

definition spendAxes :: "string list" where
  "spendAxes = [''chat'', ''project'', ''seat'', ''model'', ''task'']"

definition spendAxisKey :: "string \<Rightarrow> string \<times> bool" where
  "spendAxisKey axis =
     (if axis = ''chat'' then (''t.chat'', True)
      else if axis = ''project'' then (''t.project'', True)
      else if axis = ''seat'' then (''s.role'', False)
      else if axis = ''model'' then (''s.model'', False)
      else if axis = ''task'' then (''s.task_id'', False)
      else ('''', False))"

text \<open>The rows of the query: the key column of each charge, joined with its task's row where asked.\<close>

definition spendRows :: "string \<Rightarrow> bool \<Rightarrow> 'usd plan_db \<Rightarrow> (string \<times> 'usd spend_row) list" where
  "spendRows column joined db =
     concat (map (\<lambda>s.
       if joined
       then map (\<lambda>t. (if column = ''t.chat'' then r_chat t else r_project t, s))
              (filter (\<lambda>t. r_id t = s_task_id s) (t_tasks db))
       else [(if column = ''s.role'' then s_role s else if column = ''s.model'' then s_model s else s_task_id s, s)])
     (t_spend db))"

definition addLine :: "'usd money \<Rightarrow> string \<times> 'usd spend_row \<Rightarrow> (string \<times> 'usd spend_line) list \<Rightarrow>
    (string \<times> 'usd spend_line) list" where
  "addLine m = (\<lambda>(k, s) lines.
     (let line = (case map_of lines k of
            None \<Rightarrow> \<lparr>sl_Key = k, sl_Model = '''', sl_Role = '''', sl_USD = usd_zero m, sl_In = 0, sl_Out = 0, sl_Calls = 0\<rparr>
          | Some l \<Rightarrow> l)
      in AList.update k (line\<lparr>sl_USD := usd_plus m (sl_USD line) (s_usd s), sl_In := sl_In line + s_in_tokens s,
           sl_Out := sl_Out line + s_out_tokens s, sl_Calls := sl_Calls line + 1\<rparr>) lines))"

definition spendStep :: "'usd money \<Rightarrow> time \<Rightarrow> string \<times> 'usd spend_row \<Rightarrow> (string \<times> 'usd spend_line) list \<Rightarrow>
    plan_error + (string \<times> 'usd spend_line) list" where
  "spendStep m since r lines = andThen (parseTime (s_at (snd r))) (\<lambda>moment.
     Inr (if since \<noteq> 0 \<and> moment < since then lines else addLine m r lines))"

definition heavier :: "'usd money \<Rightarrow> 'usd spend_line \<Rightarrow> 'usd spend_line \<Rightarrow> bool" where
  "heavier m a b = (if sl_USD a \<noteq> sl_USD b then usd_less m (sl_USD b) (sl_USD a) else sl_Key a < sl_Key b)"

definition mirror :: "string \<Rightarrow> 'usd spend_line \<Rightarrow> 'usd spend_line" where
  "mirror axis l = (if axis = ''model'' then l\<lparr>sl_Model := sl_Key l\<rparr>
                    else if axis = ''seat'' then l\<lparr>sl_Role := sl_Key l\<rparr> else l)"

definition SpendBy :: "'usd money \<Rightarrow> io \<Rightarrow> string \<Rightarrow> time \<Rightarrow> store \<Rightarrow> 'usd plan_db \<Rightarrow> 'usd spend_line list" where
  "SpendBy m w axis since st db =
     (if closed st then []
      else case spendAxisKey axis of (column, joined) \<Rightarrow>
        if column = '''' then []
        else if \<not> io_read w then []
        else (case foldE (spendStep m since) (spendRows column joined db) [] of
                Inl e \<Rightarrow> []
              | Inr lines \<Rightarrow> SliceStable (heavier m) (map (\<lambda>(k, l). mirror axis l) lines)))"

fun latestOf :: "time \<Rightarrow> stamp list \<Rightarrow> time" where
  "latestOf latest [] = latest"
| "latestOf latest (a # as) =
     (case parseTime a of Inl e \<Rightarrow> latestOf latest as
      | Inr moment \<Rightarrow> latestOf (if moment > latest then moment else latest) as)"

definition LastSpendAt :: "io \<Rightarrow> store \<Rightarrow> 'usd plan_db \<Rightarrow> time" where
  "LastSpendAt w st db = (if closed st \<or> \<not> io_read w then 0 else latestOf 0 (map s_at (t_spend db)))"

section \<open>Every charge is counted once\<close>

text \<open>What a key's line must say, read off the rows; the tokens are the sums modulo 2 ^ 64.\<close>

definition lineFor :: "'usd money \<Rightarrow> string \<Rightarrow> 'usd spend_row list \<Rightarrow> 'usd spend_line" where
  "lineFor m k ss = \<lparr>sl_Key = k, sl_Model = '''', sl_Role = '''', sl_USD = fold (\<lambda>s u. usd_plus m u (s_usd s)) ss (usd_zero m),
     sl_In = sum_list (map s_in_tokens ss), sl_Out = sum_list (map s_out_tokens ss), sl_Calls = int (length ss)\<rparr>"

definition inWindow :: "time \<Rightarrow> 'usd spend_row \<Rightarrow> bool" where
  "inWindow since s \<longleftrightarrow> since = 0 \<or> (\<exists>moment. parseTime (s_at s) = Inr moment \<and> since \<le> moment)"

definition chargesOf :: "time \<Rightarrow> string \<Rightarrow> (string \<times> 'usd spend_row) list \<Rightarrow> 'usd spend_row list" where
  "chargesOf since k rows = map snd (filter (\<lambda>(j, s). j = k \<and> inWindow since s) rows)"

lemma lineFor_tokens:
  "sint (sl_In (lineFor m k ss)) = signed_take_bit 63 (\<Sum>s\<leftarrow>ss. sint (s_in_tokens s))"
  "sint (sl_Out (lineFor m k ss)) = signed_take_bit 63 (\<Sum>s\<leftarrow>ss. sint (s_out_tokens s))"
proof -
  have "sint (sum_list ws) = signed_take_bit 63 (sum_list (map sint ws))" for ws :: "64 word list"
  proof -
    have "word_of_int (sum_list (map sint ws)) = sum_list ws" by (induction ws) (simp_all flip: wi_hom_add)
    then have "sint (sum_list ws) = sint (word_of_int (sum_list (map sint ws)) :: 64 word)" by simp
    then show ?thesis by (simp add: sint_sbintrunc')
  qed
  from this[of "map s_in_tokens ss"] this[of "map s_out_tokens ss"]
  show "sint (sl_In (lineFor m k ss)) = signed_take_bit 63 (\<Sum>s\<leftarrow>ss. sint (s_in_tokens s))"
    "sint (sl_Out (lineFor m k ss)) = signed_take_bit 63 (\<Sum>s\<leftarrow>ss. sint (s_out_tokens s))"
    by (simp_all add: lineFor_def comp_def)
qed

lemma addLine_at:
  "map_of (addLine m (k, s) lines) j = (if j = k
     then Some (case map_of lines k of None \<Rightarrow> lineFor m k [s]
       | Some l \<Rightarrow> l\<lparr>sl_USD := usd_plus m (sl_USD l) (s_usd s), sl_In := sl_In l + s_in_tokens s,
           sl_Out := sl_Out l + s_out_tokens s, sl_Calls := sl_Calls l + 1\<rparr>)
     else map_of lines j)"
  by (auto simp: addLine_def Let_def AList.update_conv' lineFor_def split: option.splits)

lemma addLine_distinct: "distinct (map fst lines) \<Longrightarrow> distinct (map fst (addLine m r lines))"
  by (cases r) (auto simp: addLine_def Let_def distinct_keys_update)

lemma spendLines_exact:
  assumes "foldE (spendStep m since) rows [] = Inr lines"
  shows "distinct (map fst lines)"
    and "map_of lines k = (if chargesOf since k rows = [] then None else Some (lineFor m k (chargesOf since k rows)))"
proof -
  define ok where "ok done lines \<longleftrightarrow> distinct (map fst lines) \<and>
    (\<forall>k. map_of lines k = (if chargesOf since k done = [] then None else Some (lineFor m k (chargesOf since k done))))"
    for "done" and lines :: "(string \<times> 'a spend_line) list"
  have step: "ok (done @ [r]) lines'" if "ok done lines" "spendStep m since r lines = Inr lines'" for "done" r lines lines'
  proof -
    obtain j s where r: "r = (j, s)" by (cases r)
    from that(2) obtain moment where mo: "parseTime (s_at s) = Inr moment"
      and l: "lines' = (if since \<noteq> 0 \<and> moment < since then lines else addLine m r lines)"
      by (auto simp: spendStep_def andThen_iff r)
    have w: "inWindow since s \<longleftrightarrow> \<not> (since \<noteq> 0 \<and> moment < since)" using mo by (auto simp: inWindow_def)
    have c: "chargesOf since k (done @ [r]) = chargesOf since k done @ (if j = k \<and> inWindow since s then [s] else [])" for k
      by (simp add: chargesOf_def r)
    show ?thesis
    proof (cases "inWindow since s")
      case True
      then have "lines' = addLine m (j, s) lines" using l w r by auto
      with that(1) True show ?thesis
        by (auto simp: ok_def c addLine_distinct addLine_at lineFor_def)
    next
      case False
      with that(1) l w show ?thesis by (auto simp: ok_def c)
    qed
  qed
  have "foldE (spendStep m since) rs ls = Inr lines \<Longrightarrow> ok done ls \<Longrightarrow> ok (done @ rs) lines" for rs ls "done"
  proof (induction rs arbitrary: ls "done")
    case (Cons r rs)
    then obtain l1 where "spendStep m since r ls = Inr l1" "foldE (spendStep m since) rs l1 = Inr lines"
      by (auto split: sum.splits)
    with Cons.IH[of l1 "done @ [r]"] step[OF Cons.prems(2)] show ?case by simp
  qed simp
  from this[OF assms, of "[]"] have "ok rows lines" by (simp add: ok_def chargesOf_def)
  then show "distinct (map fst lines)"
    "map_of lines k = (if chargesOf since k rows = [] then None else Some (lineFor m k (chargesOf since k rows)))"
    by (auto simp: ok_def)
qed

lemma spendRows_readable:
  assumes "\<forall>s\<in>set (t_spend db). s_at s \<noteq> Unreadable"
  shows "\<exists>lines. foldE (spendStep m since) (spendRows column joined db) [] = Inr lines"
proof -
  have "snd r \<in> set (t_spend db)" if "r \<in> set (spendRows column joined db)" for r
    using that by (auto simp: spendRows_def split: if_splits)
  then have "\<forall>r\<in>set (spendRows column joined db). s_at (snd r) \<noteq> Unreadable" using assms by blast
  moreover have "\<exists>lines. foldE (spendStep m since) rs ls = Inr lines" if "\<forall>r\<in>set rs. s_at (snd r) \<noteq> Unreadable" for rs ls
    using that
  proof (induction rs arbitrary: ls)
    case (Cons r rs)
    then obtain mo where "parseTime (s_at (snd r)) = Inr mo" by (cases "s_at (snd r)") auto
    then show ?case using Cons by (auto simp: spendStep_def)
  qed auto
  ultimately show ?thesis by blast
qed

definition rowsBy :: "string \<Rightarrow> 'usd plan_db \<Rightarrow> (string \<times> 'usd spend_row) list" where
  "rowsBy axis db = spendRows (fst (spendAxisKey axis)) (snd (spendAxisKey axis)) db"

lemma SliceStable_distinct: "distinct (map f xs) \<Longrightarrow> distinct (map f (SliceStable b xs))"
proof -
  have i: "distinct (map f (insertBy b x ys)) \<longleftrightarrow> distinct (map f (x # ys))" for x ys
    by (induction ys) auto
  show "distinct (map f xs) \<Longrightarrow> distinct (map f (SliceStable b xs))"
    unfolding SliceStable_def by (induction xs) (auto simp: i simp flip: SliceStable_def)
qed

lemma SpendBy_exact:
  assumes st: "\<not> closed st" "io_read w" and ax: "axis \<in> set spendAxes"
    and ok: "\<forall>s\<in>set (t_spend db). s_at s \<noteq> Unreadable"
  shows "l \<in> set (SpendBy m w axis since st db) \<longleftrightarrow>
      (\<exists>k. chargesOf since k (rowsBy axis db) \<noteq> [] \<and> l = mirror axis (lineFor m k (chargesOf since k (rowsBy axis db))))"
    and "distinct (map sl_Key (SpendBy m w axis since st db))"
    and "weak_order (heavier m) \<Longrightarrow> sorted_wrt (\<lambda>a b. \<not> heavier m b a) (SpendBy m w axis since st db)"
proof -
  from spendRows_readable[OF ok] obtain lines where
    l: "foldE (spendStep m since) (rowsBy axis db) [] = Inr lines" unfolding rowsBy_def by blast
  note ex = spendLines_exact[OF l]
  have ne: "fst (spendAxisKey axis) \<noteq> ''''" using ax by (auto simp: spendAxes_def spendAxisKey_def)
  have S: "SpendBy m w axis since st db = SliceStable (heavier m) (map (\<lambda>(k, l). mirror axis l) lines)"
    using st ne l by (simp add: SpendBy_def rowsBy_def case_prod_beta')
  have key: "sl_Key l = k" if "(k, l) \<in> set lines" for k l
    using map_of_is_SomeI[OF ex(1) that] ex(2)[of k] by (auto simp: lineFor_def split: if_splits)
  have mk: "sl_Key (mirror axis l) = sl_Key l" for l :: "'a spend_line" by (simp add: mirror_def)
  show "l \<in> set (SpendBy m w axis since st db) \<longleftrightarrow>
      (\<exists>k. chargesOf since k (rowsBy axis db) \<noteq> [] \<and> l = mirror axis (lineFor m k (chargesOf since k (rowsBy axis db))))"
  proof
    assume "l \<in> set (SpendBy m w axis since st db)"
    then obtain k l0 where kl: "(k, l0) \<in> set lines" "l = mirror axis l0" by (auto simp: S)
    with map_of_is_SomeI[OF ex(1) kl(1)] ex(2)[of k]
    show "\<exists>k. chargesOf since k (rowsBy axis db) \<noteq> [] \<and> l = mirror axis (lineFor m k (chargesOf since k (rowsBy axis db)))"
      by (auto split: if_splits)
  next
    assume "\<exists>k. chargesOf since k (rowsBy axis db) \<noteq> [] \<and> l = mirror axis (lineFor m k (chargesOf since k (rowsBy axis db)))"
    then obtain k where "chargesOf since k (rowsBy axis db) \<noteq> []" "l = mirror axis (lineFor m k (chargesOf since k (rowsBy axis db)))"
      by blast
    moreover from this(1) ex(2)[of k] have "(k, lineFor m k (chargesOf since k (rowsBy axis db))) \<in> set lines"
      by (auto dest: map_of_SomeD)
    ultimately show "l \<in> set (SpendBy m w axis since st db)" unfolding S by force
  qed
  have "map sl_Key (map (\<lambda>(k, l). mirror axis l) lines) = map fst lines"
    using key by (auto simp: mk)
  then have d: "distinct (map sl_Key (map (\<lambda>(k, l). mirror axis l) lines))" using ex(1) by (simp only:)
  show "distinct (map sl_Key (SpendBy m w axis since st db))"
    unfolding S by (rule SliceStable_distinct[OF d])
  show "weak_order (heavier m) \<Longrightarrow> sorted_wrt (\<lambda>a b. \<not> heavier m b a) (SpendBy m w axis since st db)"
    unfolding S by (rule SliceStable_sorted)
qed

text \<open>The axis loses nothing: the calls of the lines add up to the charges in the window.\<close>

lemma calls_add_up:
  assumes "distinct (map fst lines)" and "\<And>k. map_of lines k =
      (if chargesOf since k rows = [] then None else Some (lineFor m k (chargesOf since k rows)))"
  shows "sum_list (map (\<lambda>(k, l). sl_Calls l) lines) = int (length (filter (\<lambda>(k, s). inWindow since s) rows))"
proof -
  have "sum_list (map (\<lambda>(k, l). sl_Calls l) lines) = (\<Sum>k\<in>fst ` set lines. int (length (chargesOf since k rows)))"
  proof -
    have "sum_list (map (\<lambda>(k, l). sl_Calls l) lines) = sum_list (map (\<lambda>k. int (length (chargesOf since k rows))) (map fst lines))"
    proof (unfold map_map, rule arg_cong[where f = sum_list], rule map_cong[OF refl])
      fix p assume "p \<in> set lines"
      then have "map_of lines (fst p) = Some (snd p)" using assms(1) by simp
      with assms(2)[of "fst p"] show "(case p of (k, l) \<Rightarrow> sl_Calls l) = ((\<lambda>k. int (length (chargesOf since k rows))) \<circ> fst) p"
        by (auto simp: lineFor_def split: prod.split if_splits)
    qed
    then show ?thesis by (simp only: sum_list_distinct_conv_sum_set[OF assms(1)] set_map)
  qed
  also have "fst ` set lines = {k. chargesOf since k rows \<noteq> []}"
    using assms(2) by (auto simp: dom_map_of_conv_image_fst[symmetric] dom_def split: if_splits)
  also have "(\<Sum>k\<in>{k. chargesOf since k rows \<noteq> []}. int (length (chargesOf since k rows))) =
      int (length (filter (\<lambda>(k, s). inWindow since s) rows))"
  proof -
    let ?ws = "filter (\<lambda>(k, s). inWindow since s) rows"
    have c: "length (chargesOf since k rows) = count_list (map fst ?ws) k" for k
      by (induction rows) (auto simp: chargesOf_def)
    have "{k. chargesOf since k rows \<noteq> []} = set (map fst ?ws)"
      by (auto simp: chargesOf_def filter_empty_conv) force
    then show ?thesis unfolding c using sum_count_set[of "map fst ?ws" "set (map fst ?ws)"]
      by (simp add: of_nat_sum[symmetric] del: of_nat_sum)
  qed
  finally show ?thesis .
qed

lemma SpendBy_adds_up:
  assumes st: "\<not> closed st" "io_read w" and ax: "axis \<in> set spendAxes"
    and ok: "\<forall>s\<in>set (t_spend db). s_at s \<noteq> Unreadable"
  shows "sum_list (map sl_Calls (SpendBy m w axis since st db)) = int (length (filter (\<lambda>(k, s). inWindow since s) (rowsBy axis db)))"
proof -
  from spendRows_readable[OF ok] obtain lines where
    l: "foldE (spendStep m since) (rowsBy axis db) [] = Inr lines" unfolding rowsBy_def by blast
  have ne: "fst (spendAxisKey axis) \<noteq> ''''" using ax by (auto simp: spendAxes_def spendAxisKey_def)
  have S: "SpendBy m w axis since st db = SliceStable (heavier m) (map (\<lambda>(k, l). mirror axis l) lines)"
    using st ne l by (simp add: SpendBy_def rowsBy_def case_prod_beta')
  have ins: "sum_list (map f (insertBy b x ys)) = f x + sum_list (map f ys)"
    for f :: "'a spend_line \<Rightarrow> int" and b x ys by (induction ys) auto
  have "sum_list (map f (SliceStable b ys)) = sum_list (map f ys)" for f :: "'a spend_line \<Rightarrow> int" and b ys
    unfolding SliceStable_def by (induction ys) (auto simp: ins)
  moreover have "map sl_Calls (map (\<lambda>(k, l). mirror axis l) lines) = map (\<lambda>(k, l). sl_Calls l) lines"
    by (auto simp: mirror_def)
  ultimately show ?thesis unfolding S using calls_add_up[OF spendLines_exact[OF l]] by (simp only:)
qed

section \<open>The last charge, and the spelling of its task\<close>

lemma latestOf_max:
  "latest \<le> latestOf latest as \<and> (\<forall>a\<in>set as. \<forall>m. parseTime a = Inr m \<longrightarrow> m \<le> latestOf latest as) \<and>
     (latestOf latest as = latest \<or> (\<exists>a\<in>set as. parseTime a = Inr (latestOf latest as)))"
proof (induction "as" arbitrary: latest)
  case (Cons a "as")
  show ?case
  proof (cases "parseTime a")
    case (Inr m)
    with Cons[of "if m > latest then m else latest"] show ?thesis by (auto split: if_splits)
  next
    case (Inl e)
    with Cons[of latest] show ?thesis by auto
  qed
qed simp

text \<open>
  A live row and a charge of one task do not always meet on one key: the ledger does not trim
  before it takes the prefix off.
\<close>

lemma spend_key_differs: "bareTaskID '' t-a'' \<noteq> TrimSpace (TrimPrefix '' t-a'' ''t-'')"
  by code_simp

end
