(* ===== verification/PlanArchive.thy ===== *)
theory PlanArchive
  imports PlanRemove
begin

text \<open>
  Moving finished subtrees out of the plan: \<^verbatim>\<open>Archive\<close>, \<^verbatim>\<open>archiveSelection\<close> and
  \<^verbatim>\<open>referencedFromOutside\<close> of \<^verbatim>\<open>internal/plandb/store.go\<close>. The two maps of the selection's walk
  only remember what the recursion answers, so the recursion itself is the model; its fuel, the
  number of tasks, is enough on a tree (\<^verbatim>\<open>subtreeEnd_exact\<close>).
\<close>

section \<open>The selection\<close>

definition moment :: "task \<Rightarrow> time" where
  "moment t = (if CompletedAt t = 0 then UpdatedAt t else CompletedAt t)"

definition joinEnds :: "bool \<times> time \<Rightarrow> bool \<times> time \<Rightarrow> bool \<times> time" where
  "joinEnds child acc = (if \<not> fst child then False else fst acc, if snd child > snd acc then snd child else snd acc)"

fun subtreeEnd :: "nat \<Rightarrow> plan_state \<Rightarrow> string \<Rightarrow> (bool \<times> time) option" where
  "subtreeEnd 0 s i = None"
| "subtreeEnd (Suc n) s i =
     (case task_at s i of
        None \<Rightarrow> None
      | Some t \<Rightarrow>
          (case those (map (subtreeEnd n s) (childrenOf s i)) of
             None \<Rightarrow> None
           | Some ends \<Rightarrow> Some (fold joinEnds ends (terminal (Status t), moment t))))"

definition eligible :: "plan_state \<Rightarrow> time \<Rightarrow> string \<Rightarrow> bool" where
  "eligible s cutoff i =
     (case task_at s i of
        None \<Rightarrow> False
      | Some t \<Rightarrow> i \<noteq> RootID s \<and> terminal (Status t) \<and>
          (case subtreeEnd (length (Tasks s)) s i of None \<Rightarrow> False | Some (all, latest) \<Rightarrow> all \<and> latest < cutoff))"

definition referencedFromOutside :: "plan_state \<Rightarrow> string list \<Rightarrow> bool" where
  "referencedFromOutside s members =
     list_ex (\<lambda>(i, t). i \<notin> set members \<and> list_ex (\<lambda>d. dep_TaskID d \<in> set members) (Dependencies t)) (Tasks s)"

definition subtreeOf :: "plan_state \<Rightarrow> string \<Rightarrow> string list" where
  "subtreeOf s i = markSubtree (length (Tasks s)) (childrenOf s) i []"

definition topmost :: "plan_state \<Rightarrow> time \<Rightarrow> string \<Rightarrow> bool" where
  "topmost s cutoff i =
     (eligible s cutoff i \<and>
      \<not> (case task_at s i of None \<Rightarrow> False | Some t \<Rightarrow> ParentID t \<noteq> '''' \<and> eligible s cutoff (ParentID t)))"

definition archiveSelection :: "plan_state \<Rightarrow> time \<Rightarrow> string list \<times> task list" where
  "archiveSelection s cutoff =
     (let doomed = fold (\<lambda>i doomed.
            if \<not> topmost s cutoff i then doomed
            else if referencedFromOutside s (subtreeOf s i) then doomed
            else subtreeOf s i @ doomed) (Order s) []
      in if doomed = [] then ([], [])
         else (doomed, List.map_filter (\<lambda>i. if i \<in> set doomed then task_at s i else None) (Order s)))"

definition Archive :: "time \<Rightarrow> time \<Rightarrow> plan_state \<Rightarrow> (plan_state \<times> task list) option" where
  "Archive olderThan now s =
     (case archiveSelection s (now - olderThan) of (doomed, moved) \<Rightarrow>
        if length moved = 0 then None
        else Some (recomputeComposite
               (s\<lparr>Tasks := filter (\<lambda>(i, t). i \<notin> set doomed) (Tasks s), Order := keepIDs (Order s) doomed,
                  Notes := keepNotes (Notes s) doomed, Contexts := keepContexts (Contexts s) doomed\<rparr>),
             map (\<lambda>t. t\<lparr>ArchivedAt := now\<rparr>) moved))"

section \<open>What it selects\<close>

lemma those_Some_iff: "those xs = Some ys \<longleftrightarrow> xs = map Some ys"
proof (induction xs arbitrary: ys)
  case (Cons x xs)
  then show ?case by (cases x; cases ys) auto
qed auto

lemma joinEnds_simps: "fst (joinEnds e acc) \<longleftrightarrow> fst e \<and> fst acc" "snd (joinEnds e acc) < c \<longleftrightarrow> snd e < c \<and> snd acc < c"
  by (auto simp: joinEnds_def)

lemma fold_joinEnds_fst: "fst (fold joinEnds es acc) \<longleftrightarrow> fst acc \<and> (\<forall>e\<in>set es. fst e)"
  by (induction es arbitrary: acc) (auto simp: joinEnds_simps)

lemma fold_joinEnds_snd: "snd (fold joinEnds es acc) < c \<longleftrightarrow> snd acc < c \<and> (\<forall>e\<in>set es. snd e < c)"
  by (induction es arbitrary: acc) (auto simp: joinEnds_simps)

lemma list_all2_ball:
  "list_all2 P xs ys \<Longrightarrow> (\<And>x y. P x y \<Longrightarrow> Q y \<longleftrightarrow> R x) \<Longrightarrow> (\<forall>y\<in>set ys. Q y) \<longleftrightarrow> (\<forall>x\<in>set xs. R x)"
  by (induction rule: list_all2_induct) auto

lemma list_all2_map: "list_all2 P xs ys \<Longrightarrow> (\<And>x y. P x y \<Longrightarrow> f x = g y) \<Longrightarrow> map f xs = map g ys"
  by (induction rule: list_all2_induct) auto

lemma list_all2_choice: "(\<And>x. x \<in> set xs \<Longrightarrow> \<exists>y. P x y) \<Longrightarrow> \<exists>ys. list_all2 P xs ys"
proof (induction xs)
  case (Cons x xs)
  from Cons.prems obtain y where "P x y" by auto
  moreover from Cons obtain ys where "list_all2 P xs ys" by auto
  ultimately have "list_all2 P (x # xs) (y # ys)" by simp
  then show ?case by blast
qed auto

definition finished_before :: "plan_state \<Rightarrow> time \<Rightarrow> string \<Rightarrow> bool" where
  "finished_before s cutoff j \<longleftrightarrow> (\<exists>t. task_at s j = Some t \<and> terminal (Status t) \<and> moment t < cutoff)"

lemma subtreeEnd_exact:
  assumes tr: "tree_ok s" and o: "set (Order s) = set (task_ids s)"
  shows "i \<in> set (task_ids s) \<Longrightarrow> card (under s i) \<le> n \<Longrightarrow>
    \<exists>all latest. subtreeEnd n s i = Some (all, latest) \<and>
      (all \<longleftrightarrow> (\<forall>j\<in>under s i. \<forall>t. task_at s j = Some t \<longrightarrow> terminal (Status t))) \<and>
      (\<forall>c. latest < c \<longleftrightarrow> (\<forall>j\<in>under s i. \<forall>t. task_at s j = Some t \<longrightarrow> moment t < c))"
proof (induction n arbitrary: i)
  case 0
  have "finite (under s i)" using under_tasks[OF 0(1)] finite_subset by blast
  with 0(2) have "under s i = {}" by simp
  then show ?case using under_self[of i s] by simp
next
  case (Suc n)
  from Suc.prems(1) obtain t where t: "task_at s i = Some t" by (auto simp: task_ids_iff)
  have ine: "i \<noteq> ''''" using tr t by (auto simp: tree_ok_def)
  note ch = childrenOf_iff[OF o ine]
  have small: "c \<in> set (task_ids s) \<and> card (under s c) \<le> n" if c: "c \<in> set (childrenOf s i)" for c
    using under_smaller[OF tr _ Suc.prems(1), of c] that ch Suc.prems(2) parent_rel_dom by fastforce
  define P where "P c e \<longleftrightarrow> subtreeEnd n s c = Some e \<and>
      (fst e \<longleftrightarrow> (\<forall>j\<in>under s c. \<forall>t. task_at s j = Some t \<longrightarrow> terminal (Status t))) \<and>
      (\<forall>x. snd e < x \<longleftrightarrow> (\<forall>j\<in>under s c. \<forall>t. task_at s j = Some t \<longrightarrow> moment t < x))" for c e
  have "\<exists>e. P c e" if "c \<in> set (childrenOf s i)" for c
    using Suc.IH[of c] small[OF that] unfolding P_def by fastforce
  then obtain es where es: "list_all2 P (childrenOf s i) es" using list_all2_choice[of _ P] by blast
  have "map (subtreeEnd n s) (childrenOf s i) = map Some es"
    by (rule list_all2_map[OF es]) (simp add: P_def)
  then have r: "subtreeEnd (Suc n) s i = Some (fold joinEnds es (terminal (Status t), moment t))"
    using t by (simp add: those_Some_iff[THEN iffD2])
  note all = list_all2_ball[OF es]
  have un: "(\<forall>j\<in>under s i. Q j) \<longleftrightarrow> Q i \<and> (\<forall>c\<in>set (childrenOf s i). \<forall>j\<in>under s c. Q j)" for Q
    by (subst under_unfold) (auto simp: ch)
  let ?F = "fold joinEnds es (terminal (Status t), moment t)"
  have 1: "fst ?F \<longleftrightarrow> (\<forall>j\<in>under s i. \<forall>t. task_at s j = Some t \<longrightarrow> terminal (Status t))"
    unfolding fold_joinEnds_fst un using t
      all[of fst "\<lambda>c. \<forall>j\<in>under s c. \<forall>t. task_at s j = Some t \<longrightarrow> terminal (Status t)"] by (simp add: P_def)
  have 2: "snd ?F < c \<longleftrightarrow> (\<forall>j\<in>under s i. \<forall>t. task_at s j = Some t \<longrightarrow> moment t < c)" for c
    unfolding fold_joinEnds_snd un using t
      all[of "\<lambda>e. snd e < c" "\<lambda>k. \<forall>j\<in>under s k. \<forall>t. task_at s j = Some t \<longrightarrow> moment t < c"] by (simp add: P_def)
  show ?case unfolding r by (intro exI[of _ "fst ?F"] exI[of _ "snd ?F"] conjI allI 1 2) (simp only: prod.collapse)
qed

lemma eligible_iff:
  assumes tr: "tree_ok s" and o: "set (Order s) = set (task_ids s)"
  shows "eligible s cutoff i \<longleftrightarrow> i \<in> set (task_ids s) \<and> i \<noteq> RootID s \<and> (\<forall>j\<in>under s i. finished_before s cutoff j)"
proof (cases "task_at s i")
  case (Some t)
  then have i: "i \<in> set (task_ids s)" by (auto simp: task_ids_iff)
  have "card (under s i) \<le> card (set (task_ids s))" by (rule card_mono[OF _ under_tasks[OF i]]) simp
  also have "\<dots> \<le> length (Tasks s)" using card_length[of "task_ids s"] by (simp add: task_ids_def)
  finally obtain all latest where e: "subtreeEnd (length (Tasks s)) s i = Some (all, latest)"
    "all \<longleftrightarrow> (\<forall>j\<in>under s i. \<forall>t. task_at s j = Some t \<longrightarrow> terminal (Status t))"
    "\<forall>c. latest < c \<longleftrightarrow> (\<forall>j\<in>under s i. \<forall>t. task_at s j = Some t \<longrightarrow> moment t < c)"
    using subtreeEnd_exact[OF tr o i, of "length (Tasks s)"] by blast
  have "j \<in> under s i \<Longrightarrow> \<exists>t. task_at s j = Some t" for j using under_tasks[OF i] by (auto simp: task_ids_iff)
  then have f: "(\<forall>j\<in>under s i. finished_before s cutoff j) \<longleftrightarrow> all \<and> latest < cutoff"
    unfolding e(2) e(3)[rule_format] finished_before_def by fastforce
  have "all \<Longrightarrow> terminal (Status t)" using e(2) Some under_self by blast
  then show ?thesis unfolding f eligible_def using Some e(1) i by auto
qed (simp add: eligible_def task_ids_iff)

lemma subtreeOf_exact:
  assumes "tree_ok s" and "set (Order s) = set (task_ids s)" and i: "i \<in> set (task_ids s)"
  shows "set (subtreeOf s i) = under s i"
proof -
  have "card (under s i) \<le> card (set (task_ids s))" by (rule card_mono[OF _ under_tasks[OF i]]) simp
  also have "\<dots> \<le> length (Tasks s)" using card_length[of "task_ids s"] by (simp add: task_ids_def)
  finally show ?thesis
    using markSubtree_exact[OF assms, of "length (Tasks s)" "[]"] by (simp add: subtreeOf_def closed_but_def)
qed

lemma fold_collect:
  "set (fold (\<lambda>i acc. if \<not> P i then acc else if Q i then acc else f i @ acc) is acc) =
     set acc \<union> (\<Union>i\<in>{i\<in>set is. P i \<and> \<not> Q i}. set (f i))"
  by (induction "is" arbitrary: acc) auto

text \<open>A subtree moves exactly where its head is selected and nothing outside needs anything in it.\<close>

definition selected :: "plan_state \<Rightarrow> time \<Rightarrow> string \<Rightarrow> bool" where
  "selected s cutoff i \<longleftrightarrow> topmost s cutoff i \<and>
     (\<forall>j t d. task_at s j = Some t \<and> j \<notin> under s i \<and> d \<in> set (Dependencies t) \<longrightarrow> dep_TaskID d \<notin> under s i)"

lemma task_at_dropped:
  "task_at (s\<lparr>Tasks := filter (\<lambda>(i, t). i \<notin> G) (Tasks s), Order := q, Notes := n, Contexts := c\<rparr>) i =
     (if i \<in> G then None else task_at s i)"
proof -
  have "map_of (filter (\<lambda>(i, t). i \<notin> G) ps) i = (if i \<in> G then None else map_of ps i)" for ps :: "(string \<times> task) list"
    by (induction ps) auto
  then show ?thesis by (simp add: task_at_def)
qed

lemma rep_ok_dropped:
  "rep_ok s \<Longrightarrow> rep_ok (s\<lparr>Tasks := filter P (Tasks s), Order := q, Notes := n, Contexts := c\<rparr>)"
  by (auto simp: rep_ok_def distinct_map_filter)

lemma archiveSelection_exact:
  assumes tr: "tree_ok s" and rep: "rep_ok s" and o: "set (Order s) = set (task_ids s)"
    and sel: "archiveSelection s cutoff = (doomed, moved)"
  shows "set doomed = (\<Union>i\<in>{i\<in>set (Order s). selected s cutoff i}. under s i)"
    and "set moved = {t. \<exists>i\<in>set doomed. task_at s i = Some t}"
proof -
  have sub: "set (subtreeOf s i) = under s i" if "i \<in> set (Order s)" for i
    using subtreeOf_exact[OF tr o] that o by simp
  have q: "topmost s cutoff i \<and> \<not> referencedFromOutside s (subtreeOf s i) \<longleftrightarrow> selected s cutoff i"
    if "i \<in> set (Order s)" for i
    unfolding referencedFromOutside_def selected_def list_ex_iff sub[OF that] using rep
    by (auto simp: task_at_def rep_ok_def dest: map_of_SomeD intro: map_of_is_SomeI)
  let ?d = "fold (\<lambda>i doomed. if \<not> topmost s cutoff i then doomed
      else if referencedFromOutside s (subtreeOf s i) then doomed else subtreeOf s i @ doomed) (Order s) []"
  have d: "set ?d = (\<Union>i\<in>{i\<in>set (Order s). selected s cutoff i}. under s i)"
    unfolding fold_collect using q sub by auto
  have e: "doomed = ?d" using sel by (auto simp: archiveSelection_def Let_def split: if_splits)
  then show D: "set doomed = (\<Union>i\<in>{i\<in>set (Order s). selected s cutoff i}. under s i)" using d by simp
  have "set doomed \<subseteq> set (Order s)" unfolding D o using under_tasks o by blast
  then show "set moved = {t. \<exists>i\<in>set doomed. task_at s i = Some t}"
    using sel e by (auto simp: archiveSelection_def Let_def List.map_filter_def split: if_splits) force+
qed

text \<open>
  Archiving keeps the plan valid: what moved is whole subtrees of old finished tasks, the root never
  among them, and no task that stays needs one of them.
\<close>

lemma Archive_inv:
  assumes inv: "plan_inv s" and run: "Archive olderThan now s = Some (s', moved)"
  shows "plan_inv s'"
    and "\<forall>t\<in>set moved. terminal (Status t) \<and> moment t < now - olderThan \<and> ArchivedAt t = now"
    and "task_at s' (RootID s) \<noteq> None \<longleftrightarrow> task_at s (RootID s) \<noteq> None"
    and "task_at s i = Some t \<Longrightarrow> (\<exists>t'. task_at s' i = Some t' \<and> t' = t\<lparr>Composite := Composite t'\<rparr>) \<or>
      t\<lparr>ArchivedAt := now\<rparr> \<in> set moved"
    and "task_at s' i = Some t' \<Longrightarrow> d \<in> set (Dependencies t') \<Longrightarrow> task_at s' (dep_TaskID d) \<noteq> None"
    and "u \<in> set moved \<Longrightarrow> \<exists>t. task_at s (ID u) = Some t \<and> u = t\<lparr>ArchivedAt := now\<rparr> \<and> task_at s' (ID u) = None"
proof -
  obtain doomed mv where sel: "archiveSelection s (now - olderThan) = (doomed, mv)" by fastforce
  let ?c = "now - olderThan"
  let ?s0 = "s\<lparr>Tasks := filter (\<lambda>(i, t). i \<notin> set doomed) (Tasks s), Order := keepIDs (Order s) doomed,
    Notes := keepNotes (Notes s) doomed, Contexts := keepContexts (Contexts s) doomed\<rparr>"
  from run sel have s': "s' = recomputeComposite ?s0" and moved: "moved = map (\<lambda>t. t\<lparr>ArchivedAt := now\<rparr>) mv"
    by (auto simp: Archive_def split: if_splits)
  have tr: "tree_ok s" and rep: "rep_ok s" using plan_inv_tree[OF inv] inv by (auto simp: plan_inv_iff)
  have o: "set (Order s) = set (task_ids s)" using plan_inv_order[OF inv] by simp
  note ex = archiveSelection_exact[OF tr rep o sel]
  have fin: "j \<noteq> RootID s \<and> finished_before s ?c j" if "j \<in> set doomed" for j
  proof -
    from that ex(1) obtain i where i: "selected s ?c i" "j \<in> under s i" by blast
    then have e: "eligible s ?c i" by (simp add: selected_def topmost_def)
    then have i2: "i \<in> set (task_ids s)" "i \<noteq> RootID s" "\<forall>j\<in>under s i. finished_before s ?c j"
      using eligible_iff[OF tr o] by blast+
    have "j \<noteq> RootID s"
    proof
      assume j: "j = RootID s"
      from i2(1) obtain ti where "task_at s i = Some ti" by (auto simp: task_ids_iff)
      from plan_invD(6)[OF inv this] obtain r where r: "task_at s (RootID s) = Some r" "ParentID r = ''''" by blast
      from i(2) j have "(RootID s, i) \<in> (parent_rel s)\<^sup>*" by (simp add: under_def)
      with i2(2) r show False by (auto elim: converse_rtranclE simp: parent_rel_iff)
    qed
    with i(2) i2(3) show ?thesis by blast
  qed
  note at0 = task_at_dropped[where G = "set doomed" and s = s]
  have closed: "i \<in> set doomed" if t: "task_at s i = Some t" and p: "ParentID t \<in> set doomed" for i t
  proof -
    have "ParentID t \<noteq> ''''" using fin[OF p] tr by (auto simp: finished_before_def tree_ok_def)
    with t have "(i, ParentID t) \<in> parent_rel s" by (auto simp: parent_rel_iff)
    then have "i \<in> under s k" if "ParentID t \<in> under s k" for k
      using that by (auto simp: under_def intro: converse_rtrancl_into_rtrancl)
    with p show ?thesis unfolding ex(1) by blast
  qed
  have free: "dep_TaskID d \<notin> set doomed" if "task_at s i = Some t" "i \<notin> set doomed" "d \<in> set (Dependencies t)" for i t d
    using that unfolding ex(1) selected_def by blast
  have w: "without doomed s ?s0" unfolding without_def
    using rep_ok_dropped[OF rep] fin[of "RootID s"] by (auto simp: at0 survivor_def free)
  show v: "plan_inv s'" unfolding s' by (rule survivors_inv[OF inv w closed])
  have rc: "task_at s' i = map_option (\<lambda>t. t\<lparr>Composite := Composite (the (task_at s' i))\<rparr>) (task_at ?s0 i)" for i
    unfolding s' recomputeComposite_at by (cases "task_at ?s0 i") auto
  show "\<forall>t\<in>set moved. terminal (Status t) \<and> moment t < now - olderThan \<and> ArchivedAt t = now"
  proof
    fix u assume "u \<in> set moved"
    then obtain t j where u: "u = t\<lparr>ArchivedAt := now\<rparr>" "j \<in> set doomed" "task_at s j = Some t" using ex(2) moved by auto
    with fin[of j] show "terminal (Status u) \<and> moment u < now - olderThan \<and> ArchivedAt u = now"
      by (auto simp: finished_before_def moment_def)
  qed
  show "task_at s' (RootID s) \<noteq> None \<longleftrightarrow> task_at s (RootID s) \<noteq> None"
    using fin[of "RootID s"] by (subst rc) (auto simp: at0)
  show "(\<exists>t'. task_at s' i = Some t' \<and> t' = t\<lparr>Composite := Composite t'\<rparr>) \<or> t\<lparr>ArchivedAt := now\<rparr> \<in> set moved"
    if "task_at s i = Some t"
    using that ex(2) rc[of i] by (cases "i \<in> set doomed") (auto simp: at0 moved)
  show "task_at s' (dep_TaskID d) \<noteq> None" if "task_at s' i = Some t'" "d \<in> set (Dependencies t')"
    using plan_invD(3)[OF v that(1)] that(2) by (auto simp: task_wf_def)
  show "\<exists>t. task_at s (ID u) = Some t \<and> u = t\<lparr>ArchivedAt := now\<rparr> \<and> task_at s' (ID u) = None" if "u \<in> set moved"
  proof -
    from that obtain t j where u: "u = t\<lparr>ArchivedAt := now\<rparr>" "j \<in> set doomed" "task_at s j = Some t" using ex(2) moved by auto
    then have "ID u = j" using plan_invD(3)[OF inv u(3)] by (simp add: task_wf_def)
    moreover have "task_at s' j = None" using u(2) by (subst rc) (simp add: at0)
    ultimately show ?thesis using u by simp
  qed
qed

end
