(* ===== verification/PlanEdit.thy ===== *)
theory PlanEdit
  imports PlanAdmit
begin

text \<open>
  Changing a task's contract and its edges: \<^verbatim>\<open>Amend\<close>, \<^verbatim>\<open>Revise\<close>, \<^verbatim>\<open>AddDep\<close> and \<^verbatim>\<open>RemoveDep\<close> of
  \<^verbatim>\<open>internal/plandb/store.go\<close>, with what each must be given for the plan to load again.
\<close>

section \<open>The operations\<close>

definition blankLine :: string where "blankLine = [CHR 0x0A, CHR 0x0A]"

definition Amend :: "string \<Rightarrow> string \<Rightarrow> time \<Rightarrow> plan_state \<Rightarrow> plan_error + plan_state" where
  "Amend i words now = changeTask i (\<lambda>s t.
     orFail (refuse (length words > 32768) (TextRefused AmendmentTooLong))
     (Inr (upd i (\<lambda>t. t\<lparr>Description := TrimSpace words @ blankLine @ Description t, UpdatedAt := now\<rparr>) s)))"

definition revised :: "plan_state \<Rightarrow> task_patch \<Rightarrow> task \<Rightarrow> task" where
  "revised s p t =
     (let t1 = normalizeSpec (applyPatch t p) (RootID s)
      in if ID t1 = RootID s then t1\<lparr>ParentID := ''''\<rparr> else t1)"

definition Revise :: "string \<Rightarrow> task_patch \<Rightarrow> time \<Rightarrow> plan_state \<Rightarrow> plan_error + plan_state" where
  "Revise i p now = changeTask i (\<lambda>s t.
     orFail (refuse (Status t \<noteq> StatusPending \<and> Status t \<noteq> StatusReady \<and> \<not> questionOnlyPatch p)
       (work (OnlyBeforeExecution i)))
     (orFail (case p_Checks p of None \<Rightarrow> None | Some cs \<Rightarrow> map_option SpecRefused (validateCheckDeclarations cs))
     (orFail (map_option SpecRefused (validateSpec (revised s p t)))
     (Inr (put_task i ((revised s p t)\<lparr>UpdatedAt := now\<rparr>) s)))))"

definition AddDep :: "string \<Rightarrow> string \<Rightarrow> depkind \<Rightarrow> time \<Rightarrow> plan_state \<Rightarrow> plan_error + plan_state" where
  "AddDep downstream upstream kind0 now =
     (let kind = (if kind0 = '''' then DepFeedsInto else kind0) in
      changeTask downstream (\<lambda>s t.
        orFail (refuse (task_at s upstream = None) (TaskNotFound upstream))
        (orFail (refuse (list_ex (\<lambda>d. dep_TaskID d = upstream) (Dependencies t))
                  (AdmitRefused (AlreadyDepends downstream upstream)))
        (let s1 = put_task downstream
               (t\<lparr>Dependencies := Dependencies t @ [\<lparr>dep_TaskID = upstream, dep_Kind = kind\<rparr>]\<rparr>) s
         in orFail (map_option graphErr (validateGraphs s1))
              (Inr (promote now (upd downstream (\<lambda>t. t\<lparr>UpdatedAt := now\<rparr>) s1)))))))"

definition RemoveDep :: "string \<Rightarrow> string \<Rightarrow> time \<Rightarrow> plan_state \<Rightarrow> plan_error + plan_state" where
  "RemoveDep downstream upstream now = changeTask downstream (\<lambda>s t.
     (let s1 = put_task downstream
            (t\<lparr>Dependencies := filter (\<lambda>d. \<not> dep_TaskID d = upstream) (Dependencies t)\<rparr>) s
      in orFail (map_option graphErr (validateGraphs s1))
           (Inr (promote now (upd downstream (\<lambda>t. t\<lparr>UpdatedAt := now\<rparr>) s1)))))"

section \<open>Replacing one task's contract\<close>

lemma replace_has_child:
  "task_at s i = Some t \<Longrightarrow> ParentID t' = ParentID t \<Longrightarrow> has_child (put_task i t' s) j \<longleftrightarrow> has_child s j"
  unfolding has_child_def task_at_put by (metis fun_upd_apply option.inject)

text \<open>
  A task replaced by one with the same place in the tree: the plan still loads when the new
  contract is valid, its dependencies name tasks, and the graphs are still lawful.
\<close>

lemma replace_inv:
  assumes inv: "plan_inv s" and t: "task_at s i = Some t"
    and k: "ID t' = ID t" "ParentID t' = ParentID t" "Composite t' = Composite t" "validStatus (Status t')"
    and v: "i \<noteq> RootID s \<Longrightarrow> validateSpec t' = None"
    and d: "\<And>d. d \<in> set (Dependencies t') \<Longrightarrow> task_at s (dep_TaskID d) \<noteq> None"
    and g: "graphs_ok (put_task i t' s)"
  shows "plan_inv (put_task i t' s)"
proof -
  let ?s = "put_task i t' s"
  have ids: "task_ids ?s = task_ids s" using t by simp
  obtain r where r: "task_at s (RootID s) = Some r" "ParentID r = ''''" using plan_invD(6)[OF inv t] by blast
  then obtain r' where r': "task_at ?s (RootID s) = Some r'" "ParentID r' = ''''"
    using t k(2) by (cases "i = RootID s") (auto simp: task_at_put)
  have dom: "task_at ?s j \<noteq> None \<longleftrightarrow> task_at s j \<noteq> None" for j using t by (cases "j = i") simp_all
  note ch = replace_has_child[OF t k(2)]
  have "task_wf ?s j u" if u: "task_at ?s j = Some u" for j u
  proof (cases "j = i")
    case True
    with u have "u = t'" by simp
    with True plan_invD(3)[OF inv t] v d show ?thesis
      unfolding task_wf_def ch dom using k by auto
  next
    case False
    with u have "task_at s j = Some u" by simp
    from plan_invD(3)[OF inv this] show ?thesis unfolding task_wf_def ch dom by simp
  qed
  with plan_inv_order[OF inv] ids inv g r' show ?thesis
    by (intro plan_inv_rebuild[OF inv _ _ _ _ r']) (auto simp: plan_inv_iff)
qed

text \<open>Where the edges did not change either, the graphs are lawful already.\<close>

lemma replace_same_edges:
  assumes inv: "plan_inv s" and t: "task_at s i = Some t"
    and k: "ID t' = ID t" "ParentID t' = ParentID t" "Dependencies t' = Dependencies t"
  shows "graphs_ok (put_task i t' s)"
proof -
  let ?s = "put_task i t' s"
  have e: "hard_deps t' = hard_deps t" "parent_edges t' = parent_edges t"
    using k by (simp_all add: hard_deps_def parent_edges_def)
  have r: "edge_rel ?s f = edge_rel s f" "edges_closed ?s f = edges_closed s f" if f: "f t' = f t" for f
  proof -
    have iff: "(\<exists>u. task_at ?s a = Some u \<and> P (f u)) \<longleftrightarrow> (\<exists>u. task_at s a = Some u \<and> P (f u))" for a P
      using t f by (cases "a = i") simp_all
    show "edge_rel ?s f = edge_rel s f" unfolding edge_rel_def using iff[of _ "\<lambda>es. _ \<in> set es"] by auto
    have dom: "task_at ?s j = None \<longleftrightarrow> task_at s j = None" for j using t by (cases "j = i") simp_all
    have "edges_closed ?s f \<longleftrightarrow> (\<forall>a. \<not> (\<exists>u. task_at ?s a = Some u \<and> (\<exists>j\<in>set (f u). task_at s j = None)))"
      by (auto simp: edges_closed_def dom)
    also have "\<dots> \<longleftrightarrow> edges_closed s f"
      using iff[of _ "\<lambda>es. \<exists>j\<in>set es. task_at s j = None"] by (auto simp: edges_closed_def)
    finally show "edges_closed ?s f = edges_closed s f" .
  qed
  have "graphs_ok s" by (rule plan_invD(2)[OF inv t])
  then show ?thesis unfolding graphs_ok_def r[OF e(1)] r[OF e(2)]
    using t k(1) e(1) by (auto simp: task_at_put split: if_splits)
qed

section \<open>Edges\<close>

lemma validateSpec_fewer:
  "validateSpec t = None \<Longrightarrow> set ds \<subseteq> set (Dependencies t) \<Longrightarrow> validateSpec (t\<lparr>Dependencies := ds\<rparr>) = None"
  for t :: task
  by (auto simp: validateSpec_def list_ex_iff split: if_splits)

lemma validateSpec_one_more:
  "validateSpec t = None \<Longrightarrow> validID u \<Longrightarrow> k \<in> {DepFeedsInto, DepBlocks, DepSuggests} \<Longrightarrow>
     validateSpec (t\<lparr>Dependencies := Dependencies t @ [\<lparr>dep_TaskID = u, dep_Kind = k\<rparr>]\<rparr>) = None"
  for t :: task
  by (auto simp: validateSpec_def oneOf_def split: if_splits)

lemma stamp_promote_shape: "same_shape s (promote now (upd i (\<lambda>t. t\<lparr>UpdatedAt := now\<rparr>) s))"
  by (intro same_shape_promoteI same_shape_upd) (simp add: keeps_def)

lemma RemoveDep_cases:
  assumes "RemoveDep i u now s = Inr s'"
  obtains t where "task_at s i = Some t"
    "validateGraphs (put_task i (t\<lparr>Dependencies := filter (\<lambda>d. \<not> dep_TaskID d = u) (Dependencies t)\<rparr>) s) = None"
    "same_shape (put_task i (t\<lparr>Dependencies := filter (\<lambda>d. \<not> dep_TaskID d = u) (Dependencies t)\<rparr>) s) s'"
  using assms by (auto simp: RemoveDep_def Let_def stamp_promote_shape)

lemma RemoveDep_inv:
  assumes inv: "plan_inv s" and c: "RemoveDep i u now s = Inr s'"
  shows "plan_inv s'"
  using c
proof (rule RemoveDep_cases)
  fix t :: task let ?t = "t\<lparr>Dependencies := filter (\<lambda>d. \<not> dep_TaskID d = u) (Dependencies t)\<rparr>"
  assume t: "task_at s i = Some t" and g: "validateGraphs (put_task i ?t s) = None" and sh: "same_shape (put_task i ?t s) s'"
  note w = plan_invD(3)[OF inv t]
  have "rep_ok (put_task i ?t s)" using inv by (simp add: plan_inv_iff)
  then have "graphs_ok (put_task i ?t s)" using g by (simp add: validateGraphs_None_iff)
  then have "plan_inv (put_task i ?t s)"
    using w by (intro replace_inv[OF inv t]) (auto simp: task_wf_def intro: validateSpec_fewer)
  with sh show ?thesis by (rule same_shape_inv[rotated])
qed

lemma RemoveDep_run: "RemoveDep i u now s = Inr s' \<Longrightarrow> RootID s' = RootID s \<and> PlanProject s' = PlanProject s"
  by (erule RemoveDep_cases) (simp add: same_shape_def)

lemma RemoveDep_result:
  assumes "RemoveDep i u now s = Inr s'"
  shows "\<exists>t t'. task_at s i = Some t \<and> task_at s' i = Some t' \<and>
     Dependencies t' = filter (\<lambda>d. dep_TaskID d \<noteq> u) (Dependencies t)"
  using assms
proof (rule RemoveDep_cases)
  fix t assume t: "task_at s i = Some t"
    and sh: "same_shape (put_task i (t\<lparr>Dependencies := filter (\<lambda>d. \<not> dep_TaskID d = u) (Dependencies t)\<rparr>) s) s'"
  from same_shape_task[OF sh task_at_put_same] t show ?thesis by (auto simp: keeps_def)
qed

interpretation remove_dep: plan_operation "\<lambda>(i, u). RemoveDep i u"
  by unfold_locales (auto intro: RemoveDep_inv dest: RemoveDep_run)

lemma AddDep_cases:
  assumes "AddDep i u kind now s = Inr s'"
  obtains t k where "task_at s i = Some t" "task_at s u \<noteq> None" "k = (if kind = '''' then DepFeedsInto else kind)"
    "\<forall>d\<in>set (Dependencies t). dep_TaskID d \<noteq> u"
    "validateGraphs (put_task i (t\<lparr>Dependencies := Dependencies t @ [\<lparr>dep_TaskID = u, dep_Kind = k\<rparr>]\<rparr>) s) = None"
    "s' = promote now (upd i (\<lambda>t. t\<lparr>UpdatedAt := now\<rparr>)
       (put_task i (t\<lparr>Dependencies := Dependencies t @ [\<lparr>dep_TaskID = u, dep_Kind = k\<rparr>]\<rparr>) s))"
proof -
  let ?k = "if kind = '''' then DepFeedsInto else kind"
  from assms obtain t where "task_at s i = Some t" "task_at s u \<noteq> None"
    "\<forall>d\<in>set (Dependencies t). dep_TaskID d \<noteq> u"
    "validateGraphs (put_task i (t\<lparr>Dependencies := Dependencies t @ [\<lparr>dep_TaskID = u, dep_Kind = ?k\<rparr>]\<rparr>) s) = None"
    "s' = promote now (upd i (\<lambda>t. t\<lparr>UpdatedAt := now\<rparr>)
       (put_task i (t\<lparr>Dependencies := Dependencies t @ [\<lparr>dep_TaskID = u, dep_Kind = ?k\<rparr>]\<rparr>) s))"
    unfolding AddDep_def Let_def by (auto simp: list_ex_iff simp del: if_None_iff)
  then show ?thesis by (rule that[OF _ _ refl])
qed

text \<open>
  With a kind of the three a new edge keeps the laws. The root's id is the only one of a plan that
  may be malformed, so it is asked of an edge on the root alone.
\<close>

lemma AddDep_inv:
  assumes inv: "plan_inv s" and c: "AddDep i u kind now s = Inr s'"
    and kind: "kind \<in> {'''', DepFeedsInto, DepBlocks, DepSuggests}" and root: "u = RootID s \<Longrightarrow> validID u"
  shows "plan_inv s'"
  using c
proof (rule AddDep_cases)
  fix t :: task and k
  let ?t = "t\<lparr>Dependencies := Dependencies t @ [\<lparr>dep_TaskID = u, dep_Kind = k\<rparr>]\<rparr>"
  assume t: "task_at s i = Some t" "task_at s u \<noteq> None" and k: "k = (if kind = '''' then DepFeedsInto else kind)"
    and g: "validateGraphs (put_task i ?t s) = None"
    and s': "s' = promote now (upd i (\<lambda>t. t\<lparr>UpdatedAt := now\<rparr>) (put_task i ?t s))"
  note w = plan_invD(3)[OF inv t(1)]
  have u: "validID u"
  proof (cases "u = RootID s")
    case False
    obtain tu where "task_at s u = Some tu" using t(2) by blast
    from plan_invD(3)[OF inv this] False show ?thesis by (auto simp: task_wf_def validateSpec_def split: if_splits)
  qed (fact root)
  have "rep_ok (put_task i ?t s)" using inv by (simp add: plan_inv_iff)
  then have "graphs_ok (put_task i ?t s)" using g by (simp add: validateGraphs_None_iff)
  moreover have kk: "k \<in> {DepFeedsInto, DepBlocks, DepSuggests}" using kind k by auto
  moreover have "validateSpec ?t = None" if "i \<noteq> RootID s"
    by (rule validateSpec_one_more[OF _ u kk]) (use w that in \<open>simp add: task_wf_def\<close>)
  ultimately have "plan_inv (put_task i ?t s)"
    using w t by (intro replace_inv[OF inv t(1)]) (auto simp: task_wf_def)
  then show ?thesis unfolding s' by (rule same_shape_inv) (rule stamp_promote_shape)
qed

text \<open>A task that gains a hard edge on work that is not done is not left ready.\<close>

lemma AddDep_blocks:
  assumes inv: "plan_inv s" and c: "AddDep i u kind now s = Inr s'" and hard: "kind \<noteq> DepSuggests"
    and open': "\<And>v. task_at s' u = Some v \<Longrightarrow> Status v \<noteq> StatusDone" and t': "task_at s' i = Some t'"
  shows "\<exists>d\<in>set (Dependencies t'). dep_TaskID d = u" and "Status t' \<noteq> StatusReady"
proof -
  from c obtain t k where t: "task_at s i = Some t" and k: "k = (if kind = '''' then DepFeedsInto else kind)"
    and s': "s' = promote now (upd i (\<lambda>t. t\<lparr>UpdatedAt := now\<rparr>)
       (put_task i (t\<lparr>Dependencies := Dependencies t @ [\<lparr>dep_TaskID = u, dep_Kind = k\<rparr>]\<rparr>) s))"
    by (rule AddDep_cases)
  let ?s1 = "put_task i (t\<lparr>Dependencies := Dependencies t @ [\<lparr>dep_TaskID = u, dep_Kind = k\<rparr>]\<rparr>) s"
  have sh: "same_shape ?s1 s'" unfolding s' by (rule stamp_promote_shape)
  from same_shape_back[OF sh t'] have dp: "Dependencies t' = Dependencies t @ [\<lparr>dep_TaskID = u, dep_Kind = k\<rparr>]"
    by (auto simp: keeps_def)
  then show "\<exists>d\<in>set (Dependencies t'). dep_TaskID d = u" by auto
  have i: "i \<in> set (Order s')"
    using sh plan_invD(8)[OF inv t] by (simp add: same_shape_def)
  have "k \<noteq> DepSuggests" using hard k by (auto simp: DepFeedsInto_def DepSuggests_def)
  then have "\<not> hardDone s' \<lparr>dep_TaskID = u, dep_Kind = k\<rparr>"
    using open' by (auto simp: hardDone_def split: option.split)
  then have nd: "\<not> depsDone s' t'"
    unfolding depsDone_def climb_fuel_def using dp by (auto simp: list_all_iff)
  show "Status t' \<noteq> StatusReady"
  proof
    assume "Status t' = StatusReady"
    moreover have "i \<in> set (Order (upd i (\<lambda>t. t\<lparr>UpdatedAt := now\<rparr>) ?s1))" using i sh by (simp add: same_shape_def)
    ultimately show False using nd t' promote_result(2)[where now = now and s = "upd i (\<lambda>t. t\<lparr>UpdatedAt := now\<rparr>) ?s1"]
        promote_result(1)[where now = now and s = "upd i (\<lambda>t. t\<lparr>UpdatedAt := now\<rparr>) ?s1"]
      unfolding s' by (auto simp: misplaced_def ready_bad_def)
  qed
qed

section \<open>Amending\<close>

lemma Amend_cases:
  assumes "Amend i words now s = Inr s'"
  obtains t where "task_at s i = Some t" "length words \<le> 32768"
    "s' = put_task i (t\<lparr>Description := TrimSpace words @ blankLine @ Description t, UpdatedAt := now\<rparr>) s"
  using assms by (auto simp: Amend_def upd_task_def)

text \<open>
  The bound an amendment is asked is its own length, not the length of what it makes: the amended
  plan loads exactly when the new description is still within 32768 bytes, or is the root's, whose
  contract a load does not validate.
\<close>

lemma Amend_loads_iff:
  assumes inv: "plan_inv s" and c: "Amend i words now s = Inr s'" and t: "task_at s i = Some t"
  shows "plan_inv s' \<longleftrightarrow> i = RootID s \<or> length (TrimSpace words) + 2 + length (Description t) \<le> 32768"
proof -
  let ?t = "t\<lparr>Description := TrimSpace words @ blankLine @ Description t, UpdatedAt := now\<rparr>"
  have s': "s' = put_task i ?t s" using c t by (auto elim!: Amend_cases)
  have len: "length (Description ?t) = length (TrimSpace words) + 2 + length (Description t)" by (simp add: blankLine_def)
  note w = plan_invD(3)[OF inv t]
  have v: "validateSpec ?t = None \<longleftrightarrow> length (Description ?t) \<le> 32768" if "i \<noteq> RootID s"
    using w that by (auto simp: task_wf_def validateSpec_def split: if_splits)
  show ?thesis
  proof
    assume p: "plan_inv s'"
    show "i = RootID s \<or> length (TrimSpace words) + 2 + length (Description t) \<le> 32768"
    proof (cases "i = RootID s")
      case i: False
      then have "validateSpec ?t = None" using plan_invD(3)[OF p, of i ?t] by (simp add: s' task_wf_def)
      then show ?thesis using v[OF i] len by simp
    qed simp
  next
    assume "i = RootID s \<or> length (TrimSpace words) + 2 + length (Description t) \<le> 32768"
    then have "i \<noteq> RootID s \<Longrightarrow> validateSpec ?t = None" using v len by auto
    then show "plan_inv s'" unfolding s'
      using w by (intro replace_inv[OF inv t] replace_same_edges[OF inv t]) (auto simp: task_wf_def)
  qed
qed

section \<open>Revising\<close>

text \<open>A task that reads the same once its names are made bare again.\<close>

definition bare_task :: "task \<Rightarrow> bool" where
  "bare_task t \<longleftrightarrow> bareID (ID t) = ID t \<and> bareID (ParentID t) = ParentID t \<and> (\<forall>d\<in>set (Dependencies t). normalizeDep d = d)"

lemma revised_fields [simp]:
  "ID (revised s p t) = bareID (ID t)" "Status (revised s p t) = Status t" "Composite (revised s p t) = Composite t"
  "Dependencies (revised s p t) = map normalizeDep (Dependencies t)" "Description (revised s p t) = patched (p_Description p) (Description t)"
  "Checks (revised s p t) = patched (p_Checks p) (Checks t)" "Acceptance (revised s p t) = patched (p_Acceptance p) (Acceptance t)"
  "Priority (revised s p t) = patched (p_Priority p) (Priority t)" "Question (revised s p t) = patched (p_Question p) (Question t)"
  by (simp_all add: revised_def Let_def normalizeSpec_def applyPatch_def)

lemma revised_parent:
  "ParentID (revised s p t) = (if bareID (ID t) = RootID s then '''' else orElse (bareID (ParentID t)) (RootID s))"
  by (simp add: revised_def Let_def normalizeSpec_def)

lemma Revise_cases:
  assumes "Revise i p now s = Inr s'"
  obtains t where "task_at s i = Some t" "Status t = StatusPending \<or> Status t = StatusReady \<or> questionOnlyPatch p"
    "\<And>cs. p_Checks p = Some cs \<Longrightarrow> validateCheckDeclarations cs = None"
    "validateSpec (revised s p t) = None" "s' = put_task i ((revised s p t)\<lparr>UpdatedAt := now\<rparr>) s"
  using assms by (auto simp: Revise_def split: option.splits)

lemma Revise_inv:
  assumes inv: "plan_inv s" and c: "Revise i p now s = Inr s'" and bare: "\<And>t. task_at s i = Some t \<Longrightarrow> bare_task t"
  shows "plan_inv s'"
  using c
proof (rule Revise_cases)
  fix t :: task
  let ?t = "(revised s p t)\<lparr>UpdatedAt := now\<rparr>"
  assume t: "task_at s i = Some t" and v: "validateSpec (revised s p t) = None" and s': "s' = put_task i ?t s"
  note w = plan_invD(3)[OF inv t]
  have b: "bareID (ID t) = ID t" "bareID (ParentID t) = ParentID t" "map normalizeDep (Dependencies t) = Dependencies t"
    using bare[OF t] by (auto simp: bare_task_def intro: map_idI)
  have "ParentID (revised s p t) = ParentID t"
  proof (cases "i = RootID s")
    case True
    then have "ParentID t = ''''" "ID t = RootID s" using w plan_invD(6)[OF inv t] t by (auto simp: task_wf_def)
    then show ?thesis using b(1) by (simp add: revised_parent)
  next
    case False
    then have "task_at s (ParentID t) \<noteq> None" using w by (simp add: task_wf_def)
    then have "ParentID t \<noteq> ''''" using plan_inv_tree[OF inv] by (auto simp: tree_ok_def)
    moreover have "ID t = i" using w by (simp add: task_wf_def)
    ultimately show ?thesis using False b(1,2) by (simp add: revised_parent orElse_def)
  qed
  then have k: "ID ?t = ID t" "ParentID ?t = ParentID t" "Dependencies ?t = Dependencies t" using b by simp_all
  show ?thesis unfolding s'
    using w v k by (intro replace_inv[OF inv t] replace_same_edges[OF inv t]) (auto simp: task_wf_def)
qed

text \<open>Once a task has started its contract is frozen: only the question it answers can change.\<close>

lemma Revise_frozen:
  assumes c: "Revise i p now s = Inr s'" and t: "task_at s i = Some t"
    and started: "Status t \<noteq> StatusPending" "Status t \<noteq> StatusReady"
  shows "questionOnlyPatch p \<and> (\<exists>t'. task_at s' i = Some t' \<and> Status t' = Status t \<and> Description t' = Description t \<and>
     Checks t' = Checks t \<and> Acceptance t' = Acceptance t \<and> Priority t' = Priority t \<and>
     Question t' = the (p_Question p))"
  using c
proof (rule Revise_cases)
  fix u
  assume u: "task_at s i = Some u" and q: "Status u = StatusPending \<or> Status u = StatusReady \<or> questionOnlyPatch p"
    and s': "s' = put_task i ((revised s p u)\<lparr>UpdatedAt := now\<rparr>) s"
  from u t have [simp]: "u = t" by simp
  from q started have qp: "questionOnlyPatch p" by simp
  then have "p_Description p = None" "p_Checks p = None" "p_Acceptance p = None" "p_Priority p = None"
    "\<exists>x. p_Question p = Some x" by (auto simp: questionOnlyPatch_def)
  then show ?thesis using qp by (auto simp: s' patched_def)
qed

end
