(* ===== verification/PlanCascade.thy ===== *)
theory PlanCascade
  imports PlanLifecycle
begin

text \<open>
  Endings that reach further than one task: \<^verbatim>\<open>Cancel\<close> with its two cascades, and the run's own
  endings (\<^verbatim>\<open>CanFinalize\<close>, \<^verbatim>\<open>CompleteRoot\<close>, \<^verbatim>\<open>StopRoot\<close>, \<^verbatim>\<open>EndRoot\<close>, \<^verbatim>\<open>FailRoot\<close>,
  \<^verbatim>\<open>FailRootAt\<close>) of \<^verbatim>\<open>internal/plandb/store.go\<close>.
\<close>

section \<open>A loop that cancels until nothing is left to cancel\<close>

text \<open>
  \<^verbatim>\<open>cancelDescendants\<close> and \<^verbatim>\<open>cancelBlockedDependents\<close> are the same loop with another test:
  \<^verbatim>\<open>for changed { for _, task := range Tasks { ... } }\<close>. \<^verbatim>\<open>hit\<close> is the list of the ids the
  loop has cancelled (the map \<^verbatim>\<open>parents\<close> of the first, beside the task it starts from).
\<close>

definition cancelled :: "string \<Rightarrow> time \<Rightarrow> task \<Rightarrow> task" where
  "cancelled reason now t =
     t\<lparr>Status := StatusCancelled, Error := reason, ClaimedBy := '''', UpdatedAt := now, CompletedAt := now\<rparr>"

type_synonym guard = "string list \<Rightarrow> plan_state \<Rightarrow> task \<Rightarrow> bool"

definition cancel_step :: "guard \<Rightarrow> string \<Rightarrow> time \<Rightarrow> string \<Rightarrow>
    plan_state \<times> string list \<times> bool \<Rightarrow> plan_state \<times> string list \<times> bool" where
  "cancel_step g reason now i = (\<lambda>(s, hit, changed).
     (case task_at s i of
        None \<Rightarrow> (s, hit, changed)
      | Some t \<Rightarrow> if \<not> terminal (Status t) \<and> g hit s t
                  then (put_task i (cancelled reason now t) s, ID t # hit, True)
                  else (s, hit, changed)))"

definition cancel_round :: "guard \<Rightarrow> string \<Rightarrow> time \<Rightarrow> plan_state \<times> string list \<Rightarrow> plan_state \<times> string list \<times> bool" where
  "cancel_round g reason now = (\<lambda>(s, hit). fold (cancel_step g reason now) (task_ids s) (s, hit, False))"

lemma cancel_fold_open:
  "fold (cancel_step g reason now) is (s, hit, c) = (s', hit', c') \<Longrightarrow>
     (c \<longrightarrow> c') \<and> (s' = s \<and> hit' = hit \<and> c' = c \<and>
        (\<forall>i\<in>set is. \<forall>t. task_at s i = Some t \<longrightarrow> terminal (Status t) \<or> \<not> g hit s t) \<or>
      c' \<and> open_ids s' \<subset> open_ids s)"
proof (induction "is" arbitrary: s hit c)
  case Nil
  then show ?case by auto
next
  case (Cons i "is")
  show ?case
  proof (cases "\<exists>t. task_at s i = Some t \<and> \<not> terminal (Status t) \<and> g hit s t")
    case True
    then obtain t where t: "task_at s i = Some t" "\<not> terminal (Status t)" "g hit s t" by blast
    let ?s = "put_task i (cancelled reason now t) s"
    have "cancel_step g reason now i (s, hit, c) = (?s, ID t # hit, True)"
      using t by (simp add: cancel_step_def)
    with Cons.prems have "fold (cancel_step g reason now) is (?s, ID t # hit, True) = (s', hit', c')" by simp
    moreover have "open_ids ?s \<subset> open_ids s"
      using t by (auto simp: open_ids_iff task_at_put cancelled_def split: if_splits)
    ultimately show ?thesis using Cons.IH[of ?s "ID t # hit" True] by auto
  next
    case False
    then have "cancel_step g reason now i (s, hit, c) = (s, hit, c)"
      by (auto simp: cancel_step_def split: option.splits)
    with Cons.prems Cons.IH[of s hit c] False show ?thesis by auto
  qed
qed

lemma cancel_round_open:
  "(s', hit', True) = cancel_round g reason now r \<Longrightarrow> card (open_ids s') < card (open_ids (fst r))"
  using cancel_fold_open[of g reason now "task_ids (fst r)" "fst r" "snd r" False s' hit' True]
  by (cases r) (auto simp: cancel_round_def eq_commute[of "(s', hit', True)"] intro: psubset_card_mono)

function cancel_loop :: "guard \<Rightarrow> string \<Rightarrow> time \<Rightarrow> plan_state \<times> string list \<Rightarrow> plan_state \<times> string list" where
  "cancel_loop g reason now r =
     (case cancel_round g reason now r of (s', hit', changed) \<Rightarrow>
        if changed then cancel_loop g reason now (s', hit') else (s', hit'))"
  by pat_completeness auto
termination
  by (relation "measure (\<lambda>(g, reason, now, r). card (open_ids (fst r)))")
     (auto dest: cancel_round_open)

declare cancel_loop.simps [simp del]

text \<open>Every property one cancellation keeps, the loop keeps; and it stops with nothing left to cancel.\<close>

lemma cancel_fold_invariant:
  assumes "P (s, hit)" and "fold (cancel_step g reason now) is (s, hit, c) = (s', hit', c')"
    and "\<And>s hit i t. P (s, hit) \<Longrightarrow> task_at s i = Some t \<Longrightarrow> \<not> terminal (Status t) \<Longrightarrow> g hit s t \<Longrightarrow>
          P (put_task i (cancelled reason now t) s, ID t # hit)"
  shows "P (s', hit')"
  using assms(1,2)
proof (induction "is" arbitrary: s hit c)
  case (Cons i "is")
  show ?case
  proof (cases "\<exists>t. task_at s i = Some t \<and> \<not> terminal (Status t) \<and> g hit s t")
    case True
    then obtain t where t: "task_at s i = Some t" "\<not> terminal (Status t)" "g hit s t" by blast
    then have "cancel_step g reason now i (s, hit, c) = (put_task i (cancelled reason now t) s, ID t # hit, True)"
      by (simp add: cancel_step_def)
    with Cons.IH[OF assms(3)[OF Cons.prems(1) t], of True] Cons.prems(2) show ?thesis by simp
  next
    case False
    then have "cancel_step g reason now i (s, hit, c) = (s, hit, c)"
      by (auto simp: cancel_step_def split: option.splits)
    with Cons show ?thesis by auto
  qed
qed simp

lemma cancel_loop_invariant:
  assumes "P r"
    and step: "\<And>s hit i t. P (s, hit) \<Longrightarrow> task_at s i = Some t \<Longrightarrow> \<not> terminal (Status t) \<Longrightarrow> g hit s t \<Longrightarrow>
          P (put_task i (cancelled reason now t) s, ID t # hit)"
  shows "P (cancel_loop g reason now r)"
  using assms
proof (induction g reason now r rule: cancel_loop.induct)
  case (1 g reason now r)
  obtain s hit where r: "r = (s, hit)" by (cases r)
  obtain s' hit' c where f: "cancel_round g reason now r = (s', hit', c)" by (metis prod_cases3)
  have "P (s', hit')"
    by (rule cancel_fold_invariant[where P = P, OF _ _ "1.prems"(2)])
       (use "1.prems"(1) f r in \<open>auto simp: cancel_round_def\<close>)
  with 1 f show ?case by (subst cancel_loop.simps) auto
qed

lemma cancel_loop_fixpoint:
  "cancel_loop g reason now r = (s', hit') \<Longrightarrow> task_at s' i = Some t \<Longrightarrow> terminal (Status t) \<or> \<not> g hit' s' t"
proof (induction g reason now r rule: cancel_loop.induct)
  case (1 g reason now r)
  obtain s hit where r: "r = (s, hit)" by (cases r)
  obtain s1 hit1 c where f: "cancel_round g reason now r = (s1, hit1, c)" by (metis prod_cases3)
  show ?case
  proof (cases c)
    case True
    with 1 f show ?thesis by (subst (asm) (2) cancel_loop.simps) auto
  next
    case False
    with 1 f have e: "s1 = s'" "hit1 = hit'" by (subst (asm) (2) cancel_loop.simps; simp)+
    from f r have "fold (cancel_step g reason now) (task_ids s) (s, hit, False) = (s1, hit1, c)"
      by (simp add: cancel_round_def)
    from cancel_fold_open[OF this] False have "s1 = s" "hit1 = hit"
      "\<forall>i\<in>set (task_ids s). \<forall>t. task_at s i = Some t \<longrightarrow> terminal (Status t) \<or> \<not> g hit s t" by auto
    with e "1.prems"(2) show ?thesis by (auto simp: task_ids_iff)
  qed
qed

section \<open>Cancel\<close>

definition hard_on :: "plan_state \<Rightarrow> string \<Rightarrow> dependency \<Rightarrow> bool" where
  "hard_on s failedID d =
     (dep_Kind d \<noteq> DepSuggests \<and>
      (dep_TaskID d = failedID \<or>
       (case task_at s (dep_TaskID d) of None \<Rightarrow> False | Some u \<Rightarrow> Status u = StatusCancelled)))"

definition cancelDescendants :: "string \<Rightarrow> string \<Rightarrow> time \<Rightarrow> plan_state \<Rightarrow> plan_state" where
  "cancelDescendants parentID reason now s =
     fst (cancel_loop (\<lambda>hit s t. ParentID t \<in> set (parentID # hit)) reason now (s, []))"

definition cancelBlockedDependents :: "string \<Rightarrow> string \<Rightarrow> time \<Rightarrow> plan_state \<Rightarrow> plan_state" where
  "cancelBlockedDependents failedID reason now s =
     fst (cancel_loop (\<lambda>hit s t. ID t \<noteq> RootID s \<and> list_ex (hard_on s failedID) (Dependencies t))
            reason now (s, []))"

definition Cancel :: "string \<Rightarrow> string \<Rightarrow> time \<Rightarrow> plan_state \<Rightarrow> plan_error + plan_state" where
  "Cancel i reason now = changeTask i (\<lambda>s t.
     orFail (refuse (i = RootID s) (work HarnessOwnsRoot))
     (orFail (refuse (terminal (Status t)) (work (AlreadyTerminal i)))
     (Inr (promote now
        (cancelBlockedDependents i (''dependency '' @ i @ '' was cancelled'') now
          (cancelDescendants i (''ancestor '' @ i @ '' was cancelled'') now
            (upd i (\<lambda>t. t\<lparr>Status := StatusCancelled, Error := TrimSpace reason, ClaimedBy := '''', Owner := '''',
                          SeenAt := 0, UpdatedAt := now, CompletedAt := now\<rparr>) s)))))))"

section \<open>What each cascade reaches, exactly\<close>

definition ids_ok :: "plan_state \<Rightarrow> bool" where
  "ids_ok s \<longleftrightarrow> (\<forall>i t. task_at s i = Some t \<longrightarrow> ID t = i)"

lemma plan_inv_ids: "plan_inv s \<Longrightarrow> ids_ok s"
  by (auto simp: ids_ok_def plan_inv_ID)

inductive open_under :: "plan_state \<Rightarrow> string \<Rightarrow> string \<Rightarrow> bool" for s p where
  child: "task_at s i = Some t \<Longrightarrow> \<not> terminal (Status t) \<Longrightarrow> ParentID t = p \<Longrightarrow> open_under s p i"
| below: "open_under s p j \<Longrightarrow> task_at s i = Some t \<Longrightarrow> \<not> terminal (Status t) \<Longrightarrow> ParentID t = j \<Longrightarrow>
    open_under s p i"

inductive blocked_by :: "plan_state \<Rightarrow> string \<Rightarrow> string \<Rightarrow> bool" for s f where
  direct: "task_at s i = Some t \<Longrightarrow> \<not> terminal (Status t) \<Longrightarrow> i \<noteq> RootID s \<Longrightarrow> d \<in> set (Dependencies t) \<Longrightarrow>
    hard_on s f d \<Longrightarrow> blocked_by s f i"
| chain: "blocked_by s f (dep_TaskID d) \<Longrightarrow> task_at s i = Some t \<Longrightarrow> \<not> terminal (Status t) \<Longrightarrow> i \<noteq> RootID s \<Longrightarrow>
    d \<in> set (Dependencies t) \<Longrightarrow> dep_Kind d \<noteq> DepSuggests \<Longrightarrow> blocked_by s f i"

text \<open>What a loop has done so far: the tasks it hit are cancelled, the others as they were.\<close>

definition hit_view :: "plan_state \<Rightarrow> string \<Rightarrow> time \<Rightarrow> (string \<Rightarrow> bool) \<Rightarrow> plan_state \<Rightarrow> bool" where
  "hit_view s reason now H s' \<longleftrightarrow> s'\<lparr>Tasks := []\<rparr> = s\<lparr>Tasks := []\<rparr> \<and>
     (\<forall>i. task_at s' i = map_option (\<lambda>t. if H i then cancelled reason now t else t) (task_at s i))"

lemma cancelled_terminal [simp]: "Status (cancelled reason now t) = StatusCancelled"
  "ParentID (cancelled reason now t) = ParentID t" "ID (cancelled reason now t) = ID t"
  "Dependencies (cancelled reason now t) = Dependencies t"
  by (simp_all add: cancelled_def)

lemma put_task_rest: "(put_task i t s)\<lparr>Tasks := []\<rparr> = s\<lparr>Tasks := []\<rparr>"
  by (simp add: put_task_def)

lemma hit_view_put:
  assumes v: "hit_view s reason now (\<lambda>i. i \<in> set hit) s1" and t: "task_at s1 i = Some t" and o: "\<not> terminal (Status t)"
  shows "task_at s i = Some t" "i \<notin> set hit"
    "hit_view s reason now (\<lambda>j. j \<in> set (i # hit)) (put_task i (cancelled reason now t) s1)"
proof -
  from v t obtain u where u: "task_at s i = Some u" "t = (if i \<in> set hit then cancelled reason now u else u)"
    by (auto simp: hit_view_def)
  with o show i: "i \<notin> set hit" by auto
  with u show s: "task_at s i = Some t" by simp
  show "hit_view s reason now (\<lambda>j. j \<in> set (i # hit)) (put_task i (cancelled reason now t) s1)"
    using v s i put_task_rest[of i "cancelled reason now t" s1] by (auto simp: hit_view_def task_at_put)
qed

lemma hit_view_root: "hit_view s reason now H s' \<Longrightarrow> RootID s' = RootID s"
proof -
  assume "hit_view s reason now H s'"
  then have "RootID (s'\<lparr>Tasks := []\<rparr>) = RootID (s\<lparr>Tasks := []\<rparr>)" by (simp add: hit_view_def)
  then show ?thesis by simp
qed

lemma cancelDescendants_exact:
  assumes ids: "ids_ok s"
  shows "hit_view s reason now (open_under s p) (cancelDescendants p reason now s)"
proof -
  let ?g = "\<lambda>hit s t. ParentID t \<in> set (p # hit)"
  obtain s' hit where r: "cancel_loop ?g reason now (s, []) = (s', hit)" by fastforce
  let ?P = "\<lambda>(s1, hit). hit_view s reason now (\<lambda>i. i \<in> set hit) s1 \<and> (\<forall>i\<in>set hit. open_under s p i)"
  have "?P (cancel_loop ?g reason now (s, []))"
  proof (rule cancel_loop_invariant[where P = ?P])
    show "?P (s, [])" by (auto simp: hit_view_def option.map_id0[unfolded id_def])
  next
    fix s1 hit i t
    assume P: "?P (s1, hit)" and t: "task_at s1 i = Some t" "\<not> terminal (Status t)" and g: "ParentID t \<in> set (p # hit)"
    from P have v: "hit_view s reason now (\<lambda>i. i \<in> set hit) s1" by simp
    note h = hit_view_put[OF v t]
    have "ID t = i" using ids h(1) by (simp add: ids_ok_def)
    moreover have "open_under s p i" using g P h(1) t(2) by (auto intro: open_under.intros)
    ultimately show "?P (put_task i (cancelled reason now t) s1, ID t # hit)" using h(3) P by auto
  qed
  with r have v: "hit_view s reason now (\<lambda>i. i \<in> set hit) s'" and sub: "\<forall>i\<in>set hit. open_under s p i" by auto
  have open_hit: "i \<in> set hit" if "task_at s i = Some t" "\<not> terminal (Status t)" "ParentID t \<in> set (p # hit)" for i t
  proof (rule ccontr)
    assume "i \<notin> set hit"
    with v that have "task_at s' i = Some t" by (auto simp: hit_view_def)
    from cancel_loop_fixpoint[OF r this] that show False by auto
  qed
  have "open_under s p i \<Longrightarrow> i \<in> set hit" for i
    by (induction rule: open_under.induct) (auto intro: open_hit)
  with sub have "open_under s p = (\<lambda>i. i \<in> set hit)" by auto
  with v r show ?thesis by (simp add: cancelDescendants_def)
qed

lemma cancelBlocked_exact:
  assumes ids: "ids_ok s"
  shows "hit_view s reason now (blocked_by s f) (cancelBlockedDependents f reason now s)"
proof -
  let ?g = "\<lambda>(hit::string list) s t. ID t \<noteq> RootID s \<and> list_ex (hard_on s f) (Dependencies t)"
  obtain s' hit where r: "cancel_loop ?g reason now (s, []) = (s', hit)" by fastforce
  let ?P = "\<lambda>(s1, hit). hit_view s reason now (\<lambda>i. i \<in> set hit) s1 \<and> (\<forall>i\<in>set hit. blocked_by s f i)"
  have hard: "hard_on s1 f d \<longleftrightarrow> hard_on s f d \<or> dep_Kind d \<noteq> DepSuggests \<and> dep_TaskID d \<in> set hit \<and> task_at s (dep_TaskID d) \<noteq> None"
    if "hit_view s reason now (\<lambda>i. i \<in> set hit) s1" for s1 hit d
    using that by (cases "task_at s (dep_TaskID d)") (auto simp: hard_on_def hit_view_def)
  have "?P (cancel_loop ?g reason now (s, []))"
  proof (rule cancel_loop_invariant[where P = ?P])
    show "?P (s, [])" by (auto simp: hit_view_def option.map_id0[unfolded id_def])
  next
    fix s1 hit i t
    assume P: "?P (s1, hit)" and t: "task_at s1 i = Some t" "\<not> terminal (Status t)"
      and g: "ID t \<noteq> RootID s1 \<and> list_ex (hard_on s1 f) (Dependencies t)"
    from P have v: "hit_view s reason now (\<lambda>i. i \<in> set hit) s1" by simp
    note h = hit_view_put[OF v t]
    have i: "ID t = i" using ids h(1) by (simp add: ids_ok_def)
    from g obtain d where d: "d \<in> set (Dependencies t)" "hard_on s1 f d" by (auto simp: list_ex_iff)
    have "i \<noteq> RootID s" using g i hit_view_root[OF v] by simp
    with d hard[OF v] P h(1) t(2) have "blocked_by s f i" by (auto intro: blocked_by.intros)
    with h(3) P i show "?P (put_task i (cancelled reason now t) s1, ID t # hit)" by auto
  qed
  with r have v: "hit_view s reason now (\<lambda>i. i \<in> set hit) s'" and sub: "\<forall>i\<in>set hit. blocked_by s f i" by auto
  have open_hit: "i \<in> set hit" if "task_at s i = Some t" "\<not> terminal (Status t)" "i \<noteq> RootID s"
    "d \<in> set (Dependencies t)" "hard_on s' f d" for i t d
  proof (rule ccontr)
    assume "i \<notin> set hit"
    with v that have "task_at s' i = Some t" by (auto simp: hit_view_def)
    from cancel_loop_fixpoint[OF r this] that ids hit_view_root[OF v] show False
      by (auto simp: list_ex_iff ids_ok_def)
  qed
  have "blocked_by s f i \<Longrightarrow> i \<in> set hit" for i
  proof (induction rule: blocked_by.induct)
    case (direct i t d)
    then show ?case using hard[OF v] by (intro open_hit) auto
  next
    case (chain d i t)
    from chain.hyps(1) have "task_at s (dep_TaskID d) \<noteq> None" by cases auto
    with chain hard[OF v] show ?case by (intro open_hit) auto
  qed
  with sub have "blocked_by s f = (\<lambda>i. i \<in> set hit)" by auto
  with v r show ?thesis by (simp add: cancelBlockedDependents_def)
qed

section \<open>What a cancellation leaves\<close>

lemma keeps_cancelled [simp]: "keeps t (cancelled reason now t)"
  by (simp add: keeps_def cancelled_def)

lemma cancel_loop_shape: "same_shape s (fst (cancel_loop g reason now (s, hit)))"
proof -
  have "same_shape s (fst (cancel_loop g reason now (s, hit)))"
    by (rule cancel_loop_invariant[where P = "\<lambda>r. same_shape s (fst r)"])
       (auto intro: same_shape_trans[OF _ same_shape_put])
  then show ?thesis .
qed

lemma cancel_loop_frozen: "ended_frozen s (fst (cancel_loop g reason now (s, hit)))"
  by (rule cancel_loop_invariant[where P = "\<lambda>r. ended_frozen s (fst r)"])
     (auto intro: ended_frozen_trans[OF _ ended_frozen_put])

lemma Cancel_cases:
  assumes "Cancel i reason now s = Inr s'"
  obtains t where "task_at s i = Some t" "i \<noteq> RootID s" "\<not> terminal (Status t)"
    "s' = promote now (cancelBlockedDependents i (''dependency '' @ i @ '' was cancelled'') now
          (cancelDescendants i (''ancestor '' @ i @ '' was cancelled'') now
            (put_task i (t\<lparr>Status := StatusCancelled, Error := TrimSpace reason, ClaimedBy := '''', Owner := '''',
                          SeenAt := 0, UpdatedAt := now, CompletedAt := now\<rparr>) s)))"
  using assms by (auto simp: Cancel_def upd_task_def)

lemma Cancel_shape: "Cancel i reason now s = Inr s' \<Longrightarrow> same_shape s s'"
proof -
  assume "Cancel i reason now s = Inr s'"
  then show ?thesis
  proof (rule Cancel_cases)
    fix t :: task
    let ?t = "t\<lparr>Status := StatusCancelled, Error := TrimSpace reason, ClaimedBy := '''', Owner := '''',
        SeenAt := 0, UpdatedAt := now, CompletedAt := now\<rparr>"
    assume t: "task_at s i = Some t" and s': "s' = promote now (cancelBlockedDependents i
        (''dependency '' @ i @ '' was cancelled'') now
          (cancelDescendants i (''ancestor '' @ i @ '' was cancelled'') now (put_task i ?t s)))"
    have k: "keeps t ?t" by (simp add: keeps_def)
    show ?thesis unfolding s' cancelBlockedDependents_def cancelDescendants_def
      by (intro same_shape_promoteI same_shape_trans[OF _ cancel_loop_shape] same_shape_put[OF t k])
  qed
qed

lemma Cancel_frozen: "Cancel i reason now s = Inr s' \<Longrightarrow> ended_frozen s s'"
proof -
  assume "Cancel i reason now s = Inr s'"
  then show ?thesis
  proof (rule Cancel_cases)
    fix t :: task
    let ?t = "t\<lparr>Status := StatusCancelled, Error := TrimSpace reason, ClaimedBy := '''', Owner := '''',
        SeenAt := 0, UpdatedAt := now, CompletedAt := now\<rparr>"
    assume t: "task_at s i = Some t" "\<not> terminal (Status t)" and s': "s' = promote now (cancelBlockedDependents i
        (''dependency '' @ i @ '' was cancelled'') now
          (cancelDescendants i (''ancestor '' @ i @ '' was cancelled'') now (put_task i ?t s)))"
    show ?thesis unfolding s' cancelBlockedDependents_def cancelDescendants_def
      by (intro ended_frozen_promoteI ended_frozen_trans[OF _ cancel_loop_frozen] ended_frozen_put[OF t])
  qed
qed

text \<open>Nothing open is left under a cancelled task, at any depth.\<close>

lemma hit_view_cancelled:
  assumes "hit_view s reason now H s'" and "\<exists>t. task_at s j = Some t \<and> (H j \<or> Status t = StatusCancelled)"
  shows "\<exists>t. task_at s' j = Some t \<and> Status t = StatusCancelled"
  using assms by (cases "H j") (auto simp: hit_view_def cancelled_def)

lemma Cancel_subtree:
  assumes ids: "ids_ok s" and c: "Cancel i reason now s = Inr s'" and u: "j = i \<or> open_under s i j"
  shows "\<exists>t'. task_at s' j = Some t' \<and> Status t' = StatusCancelled"
  using c
proof (rule Cancel_cases)
  fix t :: task
  let ?t = "t\<lparr>Status := StatusCancelled, Error := TrimSpace reason, ClaimedBy := '''', Owner := '''',
      SeenAt := 0, UpdatedAt := now, CompletedAt := now\<rparr>"
  let ?s1 = "put_task i ?t s"
  let ?s2 = "cancelDescendants i (''ancestor '' @ i @ '' was cancelled'') now ?s1"
  assume t: "task_at s i = Some t" and s': "s' = promote now (cancelBlockedDependents i
        (''dependency '' @ i @ '' was cancelled'') now ?s2)"
  have "ids_ok ?s1" using ids t by (auto simp: ids_ok_def task_at_put)
  note e = cancelDescendants_exact[OF this]
  have "open_under s i j \<Longrightarrow> j = i \<or> open_under ?s1 i j"
  proof (induction rule: open_under.induct)
    case (child k v)
    then show ?case by (cases "k = i") (auto intro!: open_under.child simp: task_at_put)
  next
    case (below m k v)
    show ?case
    proof (cases "k = i")
      case False
      with below have k: "task_at ?s1 k = Some v" by (simp add: task_at_put)
      from below.IH show ?thesis
      proof
        assume "m = i"
        with k below show ?thesis by (auto intro: open_under.child)
      next
        assume "open_under ?s1 i m"
        with k below show ?thesis by (auto intro: open_under.below)
      qed
    qed simp
  qed
  then have "j = i \<or> open_under ?s1 i j" using u by blast
  moreover have "\<exists>v. task_at s j = Some v" using u t by (auto elim: open_under.cases)
  ultimately have v: "\<exists>v. task_at ?s2 j = Some v \<and> Status v = StatusCancelled"
    by (intro hit_view_cancelled[OF e]) (auto simp: task_at_put)
  have "ended_frozen ?s2 s'" unfolding s' cancelBlockedDependents_def
    by (rule ended_frozen_promoteI[OF cancel_loop_frozen])
  with v show ?thesis unfolding ended_frozen_def by (metis terminal_simps(3))
qed

section \<open>The run's own endings\<close>

datatype finalize = FinalOK | FinalNoRoot | FinalOpen "string list" nat

text \<open>The first eight open tasks, each with its status, and how many more there are.\<close>

definition CanFinalize :: "plan_state \<Rightarrow> finalize" where
  "CanFinalize s =
     (if task_at s (RootID s) = None then FinalNoRoot
      else let opn = map (\<lambda>t. ID t @ ''('' @ statusWord (Status t) @ '')'')
                       (filter (\<lambda>t. ID t \<noteq> RootID s \<and> \<not> terminal (Status t)) (List.map_filter (task_at s) (Order s)))
           in if opn = [] then FinalOK
              else if length opn > 8 then FinalOpen (take 8 opn) (length opn - 8) else FinalOpen opn 0)"

definition CompleteRoot :: "string \<Rightarrow> time \<Rightarrow> plan_state \<Rightarrow> plan_error + plan_state" where
  "CompleteRoot result now s =
     (case task_at s (RootID s) of
        None \<Rightarrow> Inl ErrNoChange
      | Some root \<Rightarrow>
          orFail (refuse (terminal (Status root)) ErrNoChange)
          (orFail (refuseParked root)
          (orFail (refuse (hasOpenDescendants s (ID root)) (work OpenDescendants))
          (Inr (upd (RootID s)
             (\<lambda>t. t\<lparr>Status := (if list_ex (\<lambda>u. ID u \<noteq> ID root \<and> Status u \<noteq> StatusDone) (task_list s)
                               then StatusFailed else StatusDone),
                     Result := result, UpdatedAt := now, CompletedAt := now\<rparr>) s)))))"

definition ended :: "string \<Rightarrow> time \<Rightarrow> task \<Rightarrow> task" where
  "ended reason now t =
     (if terminal (Status t) then t
      else t\<lparr>Status := StatusCancelled, Error := reason, ClaimedBy := '''', Owner := '''', SeenAt := 0,
             UpdatedAt := now, CompletedAt := now\<rparr>)"

definition closeRoot :: "status \<Rightarrow> string \<Rightarrow> time \<Rightarrow> plan_state \<Rightarrow> plan_error + plan_state" where
  "closeRoot rootStatus reason now s =
     (case task_at s (RootID s) of
        None \<Rightarrow> Inl ErrNoChange
      | Some root \<Rightarrow>
          if terminal (Status root) then Inl ErrNoChange
          else Inr (promote now (upd (RootID s) (\<lambda>t. t\<lparr>Status := rootStatus\<rparr>)
                 (fold (\<lambda>i. upd i (ended (TrimSpace reason) now)) (task_ids s) s))))"

definition StopRoot :: "string \<Rightarrow> time \<Rightarrow> plan_state \<Rightarrow> plan_error + plan_state" where
  "StopRoot = closeRoot StatusCancelled"

definition EndRoot :: "string \<Rightarrow> time \<Rightarrow> plan_state \<Rightarrow> plan_error + plan_state" where
  "EndRoot = closeRoot StatusFailed"

text \<open>No task is given an end before its own creation.\<close>

definition ended_at :: "string \<Rightarrow> string \<Rightarrow> time \<Rightarrow> task \<Rightarrow> task" where
  "ended_at rootID reason at t =
     (if terminal (Status t) \<or> ID t = rootID then t
      else ended reason (if at < CreatedAt t then CreatedAt t else at) t)"

definition end_time :: "time \<Rightarrow> time \<Rightarrow> task \<Rightarrow> time" where
  "end_time at now root =
     (let e = (if at \<noteq> 0 \<and> at < now then at else now) in if e < CreatedAt root then CreatedAt root else e)"

definition FailRootAt :: "string \<Rightarrow> time \<Rightarrow> time \<Rightarrow> plan_state \<Rightarrow> plan_error + plan_state" where
  "FailRootAt reason at now s =
     (case task_at s (RootID s) of
        None \<Rightarrow> Inl ErrNoChange
      | Some root \<Rightarrow>
          if terminal (Status root) then Inl ErrNoChange
          else let e = end_time at now root in
            Inr (promote e (upd (RootID s)
               (\<lambda>t. t\<lparr>Status := StatusFailed, Error := TrimSpace reason, ClaimedBy := '''', Owner := '''', SeenAt := 0,
                       UpdatedAt := e, CompletedAt := e\<rparr>)
               (fold (\<lambda>i. upd i (ended_at (ID root) (TrimSpace reason) e)) (task_ids s) s))))"

definition FailRoot :: "string \<Rightarrow> time \<Rightarrow> plan_state \<Rightarrow> plan_error + plan_state" where
  "FailRoot reason = FailRootAt reason 0"

section \<open>What the run's endings leave\<close>

lemma fold_upd_idem:
  assumes "\<And>t. f (f t) = f t"
  shows "task_at (fold (\<lambda>i. upd_task i f) is s) j = (if j \<in> set is then map_option f (task_at s j) else task_at s j)"
proof (induction "is" arbitrary: s)
  case (Cons i "is")
  then show ?case by (cases "task_at s j") (auto simp: task_at_upd assms)
qed simp

lemma fold_upd_rest: "(fold (\<lambda>i. upd_task i f) is s)\<lparr>Tasks := []\<rparr> = s\<lparr>Tasks := []\<rparr>"
proof (induction "is" arbitrary: s)
  case (Cons i "is")
  have "(upd_task i f s)\<lparr>Tasks := []\<rparr> = s\<lparr>Tasks := []\<rparr>"
    by (simp add: upd_task_def put_task_def split: option.split)
  with Cons show ?case by simp
qed simp

lemma fold_upd_all:
  assumes "\<And>t. f (f t) = f t"
  shows "task_at (fold (\<lambda>i. upd_task i f) (task_ids s) s) j = map_option f (task_at s j)"
proof (cases "task_at s j")
  case None
  then show ?thesis using fold_upd_idem[of f "task_ids s" s j] assms by (auto split: if_splits)
next
  case (Some t)
  then have "j \<in> set (task_ids s)" by (auto simp: task_ids_iff)
  with Some show ?thesis using fold_upd_idem[of f "task_ids s" s j] assms by simp
qed

lemma ended_idem [simp]: "ended reason now (ended reason now t) = ended reason now t"
  by (simp add: ended_def)

lemma ended_terminal [simp]: "terminal (Status (ended reason now t))"
  by (simp add: ended_def)

lemma ended_at_idem [simp]: "ended_at r reason at (ended_at r reason at t) = ended_at r reason at t"
  by (simp add: ended_at_def ended_def)

lemma ended_keeps [simp]: "keeps t (ended reason now t)"
  by (simp add: ended_def keeps_def)

lemma ended_at_keeps [simp]: "keeps t (ended_at r reason at t)"
  by (simp add: ended_at_def)

lemma closeRoot_cases:
  assumes "closeRoot st reason now s = Inr s'"
  obtains root where "task_at s (RootID s) = Some root" "\<not> terminal (Status root)"
    "s' = promote now (upd_task (RootID s) (\<lambda>t. t\<lparr>Status := st\<rparr>)
            (fold (\<lambda>i. upd_task i (ended (TrimSpace reason) now)) (task_ids s) s))"
  using assms by (auto simp: closeRoot_def split: option.splits if_splits)

lemma closeRoot_shape: "validStatus st \<Longrightarrow> closeRoot st reason now s = Inr s' \<Longrightarrow> same_shape s s'"
  by (erule closeRoot_cases)
     (auto simp: keeps_def intro!: same_shape_promoteI
        intro: same_shape_trans[OF same_shape_fold[OF same_shape_upd[OF ended_keeps]] same_shape_upd])

text \<open>Everything ends: the root with its own word, every open task cancelled, every ending kept.\<close>

lemma closeRoot_ends:
  assumes c: "closeRoot st reason now s = Inr s'" and st: "terminal st" and t: "task_at s i = Some t"
  shows "task_at s' i = Some (if i = RootID s then (ended (TrimSpace reason) now t)\<lparr>Status := st\<rparr>
                              else ended (TrimSpace reason) now t)"
  using c
proof (rule closeRoot_cases)
  let ?s1 = "fold (\<lambda>i. upd_task i (ended (TrimSpace reason) now)) (task_ids s) s"
  let ?s2 = "upd_task (RootID s) (\<lambda>t. t\<lparr>Status := st\<rparr>) ?s1"
  let ?t = "if i = RootID s then (ended (TrimSpace reason) now t)\<lparr>Status := st\<rparr> else ended (TrimSpace reason) now t"
  assume s': "s' = promote now ?s2"
  have "task_at ?s1 i = Some (ended (TrimSpace reason) now t)"
    using t by (simp add: fold_upd_all)
  then have "task_at ?s2 i = Some ?t" by (cases "i = RootID s") (simp_all add: task_at_upd)
  moreover have "terminal (Status ?t)" using st by simp
  ultimately show ?thesis unfolding s' by (intro promote_settled) auto
qed

lemma FailRootAt_cases:
  assumes "FailRootAt reason at now s = Inr s'"
  obtains root where "task_at s (RootID s) = Some root" "\<not> terminal (Status root)"
    "s' = promote (end_time at now root) (upd_task (RootID s)
       (\<lambda>t. t\<lparr>Status := StatusFailed, Error := TrimSpace reason, ClaimedBy := '''', Owner := '''', SeenAt := 0,
               UpdatedAt := end_time at now root, CompletedAt := end_time at now root\<rparr>)
       (fold (\<lambda>i. upd_task i (ended_at (ID root) (TrimSpace reason) (end_time at now root))) (task_ids s) s))"
  using assms by (auto simp: FailRootAt_def Let_def split: option.splits if_splits)

lemma FailRootAt_shape: "FailRootAt reason at now s = Inr s' \<Longrightarrow> same_shape s s'"
  by (erule FailRootAt_cases)
     (auto simp: keeps_def intro!: same_shape_promoteI
        intro: same_shape_trans[OF same_shape_fold[OF same_shape_upd[OF ended_at_keeps]] same_shape_upd])

lemma FailRootAt_ends:
  assumes ids: "ids_ok s" and c: "FailRootAt reason at now s = Inr s'" and t: "task_at s i = Some t"
  shows "\<exists>t'. task_at s' i = Some t' \<and> terminal (Status t') \<and> (terminal (Status t) \<and> i \<noteq> RootID s \<longrightarrow> t' = t) \<and>
     (\<not> terminal (Status t) \<longrightarrow> CreatedAt t \<le> CompletedAt t' \<and>
        Status t' = (if i = RootID s then StatusFailed else StatusCancelled))"
  using c
proof (rule FailRootAt_cases)
  fix root
  let ?e = "end_time at now root"
  let ?f = "ended_at (ID root) (TrimSpace reason) ?e"
  let ?r = "\<lambda>t. t\<lparr>Status := StatusFailed, Error := TrimSpace reason, ClaimedBy := '''', Owner := '''', SeenAt := 0,
       UpdatedAt := ?e, CompletedAt := ?e\<rparr>"
  let ?s1 = "fold (\<lambda>i. upd_task i ?f) (task_ids s) s"
  assume root: "task_at s (RootID s) = Some root"
    and s': "s' = promote ?e (upd_task (RootID s) ?r ?s1)"
  have rid: "ID root = RootID s" using ids root by (simp add: ids_ok_def)
  have idt: "ID t = i" using ids t by (simp add: ids_ok_def)
  have s1: "task_at ?s1 i = Some (?f t)" using t by (simp add: fold_upd_all)
  show ?thesis
  proof (cases "i = RootID s")
    case True
    then have [simp]: "t = root" using t root by simp
    have "?f root = root" by (simp add: ended_at_def)
    with s1 True have "task_at (upd_task (RootID s) ?r ?s1) i = Some (?r root)" by (simp add: task_at_upd)
    then have "task_at s' i = Some (?r root)" unfolding s' by (rule promote_settled) simp
    moreover have "CreatedAt root \<le> ?e" by (simp add: end_time_def Let_def)
    ultimately show ?thesis using True by auto
  next
    case False
    with s1 have "task_at (upd_task (RootID s) ?r ?s1) i = Some (?f t)" by (simp add: task_at_upd)
    moreover have "terminal (Status (?f t))" using False idt rid by (simp add: ended_at_def)
    ultimately have "task_at s' i = Some (?f t)" unfolding s' by (intro promote_settled) auto
    with False idt rid show ?thesis by (auto simp: ended_at_def ended_def)
  qed
qed

lemma CompleteRoot_shape: "CompleteRoot result now s = Inr s' \<Longrightarrow> same_shape s s'"
  by (auto simp: CompleteRoot_def keeps_def split: option.splits)

text \<open>A run completes only when everything under it has ended, done only when all of it is done.\<close>

lemma CompleteRoot_result:
  assumes r: "rep_ok s" and ids: "ids_ok s" and c: "CompleteRoot result now s = Inr s'"
  shows "(\<forall>i t. task_at s i = Some t \<and> i \<noteq> RootID s \<longrightarrow> terminal (Status t)) \<and>
    (\<exists>t'. task_at s' (RootID s) = Some t' \<and> Result t' = result \<and>
       Status t' = (if \<forall>i t. task_at s i = Some t \<and> i \<noteq> RootID s \<longrightarrow> Status t = StatusDone
                    then StatusDone else StatusFailed))"
proof -
  from c obtain root where root: "task_at s (RootID s) = Some root"
    and o: "\<not> hasOpenDescendants s (ID root)"
    and s': "s' = upd_task (RootID s)
       (\<lambda>t. t\<lparr>Status := (if list_ex (\<lambda>u. ID u \<noteq> ID root \<and> Status u \<noteq> StatusDone) (task_list s)
                         then StatusFailed else StatusDone), Result := result, UpdatedAt := now, CompletedAt := now\<rparr>) s"
    by (auto simp: CompleteRoot_def split: option.splits)
  have rid: "ID root = RootID s" using ids root by (simp add: ids_ok_def)
  have tl: "t \<in> set (task_list s) \<longleftrightarrow> (\<exists>i. task_at s i = Some t \<and> ID t = i)" for t
    using task_list_iff[OF r] ids by (auto simp: ids_ok_def)
  have idD: "task_at s i = Some t \<Longrightarrow> ID t = i" for i t using ids by (simp add: ids_ok_def)
  have "terminal (Status t)" if "task_at s i = Some t" "i \<noteq> RootID s" for i t
    using o that idD[OF that(1)] tl[of t] by (auto simp: hasOpenDescendants_def list_ex_iff rid)
  moreover have "list_ex (\<lambda>u. ID u \<noteq> ID root \<and> Status u \<noteq> StatusDone) (task_list s) \<longleftrightarrow>
      \<not> (\<forall>i t. task_at s i = Some t \<and> i \<noteq> RootID s \<longrightarrow> Status t = StatusDone)"
    unfolding list_ex_iff Bex_def tl rid using idD by metis
  ultimately show ?thesis using root by (auto simp: s' task_at_upd)
qed

interpretation cancel: plan_operation "\<lambda>(i, reason). Cancel i reason"
  by (rule shape_operation) (auto intro: Cancel_shape)

interpretation complete_root: plan_operation CompleteRoot
  by (rule shape_operation) (auto intro: CompleteRoot_shape)

interpretation stop_root: plan_operation StopRoot
  by (rule shape_operation) (auto simp: StopRoot_def intro: closeRoot_shape[rotated])

interpretation end_root: plan_operation EndRoot
  by (rule shape_operation) (auto simp: EndRoot_def intro: closeRoot_shape[rotated])

interpretation fail_root: plan_operation "\<lambda>(reason, at). FailRootAt reason at"
  by (rule shape_operation) (auto intro: FailRootAt_shape)

end
