(* ===== verification/PlanDelete.thy ===== *)
theory PlanDelete
  imports PlanSpend PlanArchive PlanEdit PlanCascade
begin

text \<open>
  Taking records out for good: \<^verbatim>\<open>DeleteSubtree\<close> of \<^verbatim>\<open>internal/plandb/delete.go\<close>, and the
  transaction \<^verbatim>\<open>Archive\<close> makes of its selection. One reading of the clock stands for the
  several an operation makes.
\<close>

section \<open>Which records go\<close>

text \<open>The live tasks and the archived ones under one map, an archived record over a live one.\<close>

definition allRecords :: "plan_state \<Rightarrow> task list \<Rightarrow> (string \<times> task) list" where
  "allRecords s archived = fold (\<lambda>t. AList.update (ID t) t) archived (Tasks s)"

definition doom_step :: "string \<times> task \<Rightarrow> string list \<times> bool \<Rightarrow> string list \<times> bool" where
  "doom_step = (\<lambda>(key, t) (doomed, changed).
     if ParentID t \<in> set doomed \<and> key \<notin> set doomed then (key # doomed, True) else (doomed, changed))"

definition doom_round :: "(string \<times> task) list \<Rightarrow> string list \<Rightarrow> string list \<times> bool" where
  "doom_round all doomed = fold doom_step all (doomed, False)"

lemma doom_fold:
  "fold doom_step kvs (doomed, changed) = (doomed', changed') \<Longrightarrow> set kvs \<subseteq> set all \<Longrightarrow>
     set doomed \<subseteq> set doomed' \<and> set doomed' \<subseteq> set doomed \<union> fst ` set kvs \<and>
     (changed' \<longrightarrow> changed \<or> set doomed \<subset> set doomed') \<and> (\<not> changed' \<longrightarrow> doomed' = doomed \<and> \<not> changed \<and>
       (\<forall>(k, t)\<in>set kvs. ParentID t \<in> set doomed \<longrightarrow> k \<in> set doomed))"
proof (induction kvs arbitrary: doomed changed)
  case (Cons p kvs)
  obtain k t where p: "p = (k, t)" by (cases p)
  show ?case
  proof (cases "ParentID t \<in> set doomed \<and> k \<notin> set doomed")
    case True
    with Cons.prems p have "fold doom_step kvs (k # doomed, True) = (doomed', changed')" by (simp add: doom_step_def)
    from Cons.IH[OF this] Cons.prems(2) True p show ?thesis by auto
  next
    case False
    with Cons.prems p have "fold doom_step kvs (doomed, changed) = (doomed', changed')" by (auto simp: doom_step_def)
    from Cons.IH[OF this] Cons.prems(2) False p show ?thesis by auto
  qed
qed auto

lemma doom_round_progress:
  assumes "doom_round all doomed = (doomed', True)"
  shows "card (fst ` set all - set doomed') < card (fst ` set all - set doomed)"
proof -
  from assms have f: "fold doom_step all (doomed, False) = (doomed', True)" by (simp add: doom_round_def)
  have "fst ` set all - set doomed' \<subset> fst ` set all - set doomed"
    using doom_fold[OF f subset_refl] by auto
  then show ?thesis by (intro psubset_card_mono) auto
qed

function doomLoop :: "(string \<times> task) list \<Rightarrow> string list \<Rightarrow> string list" where
  "doomLoop all doomed = (case doom_round all doomed of
     (doomed', changed) \<Rightarrow> if changed then doomLoop all doomed' else doomed')"
  by pat_completeness auto

termination
  by (relation "measure (\<lambda>(all, doomed). card (fst ` set all - set doomed))")
     (auto simp: doom_round_progress)

declare doomLoop.simps [simp del]

section \<open>The change to the plan\<close>

text \<open>One survivor's edges: a deleted hard prerequisite ends an open task, every deleted edge is dropped.\<close>

fun dropEdges :: "string list \<Rightarrow> time \<Rightarrow> dependency list \<Rightarrow> dependency list \<Rightarrow> task \<Rightarrow> task" where
  "dropEdges doomed now [] kept t = t\<lparr>Dependencies := kept\<rparr>"
| "dropEdges doomed now (d # ds) kept t =
     (if dep_TaskID d \<notin> set doomed then dropEdges doomed now ds (kept @ [d]) t
      else if dep_Kind d \<noteq> DepSuggests \<and> \<not> terminal (Status t)
      then dropEdges doomed now ds kept
             (t\<lparr>Status := StatusCancelled, Error := ''dependency was deleted'', ClaimedBy := '''', Owner := '''',
                CompletedAt := now\<rparr>)
      else dropEdges doomed now ds kept t)"

definition deleteRecords :: "string \<Rightarrow> time \<Rightarrow> task list \<Rightarrow> plan_state \<Rightarrow> plan_error + plan_state \<times> string list" where
  "deleteRecords i now archived s =
     (let all = allRecords s archived;
          order = Order s @ map ID archived
      in if map_of all i = None then Inl NoLongerAvailable
      else let doomed = doomLoop all [i];
               ids = filter (\<lambda>k. k \<in> set doomed) order;
               s1 = s\<lparr>Tasks := filter (\<lambda>(k, t). k \<notin> set ids) (Tasks s), Deleted := Deleted s \<union> set ids\<rparr>;
               s2 = fold (\<lambda>d. cancelBlockedDependents d ''dependency was deleted'' now) doomed s1;
               s3 = s2\<lparr>Tasks := map (\<lambda>(k, t). (k, dropEdges doomed now (Dependencies t) [] t)) (Tasks s2)\<rparr>
           in Inr (recomputeComposite (s3\<lparr>Order := keepIDs (Order s3) doomed, Notes := keepNotes (Notes s3) doomed,
                     Contexts := keepContexts (Contexts s3) doomed\<rparr>), ids))"

text \<open>The transaction: what hangs on the records goes with them.\<close>

definition forget :: "string list \<Rightarrow> 'usd plan_db \<Rightarrow> 'usd plan_db" where
  "forget ids db = db\<lparr>t_live := filter (\<lambda>r. l_task_id r \<notin> set ids) (t_live db),
     t_spend := filter (\<lambda>r. s_task_id r \<notin> set ids) (t_spend db),
     t_archived := filter (\<lambda>r. r_id r \<notin> set ids) (t_archived db)\<rparr>"

definition DeleteSubtree :: "io \<Rightarrow> string \<Rightarrow> time \<Rightarrow> store \<Rightarrow> 'usd plan_db \<Rightarrow>
    (plan_error + string list) \<times> store \<times> 'usd plan_db" where
  "DeleteSubtree w i now st db =
     (case beginWrite w st of
        Some e \<Rightarrow> (Inl e, st, db)
      | None \<Rightarrow>
          (case andThen (loadState db) (\<lambda>fresh.
                andThen (loadArchived (t_archived db)) (\<lambda>archived.
                andThen (deleteRecords (bareTaskID i) now archived fresh) (\<lambda>(s, ids).
                andThen (saveState s (forget ids db)) (\<lambda>db'. Inr (s, ids, db'))))) of
             Inl e \<Rightarrow> (Inl e, st, db)
           | Inr (s, ids, db') \<Rightarrow>
               if io_commit w then (Inr ids, st\<lparr>data := s\<rparr>, db') else (Inl CommitFailed, st, db)))"

text \<open>Archiving's transaction, over the selection of \<^verbatim>\<open>PlanArchive\<close>.\<close>

definition ArchiveTx :: "io \<Rightarrow> time \<Rightarrow> time \<Rightarrow> store \<Rightarrow> 'usd plan_db \<Rightarrow>
    (plan_error + task list) \<times> store \<times> 'usd plan_db" where
  "ArchiveTx w olderThan now st db =
     (case beginWrite w st of
        Some e \<Rightarrow> (Inl e, st, db)
      | None \<Rightarrow>
          (case loadState db of
             Inl e \<Rightarrow> (Inl e, st, db)
           | Inr fresh \<Rightarrow>
               (case Archive olderThan now fresh of
                  None \<Rightarrow> (Inr [], st\<lparr>data := fresh\<rparr>, db)
                | Some (s, moved) \<Rightarrow>
                    (case andThen (insertArchived moved now (t_archived db)) (\<lambda>rows.
                          saveState s (db\<lparr>t_archived := rows\<rparr>)) of
                       Inl e \<Rightarrow> (Inl e, st, db)
                     | Inr db' \<Rightarrow> if io_commit w then (Inr moved, st\<lparr>data := s\<rparr>, db')
                                 else (Inl CommitFailed, st, db)))))"

definition Archived :: "io \<Rightarrow> store \<Rightarrow> 'usd plan_db \<Rightarrow> plan_error + task list" where
  "Archived w st db =
     (case errIfClosed st of Some e \<Rightarrow> Inl e
      | None \<Rightarrow> if io_read w then loadArchived (t_archived db) else Inl ReadFailed)"

section \<open>Exactly the subtree\<close>

definition closed_in :: "(string \<times> task) list \<Rightarrow> string set \<Rightarrow> bool" where
  "closed_in all X \<longleftrightarrow> (\<forall>(k, t)\<in>set all. ParentID t \<in> X \<longrightarrow> k \<in> X)"

lemma doom_fold_least:
  "closed_in all X \<Longrightarrow> set doomed \<subseteq> X \<Longrightarrow> set kvs \<subseteq> set all \<Longrightarrow> set (fst (fold doom_step kvs (doomed, changed))) \<subseteq> X"
proof (induction kvs arbitrary: doomed changed)
  case (Cons p kvs)
  obtain k t where p: "p = (k, t)" by (cases p)
  show ?case
  proof (cases "ParentID t \<in> set doomed \<and> k \<notin> set doomed")
    case True
    then have "k \<in> X" using Cons.prems p unfolding closed_in_def by auto
    then show ?thesis using Cons.IH[of "k # doomed" True] Cons.prems True p by (simp add: doom_step_def)
  next
    case False
    then have "doom_step p (doomed, changed) = (doomed, changed)" using p by (auto simp: doom_step_def)
    with Cons show ?thesis by simp
  qed
qed simp

lemma doomLoop_least:
  "set doomed \<subseteq> set (doomLoop all doomed) \<and> closed_in all (set (doomLoop all doomed)) \<and>
   (\<forall>X. closed_in all X \<longrightarrow> set doomed \<subseteq> X \<longrightarrow> set (doomLoop all doomed) \<subseteq> X)"
proof (induction all doomed rule: doomLoop.induct)
  case (1 all doomed)
  obtain d c where r: "doom_round all doomed = (d, c)" by fastforce
  then have f: "fold doom_step all (doomed, False) = (d, c)" by (simp add: doom_round_def)
  have sub: "set doomed \<subseteq> set d" using doom_fold[OF f subset_refl] by blast
  have least: "set d \<subseteq> X" if "closed_in all X" "set doomed \<subseteq> X" for X
    using doom_fold_least[OF that subset_refl, of False] f by simp
  show ?case
  proof (cases c)
    case True
    then have e: "doomLoop all doomed = doomLoop all d" by (subst doomLoop.simps) (simp add: r)
    note ih = "1.IH"[OF r[symmetric] True]
    have "set doomed \<subseteq> set (doomLoop all d)" using ih sub by blast
    with ih least show ?thesis unfolding e by blast
  next
    case False
    then have "doomLoop all doomed = d" by (subst doomLoop.simps) (simp add: r)
    moreover have "d = doomed" "\<forall>(k, t)\<in>set all. ParentID t \<in> set doomed \<longrightarrow> k \<in> set doomed"
      using doom_fold[OF f subset_refl] False by blast+
    ultimately show ?thesis by (simp add: closed_in_def)
  qed
qed

lemma allRecords_shape:
  "rep_ok s \<Longrightarrow> distinct (map fst (allRecords s archived))"
  "fst ` set (allRecords s archived) = set (task_ids s) \<union> ID ` set archived"
proof -
  show "rep_ok s \<Longrightarrow> distinct (map fst (allRecords s archived))"
    unfolding allRecords_def rep_ok_def by (rule distinct_fold_update)
  have "fst ` set (fold (\<lambda>t. AList.update (ID t) t) ts al) = fst ` set al \<union> ID ` set ts" for ts :: "task list" and al
  proof (induction ts arbitrary: al)
    case (Cons t ts)
    have "fst ` set (AList.update (ID t) t al) = insert (ID t) (fst ` set al)"
      using keys_update_present[of "ID t" al t] keys_update_absent[of "ID t" al t]
      by (metis image_set insert_absorb list.set(1) list.set(2) set_append Un_insert_right sup_bot_right)
    with Cons show ?case by auto
  qed simp
  then show "fst ` set (allRecords s archived) = set (task_ids s) \<union> ID ` set archived"
    by (simp add: allRecords_def task_ids_def)
qed

section \<open>What deleting leaves\<close>

lemma dropEdges_result:
  "dropEdges G now ds kept t =
     (if \<not> terminal (Status t) \<and> (\<exists>d\<in>set ds. dep_TaskID d \<in> set G \<and> dep_Kind d \<noteq> DepSuggests)
      then t\<lparr>Status := StatusCancelled, Error := ''dependency was deleted'', ClaimedBy := '''', Owner := '''', CompletedAt := now\<rparr>
      else t)\<lparr>Dependencies := kept @ filter (\<lambda>d. dep_TaskID d \<notin> set G) ds\<rparr>"
  by (induction ds arbitrary: kept t) auto

definition same_or_ended :: "task \<Rightarrow> task \<Rightarrow> bool" where
  "same_or_ended t t' \<longleftrightarrow> keeps t t' \<and> (t' = t \<or> \<not> terminal (Status t) \<and> Status t' = StatusCancelled)"

lemma cancel_fold_tasks:
  assumes "ids_ok s" and "s' = fold (\<lambda>d. cancelBlockedDependents d reason now) ds s"
  shows "same_shape s s' \<and> (\<forall>i t. task_at s i = Some t \<longrightarrow> (\<exists>t'. task_at s' i = Some t' \<and> same_or_ended t t'))"
  using assms
proof (induction ds arbitrary: s)
  case Nil
  then show ?case by (simp add: same_or_ended_def)
next
  case (Cons d ds)
  let ?s1 = "cancelBlockedDependents d reason now s"
  have v: "hit_view s reason now (blocked_by s d) ?s1" by (rule cancelBlocked_exact[OF Cons.prems(1)])
  have sh: "same_shape s ?s1" unfolding cancelBlockedDependents_def by (rule cancel_loop_shape)
  have open_only: "\<not> terminal (Status t)" if "blocked_by s d i" "task_at s i = Some t" for i t
    using that by (cases rule: blocked_by.cases) auto
  have one: "\<exists>t1. task_at ?s1 i = Some t1 \<and> same_or_ended t t1" if "task_at s i = Some t" for i t
    using v that open_only[of i t] by (auto simp: hit_view_def same_or_ended_def)
  have "ids_ok ?s1" using Cons.prems(1) v by (auto simp: ids_ok_def hit_view_def)
  from Cons.IH[OF this] Cons.prems(2)
  have r: "same_shape ?s1 s' \<and> (\<forall>i t. task_at ?s1 i = Some t \<longrightarrow> (\<exists>t'. task_at s' i = Some t' \<and> same_or_ended t t'))" by simp
  have "same_or_ended t t'" if "same_or_ended t t1" "same_or_ended t1 t'" for t t1 t' :: task
    using that by (auto simp: same_or_ended_def intro: keeps_trans)
  with one r have "\<forall>i t. task_at s i = Some t \<longrightarrow> (\<exists>t'. task_at s' i = Some t' \<and> same_or_ended t t')" by blast
  with same_shape_trans[OF sh] r show ?case by blast
qed

lemma task_at_mapped:
  "task_at (s\<lparr>Tasks := map (\<lambda>(k, t). (k, f t)) (Tasks s)\<rparr>) i = map_option f (task_at s i)"
proof -
  have "map_of (map (\<lambda>(k, t). (k, f t)) kvs) i = map_option f (map_of kvs i)" for kvs :: "(string \<times> task) list"
    by (induction kvs) auto
  then show ?thesis by (simp add: task_at_def)
qed

text \<open>The archive names no other parent for a task that is also live.\<close>

definition archive_agrees :: "plan_state \<Rightarrow> task list \<Rightarrow> bool" where
  "archive_agrees s archived \<longleftrightarrow>
     (\<forall>t\<in>set archived. \<forall>u. task_at s (ID t) = Some u \<longrightarrow> ParentID u = ParentID t)"

lemma allRecords_parent:
  assumes "archive_agrees s archived" and u: "task_at s i = Some u"
  shows "\<exists>t. map_of (allRecords s archived) i = Some t \<and> ParentID t = ParentID u"
proof -
  have "\<exists>t. map_of (fold (\<lambda>t. AList.update (ID t) t) ts al) i = Some t \<and> ParentID t = ParentID u"
    if "\<forall>t\<in>set ts. ID t = i \<longrightarrow> ParentID t = ParentID u" "\<exists>t. map_of al i = Some t \<and> ParentID t = ParentID u"
    for ts :: "task list" and al
    using that
  proof (induction ts arbitrary: al)
    case (Cons t ts)
    have "\<exists>t'. map_of (AList.update (ID t) t al) i = Some t' \<and> ParentID t' = ParentID u"
      using Cons.prems by (cases "ID t = i") (auto simp: AList.update_conv')
    with Cons.IH Cons.prems(1) show ?case by simp
  qed simp
  moreover have "\<forall>t\<in>set archived. ID t = i \<longrightarrow> ParentID t = ParentID u" using assms by (auto simp: archive_agrees_def)
  ultimately show ?thesis using u by (simp add: allRecords_def task_at_def)
qed

lemma deleteRecords_cases:
  assumes inv: "plan_inv s" and d: "deleteRecords i now archived s = Inr (s', ids)" and ag: "archive_agrees s archived"
  obtains gone s0 where "gone = doomLoop (allRecords s archived) [i]" "set ids = set gone" "without gone s s0"
    "s' = recomputeComposite s0" "\<And>k t. task_at s k = Some t \<Longrightarrow> ParentID t \<in> set gone \<Longrightarrow> k \<in> set gone"
    "\<And>k t. task_at s k = Some t \<Longrightarrow> k \<notin> set gone \<Longrightarrow>
       \<exists>t2. same_or_ended t t2 \<and> task_at s0 k = Some (dropEdges gone now (Dependencies t) [] t2)"
    "Deleted s0 = Deleted s \<union> set gone" "i \<in> set gone"
proof -
  let ?all = "allRecords s archived"
  define g where "g = doomLoop ?all [i]"
  define is0 where "is0 = filter (\<lambda>k. k \<in> set g) (Order s @ map ID archived)"
  define s1 where "s1 = s\<lparr>Tasks := filter (\<lambda>(k, t). k \<notin> set is0) (Tasks s), Deleted := Deleted s \<union> set is0\<rparr>"
  define s2 where "s2 = fold (\<lambda>d. cancelBlockedDependents d ''dependency was deleted'' now) g s1"
  define s3 where "s3 = s2\<lparr>Tasks := map (\<lambda>(k, t). (k, dropEdges g now (Dependencies t) [] t)) (Tasks s2)\<rparr>"
  define s0 where "s0 = s3\<lparr>Order := keepIDs (Order s3) g, Notes := keepNotes (Notes s3) g, Contexts := keepContexts (Contexts s3) g\<rparr>"
  from d have ne: "map_of ?all i \<noteq> None" and s': "s' = recomputeComposite s0" and ids: "ids = is0"
    by (auto simp: deleteRecords_def Let_def g_def is0_def s1_def s2_def s3_def s0_def split: if_splits)
  have rep: "rep_ok s" using inv by (simp add: plan_inv_iff)
  note o = plan_inv_order[OF inv]
  note keys = allRecords_shape(2)[of s archived]
  have da: "distinct (map fst ?all)" by (rule allRecords_shape(1)[OF rep])
  have least: "i \<in> set g" "closed_in ?all (set g)" "closed_in ?all X \<Longrightarrow> i \<in> X \<Longrightarrow> set g \<subseteq> X" for X
    using doomLoop_least[of "[i]" ?all] unfolding g_def by auto
  have "i \<in> fst ` set ?all" using ne by (simp add: map_of_eq_None_iff)
  moreover have "closed_in ?all (fst ` set ?all)" by (force simp: closed_in_def)
  ultimately have "set g \<subseteq> fst ` set ?all" using least(3) by blast
  then have g: "set is0 = set g" using keys o(2) by (auto simp: is0_def)
  have at1: "task_at s1 k = (if k \<in> set g then None else task_at s k)" for k
  proof -
    have "map_of (filter (\<lambda>(k, t). k \<notin> set is0) kvs) k = (if k \<in> set is0 then None else map_of kvs k)"
      for kvs :: "(string \<times> task) list" by (induction kvs) auto
    then show ?thesis by (simp only: g) (simp add: task_at_def g s1_def)
  qed
  have ids1: "ids_ok s1" using plan_inv_ids[OF inv] by (auto simp: ids_ok_def at1)
  note cf = cancel_fold_tasks[OF ids1 s2_def]
  have sh: "same_shape s1 s2" using cf by blast
  have rep1: "rep_ok s1" using rep by (simp add: rep_ok_def distinct_map_filter s1_def)
  have rep2: "rep_ok s2" using same_shape_rep_ok[OF sh] rep1 by simp
  have at0: "task_at s0 k = map_option (\<lambda>t. dropEdges g now (Dependencies t) [] t) (task_at s2 k)" for k
    using task_at_mapped[where s = s2 and f = "\<lambda>t. dropEdges g now (Dependencies t) [] t" and i = k]
    by (simp add: task_at_def s0_def s3_def)
  have none2: "task_at s2 k = None" if "task_at s1 k = None" for k
    using same_shape_back[OF sh, of k] that by (cases "task_at s2 k") auto
  have surv: "\<exists>t2. same_or_ended t t2 \<and> task_at s0 k = Some (dropEdges g now (Dependencies t) [] t2)"
    if "task_at s k = Some t" "k \<notin> set g" for k t
  proof -
    have "task_at s1 k = Some t" using that by (simp add: at1)
    with cf obtain t2 where t2: "task_at s2 k = Some t2" "same_or_ended t t2" by blast
    then have "Dependencies t2 = Dependencies t" by (simp add: same_or_ended_def keeps_def)
    with t2 show ?thesis by (intro exI[of _ t2]) (simp add: at0)
  qed
  have sv: "survivor g t (dropEdges g now (Dependencies t) [] t2)" if "same_or_ended t t2" for t t2
  proof -
    have k: "keeps t t2" using that by (simp add: same_or_ended_def)
    then have "validateSpec t = None \<Longrightarrow> validateSpec (t2\<lparr>Dependencies := filter (\<lambda>d. dep_TaskID d \<notin> set g) (Dependencies t)\<rparr>) = None"
      by (intro validateSpec_fewer) (auto simp: keeps_def)
    moreover have "validateSpec (t2\<lparr>Status := st, Error := e, ClaimedBy := c, Owner := w, CompletedAt := n, Dependencies := ds\<rparr>)
        = validateSpec (t2\<lparr>Dependencies := ds\<rparr>)" for st e c w n ds by (simp add: validateSpec_def)
    ultimately show ?thesis using k by (auto simp: survivor_def dropEdges_result keeps_def)
  qed
  have f1: "Version s2 = Version s" "PlanProject s2 = PlanProject s" "RootID s2 = RootID s" "Order s2 = Order s"
    "Deleted s2 = Deleted s \<union> set is0" using sh by (simp_all add: same_shape_def s1_def)
  have "without g s s0" unfolding without_def
  proof (intro conjI)
    show "rep_ok s0" using rep2 by (simp add: rep_ok_def comp_def case_prod_beta' s0_def s3_def)
    show "\<forall>k\<in>set g. task_at s0 k = None" using none2 by (simp add: at0 at1)
    show "\<forall>k. task_at s k = None \<longrightarrow> task_at s0 k = None" using none2 by (simp add: at0 at1)
    show "\<forall>k t. k \<notin> set g \<and> task_at s k = Some t \<longrightarrow> (\<exists>t'. task_at s0 k = Some t' \<and> survivor g t t')"
      using surv sv by blast
    show "RootID s \<in> set g \<longrightarrow> RootID s \<in> Deleted s0" using f1(5) g by (auto simp: s0_def s3_def)
  qed (use f1 in \<open>auto simp: s0_def s3_def\<close>)
  moreover have "k \<in> set g" if "task_at s k = Some t" "ParentID t \<in> set g" for k t
  proof -
    from allRecords_parent[OF ag that(1)] obtain u where u: "map_of ?all k = Some u" "ParentID u = ParentID t" by blast
    from map_of_SomeD[OF u(1)] least(2) u(2) that(2) show ?thesis by (auto simp: closed_in_def)
  qed
  moreover have "Deleted s0 = Deleted s \<union> set g" using f1(5) g by (simp add: s0_def s3_def)
  ultimately show ?thesis using g ids s' surv least(1) by (intro that[of g s0]) (simp_all only: g_def)
qed

text \<open>
  Deleting keeps the plan valid, takes exactly a set of records closed under children, tombstones
  each of them, leaves no edge to them, ends the open tasks that needed one, and leaves every
  finished survivor its status and result.
\<close>

lemma deleteRecords_inv:
  assumes inv: "plan_inv s" and d: "deleteRecords i now archived s = Inr (s', ids)" and ag: "archive_agrees s archived"
  shows "plan_inv s'"
proof (rule deleteRecords_cases[OF assms])
  fix gone s0
  assume w: "without gone s s0" and s': "s' = recomputeComposite s0"
    and cl: "\<And>k t. task_at s k = Some t \<Longrightarrow> ParentID t \<in> set gone \<Longrightarrow> k \<in> set gone"
  show "plan_inv s'" unfolding s' by (rule survivors_inv[OF inv w cl])
qed

lemma deleteRecords_result:
  assumes inv: "plan_inv s" and d: "deleteRecords i now archived s = Inr (s', ids)" and ag: "archive_agrees s archived"
  shows "i \<in> set ids" and "Deleted s' = Deleted s \<union> set ids"
    and "task_at s' k \<noteq> None \<longleftrightarrow> task_at s k \<noteq> None \<and> k \<notin> set ids"
    and "task_at s k = Some t \<Longrightarrow> ParentID t \<in> set ids \<Longrightarrow> k \<in> set ids"
    and "task_at s' k = Some t' \<Longrightarrow> \<forall>d\<in>set (Dependencies t'). dep_TaskID d \<notin> set ids"
    and "task_at s k = Some t \<Longrightarrow> k \<notin> set ids \<Longrightarrow> \<not> terminal (Status t) \<Longrightarrow> d \<in> set (Dependencies t) \<Longrightarrow>
      dep_TaskID d \<in> set ids \<Longrightarrow> dep_Kind d \<noteq> DepSuggests \<Longrightarrow> \<exists>t'. task_at s' k = Some t' \<and> Status t' = StatusCancelled"
    and "task_at s k = Some t \<Longrightarrow> k \<notin> set ids \<Longrightarrow> terminal (Status t) \<Longrightarrow>
      \<exists>t'. task_at s' k = Some t' \<and> Status t' = Status t \<and> Result t' = Result t \<and> CompletedAt t' = CompletedAt t"
proof -
  obtain gone s0 where "gone = doomLoop (allRecords s archived) [i]" and g: "set ids = set gone" and w: "without gone s s0" and s': "s' = recomputeComposite s0"
    and cl: "\<And>k t. task_at s k = Some t \<Longrightarrow> ParentID t \<in> set gone \<Longrightarrow> k \<in> set gone"
    and sv: "\<And>k t. task_at s k = Some t \<Longrightarrow> k \<notin> set gone \<Longrightarrow>
       \<exists>t2. same_or_ended t t2 \<and> task_at s0 k = Some (dropEdges gone now (Dependencies t) [] t2)"
    and del: "Deleted s0 = Deleted s \<union> set gone" and i: "i \<in> set gone"
    by (rule deleteRecords_cases[OF assms]) (rule that, assumption+)
  have at: "task_at s' k = map_option (\<lambda>t. t\<lparr>Composite := Composite (the (task_at s' k))\<rparr>) (task_at s0 k)" for k
    unfolding s' recomputeComposite_at by (cases "task_at s0 k") auto
  have res: "\<exists>t2 t'. same_or_ended t t2 \<and> task_at s' k = Some t' \<and>
      t' = (dropEdges gone now (Dependencies t) [] t2)\<lparr>Composite := Composite t'\<rparr>"
    if "task_at s k = Some t" "k \<notin> set ids" for k t
  proof -
    from sv[OF that(1)] that(2) g obtain t2 where t2: "same_or_ended t t2"
      "task_at s0 k = Some (dropEdges gone now (Dependencies t) [] t2)" by auto
    then obtain t' where t': "task_at s' k = Some t'" using at[of k] by auto
    with at[of k] t2(2) have "t' = (dropEdges gone now (Dependencies t) [] t2)\<lparr>Composite := Composite t'\<rparr>" by simp
    with t' t2(1) show ?thesis by blast
  qed
  show "i \<in> set ids" using i g by simp
  show "Deleted s' = Deleted s \<union> set ids"
    using same_rest(8)[OF recomputeComposite_rest(1)[of s0]] del g s' by simp
  show "task_at s' k \<noteq> None \<longleftrightarrow> task_at s k \<noteq> None \<and> k \<notin> set ids"
    using without_dom[OF w, of k] g at[of k] by (cases "task_at s0 k") auto
  show "task_at s k = Some t \<Longrightarrow> ParentID t \<in> set ids \<Longrightarrow> k \<in> set ids" using cl g by simp
  show "task_at s' k = Some t' \<Longrightarrow> \<forall>d\<in>set (Dependencies t'). dep_TaskID d \<notin> set ids"
  proof -
    assume t': "task_at s' k = Some t'"
    then obtain u where u: "task_at s0 k = Some u" using at[of k] by (cases "task_at s0 k") auto
    with t' at[of k] have "t' = u\<lparr>Composite := Composite t'\<rparr>" by simp
    from arg_cong[OF this, of Dependencies] have dd: "Dependencies t' = Dependencies u" by simp
    from w u obtain t where "survivor gone t u" by (rule without_back)
    with dd g show ?thesis by (simp add: survivor_def)
  qed
  show "\<exists>t'. task_at s' k = Some t' \<and> Status t' = StatusCancelled"
    if "task_at s k = Some t" "k \<notin> set ids" "\<not> terminal (Status t)" "d \<in> set (Dependencies t)"
      "dep_TaskID d \<in> set ids" "dep_Kind d \<noteq> DepSuggests"
  proof -
    from res[OF that(1,2)] obtain t2 t' where r: "same_or_ended t t2" "task_at s' k = Some t'"
      "t' = (dropEdges gone now (Dependencies t) [] t2)\<lparr>Composite := Composite t'\<rparr>" by blast
    have "Status (dropEdges gone now (Dependencies t) [] t2) = StatusCancelled"
      using r(1) that g by (auto simp: dropEdges_result same_or_ended_def)
    then show ?thesis using arg_cong[OF r(3), of Status] r(2) by simp
  qed
  show "\<exists>t'. task_at s' k = Some t' \<and> Status t' = Status t \<and> Result t' = Result t \<and> CompletedAt t' = CompletedAt t"
    if "task_at s k = Some t" "k \<notin> set ids" "terminal (Status t)"
  proof -
    from res[OF that(1,2)] obtain t2 t' where r: "same_or_ended t t2" "task_at s' k = Some t'"
      "t' = (dropEdges gone now (Dependencies t) [] t2)\<lparr>Composite := Composite t'\<rparr>" by blast
    have "t2 = t" using r(1) that(3) by (simp add: same_or_ended_def)
    then show ?thesis
      using arg_cong[OF r(3), of Status] arg_cong[OF r(3), of Result] arg_cong[OF r(3), of CompletedAt] r(2) that(3)
      by (simp add: dropEdges_result)
  qed
qed

text \<open>An archived record below a deleted one goes too: the archive's ids are its primary key.\<close>

lemma allRecords_archived:
  assumes "distinct (map ID archived)" and "t \<in> set archived"
  shows "(ID t, t) \<in> set (allRecords s archived)"
proof -
  have "map_of (fold (\<lambda>t. AList.update (ID t) t) ts al) j = (case map_of (map (\<lambda>t. (ID t, t)) ts) j of None \<Rightarrow> map_of al j | Some t \<Rightarrow> Some t)"
    if "distinct (map ID ts)" for ts :: "task list" and al j
    using that
  proof (induction ts arbitrary: al)
    case (Cons u us)
    then have "map_of (map (\<lambda>t. (ID t, t)) us) (ID u) = None" by (auto simp: map_of_eq_None_iff)
    with Cons show ?case by (auto simp: AList.update_conv' split: option.splits)
  qed simp
  moreover have "map_of (map (\<lambda>t. (ID t, t)) archived) (ID t) = Some t"
    using assms by (intro map_of_is_SomeI) (auto simp: comp_def)
  ultimately have "map_of (allRecords s archived) (ID t) = Some t" using assms(1) by (simp add: allRecords_def)
  then show ?thesis by (rule map_of_SomeD)
qed

lemma deleteRecords_archived:
  assumes inv: "plan_inv s" and d: "deleteRecords i now archived s = Inr (s', ids)" and ag: "archive_agrees s archived"
    and key: "distinct (map ID archived)" and t: "t \<in> set archived" "ParentID t \<in> set ids"
  shows "ID t \<in> set ids"
proof (rule deleteRecords_cases[OF inv d ag])
  fix gone assume g: "gone = doomLoop (allRecords s archived) [i]" "set ids = set gone"
  have "closed_in (allRecords s archived) (set gone)" using doomLoop_least[of "[i]" "allRecords s archived"] unfolding g(1) by blast
  with allRecords_archived[OF key t(1), of s] t(2) show ?thesis unfolding closed_in_def g(2) by fast
qed

section \<open>The two transactions\<close>

lemma loadState_forget: "loadState (forget ids db) = loadState db"
  by (simp add: loadState_def forget_def cong: if_cong option.case_cong)

lemma DeleteSubtree_error: "DeleteSubtree w i now st db = (Inl e, st', db') \<Longrightarrow> db' = db \<and> st' = st"
  by (auto simp: DeleteSubtree_def split: option.splits sum.splits if_splits)

lemma ArchiveTx_error: "ArchiveTx w olderThan now st db = (Inl e, st', db') \<Longrightarrow> db' = db \<and> st' = st"
  by (auto simp: ArchiveTx_def split: option.splits sum.splits if_splits)

lemma saveState_keeps:
  "saveState s db = Inr db' \<Longrightarrow> t_live db' = t_live db \<and> t_spend db' = t_spend db \<and> t_archived db' = t_archived db \<and>
     t_deleted db' = t_deleted db \<union> Deleted s"
  by (auto simp: saveState_def andThen_iff split: if_splits)

text \<open>
  A delete that is answered is the change to the plan the load read, saved over a database that has
  forgotten the records; so it reads back as the plan without them, and nothing of theirs is left.
\<close>

lemma DeleteSubtree_cases:
  assumes "DeleteSubtree w i now st db = (Inr ids, st', db')"
  obtains fresh archived where "loadState db = Inr fresh" "loadArchived (t_archived db) = Inr archived"
    "deleteRecords (bareTaskID i) now archived fresh = Inr (data st', ids)" "saveState (data st') (forget ids db) = Inr db'"
  using assms by (auto simp: DeleteSubtree_def andThen_iff split: option.splits sum.splits if_splits)

lemma DeleteSubtree_result:
  assumes inv: "plan_inv fresh" and d: "deleteRecords i now archived fresh = Inr (s, ids)" and ag: "archive_agrees fresh archived"
    and sv: "saveState s (forget ids db) = Inr db'"
  shows "\<exists>s2. loadState db' = Inr s2 \<and> reads_back s s2" and "set ids \<subseteq> t_deleted db'"
    and "t_live db' = filter (\<lambda>r. l_task_id r \<notin> set ids) (t_live db)"
    and "t_spend db' = filter (\<lambda>r. s_task_id r \<notin> set ids) (t_spend db)"
    and "t_archived db' = filter (\<lambda>r. r_id r \<notin> set ids) (t_archived db)"
  using save_then_load[OF deleteRecords_inv[OF inv d ag] sv] saveState_keeps[OF sv] deleteRecords_result(2)[OF inv d ag]
  by (auto simp: forget_def)
lemma ArchiveTx_result:
  assumes r: "ArchiveTx w olderThan now st db = (Inr moved, st', db')"
  obtains fresh where "loadState db = Inr fresh" "\<exists>s2. loadState db' = Inr s2 \<and> reads_back (data st') s2"
    "\<forall>t\<in>set moved. terminal (Status t) \<and> moment t < now - olderThan"
    "\<And>k t. task_at fresh k = Some t \<Longrightarrow> task_at (data st') k \<noteq> None \<or> t\<lparr>ArchivedAt := now\<rparr> \<in> set moved"
proof -
  from r obtain fresh where l: "loadState db = Inr fresh"
    by (auto simp: ArchiveTx_def split: option.splits sum.splits if_splits)
  have inv: "plan_inv fresh" "reads_back fresh fresh" using loadState_accepts[OF l] by auto
  show ?thesis
  proof (cases "Archive olderThan now fresh")
    case None
    with r l have "moved = []" "data st' = fresh" "db' = db"
      by (auto simp: ArchiveTx_def split: option.splits)
    with l inv show ?thesis by (intro that[of fresh]) auto
  next
    case (Some p)
    obtain s mv where p: "p = (s, mv)" by (cases p)
    with r l Some obtain rows where sv: "saveState s (db\<lparr>t_archived := rows\<rparr>) = Inr db'" and e: "moved = mv" "data st' = s"
      by (auto simp: ArchiveTx_def andThen_iff split: option.splits sum.splits if_splits)
    note ar = Archive_inv[OF inv(1) Some[unfolded p]]
    show ?thesis
    proof (rule that[OF l])
      show "\<exists>s2. loadState db' = Inr s2 \<and> reads_back (data st') s2" using save_then_load[OF ar(1) sv] e by simp
      show "\<forall>t\<in>set moved. terminal (Status t) \<and> moment t < now - olderThan" using ar(2) e by simp
      show "task_at (data st') k \<noteq> None \<or> t\<lparr>ArchivedAt := now\<rparr> \<in> set moved" if "task_at fresh k = Some t" for k t
        using ar(4)[OF that] e by auto
    qed
  qed
qed

text \<open>
  No write through the handle looks at the archive: whatever rows it holds, the same change is
  answered the same way.
\<close>

lemma loadState_archive: "loadState (db\<lparr>t_archived := rows\<rparr>) = loadState db"
  by (simp add: loadState_def cong: if_cong option.case_cong)

lemma transact_archive_unread:
  "fst (transact loadState saveState w change st (db\<lparr>t_archived := rows\<rparr>)) = fst (transact loadState saveState w change st db)"
proof -
  have s: "(case saveState v (db\<lparr>t_archived := rows\<rparr>) of Inl e \<Rightarrow> f e | Inr db' \<Rightarrow> c) =
      (case saveState v db of Inl e \<Rightarrow> f e | Inr db' \<Rightarrow> c)" for v f and c :: "plan_error option"
    by (auto simp: saveState_def andThen_def split: sum.splits)
  show ?thesis by (auto simp: transact_def loadState_archive Let_def s if_distrib[of fst] split: option.splits sum.splits)
      (auto simp: saveState_def andThen_def split: sum.splits if_splits)
qed

text \<open>
  So an id the archive already holds can be given to a new task, since admission looks at live tasks
  and tombstones only; once that task is old enough to move, archiving fails for good.
\<close>

lemma insertArchived_clash:
  assumes "t \<in> set moved" and "ID t \<in> set (map r_id rows)"
  shows "insertArchived moved now rows = Inl UniqueViolation"
proof -
  have key: "r_id (archivedRow now p) = ID (snd p)" for p
    by (cases p) (simp add: archivedRow_def taskRow_def task_row.defs archived_row.defs)
  have "foldE (insertRow r_id) rs rows = Inl UniqueViolation"
    if "\<exists>r\<in>set rs. r_id r \<in> set (map r_id rows)" for rs and rows :: "archived_row list"
    using that
  proof (induction rs arbitrary: rows)
    case (Cons r rs)
    show ?case
    proof (cases "r_id r \<in> set (map r_id rows)")
      case False
      then have "insertRow r_id r rows = Inr (rows @ [r])" by (simp add: insertRow_def)
      moreover have "\<exists>q\<in>set rs. r_id q \<in> set (map r_id (rows @ [r]))" using Cons.prems False by auto
      ultimately show ?thesis using Cons.IH[of "rows @ [r]"] by simp
    qed (simp add: insertRow_def)
  qed simp
  moreover have "\<exists>r\<in>set (map (archivedRow now) (enumerate 0 moved)). r_id r \<in> set (map r_id rows)"
  proof -
    have "\<exists>n. (n, t) \<in> set (enumerate m ts)" if "t \<in> set ts" for m and ts :: "task list"
      using that by (induction ts arbitrary: m) auto
    then obtain n where n: "(n, t) \<in> set (enumerate 0 moved)" using assms(1) by blast
    have "r_id (archivedRow now (n, t)) \<in> set (map r_id rows)" using assms(2) key[of "(n, t)"] by simp
    with n show ?thesis by (intro bexI[of _ "archivedRow now (n, t)"]) simp_all
  qed
  ultimately show ?thesis unfolding insertArchived_def by blast
qed

end
