(* ===== verification/PlanNotes.thy ===== *)
theory PlanNotes
  imports PlanReadyList
begin

text \<open>
  What is written beside the tasks: notes (\<^verbatim>\<open>addNote\<close>), context entries (\<^verbatim>\<open>AddContext\<close>,
  \<^verbatim>\<open>Prune\<close>) and minted ids (\<^verbatim>\<open>NextID\<close>, \<^verbatim>\<open>randomIndex\<close>) of \<^verbatim>\<open>internal/plandb/store.go\<close>. The
  bytes \<^verbatim>\<open>crypto/rand\<close> answers are an argument; a draw that runs out of them is None.
\<close>

section \<open>Notes\<close>

definition mintID :: "string \<Rightarrow> plan_state \<Rightarrow> plan_state \<times> string" where
  "mintID prefix0 s = (let n = NextID s + 1 in (s\<lparr>NextID := n\<rparr>, prefix0 @ hex8 (unat n)))"

definition addNote :: "string \<Rightarrow> string \<Rightarrow> string \<Rightarrow> string \<Rightarrow> time \<Rightarrow> plan_state \<Rightarrow> plan_error + plan_state \<times> plan_note" where
  "addNote i agent body from now s =
     (case task_at s i of
        None \<Rightarrow> Inl (TaskNotFound i)
      | Some t \<Rightarrow>
          (let words = TrimSpace body in
           if words = '''' then Inl (TextRefused NoteEmpty)
           else if length words > 32768 then Inl (TextRefused NoteTooLong)
           else (case mintID ''n-'' s of (s1, nid) \<Rightarrow>
             let new = \<lparr>note_ID = nid, note_TaskID = i, note_Agent = TrimSpace agent, note_From = from,
                        note_Body = words, note_Project = Project t, note_Chat = Chat t, note_At = now\<rparr>
             in Inr (upd i (\<lambda>t. t\<lparr>UpdatedAt := now\<rparr>) (s1\<lparr>Notes := Notes s1 @ [new]\<rparr>), new))))"

definition AddNote :: "string \<Rightarrow> string \<Rightarrow> string \<Rightarrow> time \<Rightarrow> plan_state \<Rightarrow> plan_error + plan_state \<times> plan_note" where
  "AddNote i agent body = addNote i agent body NoteFromWorker"

definition AddPersonNote :: "string \<Rightarrow> string \<Rightarrow> time \<Rightarrow> plan_state \<Rightarrow> plan_error + plan_state \<times> plan_note" where
  "AddPersonNote i body = addNote i '''' body NoteFromPerson"

section \<open>Context entries\<close>

text \<open>An entry carries the tags of its task, or of the root when it is scoped to none.\<close>

definition contextTags :: "string \<Rightarrow> plan_state \<Rightarrow> string \<times> string" where
  "contextTags i s =
     (case task_at s (if i \<noteq> '''' then i else RootID s) of
        None \<Rightarrow> ('''', '''') | Some t \<Rightarrow> (Project t, Chat t))"

definition AddContext :: "string \<Rightarrow> string \<Rightarrow> string \<Rightarrow> time \<Rightarrow> plan_state \<Rightarrow> plan_error + plan_state \<times> context_entry" where
  "AddContext i kind content now s =
     (let words = TrimSpace content in
      if words = '''' then Inl (TextRefused ContextEmpty)
      else if length words > 32768 then Inl (TextRefused ContextTooLong)
      else if length (Contexts s) \<ge> 4096 then Inl (TextRefused ContextLimit)
      else if i \<noteq> '''' \<and> task_at s i = None then Inl (TaskNotFound i)
      else (case (contextTags i s, mintID ''c-'' s) of ((project, chat), (s1, cid)) \<Rightarrow>
        let entry = \<lparr>ce_ID = cid, ce_TaskID = i, ce_Kind = (if kind = '''' then ''discovery'' else kind),
                     ce_Content = words, ce_Project = project, ce_Chat = chat, ce_CreatedAt = now\<rparr>;
            s2 = s1\<lparr>Contexts := Contexts s1 @ [entry]\<rparr>
        in Inr (if i \<noteq> '''' then upd i (\<lambda>t. t\<lparr>UpdatedAt := now\<rparr>) s2 else s2, entry)))"

fun withoutFirst :: "string \<Rightarrow> context_entry list \<Rightarrow> context_entry list option" where
  "withoutFirst i [] = None"
| "withoutFirst i (e # es) = (if ce_ID e \<noteq> i then map_option (Cons e) (withoutFirst i es) else Some es)"

definition Prune :: "string \<Rightarrow> time \<Rightarrow> plan_state \<Rightarrow> plan_error + plan_state" where
  "Prune i now s =
     (case withoutFirst i (Contexts s) of
        None \<Rightarrow> Inl (TextRefused (ContextNotFound i))
      | Some es \<Rightarrow> Inr (s\<lparr>Contexts := es\<rparr>))"

section \<open>What they keep\<close>

lemma stamp_shape: "same_shape s (upd i (\<lambda>t. t\<lparr>UpdatedAt := now\<rparr>) s)"
  by (rule same_shape_upd) (simp add: keeps_def)

lemma addNote_shape: "addNote i agent body from now s = Inr (s', n) \<Longrightarrow> same_shape s s'"
  by (auto simp: addNote_def mintID_def Let_def split: option.splits if_splits
      intro!: same_shape_trans[OF _ stamp_shape] same_shape_trans[OF same_shape_fields(3) same_shape_fields(1)])

lemma AddContext_shape: "AddContext i kind content now s = Inr (s', e) \<Longrightarrow> same_shape s s'"
proof -
  have "same_shape s (s\<lparr>NextID := n, Contexts := es\<rparr>)" for n es
    using same_shape_trans[OF same_shape_fields(3) same_shape_fields(2)] by metis
  then show "AddContext i kind content now s = Inr (s', e) \<Longrightarrow> same_shape s s'"
    by (auto simp: AddContext_def mintID_def Let_def split: option.splits if_splits prod.splits
        intro!: same_shape_trans[OF _ stamp_shape])
qed

lemma Prune_shape: "Prune i now s = Inr s' \<Longrightarrow> same_shape s s'"
  by (auto simp: Prune_def same_shape_fields split: option.splits)

text \<open>What the counter has minted so far: every note and entry carries an id of a number not above it.\<close>

definition minted :: "plan_state \<Rightarrow> bool" where
  "minted s \<longleftrightarrow> (\<forall>n\<in>set (Notes s). \<exists>k \<le> unat (NextID s). note_ID n = ''n-'' @ hex8 k) \<and>
     (\<forall>e\<in>set (Contexts s). \<exists>k \<le> unat (NextID s). ce_ID e = ''c-'' @ hex8 k) \<and>
     distinct (map note_ID (Notes s)) \<and> distinct (map ce_ID (Contexts s))"

lemma mintID_next: "unat (NextID s) < 2 ^ 64 - 1 \<Longrightarrow> unat (NextID s + 1) = Suc (unat (NextID s))"
  by (simp add: unat_word_ariths)

lemma addNote_minted:
  assumes m: "minted s" and room: "unat (NextID s) < 2 ^ 64 - 1" and c: "addNote i agent body from now s = Inr (s', n)"
  shows "minted s'" and "note_ID n = ''n-'' @ hex8 (Suc (unat (NextID s)))" and "Notes s' = Notes s @ [n]"
proof -
  note nx = mintID_next[OF room]
  from c obtain t where s': "Notes s' = Notes s @ [n]" "Contexts s' = Contexts s" "NextID s' = NextID s + 1"
    and n: "note_ID n = ''n-'' @ hex8 (unat (NextID s + 1))"
    by (auto simp: addNote_def mintID_def Let_def split: option.splits if_splits)
  show "note_ID n = ''n-'' @ hex8 (Suc (unat (NextID s)))" using n nx by simp
  have "note_ID n \<notin> note_ID ` set (Notes s)"
  proof
    assume "note_ID n \<in> note_ID ` set (Notes s)"
    then obtain k where "k \<le> unat (NextID s)" "note_ID n = ''n-'' @ hex8 k" using m by (auto simp: minted_def)
    with n nx show False by simp
  qed
  with m s' n nx show "minted s'" by (fastforce simp: minted_def intro: le_SucI)
  show "Notes s' = Notes s @ [n]" by (rule s'(1))
qed

lemma AddContext_minted:
  assumes m: "minted s" and room: "unat (NextID s) < 2 ^ 64 - 1" and c: "AddContext i kind content now s = Inr (s', e)"
  shows "minted s'" and "Contexts s' = Contexts s @ [e]" and "length (Contexts s') \<le> 4096"
proof -
  note nx = mintID_next[OF room]
  from c have s': "Contexts s' = Contexts s @ [e]" "Notes s' = Notes s" "NextID s' = NextID s + 1"
    and e: "ce_ID e = ''c-'' @ hex8 (unat (NextID s + 1))" and l: "length (Contexts s) < 4096"
    by (auto simp: AddContext_def mintID_def Let_def split: option.splits if_splits prod.splits)
  have "ce_ID e \<notin> ce_ID ` set (Contexts s)"
  proof
    assume "ce_ID e \<in> ce_ID ` set (Contexts s)"
    then obtain k where "k \<le> unat (NextID s)" "ce_ID e = ''c-'' @ hex8 k" using m by (auto simp: minted_def)
    with e nx show False by simp
  qed
  with m s' e nx show "minted s'" by (fastforce simp: minted_def intro: le_SucI)
  show "Contexts s' = Contexts s @ [e]" "length (Contexts s') \<le> 4096" using s'(1) l by simp_all
qed

text \<open>Pruning takes out exactly the named entry and leaves the order of the rest.\<close>

lemma withoutFirst_split:
  "withoutFirst i es = Some rest \<Longrightarrow> \<exists>a e b. es = a @ e # b \<and> rest = a @ b \<and> ce_ID e = i \<and> i \<notin> ce_ID ` set a"
proof (induction es arbitrary: rest)
  case (Cons x es)
  show ?case
  proof (cases "ce_ID x = i")
    case True
    with Cons.prems show ?thesis by (intro exI[of _ "[]"] exI[of _ x] exI[of _ es]) simp
  next
    case False
    with Cons.prems obtain r where r: "withoutFirst i es = Some r" "rest = x # r" by auto
    from Cons.IH[OF r(1)] obtain a e b where "es = a @ e # b" "r = a @ b" "ce_ID e = i" "i \<notin> ce_ID ` set a" by blast
    with r(2) False show ?thesis by (intro exI[of _ "x # a"] exI[of _ e] exI[of _ b]) auto
  qed
qed simp
lemma Prune_exact:
  assumes m: "minted s" and c: "Prune i now s = Inr s'"
  shows "Contexts s' = filter (\<lambda>e. ce_ID e \<noteq> i) (Contexts s) \<and> length (Contexts s') + 1 = length (Contexts s) \<and> minted s'"
proof -
  from c obtain es where es: "withoutFirst i (Contexts s) = Some es" and s': "s' = s\<lparr>Contexts := es\<rparr>"
    by (auto simp: Prune_def split: option.splits)
  from es obtain a e b where sp: "Contexts s = a @ e # b" "es = a @ b" "ce_ID e = i" "i \<notin> ce_ID ` set a"
    by (auto dest: withoutFirst_split)
  have "distinct (map ce_ID (Contexts s))" using m by (simp add: minted_def)
  then have nb: "i \<notin> ce_ID ` set b" using sp(1,3) by auto
  have "filter (\<lambda>e. ce_ID e \<noteq> i) a = a" "filter (\<lambda>e. ce_ID e \<noteq> i) b = b"
    using sp(4) nb by (auto intro!: filter_True)
  then have "Contexts s' = filter (\<lambda>e. ce_ID e \<noteq> i) (Contexts s)" using sp s' by simp
  moreover have "minted s'" using m s' sp by (auto simp: minted_def)
  moreover have "length (Contexts s') + 1 = length (Contexts s)" using sp(1,2) s' by simp
  ultimately show ?thesis by simp
qed

definition add_note_op :: "string \<times> string \<times> string \<times> string \<Rightarrow> time \<Rightarrow> plan_state \<Rightarrow> plan_error + plan_state" where
  "add_note_op = (\<lambda>(i, agent, body, from) now s. map_sum (\<lambda>e. e) fst (addNote i agent body from now s))"

definition add_context_op :: "string \<times> string \<times> string \<Rightarrow> time \<Rightarrow> plan_state \<Rightarrow> plan_error + plan_state" where
  "add_context_op = (\<lambda>(i, kind, content) now s. map_sum (\<lambda>e. e) fst (AddContext i kind content now s))"

lemma map_sum_fst_Inr: "map_sum f fst x = Inr s' \<longleftrightarrow> (\<exists>y. x = Inr (s', y))"
  by (cases x) auto

interpretation add_note: plan_operation add_note_op
  by (rule shape_operation) (auto simp: add_note_op_def map_sum_fst_Inr intro: addNote_shape)

interpretation add_context: plan_operation add_context_op
  by (rule shape_operation) (auto simp: add_context_op_def map_sum_fst_Inr intro: AddContext_shape)

interpretation prune: plan_operation Prune
  by (rule shape_operation) (rule Prune_shape)

section \<open>Minted task ids\<close>

definition idAlphabet :: string where "idAlphabet = ''0123456789abcdefghijklmnopqrstuvwxyz''"

text \<open>Bytes at or above the largest multiple of the alphabet's size are thrown away.\<close>

fun randomIndex :: "nat \<Rightarrow> nat list \<Rightarrow> (nat \<times> nat list) option" where
  "randomIndex n [] = None"
| "randomIndex n (b # bs) = (if b < 256 - 256 mod n then Some (b mod n, bs) else randomIndex n bs)"

fun drawID :: "nat \<Rightarrow> nat list \<Rightarrow> (string \<times> nat list) option" where
  "drawID 0 bs = Some ('''', bs)"
| "drawID (Suc k) bs =
     (case randomIndex (length idAlphabet) bs of
        None \<Rightarrow> None
      | Some (x, bs') \<Rightarrow> map_option (\<lambda>(w, r). (idAlphabet ! x # w, r)) (drawID k bs'))"

lemma randomIndex_shorter: "randomIndex n bs = Some (x, bs') \<Longrightarrow> length bs' < length bs \<and> (0 < n \<longrightarrow> x < n)"
  by (induction n bs rule: randomIndex.induct) (auto split: if_splits)

lemma drawID_shorter: "drawID k bs = Some (w, bs') \<Longrightarrow> length bs' + k \<le> length bs \<and> length w = k \<and> set w \<subseteq> set idAlphabet"
proof (induction k arbitrary: bs w)
  case (Suc k)
  from Suc.prems obtain x b1 v where r: "randomIndex (length idAlphabet) bs = Some (x, b1)"
    and d: "drawID k b1 = Some (v, bs')" and w: "w = idAlphabet ! x # v"
    by (auto split: option.splits)
  from randomIndex_shorter[OF r] have "length b1 < length bs" "x < length idAlphabet" by (auto simp: idAlphabet_def)
  with Suc.IH[OF d] w show ?case by auto
qed simp

text \<open>\<^verbatim>\<open>nextIDLocked\<close> redraws while the id is taken.\<close>

function NextTaskID :: "plan_state \<Rightarrow> nat list \<Rightarrow> string option" where
  "NextTaskID s bs =
     (case drawID 6 bs of
        None \<Rightarrow> None
      | Some (w, bs') \<Rightarrow> if task_at s w = None then Some w else NextTaskID s bs')"
  by pat_completeness auto
termination
  by (relation "measure (\<lambda>(s, bs). length bs)") (auto dest!: drawID_shorter)

declare NextTaskID.simps [simp del]

lemma NextTaskID_fresh:
  "NextTaskID s bs = Some w \<Longrightarrow> task_at s w = None \<and> length w = 6 \<and> set w \<subseteq> set idAlphabet"
proof (induction s bs rule: NextTaskID.induct)
  case (1 s bs)
  show ?case
  proof (cases "drawID 6 bs")
    case None
    with "1.prems" show ?thesis by (simp add: NextTaskID.simps)
  next
    case (Some p)
    obtain v r where p: "p = (v, r)" by (cases p)
    show ?thesis
    proof (cases "task_at s v = None")
      case True
      with Some p "1.prems" drawID_shorter[of 6 bs v r] show ?thesis by (simp add: NextTaskID.simps[of s bs])
    next
      case False
      with Some p "1.prems" have "NextTaskID s r = Some w" by (subst (asm) NextTaskID.simps) simp
      with "1.IH"[OF Some[unfolded p] refl False] show ?thesis by simp
    qed
  qed
qed

text \<open>No symbol of the alphabet is favoured: each index has the same number of accepted bytes.\<close>

lemma randomIndex_fair:
  assumes "x < 36"
  shows "card {b. b < 256 - 256 mod (36::nat) \<and> b mod 36 = x} = 7"
proof -
  have "{b. b < 256 - 256 mod (36::nat) \<and> b mod 36 = x} = (\<lambda>q. 36 * q + x) ` {..<7}"
  proof (intro set_eqI iffI)
    fix b assume "b \<in> {b. b < 256 - 256 mod (36::nat) \<and> b mod 36 = x}"
    then have "b = 36 * (b div 36) + x" "b div 36 < 7" by auto
    then show "b \<in> (\<lambda>q. 36 * q + x) ` {..<7}" by blast
  next
    fix b assume "b \<in> (\<lambda>q. 36 * q + x) ` {..<7}"
    with assms show "b \<in> {b. b < 256 - 256 mod (36::nat) \<and> b mod 36 = x}" by auto
  qed
  moreover have "inj_on (\<lambda>q::nat. 36 * q + x) {..<7}" by (auto simp: inj_on_def)
  ultimately show ?thesis by (simp add: card_image)
qed

lemma minted_id_valid: "NextTaskID s bs = Some w \<Longrightarrow> length w = 6 \<and> (\<forall>c\<in>set w. c \<in> set idAlphabet)"
  using NextTaskID_fresh by blast

end
