(* ===== verification/PlanQuery.thy ===== *)
theory PlanQuery
  imports PlanReadyList
begin

text \<open>
  The reading verbs of \<^verbatim>\<open>internal/plandb/store.go\<close>: finding one task (\<^verbatim>\<open>Show\<close>, \<^verbatim>\<open>Task\<close>,
  \<^verbatim>\<open>RoleOf\<close>, \<^verbatim>\<open>Resolve\<close>), listing (\<^verbatim>\<open>Tasks\<close>, \<^verbatim>\<open>Notes\<close>, \<^verbatim>\<open>Contexts\<close>, \<^verbatim>\<open>Changed\<close>) and
  counting (\<^verbatim>\<open>summarize\<close>). Values are immutable here, so \<^verbatim>\<open>cloneTask\<close> is the identity.
\<close>

section \<open>Finding one task\<close>

definition Show :: "string \<Rightarrow> plan_state \<Rightarrow> plan_error + task" where
  "Show i s = (case task_at s i of None \<Rightarrow> Inl (TaskNotFound i) | Some t \<Rightarrow> Inr t)"

definition Task :: "string \<Rightarrow> plan_state \<Rightarrow> task option" where
  "Task i s = (case Show i s of Inl e \<Rightarrow> None | Inr t \<Rightarrow> Some t)"

definition RoleOf :: "string \<Rightarrow> plan_state \<Rightarrow> plan_error + string" where
  "RoleOf i0 s =
     (let i = TrimSpace (TrimPrefix i0 ''t-'') in
      case task_at s i of None \<Rightarrow> Inl (TaskNotFound i) | Some t \<Rightarrow> Inr (roleOf t))"

definition resolves :: "string \<Rightarrow> string \<Rightarrow> bool" where
  "resolves word i = (HasPrefix i (TrimPrefix word ''t-'') \<or> HasPrefix (''t-'' @ i) word)"

definition Resolve :: "string \<Rightarrow> plan_state \<Rightarrow> plan_error + task" where
  "Resolve word s =
     (case task_at s (TrimPrefix word ''t-'') of
        Some t \<Rightarrow> Inr t
      | None \<Rightarrow>
          (case those (map (task_at s) (filter (\<lambda>i. i \<noteq> RootID s \<and> resolves word i) (Order s))) of
             None \<Rightarrow> Inl NilDeref
           | Some [] \<Rightarrow> Inl (NoMatch word)
           | Some [t] \<Rightarrow> Inr t
           | Some ts \<Rightarrow> Inl (SeveralMatches word (map (\<lambda>t. ''t-'' @ ID t) ts))))"

lemma Task_eq: "Task i s = task_at s i"
  by (simp add: Task_def Show_def split: option.split)

lemma those_map_Some:
  "\<forall>i\<in>set is. f i \<noteq> None \<Longrightarrow> those (map f is) = Some (map (\<lambda>i. the (f i)) is)"
  by (induction "is") auto

lemma distinct_set_one: "distinct xs \<Longrightarrow> set xs = {i} \<longleftrightarrow> xs = [i]"
  by (cases xs; cases "tl xs") auto

text \<open>
  A loose word names a task exactly when it is its id (with or without \<^verbatim>\<open>t-\<close>), or when it is no
  task's id and one task other than the root fits it as a prefix; the root is never guessed at.
\<close>

lemma Resolve_exact:
  assumes inv: "plan_inv s"
  shows "Resolve word s = Inr t \<longleftrightarrow>
    task_at s (TrimPrefix word ''t-'') = Some t \<or>
    task_at s (TrimPrefix word ''t-'') = None \<and>
      (\<exists>i. task_at s i = Some t \<and>
        {j. task_at s j \<noteq> None \<and> j \<noteq> RootID s \<and> resolves word j} = {i})"
proof (cases "task_at s (TrimPrefix word ''t-'')")
  case (Some u)
  then show ?thesis by (simp add: Resolve_def)
next
  case None
  note o = plan_inv_order[OF inv]
  let ?m = "filter (\<lambda>i. i \<noteq> RootID s \<and> resolves word i) (Order s)"
  have ex: "\<forall>i\<in>set ?m. task_at s i \<noteq> None" using o(2) by (auto simp: task_ids_iff)
  have m: "set ?m = {j. task_at s j \<noteq> None \<and> j \<noteq> RootID s \<and> resolves word j}"
    using o(2) by (auto simp: task_ids_iff)
  have d: "distinct ?m" using o(1) by simp
  have one: "set ?m = {i} \<longleftrightarrow> ?m = [i]" for i
    using d by (rule distinct_set_one)
  have "Resolve word s = Inr t \<longleftrightarrow> (\<exists>i. ?m = [i] \<and> the (task_at s i) = t)"
    unfolding Resolve_def None those_map_Some[OF ex] by (auto split: list.splits)
  also have "\<dots> \<longleftrightarrow> (\<exists>i. task_at s i = Some t \<and> set ?m = {i})"
  proof -
    have "the (task_at s i) = t \<longleftrightarrow> task_at s i = Some t" if "?m = [i]" for i
    proof -
      from that have "i \<in> set ?m" by simp
      with ex show ?thesis by auto
    qed
    then show ?thesis unfolding one by blast
  qed
  finally show ?thesis unfolding m using None by simp
qed

section \<open>Listing\<close>

text \<open>A limit that is not between 1 and its bound is read as the default.\<close>

definition bounded :: "int \<Rightarrow> int \<Rightarrow> int \<Rightarrow> nat" where
  "bounded bound dflt limit = nat (if limit \<le> 0 \<or> limit > bound then dflt else limit)"

definition TasksOf :: "tag_filter list \<Rightarrow> plan_state \<Rightarrow> task list option" where
  "TasksOf filters s =
     map_option (\<lambda>ps. filter (\<lambda>t. admits (firstFilter filters) (Project t) (Chat t)) (map snd ps)) (ordered s)"

definition NotesOf :: "string \<Rightarrow> int \<Rightarrow> plan_state \<Rightarrow> plan_note list" where
  "NotesOf i limit s = take (bounded 200 50 limit) (filter (\<lambda>n. note_TaskID n = i) (Notes s))"

text \<open>The backward loop: newest first, until the limit is reached.\<close>

definition ContextsOf :: "string \<Rightarrow> string \<Rightarrow> int \<Rightarrow> tag_filter list \<Rightarrow> plan_state \<Rightarrow> context_entry list" where
  "ContextsOf i kind limit filters s =
     take (bounded 200 50 limit)
       (filter (\<lambda>e. admits (firstFilter filters) (ce_Project e) (ce_Chat e) \<and>
                    \<not> (i \<noteq> '''' \<and> ce_TaskID e \<noteq> i) \<and> \<not> (kind \<noteq> '''' \<and> ce_Kind e \<noteq> kind))
          (rev (Contexts s)))"

text \<open>\<^verbatim>\<open>moved[id] || Tasks[id].UpdatedAt.After(since)\<close>: the task is looked at only where no note moved it.\<close>

definition movedBeside :: "time \<Rightarrow> plan_state \<Rightarrow> string \<Rightarrow> bool" where
  "movedBeside since s i =
     (list_ex (\<lambda>n. note_At n > since \<and> note_TaskID n = i) (Notes s) \<or>
      list_ex (\<lambda>e. ce_TaskID e \<noteq> '''' \<and> ce_CreatedAt e > since \<and> ce_TaskID e = i) (Contexts s))"

fun changedFrom :: "time \<Rightarrow> plan_state \<Rightarrow> string list \<Rightarrow> string list option" where
  "changedFrom since s [] = Some []"
| "changedFrom since s (i # is) =
     (if movedBeside since s i then map_option (Cons i) (changedFrom since s is)
      else case task_at s i of
        None \<Rightarrow> None
      | Some t \<Rightarrow> if UpdatedAt t > since then map_option (Cons i) (changedFrom since s is)
                 else changedFrom since s is)"

definition Changed :: "time \<Rightarrow> plan_state \<Rightarrow> string list option" where
  "Changed since s = changedFrom since s (Order s)"

lemma bounded_le: "0 < dflt \<Longrightarrow> dflt \<le> bound \<Longrightarrow> 0 < bounded bound dflt limit \<and> int (bounded bound dflt limit) \<le> bound"
  by (auto simp: bounded_def)

lemma changedFrom_filter:
  "\<forall>i\<in>set is. task_at s i \<noteq> None \<Longrightarrow> changedFrom since s is =
     Some (filter (\<lambda>i. movedBeside since s i \<or> UpdatedAt (the (task_at s i)) > since) is)"
  by (induction "is") auto

text \<open>Every task that moved is named, once, in admission order; a task created since has a newer row.\<close>

lemma Changed_exact:
  assumes inv: "plan_inv s"
  obtains ids where "Changed since s = Some ids" "subseq ids (Order s)" "distinct ids"
    "\<And>i. i \<in> set ids \<longleftrightarrow> (\<exists>t. task_at s i = Some t \<and> (movedBeside since s i \<or> UpdatedAt t > since))"
proof -
  note o = plan_inv_order[OF inv]
  let ?ids = "filter (\<lambda>i. movedBeside since s i \<or> UpdatedAt (the (task_at s i)) > since) (Order s)"
  have "Changed since s = Some ?ids" unfolding Changed_def
    using o(2) by (intro changedFrom_filter) (auto simp: task_ids_iff)
  moreover have "i \<in> set ?ids \<longleftrightarrow> (\<exists>t. task_at s i = Some t \<and> (movedBeside since s i \<or> UpdatedAt t > since))" for i
    using o(2) by (auto simp: task_ids_iff)
  ultimately show ?thesis using o(1) by (intro that[of ?ids]) auto
qed

section \<open>Counting\<close>

record plan_summary =
  sum_Project :: string
  sum_RootID :: string
  sum_Total :: nat
  sum_Pending :: nat
  sum_Ready :: nat
  sum_Running :: nat
  sum_Done :: nat
  sum_Failed :: nat
  sum_Cancelled :: nat

fun tally :: "task \<Rightarrow> plan_summary \<Rightarrow> plan_summary" where
  "tally t r = (case Status t of
     StatusPending \<Rightarrow> r\<lparr>sum_Pending := sum_Pending r + 1\<rparr>
   | StatusReady \<Rightarrow> r\<lparr>sum_Ready := sum_Ready r + 1\<rparr>
   | StatusClaimed \<Rightarrow> r\<lparr>sum_Running := sum_Running r + 1\<rparr>
   | StatusRunning \<Rightarrow> r\<lparr>sum_Running := sum_Running r + 1\<rparr>
   | StatusDone \<Rightarrow> r\<lparr>sum_Done := sum_Done r + 1\<rparr>
   | StatusFailed \<Rightarrow> r\<lparr>sum_Failed := sum_Failed r + 1\<rparr>
   | StatusCancelled \<Rightarrow> r\<lparr>sum_Cancelled := sum_Cancelled r + 1\<rparr>
   | StatusOther w \<Rightarrow> r)"

definition summarize :: "plan_state \<Rightarrow> plan_summary" where
  "summarize s = fold tally (task_list s)
     \<lparr>sum_Project = PlanProject s, sum_RootID = RootID s, sum_Total = length (Tasks s), sum_Pending = 0,
      sum_Ready = 0, sum_Running = 0, sum_Done = 0, sum_Failed = 0, sum_Cancelled = 0\<rparr>"

definition sum_counted :: "plan_summary \<Rightarrow> nat" where
  "sum_counted r = sum_Pending r + sum_Ready r + sum_Running r + sum_Done r + sum_Failed r + sum_Cancelled r"

lemma tally_counted: "validStatus (Status t) \<Longrightarrow> sum_counted (tally t r) = Suc (sum_counted r)"
  by (cases "Status t") (simp_all add: sum_counted_def)

lemma tally_total [simp]: "sum_Total (tally t r) = sum_Total r"
  by (cases "Status t") simp_all

lemma fold_tally:
  "\<forall>t\<in>set ts. validStatus (Status t) \<Longrightarrow> sum_counted (fold tally ts r) = sum_counted r + length ts \<and>
     sum_Total (fold tally ts r) = sum_Total r"
  by (induction ts arbitrary: r) (simp_all add: tally_counted del: tally.simps)

lemma summarize_adds_up:
  assumes inv: "plan_inv s"
  shows "sum_counted (summarize s) = sum_Total (summarize s)" and "sum_Total (summarize s) = length (Order s)"
proof -
  have "validStatus (Status t)" if "t \<in> set (task_list s)" for t
  proof -
    from that inv obtain i where "task_at s i = Some t" by (auto simp: plan_inv_iff task_list_iff)
    from plan_invD(3)[OF inv this] show ?thesis by (simp add: task_wf_def)
  qed
  then have f: "\<forall>t\<in>set (task_list s). validStatus (Status t)" by blast
  show "sum_counted (summarize s) = sum_Total (summarize s)"
    unfolding summarize_def using fold_tally[OF f] by (simp add: sum_counted_def task_list_def)
  have "distinct (task_ids s)" using inv by (simp add: plan_inv_iff rep_ok_def task_ids_def)
  then have "length (Order s) = length (task_ids s)"
    using plan_inv_order[OF inv] by (metis distinct_card)
  then show "sum_Total (summarize s) = length (Order s)"
    unfolding summarize_def using fold_tally[OF f] by (simp add: task_ids_def)
qed

lemma fold_tally_done:
  "sum_Done (fold tally ts r) = sum_Done r + length (filter (\<lambda>t. Status t = StatusDone) ts)"
proof (induction ts arbitrary: r)
  case (Cons t ts)
  then show ?case by (cases "Status t") simp_all
qed simp

end
