(* ===== verification/PlanRun.thy ===== *)
theory PlanRun
  imports PlanDelete PlanReview PlanNotes PlanQuery
begin

text \<open>
  A run as the sequence of writes made to its plan, by any number of handles: every write of the
  store is a step, and what holds of every plan a run can reach is proved by induction on it.
  Every rule is a write the code makes, with nothing asked of it but that it is not refused, except
  for five: those take a precondition the code does not check, because without it the write leaves
  a plan the next load refuses, or gives a deleted id back. A \<^verbatim>\<open>plan_step\<close> is thus a
  write that is none of these:
  \<^item> a delete while the archive holds a record under the id of a live task but with another parent
    (an archived id that was given to a new task, see \<^verbatim>\<open>archived_id_blocks_archive\<close>);
  \<^item> an edge of a kind that is none of the three words, or on a root whose id is malformed;
  \<^item> an amendment that makes a description, other than the root's, longer than its limit;
  \<^item> a revision of a task whose id, parent or dependencies still start with the prefix, or whose
    edges carry no kind;
  \<^item> a late review check with an unknown soft dependency or the id of a deleted task.
\<close>

section \<open>The steps\<close>

inductive plan_step :: "plan_state \<Rightarrow> plan_state \<Rightarrow> bool" where
  Claim: "Claim i agent owner now s = Inr s' \<Longrightarrow> plan_step s s'"
| ClaimWake: "ClaimWake i agent owner now s = Inr s' \<Longrightarrow> plan_step s s'"
| ClaimNext: "ClaimNext uni agent now s = Inr (s', i) \<Longrightarrow> plan_step s s'"
| Done: "Done w i agent result artifacts evidence now s = Inr s' \<Longrightarrow> plan_step s s'"
| SetVerdictBasis: "SetVerdictBasis i basis s = Inr s' \<Longrightarrow> plan_step s s'"
| Fail: "Fail i agent message now s = Inr s' \<Longrightarrow> plan_step s s'"
| Release: "Release i agent now s = Inr s' \<Longrightarrow> plan_step s s'"
| Wait: "Wait i agent now s = Inr s' \<Longrightarrow> plan_step s s'"
| Wake: "Wake i now s = Inr s' \<Longrightarrow> plan_step s s'"
| TouchClaims: "TouchClaims owner now s = Inr s' \<Longrightarrow> plan_step s s'"
| Hold: "hold i paused now s = Inr s' \<Longrightarrow> plan_step s s'"
| Retry: "Retry i now s = Inr s' \<Longrightarrow> plan_step s s'"
| Cancel: "Cancel i reason now s = Inr s' \<Longrightarrow> plan_step s s'"
| CompleteRoot: "CompleteRoot result now s = Inr s' \<Longrightarrow> plan_step s s'"
| StopRoot: "StopRoot reason now s = Inr s' \<Longrightarrow> plan_step s s'"
| EndRoot: "EndRoot reason now s = Inr s' \<Longrightarrow> plan_step s s'"
| FailRoot: "FailRootAt reason at now s = Inr s' \<Longrightarrow> plan_step s s'"
| AddMany: "AddMany specs now s = Inr s' \<Longrightarrow> plan_step s s'"
| RemoveDep: "RemoveDep i u now s = Inr s' \<Longrightarrow> plan_step s s'"
| Note: "addNote i agent body from now s = Inr (s', n) \<Longrightarrow> plan_step s s'"
| Context: "AddContext i kind content now s = Inr (s', e) \<Longrightarrow> plan_step s s'"
| Prune: "Prune i now s = Inr s' \<Longrightarrow> plan_step s s'"
| Archive: "Archive olderThan now s = Some (s', moved) \<Longrightarrow> plan_step s s'"
  \<comment> \<open>the archive holds no id that is live again under another parent\<close>
| Delete: "deleteRecords i now archived s = Inr (s', ids) \<Longrightarrow> archive_agrees s archived \<Longrightarrow> plan_step s s'"
  \<comment> \<open>the edge's kind is one of the three words; only an edge on the root can name a malformed id\<close>
| AddDep: "AddDep i u kind now s = Inr s' \<Longrightarrow> kind \<in> {'''', DepFeedsInto, DepBlocks, DepSuggests} \<Longrightarrow>
    (u = RootID s \<Longrightarrow> validID u) \<Longrightarrow> plan_step s s'"
  \<comment> \<open>the amended description is the root's or still within the limit of a description\<close>
| Amend: "Amend i words now s = Inr s' \<Longrightarrow> task_at s i = Some t \<Longrightarrow>
    i = RootID s \<or> length (TrimSpace words) + 2 + length (Description t) \<le> 32768 \<Longrightarrow> plan_step s s'"
  \<comment> \<open>the revised task carries the ids and kinds a spec is stored with\<close>
| Revise: "Revise i p now s = Inr s' \<Longrightarrow> (\<And>t. task_at s i = Some t \<Longrightarrow> bare_task t) \<Longrightarrow> plan_step s s'"
  \<comment> \<open>the late check's soft dependencies are tasks of the plan, and it takes no deleted task's id\<close>
| AddReviewCheck: "AddReviewCheck spec now s = Inr s' \<Longrightarrow>
    (\<forall>d\<in>set (Dependencies (normalizeSpec spec (RootID s))). dep_Kind d = DepSuggests \<longrightarrow> task_at s (dep_TaskID d) \<noteq> None) \<Longrightarrow>
    ID (normalizeSpec spec (RootID s)) \<notin> Deleted s \<Longrightarrow> plan_step s s'"

inductive_cases plan_stepE: "plan_step s s'"

section \<open>What one step keeps\<close>

lemmas shape_steps = Claim_shape ClaimWake_shape ClaimNext_shape Done_shape SetVerdictBasis_shape Fail_shape
  Release_shape Wait_shape Wake_shape TouchClaims_shape hold_shape Retry_shape Cancel_shape CompleteRoot_shape
  FailRootAt_shape addNote_shape AddContext_shape Prune_shape

lemma root_end_shapes:
  "StopRoot reason now s = Inr s' \<Longrightarrow> same_shape s s'" "EndRoot reason now s = Inr s' \<Longrightarrow> same_shape s s'"
  by (auto simp: StopRoot_def EndRoot_def intro: closeRoot_shape[rotated])

lemma step_inv: "plan_step s s' \<Longrightarrow> plan_inv s \<Longrightarrow> plan_inv s'"
proof (induction rule: plan_step.induct)
  case (Amend i words now s s' t)
  then show ?case using Amend_loads_iff[OF Amend(4) Amend(1,2)] by blast
qed (auto intro: same_shape_inv shape_steps root_end_shapes AddMany_inv RemoveDep_inv Archive_inv(1)
      deleteRecords_inv AddDep_inv Revise_inv AddReviewCheck_inv)

text \<open>Which run it is never changes, and an id once deleted is never a task's again.\<close>

definition run_kept :: "plan_state \<Rightarrow> plan_state \<Rightarrow> bool" where
  "run_kept s s' \<longleftrightarrow> RootID s' = RootID s \<and> PlanProject s' = PlanProject s \<and> Deleted s \<subseteq> Deleted s' \<and>
     (\<forall>i. task_at s' i \<noteq> None \<longrightarrow> i \<notin> Deleted s' - Deleted s \<and> (task_at s i \<noteq> None \<or> i \<notin> Deleted s))"

lemma run_kept_ids:
  "RootID s' = RootID s \<Longrightarrow> PlanProject s' = PlanProject s \<Longrightarrow> Deleted s' = Deleted s \<Longrightarrow>
    (\<And>i. task_at s' i \<noteq> None \<Longrightarrow> task_at s i \<noteq> None \<or> i \<notin> Deleted s) \<Longrightarrow> run_kept s s'"
  by (auto simp: run_kept_def)

lemma run_kept_shape: "same_shape s s' \<Longrightarrow> run_kept s s'"
  by (rule run_kept_ids) (auto simp: same_shape_def)

lemma run_kept_put: "task_at s i = Some t \<Longrightarrow> run_kept s (put_task i t' s)"
  by (rule run_kept_ids) (auto simp: task_at_put)

lemma run_kept_after:
  "run_kept s s1 \<Longrightarrow> same_shape s1 s' \<Longrightarrow> run_kept s s'"
  unfolding run_kept_def same_shape_def by (metis not_None_eq)

lemma AddMany_kept:
  assumes "AddMany specs now s = Inr s'"
  shows "run_kept s s'"
proof -
  let ?n = "map (\<lambda>spec. normalizeSpec spec (RootID s)) specs"
  have new: "\<forall>sp\<in>set ?n. ID sp \<notin> Deleted s"
    using assms by (auto simp: AddMany_def Let_def batchErr_None)
  from assms show ?thesis
  proof (rule AddMany_shape)
    fix sps assume sps: "sps = ?n" and a: "admissible s sps" and sh: "same_shape (admitted now sps s) s'"
    have "Deleted (admitted now sps s) = Deleted s"
      using same_rest(8)[OF markComposites(2)[of now sps "fold (insertTask now) sps s"]] insertTasks[of sps s now] a
      by (simp add: admitted_def admissible_def)
    then have "run_kept s (admitted now sps s)"
      using admitted_frame[OF a] admitted_dom[OF a] new sps by (intro run_kept_ids) auto
    then show ?thesis using sh by (rule run_kept_after)
  qed
qed

lemma AddReviewCheck_kept:
  assumes inv: "plan_inv s" and c: "AddReviewCheck spec now s = Inr s'"
    and new: "ID (normalizeSpec spec (RootID s)) \<notin> Deleted s"
  shows "run_kept s s'"
  using inv c
proof (rule AddReviewCheck_cases)
  fix sp s2
  assume sp: "sp = normalizeSpec spec (RootID s)"
    and rest: "s2\<lparr>Tasks := []\<rparr> = (insertTask now sp s)\<lparr>Tasks := []\<rparr>" and ids: "task_ids s2 = task_ids s @ [ID sp]"
    and s': "s' = promote now s2"
  have "task_at s2 i \<noteq> None \<longleftrightarrow> task_at s i \<noteq> None \<or> i = ID sp" for i
    using ids task_ids_iff[of i s2] task_ids_iff[of i s] by auto
  then have "run_kept s s2"
    using same_rest[OF rest] insertTask_frame[where now = now and spec = sp and s = s] new sp by (intro run_kept_ids) auto
  then show ?thesis unfolding s' by (rule run_kept_after) simp
qed

lemma put_stamp_promote_kept:
  "task_at s i = Some t \<Longrightarrow> run_kept s (promote now (upd i (\<lambda>t. t\<lparr>UpdatedAt := now\<rparr>) (put_task i t' s)))"
  by (rule run_kept_after[OF run_kept_put stamp_promote_shape])

lemma Archive_kept:
  assumes "Archive olderThan now s = Some (s', moved)"
  shows "run_kept s s'"
proof -
  from assms obtain doomed mv where s': "s' = recomputeComposite (s\<lparr>Tasks := filter (\<lambda>(i, t). i \<notin> set doomed) (Tasks s),
      Order := keepIDs (Order s) doomed, Notes := keepNotes (Notes s) doomed, Contexts := keepContexts (Contexts s) doomed\<rparr>)"
    by (auto simp: Archive_def split: prod.splits if_splits)
  let ?s0 = "s\<lparr>Tasks := filter (\<lambda>(i, t). i \<notin> set doomed) (Tasks s), Order := keepIDs (Order s) doomed,
    Notes := keepNotes (Notes s) doomed, Contexts := keepContexts (Contexts s) doomed\<rparr>"
  have dom: "task_at s' i \<noteq> None \<longrightarrow> task_at s i \<noteq> None" for i
    unfolding s' recomputeComposite_at task_at_dropped by auto
  show ?thesis using same_rest[OF recomputeComposite_rest(1)[of ?s0]] dom unfolding s'[symmetric]
    by (intro run_kept_ids) auto
qed

lemma deleteRecords_kept:
  assumes inv: "plan_inv s" and d: "deleteRecords i now archived s = Inr (s', ids)" and ag: "archive_agrees s archived"
  shows "run_kept s s'"
proof (rule deleteRecords_cases[OF assms])
  fix gone s0
  assume w: "without gone s s0" and s': "s' = recomputeComposite s0"
  have "RootID s' = RootID s" "PlanProject s' = PlanProject s"
    using same_rest[OF recomputeComposite_rest(1)[of s0]] withoutD(3,4)[OF w] s' by simp_all
  with deleteRecords_result(2,3)[OF assms] show ?thesis by (auto simp: run_kept_def)
qed

lemma step_kept: "plan_step s s' \<Longrightarrow> plan_inv s \<Longrightarrow> run_kept s s'"
proof (induction rule: plan_step.induct)
  case (AddDep i u now s s' kind)
  then show ?case by (auto simp: AddDep_def Let_def intro: put_stamp_promote_kept)
next
  case (RemoveDep i u now s s')
  then show ?case by (auto simp: RemoveDep_def Let_def intro: put_stamp_promote_kept)
next
  case (Amend i words now s s' t)
  then show ?case by (auto simp: Amend_def upd_task_def intro: run_kept_put)
next
  case (Revise i p now s s')
  then show ?case by (auto simp: Revise_def intro: run_kept_put)
qed (auto intro: run_kept_shape shape_steps root_end_shapes AddMany_kept Archive_kept deleteRecords_kept AddReviewCheck_kept)

section \<open>Reachable plans\<close>

inductive reachable :: "plan_state \<Rightarrow> plan_state \<Rightarrow> bool" for s0 where
  start: "reachable s0 s0"
| step: "reachable s0 s \<Longrightarrow> plan_step s s' \<Longrightarrow> reachable s0 s'"

definition tombs_ok :: "plan_state \<Rightarrow> bool" where
  "tombs_ok s \<longleftrightarrow> (\<forall>i\<in>Deleted s. task_at s i = None)"

lemma reachable_inv:
  assumes "reachable s0 s" and "plan_inv s0"
  shows "plan_inv s \<and> RootID s = RootID s0 \<and> PlanProject s = PlanProject s0 \<and> Deleted s0 \<subseteq> Deleted s"
  using assms
proof (induction rule: reachable.induct)
  case (step s s')
  then have inv: "plan_inv s" by blast
  with step_inv[OF step(2) inv] step_kept[OF step(2) inv] step show ?case by (auto simp: run_kept_def)
qed simp

lemma reachable_tombs:
  assumes "reachable s0 s" and "plan_inv s0" and "tombs_ok s0"
  shows "tombs_ok s"
  using assms
proof (induction rule: reachable.induct)
  case (step s s')
  have inv: "plan_inv s" using reachable_inv[OF step(1) step(4)] by blast
  from step_kept[OF step(2) inv] step show ?case unfolding run_kept_def tombs_ok_def by blast
qed simp

lemma reachable_trans: "reachable s1 s2 \<Longrightarrow> reachable s0 s1 \<Longrightarrow> reachable s0 s2"
  by (induction rule: reachable.induct) (auto intro: reachable.step)

text \<open>So a run opened anew and written to in any order always loads, and a deleted id never returns.\<close>

lemma run_always_loads:
  assumes "TrimSpace project \<noteq> ''''" and "validID rootID"
    and "reachable (seedState project rootID title description chat now) s"
  shows "validateLoadedState s = None" and "RootID s = rootID" and "PlanProject s = project"
    and "i \<in> Deleted s \<Longrightarrow> task_at s i = None"
    and "saveState s db = Inr db' \<Longrightarrow> \<exists>s2. loadState db' = Inr s2 \<and> reads_back s s2"
proof -
  note r = reachable_inv[OF assms(3) seed_inv[OF assms(1,2)]]
  then show "validateLoadedState s = None" by (simp add: plan_inv_def)
  show "RootID s = rootID" "PlanProject s = project" using r by (simp_all add: seedState_def)
  have "tombs_ok (seedState project rootID title description chat now)" by (simp add: tombs_ok_def seedState_def)
  from reachable_tombs[OF assms(3) seed_inv[OF assms(1,2)] this]
  show "i \<in> Deleted s \<Longrightarrow> task_at s i = None" by (simp add: tombs_ok_def)
  show "saveState s db = Inr db' \<Longrightarrow> \<exists>s2. loadState db' = Inr s2 \<and> reads_back s s2"
    using save_then_load r by blast
qed

section \<open>The store's writes over the database\<close>

text \<open>Each write of a handle meets the contract of \<^verbatim>\<open>PlanStore\<close> over this database.\<close>

interpretation stored_claim: stored_operation loadState "saveState :: plan_state \<Rightarrow> 'usd plan_db \<Rightarrow> plan_error + 'usd plan_db"
    "\<lambda>(i, agent, owner). Claim i agent owner" ..

interpretation stored_done: stored_operation loadState "saveState :: plan_state \<Rightarrow> 'usd plan_db \<Rightarrow> plan_error + 'usd plan_db"
    "\<lambda>(w, i, agent, result, artifacts, evidence). Done w i agent result artifacts evidence" ..

interpretation stored_cancel: stored_operation loadState "saveState :: plan_state \<Rightarrow> 'usd plan_db \<Rightarrow> plan_error + 'usd plan_db"
    "\<lambda>(i, reason). Cancel i reason" ..

interpretation stored_admission: stored_operation loadState "saveState :: plan_state \<Rightarrow> 'usd plan_db \<Rightarrow> plan_error + 'usd plan_db"
    AddMany ..

end
