(* ===== verification/PlanProgress.thy ===== *)
theory PlanProgress
  imports PlanRemove PlanReadyList PlanPath
begin

text \<open>
  When work can go on. Readiness climbs the containment tree, so what a task waits for mixes both
  graphs: the hard dependencies of everything above it, and, for a composite, its children.
  \<^verbatim>\<open>waits_on\<close> is that relation. Where it has no cycle a promoted plan that has open work, nothing
  held, parked or paused and no failed prerequisite always offers a leaf. \<^verbatim>\<open>validateGraphs\<close>
  checks the two graphs apart and admits plans where it has one.
\<close>

definition open_at :: "plan_state \<Rightarrow> string \<Rightarrow> bool" where
  "open_at s i \<longleftrightarrow> (\<exists>t. task_at s i = Some t \<and> \<not> terminal (Status t))"

definition gates :: "plan_state \<Rightarrow> string \<Rightarrow> string set" where
  "gates s i = {j. \<exists>a. a \<in> above s i \<and> (a, j) \<in> hard_rel s}"

definition waits_on :: "plan_state \<Rightarrow> (string \<times> string) set" where
  "waits_on s = {(i, j). open_at s i \<and> open_at s j \<and> (j \<in> gates s i \<or> (\<exists>u. task_at s j = Some u \<and> ParentID u = i))}"

text \<open>Nothing but the root is held or parked, nothing is paused, and no gate of open work ended but done.\<close>

definition unhindered :: "plan_state \<Rightarrow> bool" where
  "unhindered s \<longleftrightarrow> (\<forall>i t. task_at s i = Some t \<longrightarrow> \<not> Paused t \<and>
       (i \<noteq> RootID s \<longrightarrow> \<not> heldStatus (Status t) \<and> \<not> Waiting t)) \<and>
     (\<forall>i j u. open_at s i \<and> j \<in> gates s i \<and> task_at s j = Some u \<and> terminal (Status u) \<longrightarrow> Status u = StatusDone)"

lemma open_at_ids: "open_at s i \<Longrightarrow> i \<in> set (task_ids s)"
  by (auto simp: open_at_def task_ids_iff)

lemma finite_waits_on: "finite (waits_on s)"
proof (rule finite_subset)
  show "waits_on s \<subseteq> set (task_ids s) \<times> set (task_ids s)" by (auto simp: waits_on_def open_at_ids)
qed simp

text \<open>The root is nobody's gate: every task is below it, and a hard edge along a lineage is refused.\<close>

lemma root_no_gate:
  assumes inv: "plan_inv s" and i: "task_at s i = Some t"
  shows "RootID s \<notin> gates s i"
proof
  assume "RootID s \<in> gates s i"
  then obtain a v where a: "(a, RootID s) \<in> hard_rel s" "task_at s a = Some v" "RootID s \<in> set (hard_deps v)"
    by (auto simp: gates_def edge_rel_def)
  note wf = plan_invD[OF inv a(2)]
  have "(a, RootID s) \<notin> (parent_rel s)\<^sup>+" using wf(2,3) a(2,3) by (auto simp: graphs_ok_def task_wf_def)
  moreover have "(a, RootID s) \<in> (parent_rel s)\<^sup>*" using all_under_root[OF inv a(2)] by (simp add: under_def)
  ultimately have "a = RootID s" by (metis rtranclD)
  with a(1) plan_inv_hard(1)[OF inv] show False by (auto simp: acyclic_def)
qed

lemma gates_met:
  assumes inv: "plan_inv s" and u: "unhindered s" and i: "task_at s i = Some t" "\<not> terminal (Status t)"
    and least: "\<And>j. (i, j) \<in> waits_on s \<Longrightarrow> j = RootID s"
  shows "depsDone s t"
proof -
  have "hardDone s d" if a: "(i, a) \<in> (parent_rel s)\<^sup>*" "task_at s a = Some v" "d \<in> set (Dependencies v)" for a v d
  proof (cases "dep_Kind d = DepSuggests")
    case False
    let ?j = "dep_TaskID d"
    have g: "?j \<in> gates s i" using a False by (auto simp: gates_def edge_rel_def hard_deps_def)
    obtain w where w: "task_at s ?j = Some w" using plan_invD(3)[OF inv a(2)] a(3) by (auto simp: task_wf_def)
    have "terminal (Status w)"
    proof (rule ccontr)
      assume "\<not> terminal (Status w)"
      with i w g have "(i, ?j) \<in> waits_on s" by (auto simp: waits_on_def open_at_def)
      from least[OF this] g root_no_gate[OF inv i(1)] show False by simp
    qed
    with u i w g have "Status w = StatusDone" unfolding unhindered_def open_at_def by blast
    with w show ?thesis by (simp add: hardDone_def)
  qed (simp add: hardDone_def)
  then show ?thesis using depsDone_iff[OF plan_inv_tree[OF inv] i(1)] by blast
qed

lemma least_is_leaf:
  assumes inv: "plan_inv s" and p: "promote now s = s" and u: "unhindered s" and i: "task_at s i = Some t" "i \<noteq> RootID s"
    "\<not> terminal (Status t)" and least: "\<And>j. (i, j) \<in> waits_on s \<Longrightarrow> j = RootID s"
  shows "\<not> Composite t"
proof
  assume c: "Composite t"
  note wf = plan_invD[OF inv i(1)]
  have "list_ex (\<lambda>c. ParentID c = i) (task_list s)" using wf(3) c list_ex_child[OF wf(1)] by (simp add: task_wf_def)
  moreover have "terminal (Status v)" if "task_at s j = Some v" "ParentID v = i" for j v
  proof (rule ccontr)
    assume "\<not> terminal (Status v)"
    with that i have "(i, j) \<in> waits_on s" by (auto simp: waits_on_def open_at_def)
    with least have "j = RootID s" by blast
    with that wf(6) have "i = []" by auto
    with wf(3) i(2) show False by (auto simp: task_wf_def validateSpec_def split: if_splits)
  qed
  ultimately have "allChildrenTerminal s i"
    by (auto simp: allChildrenTerminal_def Let_def filter_empty_conv list_all_iff list_ex_iff task_list_iff[OF wf(1)])
  moreover have "\<not> Waiting t" "\<not> heldStatus (Status t)" using u i by (auto simp: unhindered_def)
  ultimately have "closable s i t" using c i by (simp add: closable_def)
  with promote_result(3)[where now = now and s = s] p i(1) wf(8) show False by metis
qed

lemma open_work_has_leaf:
  assumes inv: "plan_inv s" and p: "promote now s = s" and ac: "acyclic (waits_on s)" and u: "unhindered s"
    and o: "open_at s k" "k \<noteq> RootID s"
  shows "\<exists>ts. ReadyLeaves uni s = Some ts \<and> ts \<noteq> []"
proof -
  have "wf ((waits_on s)\<inverse>)" by (rule finite_acyclic_wf_converse[OF finite_waits_on ac])
  then obtain i where m: "open_at s i \<and> i \<noteq> RootID s"
    "\<And>j. (j, i) \<in> (waits_on s)\<inverse> \<Longrightarrow> \<not> (open_at s j \<and> j \<noteq> RootID s)"
    by (rule wfE_min[where Q = "{i. open_at s i \<and> i \<noteq> RootID s}"]) (use o in auto)
  then obtain t where i: "task_at s i = Some t" "i \<noteq> RootID s" "\<not> terminal (Status t)" by (auto simp: open_at_def)
  have least: "j = RootID s" if "(i, j) \<in> waits_on s" for j using m(2)[of j] that by (auto simp: waits_on_def)
  have d: "depsDone s t" by (rule gates_met[OF inv u i(1,3) least])
  have leaf: "\<not> Composite t" by (rule least_is_leaf[OF inv p u i least])
  note wf = plan_invD[OF inv i(1)]
  have "\<not> pending_bad s i" using promote_result(2)[where now = now and s = s] p wf(8) by (auto simp: misplaced_def)
  moreover have h: "\<not> heldStatus (Status t)" "\<not> Waiting t" using u i by (auto simp: unhindered_def)
  ultimately have "Status t = StatusReady" using i d wf(3)
    by (cases "Status t") (auto simp: pending_bad_def task_wf_def)
  moreover have "\<not> pausedInLineage s t"
    using pausedInLineage_iff[OF plan_inv_tree[OF inv] i(1)] u by (auto simp: unhindered_def)
  moreover have "executionBlockReasons uni s t = []"
    using no_block_reasons[OF wf(1)] u plan_inv_ID[OF inv] unfolding unhindered_def by metis
  ultimately have ready: "dispatchable s t" "executionBlockReasons uni s t = []" using leaf by (simp_all add: dispatchable_def)
  from ReadyLeaves_exact[OF inv] obtain ts where ts: "ReadyLeaves uni s = Some ts"
    "\<And>t. t \<in> set ts \<longleftrightarrow> (\<exists>i. task_at s i = Some t) \<and> dispatchable s t \<and> \<not> Waiting t \<and> executionBlockReasons uni s t = []" by metis
  with ready h(2) i(1) have "t \<in> set ts" by blast
  with ts(1) show ?thesis by auto
qed

end
