(* ===== verification/PlanTrials.thy ===== *)
theory PlanTrials
  imports PlanRun PlanProgress PlanSamples
begin

text \<open>
  The concrete plans, databases and patches the witnesses of the properties run on, beside those
  of \<^verbatim>\<open>PlanSamples\<close>: a run written step by step from its opening, a plan whose work ended long
  ago, a parked leaf, and a store no plan was ever written to.
\<close>

section \<open>Operations that return\<close>

text \<open>A number is compared with a limit in binary when a definition is evaluated.\<close>

lemma limits_code [code_unfold]:
  "nat_of_num k < n \<longleftrightarrow> numeral k < int n" "nat_of_num k \<le> n \<longleftrightarrow> numeral k \<le> int n"
  "n < nat_of_num k \<longleftrightarrow> int n < numeral k" "n \<le> nat_of_num k \<longleftrightarrow> int n \<le> numeral k"
  "nat_of_num k ^ m \<le> n \<longleftrightarrow> numeral k ^ m \<le> int n"
  by (simp_all add: nat_of_num_numeral)

definition returns :: "'e + 'a \<Rightarrow> bool" where
  "returns r = (case r of Inl e \<Rightarrow> False | Inr x \<Rightarrow> True)"

text \<open>The rounds of \<^verbatim>\<open>promote\<close>, one pattern at a time, so that evaluation stops with the loop.\<close>

definition next_round :: "time \<Rightarrow> plan_state \<times> bool \<Rightarrow> plan_state" where
  "next_round now r = (if snd r then promote now (fst r) else fst r)"

lemma next_round_code [code]: "next_round now (s, True) = promote now s" "next_round now (s, False) = s"
  by (simp_all add: next_round_def)

lemma promote_code [code]: "promote now s = next_round now (promote_round now s)"
  by (subst promote.simps) (simp add: next_round_def split_beta Let_def)


lemma returnsE: "returns r \<Longrightarrow> \<exists>x. r = Inr x"
  by (auto simp: returns_def split: sum.splits)

lemma returns_pairE: "returns r \<Longrightarrow> \<exists>x y. r = Inr (x, y)"
  by (auto simp: returns_def split: sum.splits)

section \<open>Plans\<close>

definition part :: "string \<Rightarrow> string \<Rightarrow> task_spec" where
  "part i p = task_spec.truncate (leaf i p)"

definition run0 :: plan_state where
  "run0 = seedState ''p'' ''root'' ''the work'' '''' '''' 1"

definition run_specs :: "task_spec list" where
  "run_specs = [part ''a'' ''root'', part ''b'' ''a'']"

definition run1 :: plan_state where
  "run1 = promote 2 (case foldE (inheritTags (map ID run_specs)) run_specs (admitted 2 run_specs run0) of
     Inr s \<Rightarrow> s | Inl e \<Rightarrow> run0)"

definition run2 :: plan_state where
  "run2 = (case Claim ''b'' ''w'' [] 3 run1 of Inr s \<Rightarrow> s | Inl e \<Rightarrow> run1)"

definition ended_leaf :: "string \<Rightarrow> time \<Rightarrow> task" where
  "ended_leaf i n = (leaf i ''root'')\<lparr>Status := StatusDone, Result := ''it holds'', ClaimedBy := ''w'', CompletedAt := n\<rparr>"

definition demo_old :: plan_state where
  "demo_old = plan_of [(''root'', demo_root), (''a'', ended_leaf ''a'' 10),
     (''b'', (ended_leaf ''b'' 12)\<lparr>Dependencies := [\<lparr>dep_TaskID = ''a'', dep_Kind = DepFeedsInto\<rparr>]\<rparr>)]"

definition demo_parked :: plan_state where
  "demo_parked = plan_of [(''root'', demo_root), (''a'', (leaf ''a'' ''root'')\<lparr>Waiting := True, WaitedAt := 2\<rparr>),
     (''b'', after_a (leaf ''b'' ''root''))]"

text \<open>A leaf a worker holds beside a free one, a failed leaf under a composite, and a review check with its run.\<close>

definition no_runs :: traj_world where
  "no_runs = \<lparr>tw_read = (\<lambda>i. None), tw_line = (\<lambda>l. None)\<rparr>"

definition one_run :: traj_world where
  "one_run = \<lparr>tw_read = (\<lambda>i. Some ''line''), tw_line = (\<lambda>l. Some \<lparr>ts_Kind = ''step'', ts_Command = ''git status'',
     ts_ExitCode = Some 0, ts_ExitsRecorded = True\<rparr>)\<rparr>"

definition demo_free :: plan_state where
  "demo_free = plan_of [(''root'', demo_root), (''a'', (leaf ''a'' ''root'')\<lparr>Status := StatusRunning, ClaimedBy := ''a''\<rparr>),
     (''b'', leaf ''b'' ''root'')]"

definition demo_review :: plan_state where
  "demo_review = plan_of [(''root'', demo_root),
     (''a'', (leaf ''a'' ''root'')\<lparr>Role := RoleCheck, Checks := [''git status''], Status := StatusRunning, ClaimedBy := ''a''\<rparr>)]"

definition demo_deep :: plan_state where
  "demo_deep = plan_of [(''root'', demo_root), (''a'', (leaf ''a'' ''root'')\<lparr>Composite := True, Status := StatusPending\<rparr>),
     (''b'', leaf ''b'' ''a'')]"

lemmas trial_eval = demo_eval demo_old_def demo_parked_def ended_leaf_def demo_free_def demo_review_def demo_deep_def

lemma trial_valid: "validateLoadedState demo_free = None" "validateLoadedState demo_deep = None"
proof -
  have "detectCycle demo_free hard_deps = None" "detectCycle demo_free parent_edges = None"
    "detectCycle demo_deep hard_deps = None" "detectCycle demo_deep parent_edges = None"
    by (simp_all add: detectCycle_def trial_eval hard_deps_def parent_edges_def)
  then have "validateGraphs demo_free = None" "validateGraphs demo_deep = None"
    by (simp_all add: validateGraphs_def lineageErr_def ancestorOf_def trial_eval eval_nat_numeral)
  then show "validateLoadedState demo_free = None" "validateLoadedState demo_deep = None"
    by (simp_all add: validateLoadedState_def loadTaskErr_def compositeErr_def trial_eval spec_eval)
qed

lemma trial_inv_more: "plan_inv demo_free" "plan_inv demo_deep"
  using trial_valid by (simp_all add: plan_inv_def rep_ok_def trial_eval stateVersion_def)

lemma trial_shapes: "same_shape demo demo_old" "same_shape demo demo_parked"
  by (auto simp: same_shape_def trial_eval keeps_def validateSpec_def)

lemma trial_inv: "plan_inv demo_old" "plan_inv demo_parked"
  using same_shape_inv[OF demo_inv] trial_shapes by blast+

lemma AddMany_runs:
  assumes "specs = map (\<lambda>spec. normalizeSpec spec (RootID s)) specs0" and "specs0 \<noteq> []" and "length specs0 \<le> 256"
    and "length (Tasks s) + length specs0 \<le> 1024" and "batchErr 0 s [] specs = None"
    and "firstErr (placeErr s (map ID specs)) specs = None" and "validateGraphs (admitted now specs s) = None"
    and "foldE (inheritTags (map ID specs)) specs (admitted now specs s) = Inr s3"
  shows "AddMany specs0 now s = Inr (promote now s3)"
  using assms by (simp add: AddMany_def Let_def admitted_def del: firstErr_None_iff)

lemma run_specs_normal: "run_specs = map (\<lambda>spec. normalizeSpec spec (RootID run0)) [part ''a'' '''', part ''b'' ''t-a'']"
proof -
  have "normalizeSpec (part ''a'' '''') ''root'' = part ''a'' ''root''"
    "normalizeSpec (part ''b'' ''t-a'') ''root'' = part ''b'' ''a''" by code_simp+
  then show ?thesis by (simp add: run_specs_def run0_def seedState_def)
qed

lemma run_specs_pass: "batchErr 0 run0 [] run_specs = None"
  by (subst batchErr_None) (simp add: run_specs_def part_def task_spec.truncate_def leaf_def spec_eval
     validateCheckDeclarations_def run0_def seedState_def task_at_def)

lemma run_steps: "AddMany [part ''a'' '''', part ''b'' ''t-a''] 2 run0 = Inr run1" "Claim ''b'' ''w'' [] 3 run1 = Inr run2"
proof -
  have "returns (foldE (inheritTags (map ID run_specs)) run_specs (admitted 2 run_specs run0))" by code_simp
  from returnsE[OF this] obtain s3 where "foldE (inheritTags (map ID run_specs)) run_specs (admitted 2 run_specs run0) = Inr s3"
    by blast
  moreover have "length (Tasks run0) = 1" by (simp add: run0_def seedState_def)
  moreover note run_specs_pass
  moreover have "firstErr (placeErr run0 (map ID run_specs)) run_specs = None"
    "validateGraphs (admitted 2 run_specs run0) = None" by code_simp+
  ultimately show "AddMany [part ''a'' '''', part ''b'' ''t-a''] 2 run0 = Inr run1"
    by (simp add: AddMany_runs[OF run_specs_normal] run1_def run_specs_def)
  have "returns (Claim ''b'' ''w'' [] 3 run1)" by code_simp
  from returnsE[OF this] show "Claim ''b'' ''w'' [] 3 run1 = Inr run2" by (auto simp: run2_def)
qed

lemma run_reaches: "reachable run0 run2"
  by (rule reachable.step[OF reachable.step[OF reachable.start plan_step.AddMany[OF run_steps(1)]]
        plan_step.Claim[OF run_steps(2)]])

lemma Done_runs:
  assumes "task_at s i = Some t" and "\<not> Waiting t" and "\<not> terminal (Status t)"
    and "verdictStep w t (TrimSpace result) = Inr t1" and "length result \<le> 65536" and "i \<noteq> RootID s"
    and "ownFinish s i agent t = None" and "EvidenceRequirements t = []"
  shows "\<exists>s'. Done w i agent result artifacts evidence now s = Inr s'"
  using assms by (simp add: Done_def changeTask_def refuseParked_def)

lemma git_status_allowed: "Action (CheckBash noReader auditAllowAll ''git status'') = ActionAllow"
proof -
  have "readOnlyBash ''git status''" by code_simp
  then have "criticalHit ''git status'' (fst (splitSegments ''git status'')) = None" by (rule readOnly_not_critical)
  moreover have "Action (base noReader auditAllowAll ToolBash '''') = ActionAllow" by code_simp
  ultimately show ?thesis
    by (simp add: CheckBash_def checkBash_def matchRule_def auditAllowAll_def Let_def split_beta)
qed

lemma git_status_auditable: "auditableDeclaredCheck ''git status''"
proof -
  note git_status_allowed
  moreover have "Vouchable ''git status''" "Fields ''git status'' = [''git'', ''status'']" "\<not> composed ''git status''"
    "\<not> onlyWildcards ''git''" by code_simp+
  ultimately show ?thesis by (simp add: auditableDeclaredCheck_def HasPrefix_def)
qed

lemma review_runs:
  "verdictStep one_run ((leaf ''a'' ''root'')\<lparr>Role := RoleCheck, Checks := [''git status''], Status := StatusRunning, ClaimedBy := ''a''\<rparr>)
     (TrimSpace ''holds: yes'') \<noteq> Inl e"
proof -
  have "recordedRuns one_run ''a'' = ([(''git status'', 0)], True, True)" by code_simp
  moreover have "TrimSpace ''git status'' = ''git status''" by code_simp
  ultimately show ?thesis
    by (simp add: verdictStep_def checkVerdictBasis_def leaf_def git_status_auditable)
qed

definition no_patch :: task_patch where
  "no_patch = \<lparr>p_Title = None, p_Description = None, p_Question = None, p_Kind = None, p_Priority = None,
     p_Capabilities = None, p_Resources = None, p_Effect = None, p_Parallel = None, p_Isolation = None, p_Role = None,
     p_ContextInputs = None, p_Deliverables = None, p_EvidenceRequirements = None, p_Agent = None, p_Acceptance = None,
     p_Checks = None\<rparr>"

text \<open>
  A batch that can never run: \<^verbatim>\<open>c\<close> waits for \<^verbatim>\<open>a\<close>, \<^verbatim>\<open>a\<close> for the composite \<^verbatim>\<open>q\<close>, and \<^verbatim>\<open>q\<close> for
  its child \<^verbatim>\<open>c\<close>. Neither graph alone has a cycle.
\<close>

definition loop_specs :: "task_spec list" where
  "loop_specs = [part ''q'' '''', (part ''c'' ''q'')\<lparr>Dependencies := [\<lparr>dep_TaskID = ''a'', dep_Kind = ''''\<rparr>]\<rparr>,
     (part ''a'' '''')\<lparr>Dependencies := [\<lparr>dep_TaskID = ''q'', dep_Kind = ''''\<rparr>]\<rparr>]"

lemma run0_inv: "plan_inv run0"
  unfolding run0_def
proof (rule seed_inv)
  show "TrimSpace ''p'' \<noteq> ''''" by code_simp
  show "validID ''root''" by (simp add: spec_eval)
qed

lemma loop_admitted:
  "case AddMany loop_specs 2 run0 of Inl e \<Rightarrow> False
   | Inr s' \<Rightarrow> list_all (\<lambda>(i, t). Status t \<noteq> StatusReady \<or> Composite t) (Tasks s') \<and> task_ids s' = [''root'', ''q'', ''c'', ''a''] \<and>
      list_all (\<lambda>(i, t). \<not> terminal (Status t) \<and> (i = ''root'' \<or> \<not> heldStatus (Status t))) (Tasks s')"
  by code_simp

text \<open>The sample run waits in order: the root for its parts, the second leaf for the first.\<close>

lemma demo_above: "above demo ''root'' = {''root''}" "above demo ''a'' = {''a'', ''root''}" "above demo ''b'' = {''b'', ''root''}"
proof -
  show r: "above demo ''root'' = {''root''}"
    using above_unfold[OF demo_tasks(3)] by (simp add: demo_root_def leaf_def)
  show "above demo ''a'' = {''a'', ''root''}" using above_unfold[OF demo_tasks(1)] r by (simp add: leaf_def)
  show "above demo ''b'' = {''b'', ''root''}" using above_unfold[OF demo_tasks(2)] r by (simp add: after_a_def leaf_def)
qed

lemma demo_open: "open_at demo i \<longleftrightarrow> i = ''root'' \<or> i = ''a'' \<or> i = ''b''"
  by (auto simp: open_at_def demo_eval)

lemma demo_hard: "(i, j) \<in> hard_rel demo \<longleftrightarrow> i = ''b'' \<and> j = ''a''"
  by (auto simp: edge_rel_def hard_deps_def demo_eval DepFeedsInto_def DepSuggests_def split: if_splits)

lemma demo_waits: "acyclic (waits_on demo)"
proof (rule acyclicI_order[where f = "\<lambda>i. if i = ''root'' then 2 else if i = ''b'' then 1 else (0::nat)"])
  fix i j assume w: "(i, j) \<in> waits_on demo"
  then have o: "i = ''root'' \<or> i = ''a'' \<or> i = ''b''" "j = ''root'' \<or> j = ''a'' \<or> j = ''b''"
    and d: "j \<in> gates demo i \<or> (\<exists>u. task_at demo j = Some u \<and> ParentID u = i)" by (auto simp: waits_on_def demo_open)
  have b: "''b'' \<in> above demo i \<longleftrightarrow> i = ''b''"
    using o(1) by (elim disjE) (simp_all only: demo_above, simp_all)
  have "k \<in> gates demo i \<longleftrightarrow> k = ''a'' \<and> ''b'' \<in> above demo i" for k
    unfolding gates_def demo_hard by blast
  then have "gates demo i = (if i = ''b'' then {''a''} else {})" unfolding b by auto
  moreover have "ParentID u = i \<Longrightarrow> i = ''root'' \<and> j \<noteq> ''root''" if "task_at demo j = Some u" for u
    using that o by (auto simp: demo_eval)
  ultimately show "(if j = ''root'' then 2 else if j = ''b'' then 1 else (0::nat)) <
      (if i = ''root'' then 2 else if i = ''b'' then 1 else 0)" using d o by (auto split: if_splits)
qed

lemma demo_unhindered: "unhindered demo"
  by (auto simp: unhindered_def demo_eval split: if_splits)

section \<open>Databases and handles\<close>

definition no_db :: "int plan_db" where
  "no_db = \<lparr>t_meta = None, t_tasks = [], t_deps = [], t_notes = [], t_contexts = [], t_deleted = {}, t_archived = [],
     t_live = [], t_spend = []\<rparr>"

definition cents :: "int money" where
  "cents = \<lparr>usd_zero = 0, usd_plus = (+), usd_less = (<), usd_sum = sum_list\<rparr>"

definition spent_db :: "int plan_db" where
  "spent_db = no_db\<lparr>t_spend := map (\<lambda>(i, m, c). \<lparr>s_task_id = i, s_model = m, s_role = ''work'', s_usd = c, s_in_tokens = 10,
     s_out_tokens = 4, s_at = formatTime 6\<rparr>) [(''a'', ''large'', 7), (''b'', ''small'', 1), (''a'', ''large'', 5)]\<rparr>"

definition mail_policy :: policy where
  "mail_policy = \<lparr>Default = ActionPrompt, Tools = [(''gmail_send'', ActionAllow)], BashPatterns = []\<rparr>"

definition saved_db :: "plan_state \<Rightarrow> int plan_db" where
  "saved_db s = (case saveState s no_db of Inr db \<Rightarrow> db | Inl e \<Rightarrow> no_db)"

text \<open>A database whose archive already holds a task under an id the plan uses again.\<close>

definition clash_db :: "int plan_db" where
  "clash_db = (saved_db demo_old)\<lparr>t_archived := [archivedRow 5 (0, ended_leaf ''b'' 3), archivedRow 5 (1, ended_leaf ''c'' 3)]\<rparr>"

text \<open>A database whose archive holds a task that was below a task still in the plan.\<close>

definition below_db :: "int plan_db" where
  "below_db = (saved_db demo)\<lparr>t_archived := [archivedRow 5 (0, (ended_leaf ''old'' 3)\<lparr>ParentID := ''a''\<rparr>)]\<rparr>"

definition all_well :: io where
  "all_well = \<lparr>io_lock = True, io_commit = True, io_read = True\<rparr>"

definition handle :: store where
  "handle = \<lparr>data = demo, closed = False\<rparr>"

lemma saves:
  assumes "plan_inv s" and "returns (saveDeps s)" and "NextID s = 1"
  shows "saveState s no_db = Inr (saved_db s)"
proof -
  obtain ds where "saveDeps s = Inr ds" using returnsE[OF assms(2)] by blast
  then have "returns (saveState s no_db)"
    using saveTasks_rows[OF assms(1)] assms(3) by (simp add: saveState_def returns_def)
  from returnsE[OF this] show ?thesis by (auto simp: saved_db_def)
qed

lemma trial_saves: "saveState demo no_db = Inr (saved_db demo)" "saveState demo_old no_db = Inr (saved_db demo_old)"
proof -
  have "returns (saveDeps demo)" "returns (saveDeps demo_old)" by code_simp+
  then show "saveState demo no_db = Inr (saved_db demo)" "saveState demo_old no_db = Inr (saved_db demo_old)"
    using saves demo_inv trial_inv(1) by (simp_all add: demo_def demo_old_def plan_of_def)
qed

lemma below_archived:
  obtains u where "loadArchived (t_archived below_db) = Inr [u]" "ID u = ''old''" "ParentID u = ''a''"
proof -
  have "case loadArchived (t_archived below_db) of Inl e \<Rightarrow> False
      | Inr us \<Rightarrow> length us = 1 \<and> ID (hd us) = ''old'' \<and> ParentID (hd us) = ''a''"
    by (simp add: below_db_def) code_simp
  then show ?thesis by (auto simp: length_Suc_conv split: sum.splits intro: that)
qed

section \<open>What the gates let through\<close>

text \<open>A dependency of a kind that is none of the three is stored, and the next load refuses the plan.\<close>

lemma odd_kind_is_stored:
  "\<exists>s'. AddDep ''b'' ''a'' ''maybe'' 5 demo_free = Inr s' \<and> validateLoadedState s' = Some (SpecOf ''b'' BadDependency)"
proof -
  have "case AddDep ''b'' ''a'' ''maybe'' 5 demo_free of Inl e \<Rightarrow> False
      | Inr s' \<Rightarrow> validateLoadedState s' = Some (SpecOf ''b'' BadDependency)" by code_simp
  then show ?thesis by (auto split: sum.splits)
qed

text \<open>A review check may depend on a task there is not: the cycle search then reads a task that is nil.\<close>

lemma check_on_unknown_task:
  "AddReviewCheck ((part ''c'' ''a'')\<lparr>Role := RoleCheck, Dependencies := [\<lparr>dep_TaskID = ''zz'', dep_Kind = ''''\<rparr>]\<rparr>) 20 demo_old =
     Inl NilDeref"
  by code_simp

text \<open>Where the unknown task is only suggested the check is stored, and the next load refuses the plan.\<close>

lemma check_softly_on_unknown_task:
  "\<exists>s'. AddReviewCheck ((part ''c'' ''a'')\<lparr>Role := RoleCheck, Dependencies := [\<lparr>dep_TaskID = ''zz'', dep_Kind = DepSuggests\<rparr>]\<rparr>)
       20 demo_old = Inr s' \<and> validateLoadedState s' = Some (UnknownDependencyOf ''c'' ''zz'')"
proof -
  have "case AddReviewCheck ((part ''c'' ''a'')\<lparr>Role := RoleCheck, Dependencies := [\<lparr>dep_TaskID = ''zz'', dep_Kind = DepSuggests\<rparr>]\<rparr>)
       20 demo_old of Inl e \<Rightarrow> False | Inr s' \<Rightarrow> validateLoadedState s' = Some (UnknownDependencyOf ''c'' ''zz'')"
    by code_simp
  then show ?thesis by (auto split: sum.splits)
qed

text \<open>A review check may take the id of a deleted task.\<close>

lemma check_takes_deleted_id:
  "\<exists>s1 ids s2. deleteRecords ''b'' 5 [] demo = Inr (s1, ids) \<and> AddReviewCheck ((part ''b'' ''a'')\<lparr>Role := RoleCheck\<rparr>) 20 s1 = Inr s2 \<and>
     ''b'' \<in> Deleted s2 \<and> task_at s2 ''b'' \<noteq> None"
proof -
  have "case deleteRecords ''b'' 5 [] demo of Inl e \<Rightarrow> False
      | Inr (s1, ids) \<Rightarrow> (case AddReviewCheck ((part ''b'' ''a'')\<lparr>Role := RoleCheck\<rparr>) 20 s1 of Inl e \<Rightarrow> False
          | Inr s2 \<Rightarrow> ''b'' \<in> Deleted s2 \<and> task_at s2 ''b'' \<noteq> None)" by code_simp
  then show ?thesis by (auto split: sum.splits)
qed

text \<open>An id that still starts with the prefix loses it at the next revision, under the key it had.\<close>

lemma revision_renames: "ID (revised run0 no_patch ((leaf ''t-x'' ''root''))) = ''x''"
  by code_simp

end
