(* ===== verification/PlanPreview.thy ===== *)
theory PlanPreview
  imports PlanPersist
begin

text \<open>
  The read of \<^verbatim>\<open>preview.go\<close>: the original request behind a saved run, for a picker that lists
  conversations without opening their plans.
\<close>

record root_preview =
  pv_Title :: string
  pv_Description :: string
  pv_CreatedAt :: time

datatype preview_error = NoSuchRow | BadMoment

text \<open>
  The join of \<^verbatim>\<open>tasks\<close> and \<^verbatim>\<open>meta\<close> has at most one row, the root's, since \<^verbatim>\<open>tasks.id\<close> is a primary
  key. A database without a plan, an absent file and an absent table answer an error alike.
\<close>

definition ReadRootPreview :: "'usd plan_db \<Rightarrow> preview_error + root_preview" where
  "ReadRootPreview db =
     (case [row \<leftarrow> t_tasks db. (case t_meta db of None \<Rightarrow> False | Some m \<Rightarrow> r_id row = m_root_id m)] of
        [] \<Rightarrow> Inl NoSuchRow
      | row # _ \<Rightarrow>
          (case parseTime (r_created_at row) of
             Inl _ \<Rightarrow> Inl BadMoment
           | Inr at \<Rightarrow> Inr \<lparr>pv_Title = r_title row, pv_Description = r_description row, pv_CreatedAt = at\<rparr>))"

lemma one_row:
  assumes "distinct (map r_id rows)" and "row \<in> set rows"
  shows "[r \<leftarrow> rows. r_id r = r_id row] = [row]"
  using assms by (induction rows) (auto simp: filter_empty_conv image_iff)

lemma saved_tables:
  assumes "plan_inv s" and "saveState s db = Inr db'"
  shows "t_tasks db' = taskRows s" "\<exists>m. t_meta db' = Some m \<and> m_root_id m = RootID s"
proof -
  show "t_tasks db' = taskRows s"
    using assms(2) by (cases "saveDeps s") (auto simp: saveState_def saveTasks_rows[OF assms(1)] split: if_splits)
  show "\<exists>m. t_meta db' = Some m \<and> m_root_id m = RootID s"
    using assms(2) by (cases "saveDeps s") (auto simp: saveState_def saveTasks_rows[OF assms(1)] split: if_splits)
qed

lemma root_row:
  assumes "plan_inv s" and "task_at s (RootID s) = Some r"
  obtains n where "[row \<leftarrow> taskRows s. r_id row = RootID s] = [taskRow n r]"
proof -
  have "RootID s \<in> set (Order s)" by (rule plan_invD(8)[OF assms])
  then obtain n where n: "(n, RootID s) \<in> set (enumerate 0 (Order s))"
    using in_set_conv_nth[of "RootID s" "Order s"] by (auto simp: in_set_enumerate_eq)
  then have "taskRow n r \<in> set (taskRows s)" using assms(2) by (force simp: taskRows_def)
  moreover have "r_id (taskRow n r) = RootID s" using plan_invD(3)[OF assms] by (simp add: taskRow_def task_wf_def)
  ultimately show ?thesis using one_row[of "taskRows s"] taskRows_ids[OF assms(1)] plan_invD(4)[OF assms] that by metis
qed

text \<open>What the picker reads of a plan that was saved is the root's title, words and moment.\<close>

theorem preview_of_saved:
  assumes "plan_inv s" and "task_at s (RootID s) = Some r" and "saveState s db = Inr db'"
  shows "ReadRootPreview db' = Inr \<lparr>pv_Title = Title r, pv_Description = Description r, pv_CreatedAt = CreatedAt r\<rparr>"
proof -
  obtain n where n: "[row \<leftarrow> taskRows s. r_id row = RootID s] = [taskRow n r]" by (rule root_row[OF assms(1,2)])
  have "parseTime (r_created_at (taskRow n r)) = Inr (CreatedAt r)" "r_title (taskRow n r) = Title r"
    "r_description (taskRow n r) = Description r" by (simp_all add: taskRow_def)
  with n saved_tables[OF assms(1,3)] show ?thesis by (auto simp: ReadRootPreview_def)
qed

text \<open>A plan whose root was deleted has no preview, although it loads.\<close>

theorem preview_of_deleted:
  assumes "plan_inv s" and "RootID s \<notin> set (task_ids s)" and "saveState s db = Inr db'"
  shows "ReadRootPreview db' = Inl NoSuchRow"
proof -
  have "RootID s \<notin> set (Order s)" using assms(1,2) plan_inv_order(2)[OF assms(1)] by simp
  then have "RootID s \<notin> r_id ` set (taskRows s)" by (metis taskRows_ids[OF assms(1)] list.set_map)
  then have "[row \<leftarrow> taskRows s. r_id row = RootID s] = []" by (force simp: filter_empty_conv)
  with saved_tables[OF assms(1,3)] show ?thesis by (auto simp: ReadRootPreview_def)
qed

end
