(* ===== verification/GoFmt.thy ===== *)
theory GoFmt
  imports GoPath
begin

text \<open>
  What the command line uses of Go's \<^verbatim>\<open>strings\<close>, \<^verbatim>\<open>strconv\<close>, \<^verbatim>\<open>fmt\<close> and \<^verbatim>\<open>path\<close> beyond
  \<^verbatim>\<open>GoStrings\<close>: \<^verbatim>\<open>Split\<close>, \<^verbatim>\<open>Trim\<close> with an ASCII cutset, \<^verbatim>\<open>LastIndexByte\<close>, \<^verbatim>\<open>path.Base\<close>,
  \<^verbatim>\<open>strconv.Itoa\<close> and \<^verbatim>\<open>strconv.Atoi\<close> (the verb \<^verbatim>\<open>%d\<close>), and \<^verbatim>\<open>strconv.Quote\<close> (the verb
  \<^verbatim>\<open>%q\<close>). Which runes beyond ASCII can be printed is a table of package \<^verbatim>\<open>unicode\<close>, and so
  are the letters and digits beyond ASCII: they are the argument \<^verbatim>\<open>unicode_tables\<close>.
\<close>

section \<open>Cutting a string\<close>

text \<open>\<^verbatim>\<open>strings.Split\<close> for a separator that is not empty.\<close>

function Split :: "string \<Rightarrow> string \<Rightarrow> string list" where
  "Split s sep =
     (case Cut s sep of
        None \<Rightarrow> [s]
      | Some (a, b) \<Rightarrow> if length b < length s then a # Split b sep else [s])"
  by pat_completeness auto
termination by (relation "measure (\<lambda>(s, sep). length s)") auto

declare Split.simps [simp del]

definition Trim :: "string \<Rightarrow> string \<Rightarrow> string" where
  "Trim s cutset = rev (dropWhile (\<lambda>c. c \<in> set cutset) (rev (dropWhile (\<lambda>c. c \<in> set cutset) s)))"

definition TrimRight :: "string \<Rightarrow> string \<Rightarrow> string" where
  "TrimRight s cutset = rev (dropWhile (\<lambda>c. c \<in> set cutset) (rev s))"

definition ContainsAny :: "string \<Rightarrow> string \<Rightarrow> bool" where
  "ContainsAny s chars = list_ex (\<lambda>c. c \<in> set chars) s"

text \<open>The text before and after the last occurrence of a byte.\<close>

definition LastCut :: "char \<Rightarrow> string \<Rightarrow> (string \<times> string) option" where
  "LastCut c s =
     (if c \<in> set s
      then let after = rev (takeWhile (\<lambda>d. d \<noteq> c) (rev s)) in Some (take (length s - length after - 1) s, after)
      else None)"

definition Base :: "string \<Rightarrow> string" where
  "Base p =
     (if p = [] then ''.''
      else let q = TrimRight p ''/''; b = rev (takeWhile (\<lambda>c. c \<noteq> CHR ''/'') (rev q))
           in if b = [] then ''/'' else b)"

lemma Split_append: "sep \<noteq> [] \<Longrightarrow> Join (Split s sep) sep = s"
proof (induction s sep rule: Split.induct)
  case (1 s sep)
  show ?case
  proof (cases "Cut s sep")
    case None
    then show ?thesis by (subst Split.simps) simp
  next
    case (Some p)
    obtain a b where p: "p = (a, b)" by (cases p)
    have s: "s = a @ sep @ b" using Cut_append[of s sep a b] Some p by simp
    with 1(2) have l: "length b < length s" by simp
    have ih: "Join (Split b sep) sep = b" using "1.IH"[OF Some[unfolded p] refl l "1.prems"] .
    have "Split b sep \<noteq> []" by (subst Split.simps) (simp split: option.split)
    then have "Join (a # Split b sep) sep = a @ sep @ Join (Split b sep) sep" by (cases "Split b sep") simp_all
    with ih s l show ?thesis unfolding Split.simps[of s sep] Some p by simp
  qed
qed

lemma dropWhile_set: "set (dropWhile P s) \<subseteq> set s"
  by (auto dest: set_dropWhileD)

lemma Trim_set: "set (Trim s cutset) \<subseteq> set s"
  unfolding Trim_def using dropWhile_set[of "\<lambda>c. c \<in> set cutset" s]
    dropWhile_set[of "\<lambda>c. c \<in> set cutset" "rev (dropWhile (\<lambda>c. c \<in> set cutset) s)"] by auto

lemma Trim_ends:
  assumes "Trim s cutset \<noteq> []"
  shows "hd (Trim s cutset) \<notin> set cutset" and "last (Trim s cutset) \<notin> set cutset"
proof -
  let ?P = "\<lambda>c. c \<in> set cutset" and ?a = "dropWhile (\<lambda>c. c \<in> set cutset) s"
  have a: "rev (dropWhile ?P (rev ?a)) = take (length ?a - length (takeWhile ?P (rev ?a))) ?a"
    by (metis dropWhile_eq_drop rev_drop length_rev rev_rev_ident)
  have hd_drop: "dropWhile ?P xs \<noteq> [] \<Longrightarrow> \<not> ?P (hd (dropWhile ?P xs))" for xs by (rule hd_dropWhile)
  have ne: "rev (dropWhile ?P (rev ?a)) \<noteq> []" using assms by (simp add: Trim_def)
  then have "?a \<noteq> []" by (rule contrapos_nn) (simp only: rev.simps dropWhile.simps)
  moreover have "hd (rev (dropWhile ?P (rev ?a))) = hd ?a" using ne unfolding a by (metis hd_take take_eq_Nil neq0_conv)
  ultimately show "hd (Trim s cutset) \<notin> set cutset" using hd_drop[of s] by (simp add: Trim_def)
  have "last (Trim s cutset) = hd (dropWhile ?P (rev ?a))" by (simp add: Trim_def last_rev)
  moreover have "dropWhile ?P (rev ?a) \<noteq> []" using ne by simp
  ultimately show "last (Trim s cutset) \<notin> set cutset" using hd_drop[of "rev ?a"] by simp
qed

section \<open>Whole numbers\<close>

fun decimal :: "nat \<Rightarrow> string" where
  "decimal n = (if n < 10 then [''0123456789'' ! n] else decimal (n div 10) @ [''0123456789'' ! (n mod 10)])"

declare decimal.simps [simp del]

definition Itoa :: "int \<Rightarrow> string" where
  "Itoa n = (if n < 0 then CHR ''-'' # decimal (nat (- n)) else decimal (nat n))"

definition isDigit :: "char \<Rightarrow> bool" where
  "isDigit c = (CHR ''0'' \<le> c \<and> c \<le> CHR ''9'')"

definition digitsValue :: "string \<Rightarrow> nat" where
  "digitsValue s = foldl (\<lambda>v c. 10 * v + (of_char c - 48)) 0 s"

text \<open>\<^verbatim>\<open>strconv.Atoi\<close> of a 64-bit \<^verbatim>\<open>int\<close>: an optional sign, decimal digits, and a value in range.\<close>

definition Atoi :: "string \<Rightarrow> int option" where
  "Atoi s =
     (let neg = HasPrefix s ''-''; ds = (if neg \<or> HasPrefix s ''+'' then tl s else s); n = int (digitsValue ds) in
      if ds = [] \<or> \<not> list_all isDigit ds then None
      else if neg then (if n > 2 ^ 63 then None else Some (- n))
      else if n \<ge> 2 ^ 63 then None else Some n)"

lemma decimal_digits: "list_all isDigit (decimal n) \<and> decimal n \<noteq> [] \<and> digitsValue (decimal n) = n"
proof (induction n rule: decimal.induct)
  case (1 n)
  have d: "isDigit (''0123456789'' ! k) \<and> of_char (''0123456789'' ! k) - 48 = k" if "k < 10" for k :: nat
  proof -
    have "list_all (\<lambda>k. isDigit (''0123456789'' ! k) \<and> of_char (''0123456789'' ! k) - 48 = k) [0..<10]" by code_simp
    with that show ?thesis by (auto simp: list_all_iff)
  qed
  show ?case
  proof (cases "n < 10")
    case True
    then show ?thesis using d[of n] by (subst (1 2 3) decimal.simps) (simp add: digitsValue_def)
  next
    case False
    with 1 d[of "n mod 10"] show ?thesis
      by (subst (1 2 3) decimal.simps) (simp add: digitsValue_def)
  qed
qed

lemma decimal_unsigned: "\<not> HasPrefix (decimal n) ''-''" "\<not> HasPrefix (decimal n) ''+''"
  using decimal_digits[of n] by (cases "decimal n"; auto simp: HasPrefix_def isDigit_def less_eq_char_def)+

text \<open>A number that fits reads back as itself.\<close>

lemma Atoi_Itoa: "- (2 ^ 63) \<le> n \<Longrightarrow> n < 2 ^ 63 \<Longrightarrow> Atoi (Itoa n) = Some n"
  using decimal_digits[of "nat n"] decimal_digits[of "nat (- n)"] decimal_unsigned[of "nat n"]
  by (auto simp: Itoa_def Atoi_def Let_def HasPrefix_def)

lemma Atoi_range: "Atoi s = Some n \<Longrightarrow> - (2 ^ 63) \<le> n \<and> n < 2 ^ 63"
  by (auto simp: Atoi_def Let_def split: if_splits)

section \<open>Quoting\<close>

definition hexPad :: "nat \<Rightarrow> nat \<Rightarrow> string" where
  "hexPad k n = replicate (k - length (hexDigits n)) (CHR ''0'') @ hexDigits n"

definition asciiPrint :: "nat \<Rightarrow> bool" where
  "asciiPrint r = (32 \<le> r \<and> r < 127)"

definition escapedRune :: "(nat \<Rightarrow> bool) \<Rightarrow> nat \<Rightarrow> string \<Rightarrow> string" where
  "escapedRune isPrint r bytes =
     (if r = 34 \<or> r = 92 then CHR 0x5C # bytes
      else if (if r < 128 then asciiPrint r else isPrint r) then bytes
      else if r = 7 then [CHR 0x5C, CHR ''a''] else if r = 8 then [CHR 0x5C, CHR ''b'']
      else if r = 12 then [CHR 0x5C, CHR ''f''] else if r = 10 then [CHR 0x5C, CHR ''n'']
      else if r = 13 then [CHR 0x5C, CHR ''r''] else if r = 9 then [CHR 0x5C, CHR ''t'']
      else if r = 11 then [CHR 0x5C, CHR ''v'']
      else if r < 32 \<or> r = 127 then [CHR 0x5C, CHR ''x''] @ hexPad 2 r
      else if r < 65536 then [CHR 0x5C, CHR ''u''] @ hexPad 4 r
      else [CHR 0x5C, CHR ''U''] @ hexPad 8 r)"

function quoteFrom :: "(nat \<Rightarrow> bool) \<Rightarrow> string \<Rightarrow> string" where
  "quoteFrom isPrint s =
     (case s of [] \<Rightarrow> []
      | c # t \<Rightarrow> let (r, n) = decodeRune s in
          (if n = 1 \<and> r = 65533 then [CHR 0x5C, CHR ''x''] @ hexPad 2 (of_char c)
           else escapedRune isPrint r (take n s)) @ quoteFrom isPrint (drop (max 1 n) s))"
  by pat_completeness auto
termination by (relation "measure (\<lambda>(p, s). length s)") auto

declare quoteFrom.simps [simp del]

definition Quote :: "(nat \<Rightarrow> bool) \<Rightarrow> string \<Rightarrow> string" where
  "Quote isPrint s = CHR 0x22 # quoteFrom isPrint s @ [CHR 0x22]"

section \<open>Runes\<close>

record unicode_tables =
  u_letter :: "nat \<Rightarrow> bool"
  u_digit :: "nat \<Rightarrow> bool"
  u_print :: "nat \<Rightarrow> bool"

text \<open>\<^verbatim>\<open>range s\<close>: the runes of a string.\<close>

function runes :: "string \<Rightarrow> nat list" where
  "runes s = (if s = [] then [] else fst (decodeRune s) # runes (drop (max 1 (snd (decodeRune s))) s))"
  by pat_completeness auto
termination by (relation "measure length") auto

declare runes.simps [simp del]

definition isLetter :: "unicode_tables \<Rightarrow> nat \<Rightarrow> bool" where
  "isLetter u r = (if r < 128 then (65 \<le> r \<and> r \<le> 90) \<or> (97 \<le> r \<and> r \<le> 122) else u_letter u r)"

definition isDigitRune :: "unicode_tables \<Rightarrow> nat \<Rightarrow> bool" where
  "isDigitRune u r = (if r < 128 then 48 \<le> r \<and> r \<le> 57 else u_digit u r)"

section \<open>File paths\<close>

text \<open>\<^verbatim>\<open>path.Clean\<close>: the segments that are not empty and not \<^verbatim>\<open>.\<close>, with each \<^verbatim>\<open>..\<close> taking one away.\<close>

definition cleanStep :: "bool \<Rightarrow> string \<Rightarrow> string list \<Rightarrow> string list" where
  "cleanStep rooted seg segs =
     (if seg = '''' \<or> seg = ''.'' then segs
      else if seg = ''..'' then
        (if segs \<noteq> [] \<and> last segs \<noteq> ''..'' then butlast segs else if rooted then segs else segs @ [''..''])
      else segs @ [seg])"

definition Clean :: "string \<Rightarrow> string" where
  "Clean p =
     (let rooted = HasPrefix p ''/''; segs = fold (cleanStep rooted) (Split p ''/'') [] in
      if rooted then CHR ''/'' # Join segs ''/'' else if segs = [] then ''.'' else Join segs ''/'')"

definition Dir :: "string \<Rightarrow> string" where
  "Dir p = Clean (case LastCut (CHR ''/'') p of None \<Rightarrow> [] | Some (a, b) \<Rightarrow> a @ ''/'')"

definition IsAbs :: "string \<Rightarrow> bool" where
  "IsAbs p = HasPrefix p ''/''"

text \<open>\<^verbatim>\<open>filepath.Join\<close> of two elements, on a system whose separator is the slash.\<close>

definition JoinPath :: "string \<Rightarrow> string \<Rightarrow> string" where
  "JoinPath a b = (if a = [] \<and> b = [] then [] else if a = [] then Clean b else Clean (a @ ''/'' @ b))"

lemma Clean_examples:
  "Clean ''a//b/./../c'' = ''a/c''" "Clean ''/../x/'' = ''/x''" "Clean ''../../x'' = ''../../x''" "Clean '''' = ''.''"
  "Base ''/a/b.go'' = ''b.go''" "Base ''a/'' = ''a''" "Base ''//'' = ''/''" "Dir ''a/b/c.go'' = ''a/b''" "Dir ''c.go'' = ''.''"
  by code_simp+

end
