(* ===== verification/PlanNames.thy ===== *)
theory PlanNames
  imports GoFmt
begin

text \<open>
  The file names a declared check or a work order mentions, and the lost number of a numbered
  file: \<^verbatim>\<open>internal/plandb/check_placeholder.go\<close>, with \<^verbatim>\<open>numberedOnly\<close> and \<^verbatim>\<open>cliSiblingList\<close>
  of \<^verbatim>\<open>cli.go\<close>. What the disk holds is the record \<^verbatim>\<open>disk\<close>: whether \<^verbatim>\<open>os.Stat\<close> says a path does
  not exist, and the entries (name and whether a directory) \<^verbatim>\<open>os.ReadDir\<close> answers, if it can.
\<close>

record disk =
  d_missing :: "string \<Rightarrow> bool"
  d_entries :: "string \<Rightarrow> (string \<times> bool) list option"

section \<open>Words shaped like a file\<close>

definition fileStem :: "unicode_tables \<Rightarrow> string \<Rightarrow> (string \<times> string) option" where
  "fileStem u base =
     (case LastCut (CHR ''.'') base of
        None \<Rightarrow> None
      | Some (stem, ext) \<Rightarrow>
          if stem = [] \<or> ext = [] then None
          else if \<not> list_ex (isLetter u) (runes stem) \<or> length (runes ext) > 10 then None
          else if \<not> isLetter u (hd (runes ext)) \<or> \<not> list_all (\<lambda>r. isLetter u r \<or> isDigitRune u r) (runes ext) then None
          else Some (stem, ext))"

definition fileShaped :: "unicode_tables \<Rightarrow> string \<Rightarrow> bool" where
  "fileShaped u word =
     (if word = '''' \<or> HasPrefix word ''-'' \<or> ContainsAny word ''*?[{$='' \<or> Contains word ''://'' \<or> Contains word ''...''
      then False else fileStem u (Base word) \<noteq> None)"

definition quoteMarks :: string where "quoteMarks = [CHR 0x27, CHR 0x22]"

definition checkWord :: "string \<Rightarrow> string" where
  "checkWord word = Trim (TrimRight (Trim word quoteMarks) '';,)'') quoteMarks"

definition CheckFiles :: "unicode_tables \<Rightarrow> string \<Rightarrow> string list" where
  "CheckFiles u check = filter (fileShaped u) (map checkWord (Fields check))"

text \<open>The loop of \<^verbatim>\<open>NamedFiles\<close>: trimmed until nothing more comes off.\<close>

definition proseMarks :: string where
  "proseMarks = [CHR 0x27, CHR 0x22, CHR 0x60] @ ''()[]{}<>,;:!?''"

definition proseTrim :: "string \<Rightarrow> string" where
  "proseTrim word = TrimSuffix (Trim word proseMarks) ''.''"

lemma Trim_within: "\<exists>a b. s = a @ Trim s cutset @ b"
proof -
  let ?P = "\<lambda>c. c \<in> set cutset" and ?a = "dropWhile (\<lambda>c. c \<in> set cutset) s"
  have "s = takeWhile ?P s @ ?a" by simp
  moreover have "?a = rev (dropWhile ?P (rev ?a)) @ rev (takeWhile ?P (rev ?a))"
    by (metis rev_append rev_rev_ident takeWhile_dropWhile_id)
  ultimately show ?thesis unfolding Trim_def by metis
qed

lemma TrimSuffix_within: "\<exists>b. s = TrimSuffix s p @ b"
  by (auto simp: TrimSuffix_def HasSuffix_def suffix_def)

lemma proseTrim_within: "\<exists>a b. w = a @ proseTrim w @ b"
  using Trim_within[of w proseMarks] TrimSuffix_within[of "Trim w proseMarks" "''.''"]
  unfolding proseTrim_def by (metis append.assoc)

lemma proseTrim_shorter: "proseTrim w \<noteq> w \<Longrightarrow> length (proseTrim w) < length w"
proof -
  assume ne: "proseTrim w \<noteq> w"
  obtain a b where w: "w = a @ proseTrim w @ b" using proseTrim_within by blast
  then have "length w = length a + length (proseTrim w) + length b" by (metis length_append add.assoc)
  moreover have "a \<noteq> [] \<or> b \<noteq> []" using ne w by auto
  ultimately show ?thesis by auto
qed

function proseWord :: "string \<Rightarrow> string" where
  "proseWord word = (if proseTrim word = word then word else proseWord (proseTrim word))"
  by pat_completeness auto
termination by (relation "measure length") (auto dest: proseTrim_shorter)

declare proseWord.simps [simp del]

definition NamedFiles :: "unicode_tables \<Rightarrow> string \<Rightarrow> string list" where
  "NamedFiles u txt = filter (fileShaped u) (map proseWord (Fields txt))"

section \<open>Numbered siblings\<close>

definition templateSlots :: "string list" where
  "templateSlots = [''NN'', ''XX'', ''nn'']"

definition siblingNumber :: "string \<Rightarrow> string \<Rightarrow> string \<Rightarrow> string" where
  "siblingNumber candidate stem ext = TrimSuffix (TrimPrefix candidate stem) (''.'' @ ext)"

definition numberedSibling :: "string \<Rightarrow> string \<Rightarrow> string \<Rightarrow> bool \<Rightarrow> bool" where
  "numberedSibling candidate stem ext allowTemplate =
     (if \<not> HasPrefix candidate stem \<or> \<not> HasSuffix candidate (''.'' @ ext) then False
      else let number = siblingNumber candidate stem ext in
        if allowTemplate \<and> number \<in> set templateSlots then True
        else number \<noteq> '''' \<and> list_all isDigit number)"

definition checkFilePath :: "string \<Rightarrow> string \<Rightarrow> string" where
  "checkFilePath dir file = (if IsAbs file then file else JoinPath dir file)"

definition PlaceholderSiblings :: "unicode_tables \<Rightarrow> disk \<Rightarrow> string \<Rightarrow> string \<Rightarrow> string list \<Rightarrow> string list" where
  "PlaceholderSiblings u d file dir texts =
     (if \<not> fileShaped u file then []
      else case fileStem u (Base file) of
        None \<Rightarrow> []
      | Some (stem, ext) \<Rightarrow>
          if \<not> HasSuffix stem ''_'' \<or> \<not> d_missing d (checkFilePath dir file) then []
          else let
            named = filter (\<lambda>c. numberedSibling c stem ext True) (map Base (concat (map (NamedFiles u) texts)));
            onDisk = (case d_entries d (checkFilePath dir (Dir file)) of None \<Rightarrow> []
              | Some es \<Rightarrow> map fst (filter (\<lambda>(name, isDir). \<not> isDir \<and> numberedSibling name stem ext False) es))
          in sort (remdups (named @ onDisk)))"

definition numberedOnly :: "string list \<Rightarrow> string \<Rightarrow> string \<Rightarrow> string list" where
  "numberedOnly siblings stem ext = filter (\<lambda>c. numberedSibling c stem ext False) siblings"

definition cliSiblingList :: "string list \<Rightarrow> string" where
  "cliSiblingList siblings =
     (case siblings of [] \<Rightarrow> '''' | [a] \<Rightarrow> a | [a, b] \<Rightarrow> a @ '' and '' @ b
      | a # b # rest \<Rightarrow> a @ '', '' @ b @ '' and '' @ Itoa (int (length siblings) - 2) @ '' more'')"

section \<open>What the siblings are\<close>

lemma LastCut_Some: "LastCut c s = Some (a, b) \<Longrightarrow> s = a @ c # b \<and> c \<notin> set b"
proof -
  assume l: "LastCut c s = Some (a, b)"
  let ?w = "takeWhile (\<lambda>d. d \<noteq> c) (rev s)"
  from l have c: "c \<in> set (rev s)" and b: "b = rev ?w" and a: "a = take (length s - length b - 1) s"
    by (auto simp: LastCut_def Let_def split: if_splits)
  obtain d where d: "dropWhile (\<lambda>d. d \<noteq> c) (rev s) = c # d"
    using c by (cases "dropWhile (\<lambda>d. d \<noteq> c) (rev s)") (auto simp: dropWhile_eq_Nil_conv dest: dropWhile_eq_Cons_conv[THEN iffD1])
  have "rev s = ?w @ c # d" using takeWhile_dropWhile_id[of "\<lambda>d. d \<noteq> c" "rev s"] d by simp
  then have "rev (rev s) = rev (?w @ c # d)" by simp
  then have "s = rev d @ c # b" unfolding b by simp
  moreover from this have "a = rev d" unfolding a by simp
  moreover have "c \<notin> set b" unfolding b by (auto dest: set_takeWhileD)
  ultimately show ?thesis by simp
qed

text \<open>An ASCII byte is never inside the encoding of another rune.\<close>

lemma contByte_wide: "contByte lo hi c \<Longrightarrow> 128 \<le> lo \<Longrightarrow> 128 \<le> byte c"
  by (simp add: contByte_def)

lemma decodeRune_wide:
  assumes a: "128 \<le> byte a" and d: "d \<in> set (take (max 1 (snd (decodeRune (a # r)))) (a # r))"
  shows "128 \<le> byte d"
proof -
  consider "194 \<le> byte a \<and> byte a \<le> 223" | "224 \<le> byte a \<and> byte a \<le> 239" | "240 \<le> byte a \<and> byte a \<le> 244"
    | "byte a < 194 \<or> 244 < byte a" by linarith
  then show ?thesis
  proof cases
    case 1
    with a d show ?thesis by (cases r) (auto split: if_splits dest: contByte_wide)
  next
    case 2
    then have n: "\<not> byte a < 128" "\<not> (194 \<le> byte a \<and> byte a \<le> 223)" by linarith+
    show ?thesis
    proof (cases "\<exists>b c t. r = b # c # t")
      case True
      then obtain b c t where "r = b # c # t" by blast
      with 2 n a d show ?thesis
        by (simp only: decodeRune.simps Let_def if_False list.case if_True simp_thms)
          (auto split: if_splits dest: contByte_wide)
    next
      case False
      then have "snd (decodeRune (a # r)) = 1" using 2 n by (simp add: Let_def split: list.split)
      with a d show ?thesis by simp
    qed
  next
    case 3
    then have n: "\<not> byte a < 128" "\<not> (194 \<le> byte a \<and> byte a \<le> 223)" "\<not> (224 \<le> byte a \<and> byte a \<le> 239)" by linarith+
    show ?thesis
    proof (cases "\<exists>b c e t. r = b # c # e # t")
      case True
      then obtain b c e t where "r = b # c # e # t" by blast
      with 3 n a d show ?thesis
        by (simp only: decodeRune.simps Let_def if_False list.case if_True simp_thms)
          (auto split: if_splits dest: contByte_wide)
    next
      case False
      then have "snd (decodeRune (a # r)) = 1" using 3 n by (simp add: Let_def split: list.split)
      with a d show ?thesis by simp
    qed
  next
    case 4
    with a d show ?thesis by (auto split: if_splits)
  qed
qed

lemma byte_is_rune: "c \<in> set s \<Longrightarrow> byte c < 128 \<Longrightarrow> byte c \<in> set (runes s)"
proof (induction s rule: runes.induct)
  case (1 s)
  from 1(2) obtain a r where s: "s = a # r" by (cases s) auto
  let ?n = "max 1 (snd (decodeRune s))"
  show ?case
  proof (cases "c \<in> set (drop ?n s)")
    case True
    with 1 s show ?thesis by (subst runes.simps) simp
  next
    case False
    then have "c \<in> set (take ?n s)" using 1(2) by (metis UnE append_take_drop_id set_append)
    then have "byte a < 128" using decodeRune_wide[of a c r] 1(3) s by fastforce
    then have "decodeRune s = (byte a, 1)" using s by simp
    with \<open>c \<in> set (take ?n s)\<close> s have "byte c = fst (decodeRune s)" by simp
    with s show ?thesis by (subst runes.simps) simp
  qed
qed

lemma fileStem_parts:
  assumes "fileStem u base = Some (stem, ext)"
  shows "base = stem @ ''.'' @ ext" and "stem \<noteq> []" and "ext \<noteq> []" and "CHR ''_'' \<notin> set ext" and "CHR ''.'' \<notin> set ext"
proof -
  from assms have l: "LastCut (CHR ''.'') base = Some (stem, ext)" and "stem \<noteq> [] \<and> ext \<noteq> []"
    and r: "list_all (\<lambda>r. isLetter u r \<or> isDigitRune u r) (runes ext)"
    by (auto simp: fileStem_def split: option.splits if_splits prod.splits)
  then show "stem \<noteq> []" "ext \<noteq> []" by simp_all
  from LastCut_Some[OF l] show "base = stem @ ''.'' @ ext" "CHR ''.'' \<notin> set ext" by simp_all
  show "CHR ''_'' \<notin> set ext"
  proof
    assume "CHR ''_'' \<in> set ext"
    then have "byte (CHR ''_'') \<in> set (runes ext)" by (rule byte_is_rune) (simp add: byte_def)
    with r show False by (auto simp: list_all_iff byte_def isLetter_def isDigitRune_def)
  qed
qed

lemma siblingNumber_parts:
  assumes p: "HasPrefix c stem" and q: "HasSuffix c (''.'' @ ext)" and us: "HasSuffix stem ''_''" and e: "CHR ''_'' \<notin> set ext"
  shows "c = stem @ siblingNumber c stem ext @ ''.'' @ ext"
proof -
  from p obtain r where r: "c = stem @ r" by (auto simp: HasPrefix_def prefix_def)
  from q obtain z where z: "c = z @ ''.'' @ ext" by (auto simp: HasSuffix_def suffix_def)
  from us obtain y where y: "stem = y @ ''_''" by (auto simp: HasSuffix_def suffix_def)
  have "\<exists>w. r = w @ ''.'' @ ext"
  proof -
    from r z have "stem @ r = z @ ''.'' @ ext" by simp
    then obtain w where "stem = z @ w \<and> w @ r = ''.'' @ ext \<or> stem @ w = z \<and> r = w @ ''.'' @ ext"
      unfolding append_eq_append_conv2 by auto
    then show ?thesis
    proof
      assume w: "stem = z @ w \<and> w @ r = ''.'' @ ext"
      then have "set (w @ r) = insert (CHR ''.'') (set ext)" by simp
      then have "CHR ''_'' \<notin> set w" using e by auto
      moreover have "w = [] \<or> last w = CHR ''_''" using w y by (cases w rule: rev_cases) auto
      ultimately have "w = []" using last_in_set by force
      with w show ?thesis by auto
    qed auto
  qed
  then obtain w where "r = w @ ''.'' @ ext" by blast
  with r show ?thesis by (simp add: siblingNumber_def TrimPrefix_def TrimSuffix_def HasPrefix_def HasSuffix_def suffix_def)
qed

lemma numberedSibling_iff:
  assumes us: "HasSuffix stem ''_''" and e: "CHR ''_'' \<notin> set ext"
  shows "numberedSibling c stem ext allow \<longleftrightarrow>
    (\<exists>n. c = stem @ n @ ''.'' @ ext \<and> (n \<noteq> [] \<and> list_all isDigit n \<or> allow \<and> n \<in> set templateSlots))"
proof
  assume n: "numberedSibling c stem ext allow"
  then have "HasPrefix c stem" "HasSuffix c (''.'' @ ext)" by (auto simp: numberedSibling_def split: if_splits)
  from siblingNumber_parts[OF this us e] n show "\<exists>n. c = stem @ n @ ''.'' @ ext \<and>
      (n \<noteq> [] \<and> list_all isDigit n \<or> allow \<and> n \<in> set templateSlots)"
    by (auto simp: numberedSibling_def Let_def split: if_splits)
next
  assume "\<exists>n. c = stem @ n @ ''.'' @ ext \<and> (n \<noteq> [] \<and> list_all isDigit n \<or> allow \<and> n \<in> set templateSlots)"
  then obtain n where c: "c = stem @ n @ ''.'' @ ext" and n: "n \<noteq> [] \<and> list_all isDigit n \<or> allow \<and> n \<in> set templateSlots" by blast
  have p: "HasPrefix c stem" "HasSuffix c (''.'' @ ext)" unfolding c by (simp_all add: HasPrefix_def HasSuffix_def suffix_def)
  then have "siblingNumber c stem ext = n" using siblingNumber_parts[OF p us e] c by simp
  with n p show "numberedSibling c stem ext allow" by (auto simp: numberedSibling_def)
qed

text \<open>
  The siblings of a file, when there are any: the file is named like \<^verbatim>\<open>stem_.ext\<close> and is not on
  disk, and the siblings are exactly the names with a number (or, in the texts, a template slot)
  in its place that the texts mention or the directory holds as files, in order and once each.
\<close>

definition sibling_named :: "unicode_tables \<Rightarrow> string list \<Rightarrow> string \<Rightarrow> string \<Rightarrow> string \<Rightarrow> bool" where
  "sibling_named u texts stem ext n \<longleftrightarrow> (n \<noteq> [] \<and> list_all isDigit n \<or> n \<in> set templateSlots) \<and>
     (\<exists>txt\<in>set texts. \<exists>w\<in>set (NamedFiles u txt). Base w = stem @ n @ ''.'' @ ext)"

definition sibling_on_disk :: "disk \<Rightarrow> string \<Rightarrow> string \<Rightarrow> string \<Rightarrow> string \<Rightarrow> bool" where
  "sibling_on_disk d dir stem ext n \<longleftrightarrow> n \<noteq> [] \<and> list_all isDigit n \<and>
     (\<exists>es. d_entries d dir = Some es \<and> (stem @ n @ ''.'' @ ext, False) \<in> set es)"

lemma PlaceholderSiblings_exact:
  assumes "fileShaped u file" and "fileStem u (Base file) = Some (stem, ext)" and us: "HasSuffix stem ''_''"
    and "d_missing d (checkFilePath dir file)"
  shows "c \<in> set (PlaceholderSiblings u d file dir texts) \<longleftrightarrow> (\<exists>n. c = stem @ n @ ''.'' @ ext \<and>
    (sibling_named u texts stem ext n \<or> sibling_on_disk d (checkFilePath dir (Dir file)) stem ext n))"
proof -
  note e = fileStem_parts(4)[OF assms(2)]
  let ?l = "checkFilePath dir (Dir file)"
  have "c \<in> set (PlaceholderSiblings u d file dir texts) \<longleftrightarrow>
      (\<exists>txt\<in>set texts. \<exists>w\<in>set (NamedFiles u txt). c = Base w) \<and> numberedSibling c stem ext True \<or>
      (\<exists>es. d_entries d ?l = Some es \<and> (c, False) \<in> set es) \<and> numberedSibling c stem ext False"
    using assms by (auto simp: PlaceholderSiblings_def Let_def image_iff split: option.splits)
  also have "\<dots> \<longleftrightarrow> (\<exists>n. c = stem @ n @ ''.'' @ ext \<and> sibling_named u texts stem ext n) \<or>
      (\<exists>n. c = stem @ n @ ''.'' @ ext \<and> sibling_on_disk d ?l stem ext n)"
    unfolding numberedSibling_iff[OF us e] sibling_named_def sibling_on_disk_def by (intro arg_cong2[where f = "(\<or>)"]) metis+
  finally show ?thesis by blast
qed

lemma PlaceholderSiblings_some:
  assumes "PlaceholderSiblings u d file dir texts \<noteq> []"
  shows "\<exists>stem ext. fileShaped u file \<and> fileStem u (Base file) = Some (stem, ext) \<and> HasSuffix stem ''_'' \<and>
    d_missing d (checkFilePath dir file)"
  using assms by (auto simp: PlaceholderSiblings_def split: if_splits option.splits prod.splits)

lemma PlaceholderSiblings_sorted:
  "sorted (PlaceholderSiblings u d file dir texts)" "distinct (PlaceholderSiblings u d file dir texts)"
  by (auto simp: PlaceholderSiblings_def Let_def split: option.splits prod.splits)

lemma proseWord_clean: "proseTrim (proseWord w) = proseWord w"
proof (induction w rule: proseWord.induct)
  case (1 w)
  then show ?case by (cases "proseTrim w = w") (simp_all add: proseWord.simps[of w])
qed

end
