(* ===== verification/CliScan.thy ===== *)
theory CliScan
  imports PlanNames PlanModel
begin

text \<open>
  The grammar of the command line, \<^verbatim>\<open>internal/plandb/cli.go\<close>: \<^verbatim>\<open>cliParsed\<close>, \<^verbatim>\<open>cliScan\<close>,
  \<^verbatim>\<open>verbPath\<close>, \<^verbatim>\<open>tail\<close>, \<^verbatim>\<open>cliRefusal\<close>, \<^verbatim>\<open>cliVerbHelp\<close> and \<^verbatim>\<open>cliUsage\<close>. The code never asks
  whether a flag was given, only for its value, so Go's maps of flags are functions with the
  zero value where nothing was written. A refusal is the sentence it prints (\<^verbatim>\<open>Says\<close>), a refusal
  of the store (\<^verbatim>\<open>StoreErr\<close>), or the rune of an unknown short flag; \<^verbatim>\<open>Diverges\<close> is a loop that
  was followed for as many rounds as the environment gives it and had not ended.
\<close>

section \<open>Words\<close>

datatype cli_error = StoreErr plan_error | UnknownShort nat | Says string | Diverges

definition emDash :: string where "emDash = [CHR 0xE2, CHR 0x80, CHR 0x94]"
definition apos :: string where "apos = [CHR 0x27]"
definition newline :: string where "newline = [CHR 0x0A]"
definition cliVersion :: string where "cliVersion = ''0.3.0''"

definition runHelp :: string where "runHelp = '' '' @ emDash @ '' run \"plandb help\" for the ported flags''"

section \<open>One scanned command line\<close>

record cli_parsed =
  pos :: "string list"
  vals :: "string \<Rightarrow> string"
  lists :: "string \<Rightarrow> string list"
  bools :: "string \<Rightarrow> bool"

definition emptyParse :: cli_parsed where
  "emptyParse = \<lparr>pos = [], vals = (\<lambda>_. ''''), lists = (\<lambda>_. []), bools = (\<lambda>_. False)\<rparr>"

definition boolFlags :: "string list" where
  "boolFlags = [''json'', ''compact'', ''full'', ''next'', ''keep-done'', ''cascade'', ''version'', ''archived'']"

definition valueFlags :: "string list" where
  "valueFlags = [''db'', ''agent'', ''project'', ''as'', ''kind'', ''dep'', ''check'', ''priority'', ''description'',
     ''parent'', ''into'', ''after'', ''before'', ''title'', ''prepend'', ''result'', ''subtasks'', ''task'', ''limit'',
     ''status'', ''chat'', ''older-than'', ''role'', ''by'', ''since'']"

definition addWord :: "string \<Rightarrow> cli_parsed \<Rightarrow> cli_parsed" where
  "addWord w p = p\<lparr>pos := pos p @ [w]\<rparr>"

definition setBool :: "string \<Rightarrow> bool \<Rightarrow> cli_parsed \<Rightarrow> cli_parsed" where
  "setBool name b p = p\<lparr>bools := (bools p)(name := b)\<rparr>"

definition setValue :: "string \<Rightarrow> string \<Rightarrow> cli_parsed \<Rightarrow> cli_parsed" where
  "setValue name v p =
     (if name = ''dep'' \<or> name = ''check'' then p\<lparr>lists := (lists p)(name := lists p name @ [v])\<rparr>
      else p\<lparr>vals := (vals p)(name := v)\<rparr>)"

text \<open>The runes after a single dash, each a flag of its own.\<close>

fun shortFlags :: "nat list \<Rightarrow> cli_parsed \<Rightarrow> cli_error + cli_parsed" where
  "shortFlags [] p = Inr p"
| "shortFlags (r # rs) p =
     (if r = 99 then shortFlags rs (setBool ''compact'' True p)
      else if r = 104 then shortFlags rs (setBool ''help'' True p)
      else Inl (UnknownShort r))"

function scanFrom :: "string list \<Rightarrow> cli_parsed \<Rightarrow> cli_error + cli_parsed" where
  "scanFrom argv p =
     (case argv of [] \<Rightarrow> Inr p
      | arg # rest \<Rightarrow>
          if arg = ''--'' then Inr (p\<lparr>pos := pos p @ rest\<rparr>)
          else if HasPrefix arg ''--'' then
            (let (name, given) = (case Cut (drop 2 arg) ''='' of None \<Rightarrow> (drop 2 arg, None) | Some (n, v) \<Rightarrow> (n, Some v)) in
             if name = ''help'' then scanFrom rest (setBool ''help'' True p)
             else if name \<in> set boolFlags then scanFrom rest (setBool name (given \<noteq> Some ''false'') p)
             else if name \<in> set valueFlags then
               (case given of
                  Some v \<Rightarrow> scanFrom rest (setValue name v p)
                | None \<Rightarrow> (case rest of
                             [] \<Rightarrow> Inl (Says (''flag --'' @ name @ '' needs a value''))
                           | v # rest' \<Rightarrow> scanFrom rest' (setValue name v p)))
             else Inl (Says (''unknown flag --'' @ name @ runHelp)))
          else if length arg > 1 \<and> hd arg = CHR ''-'' then
            (case shortFlags (runes (tl arg)) p of Inl e \<Rightarrow> Inl e | Inr p' \<Rightarrow> scanFrom rest p')
          else scanFrom rest (addWord arg p))"
  by pat_completeness auto
termination by (relation "measure (\<lambda>(argv, p). length argv)") auto

declare scanFrom.simps [simp del]

definition cliScan :: "string list \<Rightarrow> cli_error + cli_parsed" where
  "cliScan argv = scanFrom argv emptyParse"

section \<open>Verbs\<close>

definition verbPath :: "cli_parsed \<Rightarrow> string" where
  "verbPath p = (case pos p of [] \<Rightarrow> ''''
     | [v] \<Rightarrow> v
     | v # w # _ \<Rightarrow> if v = ''task'' \<or> v = ''what-if'' then v @ '' '' @ w else v)"

definition tailFrom :: "nat \<Rightarrow> cli_parsed \<Rightarrow> cli_parsed" where
  "tailFrom n p = p\<lparr>pos := drop n (pos p)\<rparr>"

definition lifecycleVerbs :: "string list" where
  "lifecycleVerbs = [''claim'', ''start'', ''fail'', ''pause'', ''next'', ''heartbeat'', ''progress'', ''approve'',
     ''use'', ''mcp'', ''serve'', ''watch'', ''events'', ''ahead'', ''artifact'', ''export'', ''import'']"

definition lifecycleTaskVerbs :: "string list" where
  "lifecycleTaskVerbs = [''claim'', ''start'', ''fail'', ''next'', ''heartbeat'', ''progress'', ''approve'']"

definition supervisorSentence :: string where
  "supervisorSentence = '': Task lifecycle and scope are managed by the supervisor''"

definition cliRefusal :: "cli_parsed \<Rightarrow> string option" where
  "cliRefusal p =
     (case pos p of [] \<Rightarrow> None
      | v # rest \<Rightarrow>
          if v \<in> set lifecycleVerbs then Some (verbPath p @ supervisorSentence)
          else if v = ''project'' then Some (verbPath p @ supervisorSentence)
          else if v = ''task'' \<and> rest \<noteq> [] \<and> hd rest \<in> set lifecycleTaskVerbs
          then Some (verbPath p @ supervisorSentence)
          else None)"

definition verbLines :: "(string \<times> string) list" where
  "verbLines =
    [(''init'', ''usage: plandb init NAME [--description TEXT] '' @ emDash @ '' create the run'' @ apos @ ''s store and its root task''),
     (''add'', ''usage: plandb add TITLE [--description TEXT] [--parent TASK_ID] [--dep TASK_ID[:KIND]]... [--as ID] [--kind K] [--priority N] [--role plan|work|check|probe] [--check COMMAND]...''),
     (''split'', ''usage: plandb split TASK_ID --into SPEC   (SPEC: JSON parts, \"A, B\", or \"A > B > C\")''),
     (''go'', ''usage: plandb go [--agent ID] '' @ emDash @ '' claim the highest-priority ready task for you''),
     (''done'', ''usage: plandb done [TASK_ID] --result TEXT [--agent ID] [--next]''),
     (''wait'', ''usage: plandb wait [TASK_ID] [--agent ID] '' @ emDash @ '' park the task until its wait is over: it is launched again once nothing it waited on is open any more (every dependency done, every child finished), or at once if one of them failed or was cancelled''),
     (''archive'', ''usage: plandb archive [--older-than 72h] '' @ emDash @ '' move old finished subtrees into the archive''),
     (''list'', ''usage: plandb list [--status STATUS] [--kind K] [--agent ID] [--project P] [--chat C] [--archived]''),
     (''status'', ''usage: plandb status [--full] '' @ emDash @ '' the one-line summary, or the containment tree with it''),
     (''search'', ''usage: plandb search QUERY [--limit N] [--project P] [--chat C]''),
     (''context'', ''usage: plandb context TEXT [--kind K] [--task TASK_ID]''),
     (''contexts'', ''usage: plandb contexts [--kind K] [--limit N] [--project P] [--chat C]''),
     (''prune'', ''usage: plandb prune CONTEXT_ID''),
     (''critical-path'', ''usage: plandb critical-path''),
     (''bottlenecks'', ''usage: plandb bottlenecks [--limit N]''),
     (''show'', ''usage: plandb show TASK_ID''),
     (''spend'', ''usage: plandb spend [--by chat|project|role|model|task] [--since 7d|24h|2026-09-01] '' @ emDash @ '' the ledger by role and by model, or rolled up under one axis''),
     (''help'', ''usage: plandb help''),
     (''task'', ''usage: plandb task <add-dep|amend|cancel|get|insert|note|notes|overview|pause|pivot|resume>''),
     (''task add-dep'', ''usage: plandb task add-dep DOWNSTREAM --after UPSTREAM [--kind feeds_into|blocks|suggests]''),
     (''task amend'', ''usage: plandb task amend TASK_ID --prepend TEXT''),
     (''task cancel'', ''usage: plandb task cancel TASK_ID''),
     (''task get'', ''usage: plandb task get TASK_ID''),
     (''task insert'', ''usage: plandb task insert --after A [--before B] --title T [--description D]''),
     (''task note'', ''usage: plandb task note TASK_ID TEXT''),
     (''task notes'', ''usage: plandb task notes TASK_ID''),
     (''task pause'', ''usage: plandb task pause TASK_ID '' @ emDash @ '' hold the task and its subtree out of the ready frontier''),
     (''task resume'', ''usage: plandb task resume TASK_ID '' @ emDash @ '' release the hold Pause set''),
     (''task overview'', ''usage: plandb task overview [--project P] [--chat C]''),
     (''task pivot'', ''usage: plandb task pivot TASK_ID --subtasks JSON [--keep-done]''),
     (''what-if'', ''usage: plandb what-if cancel TASK_ID''),
     (''what-if cancel'', ''usage: plandb what-if cancel TASK_ID '' @ emDash @ '' the task, its descendants, its hard dependents'')]"

definition usageLines :: "string list" where
  "usageLines =
    [''plandb '' @ cliVersion @ '' '' @ emDash @ '' the plan store on the bash belt'',
     '''',
     ''usage: plandb [--db PATH] [--json] [-c] [--agent ID] [--project NAME] <verb> [args]'',
     '''',
     ''the loop:'',
     ''  init NAME                 create the run'' @ apos @ ''s store and its root task'',
     ''  add TITLE                 create a task; --description is the work order'',
     ''  split [TASK_ID] --into    JSON parts, comma titles, or a \"A > B > C\" chain'',
     ''  go                        claim the highest-priority ready task for you'',
     ''  done [TASK_ID] --result   complete a task; --next claims the next'',
     '''',
     ''adapting the plan:'',
     ''  task add-dep DOWNSTREAM --after UPSTREAM [--kind K]'',
     ''  task amend TASK_ID --prepend TEXT'',
     ''  task insert --after A [--before B] --title T [--description D]'',
     ''  task pivot TASK_ID --subtasks JSON [--keep-done]'',
     ''  task cancel TASK_ID       |  what-if cancel TASK_ID'',
     ''  task note TASK_ID TEXT    |  task notes TASK_ID'',
     ''  task pause TASK_ID        |  task resume TASK_ID'',
     '''',
     ''reading:'',
     ''  show TASK_ID | task get TASK_ID | task overview [--project P] [--chat C]'',
     ''  list [--status STATUS] [--kind K] [--agent ID] [--project P] [--chat C] [--archived]'',
     ''  archive [--older-than 72h]  move old finished subtrees into the archive'',
     ''  status [--full] | search QUERY [--limit N] [--project P] [--chat C] | critical-path | bottlenecks [--limit N]'',
     ''  context TEXT [--kind K] [--task TASK_ID] | contexts [--kind K] [--limit N] [--project P] [--chat C] | prune CONTEXT_ID'',
     ''  spend                     the ledger by role and by model, or --by chat|project|role|model|task [--since WHEN]'',
     '''',
     ''global flags:'',
     ''  --db PATH      the store file (found by walking up when not given)'',
     ''  --json         structured answers'',
     ''  -c, --compact  accepted; compact is already the text shape'',
     ''  --agent ID     who you are (default: PLANDB_AGENT, then \"default\")'',
     ''  --project NAME accepted; one store per file, checked when given'',
     '''',
     ''the lifecycle is the runtime'' @ apos @ ''s, not yours: claim, start, fail, pause, next,'',
     ''heartbeat, progress, approve, and the scope verbs use, project (beyond init),'',
     ''mcp, serve, watch, events, ahead, artifact, export and import are refused'',
     ''with the supervisor'' @ apos @ ''s own sentence and change nothing.'']"

definition cliUsage :: string where
  "cliUsage = Join usageLines newline"

definition cliVerbHelp :: "string \<Rightarrow> string" where
  "cliVerbHelp verb = (case map_of verbLines verb of Some line \<Rightarrow> line | None \<Rightarrow> cliUsage)"

section \<open>What the grammar promises\<close>

text \<open>
  A command line written from its parts: words, flags that are on or off, flags with a value, in
  either spelling, and the two short flags. Read back, it says what it was written from, in
  whatever order the parts stand.
\<close>

datatype cli_item = Word string | On string | Off string | Joined string string | Apart string string | Short string

definition plainWord :: "string \<Rightarrow> bool" where
  "plainWord w = (\<not> HasPrefix w ''-'' \<or> w = ''-'')"

fun itemOk :: "cli_item \<Rightarrow> bool" where
  "itemOk (Word w) = plainWord w"
| "itemOk (On f) = (f \<in> set boolFlags \<or> f = ''help'')"
| "itemOk (Off f) = (f \<in> set boolFlags)"
| "itemOk (Joined f v) = (f \<in> set valueFlags)"
| "itemOk (Apart f v) = (f \<in> set valueFlags)"
| "itemOk (Short cs) = (cs \<noteq> [] \<and> set cs \<subseteq> {CHR ''c'', CHR ''h''})"

fun writeItem :: "cli_item \<Rightarrow> string list" where
  "writeItem (Word w) = [w]"
| "writeItem (On f) = [''--'' @ f]"
| "writeItem (Off f) = [''--'' @ f @ ''=false'']"
| "writeItem (Joined f v) = [''--'' @ f @ ''='' @ v]"
| "writeItem (Apart f v) = [''--'' @ f, v]"
| "writeItem (Short cs) = [CHR ''-'' # cs]"

fun readItem :: "cli_item \<Rightarrow> cli_parsed \<Rightarrow> cli_parsed" where
  "readItem (Word w) p = addWord w p"
| "readItem (On f) p = setBool f True p"
| "readItem (Off f) p = setBool f False p"
| "readItem (Joined f v) p = setValue f v p"
| "readItem (Apart f v) p = setValue f v p"
| "readItem (Short cs) p = fold (\<lambda>c. setBool (if c = CHR ''c'' then ''compact'' else ''help'') True) cs p"

lemma runes_ascii: "list_all (\<lambda>c. byte c < 128) cs \<Longrightarrow> runes cs = map byte cs"
proof (induction cs)
  case (Cons c cs)
  then show ?case by (subst runes.simps) simp
qed (simp add: runes.simps)

lemma Cut_absent: "c \<notin> set s \<Longrightarrow> Cut s [c] = None"
  by (induction s) (auto simp: Cut.simps)

lemma Cut_first: "c \<notin> set a \<Longrightarrow> Cut (a @ c # b) [c] = Some (a, b)"
  by (induction a) (auto simp: Cut.simps)

lemma flag_names:
  "f \<in> set boolFlags \<or> f = ''help'' \<or> f \<in> set valueFlags \<Longrightarrow> CHR ''='' \<notin> set f \<and> f \<noteq> []"
  "f \<in> set boolFlags \<Longrightarrow> f \<noteq> ''help''" "f \<in> set valueFlags \<Longrightarrow> f \<noteq> ''help'' \<and> f \<notin> set boolFlags"
proof -
  have "list_all (\<lambda>f. CHR ''='' \<notin> set f \<and> f \<noteq> []) (''help'' # boolFlags @ valueFlags)"
    "list_all (\<lambda>f. f \<noteq> ''help'') boolFlags" "list_all (\<lambda>f. f \<noteq> ''help'' \<and> f \<notin> set boolFlags) valueFlags" by code_simp+
  then show "f \<in> set boolFlags \<or> f = ''help'' \<or> f \<in> set valueFlags \<Longrightarrow> CHR ''='' \<notin> set f \<and> f \<noteq> []"
    "f \<in> set boolFlags \<Longrightarrow> f \<noteq> ''help''" "f \<in> set valueFlags \<Longrightarrow> f \<noteq> ''help'' \<and> f \<notin> set boolFlags"
    by (auto simp: list_all_iff)
qed

lemma scan_long:
  assumes "f \<noteq> []"
  shows "''--'' @ f \<noteq> ''--''" "HasPrefix (''--'' @ f) ''--''" "drop 2 (''--'' @ f) = f"
  using assms by (simp_all add: HasPrefix_def)

lemma scan_item: "itemOk it \<Longrightarrow> scanFrom (writeItem it @ rest) p = scanFrom rest (readItem it p)"
proof (cases it)
  case (Word w)
  assume "itemOk it"
  with Word have "w = ''-'' \<or> (w = [] \<or> hd w \<noteq> CHR ''-'')" by (cases w) (auto simp: plainWord_def HasPrefix_def)
  with Word show ?thesis by (subst scanFrom.simps) (cases w, auto simp: HasPrefix_def)
next
  case (On f)
  assume "itemOk it"
  with On have f: "f \<in> set boolFlags \<or> f = ''help''" by simp
  note n = flag_names(1)[of f] flag_names(2)[of f]
  with f have "Cut f ''='' = None" by (intro Cut_absent) blast
  with On f n scan_long[of f] show ?thesis by (subst scanFrom.simps) auto
next
  case (Off f)
  assume "itemOk it"
  with Off have f: "f \<in> set boolFlags" by simp
  note n = flag_names(1)[of f] flag_names(2)[of f]
  with f have "Cut (f @ ''=false'') ''='' = Some (f, ''false'')" by (simp add: Cut_first)
  with Off f n scan_long[of "f @ ''=false''"] show ?thesis by (subst scanFrom.simps) auto
next
  case (Joined f v)
  assume "itemOk it"
  with Joined have f: "f \<in> set valueFlags" by simp
  note n = flag_names(1)[of f] flag_names(3)[of f]
  with f have "Cut (f @ ''='' @ v) ''='' = Some (f, v)" by (simp add: Cut_first)
  with Joined f n scan_long[of "f @ ''='' @ v"] show ?thesis by (subst scanFrom.simps) auto
next
  case (Apart f v)
  assume "itemOk it"
  with Apart have f: "f \<in> set valueFlags" by simp
  note n = flag_names(1)[of f] flag_names(3)[of f]
  with f have "Cut f ''='' = None" by (intro Cut_absent) simp
  with Apart f n scan_long[of f] show ?thesis by (subst scanFrom.simps) auto
next
  case (Short cs)
  assume "itemOk it"
  with Short have cs: "cs \<noteq> []" "set cs \<subseteq> {CHR ''c'', CHR ''h''}" by simp_all
  then have r: "runes cs = map byte cs" by (intro runes_ascii) (auto simp: list_all_iff byte_def)
  have s: "shortFlags (map byte cs) p = Inr (readItem (Short cs) p)"
    using cs(2) by (induction cs arbitrary: p) (auto simp: byte_def)
  have "\<not> HasPrefix (CHR ''-'' # cs) ''--''" using cs by (cases cs) (auto simp: HasPrefix_def)
  with Short cs r s show ?thesis by (subst scanFrom.simps) auto
qed

lemma scan_items: "list_all itemOk items \<Longrightarrow> scanFrom (concat (map writeItem items) @ rest) p = scanFrom rest (fold readItem items p)"
  by (induction items arbitrary: p) (simp_all add: scan_item)

lemma scan_end: "scanFrom [] p = Inr p" "scanFrom (''--'' # rest) p = Inr (p\<lparr>pos := pos p @ rest\<rparr>)"
  by (simp_all add: scanFrom.simps)


end
