(* ===== verification/CliStore.thy ===== *)
theory CliStore
  imports CliScan PlanRun PlanPath PlanSearch PlanSpend PlanOpen PlanLive
begin

text \<open>
  What one run of the command line sees and does: its environment (\<^verbatim>\<open>cli_env\<close>), the state it
  moves (\<^verbatim>\<open>shell\<close>: the handle, the database, the lines printed so far, and how many calls of the
  store were made), and the calls of the store its verbs make. A verb is a function of the state
  that answers a value or a refusal; \<^verbatim>\<open>andC\<close> runs one after the other and stops at the first
  refusal. Other processes write the same database: before each call \<^verbatim>\<open>e_others\<close> says what it
  became meanwhile. The \<open>n\<close>-th call reads the \<open>n\<close>-th answer of the system, of the clock and of the
  source of randomness. Printed JSON is the Go value that is encoded, not its text.
\<close>

section \<open>What is printed\<close>

record cli_task_json =
  j_ID :: string
  j_ProjectID :: string
  j_ParentTaskID :: "string option"
  j_IsComposite :: bool
  j_Paused :: bool
  j_Title :: string
  j_Description :: string
  j_Status :: status
  j_Role :: string
  j_Kind :: string
  j_Priority :: int
  j_Parallel :: string
  j_Isolation :: string
  j_Dependencies :: "(string \<times> depkind) list"
  j_Checks :: "string list"
  j_VerdictBasis :: "verdict_basis option"
  j_ClaimedBy :: string
  j_Result :: string
  j_Error :: string
  j_CreatedAt :: time
  j_UpdatedAt :: time
  j_CompletedAt :: "time option"
  j_ArchivedAt :: "time option"

record cli_effect_json =
  Accelerated :: "string list"
  BlockedNow :: "string list"
  CriticalPathIDs :: "string list"
  Delayed :: "string list"
  Depth :: nat
  ReadyNow :: "string list"

record cli_project_state =
  ps_Done :: nat
  ps_Pending :: nat
  ps_Ready :: nat
  ps_Running :: nat
  ps_Total :: nat

record cli_dep_edge_json =
  ej_ID :: nat
  ej_FromTask :: string
  ej_ToTask :: string
  ej_Kind :: depkind
  ej_Condition :: string

record cli_note_json =
  nj_ID :: string
  nj_TaskID :: string
  nj_AgentID :: string
  nj_From :: string
  nj_Content :: string
  nj_CreatedAt :: time

record cli_counts =
  n_total :: nat
  n_pending :: nat
  n_ready :: nat
  n_running :: nat
  n_done :: nat
  n_failed :: nat
  n_cancelled :: nat

record search_json =
  xj_Kind :: string
  xj_ID :: string
  xj_Title :: "string option"
  xj_TaskID :: "string option"
  xj_Detail :: string

datatype 'usd json_doc =
    JTask cli_task_json | JTasks "cli_task_json list" | JDone cli_task_json "cli_task_json option"
  | JSplit "string list" cli_effect_json string cli_project_state "(string \<times> string) list"
  | JInsert string string status cli_effect_json cli_project_state
  | JPivot string "string list" "string list" "string list" cli_effect_json cli_project_state
  | JCancelled "string list" | JWhatIf string "string list" "string list" nat
  | JSpendSummary "(string \<times> 'usd spend_total) list" "(string \<times> 'usd spend_total) list"
  | JSpendLines "'usd spend_line list"
  | JStatus string string cli_counts
  | JSearch "search_json list" | JContext context_entry | JContexts "context_entry list" | JPruned string
  | JPath nat string | JBottlenecks "(string \<times> string \<times> status \<times> nat) list"
  | JOverview "cli_task_json list" "cli_dep_edge_json list" nat
  | JNote cli_note_json | JNotes "cli_note_json list"

datatype 'usd cli_line = Line string | Json "'usd json_doc"

section \<open>The environment and the state\<close>

record cli_part =
  part_Title :: string
  part_Description :: string
  part_DepsOn :: "string list"

record 'usd cli_env =
  e_io :: "nat \<Rightarrow> io"
  e_now :: "nat \<Rightarrow> time"
  e_rand :: "nat \<Rightarrow> nat list"
  e_others :: "nat \<Rightarrow> 'usd plan_db \<Rightarrow> 'usd plan_db"
  e_getenv :: "string \<Rightarrow> string"
  e_cwd :: "string option"
  e_stat :: "string \<Rightarrow> bool option"
  e_open :: "string \<Rightarrow> path_kind \<times> bool"
  e_disk :: disk
  e_unicode :: unicode_tables
  e_lower :: "string \<Rightarrow> string"
  e_traj :: traj_world
  e_money :: "'usd money"
  e_usd4 :: "'usd \<Rightarrow> string"
  e_parts :: "string \<Rightarrow> string + cli_part list"
  e_duration :: "string \<Rightarrow> time option"
  e_date :: "string \<Rightarrow> time option"
  e_daysAgo :: "time \<Rightarrow> int \<Rightarrow> time"
  e_draws :: nat

record 'usd shell =
  sh_store :: store
  sh_db :: "'usd plan_db"
  sh_tick :: nat
  sh_out :: "'usd cli_line list"

type_synonym ('usd, 'a) cli = "'usd shell \<Rightarrow> (cli_error + 'a) \<times> 'usd shell"

section \<open>Running one thing after another\<close>

definition ret :: "'a \<Rightarrow> ('usd, 'a) cli" where
  "ret x = (\<lambda>w. (Inr x, w))"

definition failC :: "cli_error \<Rightarrow> ('usd, 'a) cli" where
  "failC e = (\<lambda>w. (Inl e, w))"

definition andC :: "('usd, 'a) cli \<Rightarrow> ('a \<Rightarrow> ('usd, 'b) cli) \<Rightarrow> ('usd, 'b) cli" where
  "andC m k = (\<lambda>w. case m w of (Inl e, w1) \<Rightarrow> (Inl e, w1) | (Inr x, w1) \<Rightarrow> k x w1)"

definition liftC :: "cli_error + 'a \<Rightarrow> ('usd, 'a) cli" where
  "liftC r = (\<lambda>w. (r, w))"

fun eachC :: "('x \<Rightarrow> ('usd, unit) cli) \<Rightarrow> 'x list \<Rightarrow> ('usd, unit) cli" where
  "eachC f [] = ret ()"
| "eachC f (x # xs) = andC (f x) (\<lambda>_. eachC f xs)"

definition say :: "string \<Rightarrow> ('usd, unit) cli" where
  "say line = (\<lambda>w. (Inr (), w\<lparr>sh_out := sh_out w @ [Line line]\<rparr>))"

definition printJSON :: "'usd json_doc \<Rightarrow> ('usd, unit) cli" where
  "printJSON doc = (\<lambda>w. (Inr (), w\<lparr>sh_out := sh_out w @ [Json doc]\<rparr>))"

section \<open>The calls of the store\<close>

definition callC :: "'usd cli_env \<Rightarrow> (io \<Rightarrow> time \<Rightarrow> store \<Rightarrow> 'usd plan_db \<Rightarrow> (plan_error + 'a) \<times> store \<times> 'usd plan_db) \<Rightarrow>
    ('usd, 'a) cli" where
  "callC e f = (\<lambda>w. let n = sh_tick w in
     (case f (e_io e n) (e_now e n) (sh_store w) (e_others e n (sh_db w)) of
        (r, st, db) \<Rightarrow> (map_sum StoreErr (\<lambda>x. x) r, w\<lparr>sh_store := st, sh_db := db, sh_tick := Suc n\<rparr>)))"

text \<open>A query of the plan; None is the panic of a query (\<^verbatim>\<open>PlanReadyList\<close>).\<close>

definition queryC :: "'usd cli_env \<Rightarrow> (plan_state \<Rightarrow> 'a option) \<Rightarrow> ('usd, 'a) cli" where
  "queryC e q = callC e (\<lambda>io now st db.
     (case readPlan loadState io q st db of (r, st') \<Rightarrow>
        ((case r of None \<Rightarrow> Inl NilDeref | Some x \<Rightarrow> Inr x), st', db)))"

definition askC :: "'usd cli_env \<Rightarrow> (plan_state \<Rightarrow> plan_error + 'a) \<Rightarrow> ('usd, 'a) cli" where
  "askC e q = callC e (\<lambda>io now st db. (case readOpen loadState io q st db of (r, st') \<Rightarrow> (r, st', db)))"

text \<open>What the closure of a transaction leaves in a variable of its caller, if it changed anything.\<close>

definition captured :: "(plan_state \<Rightarrow> plan_error + plan_state \<times> 'a) \<Rightarrow> 'usd plan_db \<Rightarrow> 'a option" where
  "captured op db = (case andThen (loadState db) op of Inl e \<Rightarrow> None | Inr (s, x) \<Rightarrow> Some x)"

definition changeC :: "'usd cli_env \<Rightarrow> (time \<Rightarrow> plan_state \<Rightarrow> plan_error + plan_state \<times> 'a) \<Rightarrow>
    ('usd, 'a option \<times> plan_state) cli" where
  "changeC e op = callC e (\<lambda>io now st db.
     (case transact loadState saveState io (\<lambda>s. map_sum (\<lambda>x. x) fst (op now s)) st db of
        (Some er, st', db') \<Rightarrow> (Inl er, st', db')
      | (None, st', db') \<Rightarrow> (Inr (captured (op now) db, data st'), st', db')))"

text \<open>\<^verbatim>\<open>changeTask\<close> and its like answer a copy of the task as the write left it.\<close>

definition writeC :: "'usd cli_env \<Rightarrow> (time \<Rightarrow> plan_state \<Rightarrow> plan_error + plan_state) \<Rightarrow> string \<Rightarrow> ('usd, task) cli" where
  "writeC e op i = andC (changeC e (\<lambda>now s. map_sum (\<lambda>x. x) (\<lambda>s'. (s', ())) (op now s)))
     (\<lambda>(_, s). liftC (case task_at s i of None \<Rightarrow> Inl (StoreErr NilDeref) | Some t \<Rightarrow> Inr t))"

definition rootID :: "('usd, string) cli" where
  "rootID = (\<lambda>w. (Inr (RootID (data (sh_store w))), w))"

definition projectName :: "('usd, string) cli" where
  "projectName = (\<lambda>w. (Inr (PlanProject (data (sh_store w))), w))"

definition storeTasks :: "'usd cli_env \<Rightarrow> tag_filter list \<Rightarrow> ('usd, task list) cli" where
  "storeTasks e fs = queryC e (TasksOf fs)"

definition storeTask :: "'usd cli_env \<Rightarrow> string \<Rightarrow> ('usd, task option) cli" where
  "storeTask e i = queryC e (\<lambda>s. Some (Task i s))"

definition storeResolve :: "'usd cli_env \<Rightarrow> string \<Rightarrow> ('usd, task) cli" where
  "storeResolve e word = askC e (Resolve word)"

text \<open>The call's bytes of randomness must suffice for an id the plan does not have.\<close>

definition storeNextID :: "'usd cli_env \<Rightarrow> ('usd, string) cli" where
  "storeNextID e = (\<lambda>w. queryC e (\<lambda>s. NextTaskID s (e_rand e (sh_tick w))) w)"

definition storeAddMany :: "'usd cli_env \<Rightarrow> task_spec list \<Rightarrow> ('usd, task list) cli" where
  "storeAddMany e specs = andC (changeC e (\<lambda>now s. map_sum (\<lambda>x. x) (\<lambda>s'. (s', ())) (AddMany specs now s)))
     (\<lambda>(_, s). liftC (case those (created specs s) of None \<Rightarrow> Inl (StoreErr NilDeref) | Some ts \<Rightarrow> Inr ts))"

definition storeCancel :: "'usd cli_env \<Rightarrow> string \<Rightarrow> string \<Rightarrow> ('usd, task) cli" where
  "storeCancel e i reason = writeC e (Cancel i reason) i"

definition storeAmend :: "'usd cli_env \<Rightarrow> string \<Rightarrow> string \<Rightarrow> ('usd, task) cli" where
  "storeAmend e i words = writeC e (Amend i words) i"

definition storeRevise :: "'usd cli_env \<Rightarrow> string \<Rightarrow> task_patch \<Rightarrow> ('usd, task) cli" where
  "storeRevise e i p = writeC e (Revise i p) i"

definition storeAddDep :: "'usd cli_env \<Rightarrow> string \<Rightarrow> string \<Rightarrow> depkind \<Rightarrow> ('usd, task) cli" where
  "storeAddDep e downstream upstream kind = writeC e (AddDep downstream upstream kind) downstream"

definition storeRemoveDep :: "'usd cli_env \<Rightarrow> string \<Rightarrow> string \<Rightarrow> ('usd, task) cli" where
  "storeRemoveDep e downstream upstream = writeC e (RemoveDep downstream upstream) downstream"

definition storeDone :: "'usd cli_env \<Rightarrow> string \<Rightarrow> string \<Rightarrow> string \<Rightarrow> ('usd, task) cli" where
  "storeDone e i agent result = writeC e (Done (e_traj e) i agent result [] []) i"

definition storeWait :: "'usd cli_env \<Rightarrow> string \<Rightarrow> string \<Rightarrow> ('usd, task) cli" where
  "storeWait e i agent = writeC e (Wait i agent) i"

definition storeHold :: "'usd cli_env \<Rightarrow> bool \<Rightarrow> string \<Rightarrow> ('usd, task) cli" where
  "storeHold e paused i = writeC e (if paused then Pause i else Resume i) i"

definition storeClaimNext :: "'usd cli_env \<Rightarrow> string \<Rightarrow> ('usd, task option) cli" where
  "storeClaimNext e agent =
     (if TrimSpace agent = '''' then failC (StoreErr (WorkRefused AgentRequired))
      else andC (changeC e (ClaimNext (e_lower e) agent))
        (\<lambda>(best, s). ret (case best of None \<Rightarrow> None | Some i \<Rightarrow> task_at s i)))"

definition storeAddNote :: "'usd cli_env \<Rightarrow> string \<Rightarrow> string \<Rightarrow> string \<Rightarrow> ('usd, plan_note) cli" where
  "storeAddNote e i agent body = andC (changeC e (AddNote i agent body))
     (\<lambda>(n, _). liftC (case n of None \<Rightarrow> Inl (StoreErr NilDeref) | Some n \<Rightarrow> Inr n))"

definition storeAddContext :: "'usd cli_env \<Rightarrow> string \<Rightarrow> string \<Rightarrow> string \<Rightarrow> ('usd, context_entry) cli" where
  "storeAddContext e i kind content = andC (changeC e (AddContext i kind content))
     (\<lambda>(c, _). liftC (case c of None \<Rightarrow> Inl (StoreErr NilDeref) | Some c \<Rightarrow> Inr c))"

definition storePrune :: "'usd cli_env \<Rightarrow> string \<Rightarrow> ('usd, unit) cli" where
  "storePrune e i = andC (changeC e (\<lambda>now s. map_sum (\<lambda>x. x) (\<lambda>s'. (s', ())) (Prune i now s))) (\<lambda>_. ret ())"

definition storeArchive :: "'usd cli_env \<Rightarrow> time \<Rightarrow> ('usd, task list) cli" where
  "storeArchive e olderThan = callC e (\<lambda>io now. ArchiveTx io olderThan now)"

definition storeArchived :: "'usd cli_env \<Rightarrow> ('usd, task list) cli" where
  "storeArchived e = callC e (\<lambda>io now st db. (Archived io st db, st, db))"

definition storeNotes :: "'usd cli_env \<Rightarrow> string \<Rightarrow> ('usd, plan_note list) cli" where
  "storeNotes e i = queryC e (\<lambda>s. Some (NotesOf i 0 s))"

definition storeContexts :: "'usd cli_env \<Rightarrow> string \<Rightarrow> int \<Rightarrow> tag_filter list \<Rightarrow> ('usd, context_entry list) cli" where
  "storeContexts e kind limit fs = queryC e (\<lambda>s. Some (ContextsOf '''' kind limit fs s))"

definition storeSearch :: "'usd cli_env \<Rightarrow> string \<Rightarrow> int \<Rightarrow> tag_filter list \<Rightarrow> ('usd, search_result list) cli" where
  "storeSearch e query limit fs = queryC e (Search (e_lower e) query limit fs)"

definition storeCriticalPath :: "'usd cli_env \<Rightarrow> ('usd, task list) cli" where
  "storeCriticalPath e = queryC e (\<lambda>s. those (CriticalPath s))"

definition storeBottlenecks :: "'usd cli_env \<Rightarrow> int \<Rightarrow> ('usd, blocked_count list) cli" where
  "storeBottlenecks e limit = queryC e (Bottlenecks limit)"

definition storeReadySet :: "'usd cli_env \<Rightarrow> ('usd, ready_set) cli" where
  "storeReadySet e = queryC e (ReadySet (e_lower e) [])"

text \<open>The two maps of spend \<^verbatim>\<open>Summary\<close> carries beside its counts.\<close>

definition storeSpendTags :: "'usd cli_env \<Rightarrow>
    ('usd, (string \<times> 'usd spend_total) list \<times> (string \<times> 'usd spend_total) list) cli" where
  "storeSpendTags e = callC e (\<lambda>io now st db.
     let st' = refresh loadState io st db in
     (Inr (if \<not> io_read io then ([], []) else
             case spendTotals (e_money e) st' db of Inl er \<Rightarrow> ([], []) | Inr r \<Rightarrow> r), st', db))"

definition storeSpendSummary :: "'usd cli_env \<Rightarrow>
    ('usd, (string \<times> 'usd spend_total) list \<times> (string \<times> 'usd spend_total) list) cli" where
  "storeSpendSummary e = callC e (\<lambda>io now st db. (Inr (SpendSummary (e_money e) io st db), st, db))"

definition storeSpendBy :: "'usd cli_env \<Rightarrow> string \<Rightarrow> time \<Rightarrow> ('usd, 'usd spend_line list) cli" where
  "storeSpendBy e axis since = callC e (\<lambda>io now st db. (Inr (SpendBy (e_money e) io axis since st db), st, db))"

end
