(* ===== verification/CliView.thy ===== *)
theory CliView
  imports CliStore
begin

text \<open>
  How the command line shows what the store answers, and the reads it makes of the tasks: the small
  functions of \<^verbatim>\<open>internal/plandb/cli.go\<close> below its verbs. A function that asks the store for the
  tasks is split in two: what it makes of a list of tasks, and the call.
\<close>

section \<open>Words and marks\<close>

definition cliID :: "string \<Rightarrow> string" where
  "cliID i = ''t-'' @ i"

definition tick :: string where "tick = [CHR 0xE2, CHR 0x9C, CHR 0x93]"
definition cross :: string where "cross = [CHR 0xE2, CHR 0x9C, CHR 0x97]"
definition fisheye :: string where "fisheye = [CHR 0xE2, CHR 0x97, CHR 0x89]"
definition circle :: string where "circle = [CHR 0xE2, CHR 0x97, CHR 0x8B]"
definition slashed :: string where "slashed = [CHR 0xE2, CHR 0x8A, CHR 0x98]"
definition middot :: string where "middot = [CHR 0xC2, CHR 0xB7]"
definition arrow :: string where "arrow = [CHR 0xE2, CHR 0x86, CHR 0x92]"
definition backArrow :: string where "backArrow = [CHR 0xE2, CHR 0x86, CHR 0x90]"
definition pauseMark :: string where "pauseMark = [CHR 0xE2, CHR 0x8F, CHR 0xB8]"

fun cliIcon :: "status \<Rightarrow> string" where
  "cliIcon StatusDone = tick"
| "cliIcon StatusClaimed = fisheye"
| "cliIcon StatusRunning = fisheye"
| "cliIcon StatusReady = circle"
| "cliIcon StatusFailed = cross"
| "cliIcon StatusCancelled = slashed"
| "cliIcon st = middot"

definition cliPercent :: "nat \<Rightarrow> nat \<Rightarrow> nat" where
  "cliPercent finished all = (if all = 0 then 0 else finished * 100 div all)"

definition num :: "nat \<Rightarrow> string" where
  "num n = Itoa (int n)"

text \<open>\<^verbatim>\<open>cliProjectID\<close>: the rune map, the loop that collapses dashes, and the trim.\<close>

definition slugRune :: "nat \<Rightarrow> char" where
  "slugRune r = (if (97 \<le> r \<and> r \<le> 122) \<or> (48 \<le> r \<and> r \<le> 57) then char_of r
     else if 65 \<le> r \<and> r \<le> 90 then char_of (r + 32) else CHR ''-'')"

function collapse :: "string \<Rightarrow> string" where
  "collapse slug = (if Contains slug ''--'' then collapse (ReplaceAll slug ''--'' ''-'') else slug)"
  by pat_completeness auto
termination by (relation "measure length") (auto intro: ReplaceAll_shorter)

declare collapse.simps [simp del]

definition cliProjectID :: "string \<Rightarrow> string" where
  "cliProjectID name =
     (let slug = Trim (collapse (map slugRune (runes name))) ''-'' in ''p-'' @ (if slug = '''' then ''plan'' else slug))"

section \<open>Rows as values\<close>

definition nonzero :: "time \<Rightarrow> time option" where
  "nonzero at = (if at = 0 then None else Some at)"

definition cliTaskObject :: "string \<Rightarrow> task \<Rightarrow> cli_task_json" where
  "cliTaskObject project t =
     \<lparr>j_ID = cliID (ID t), j_ProjectID = cliProjectID project,
      j_ParentTaskID = (if ParentID t = '''' then None else Some (cliID (ParentID t))),
      j_IsComposite = Composite t, j_Paused = Paused t, j_Title = Title t, j_Description = Description t,
      j_Status = Status t, j_Role = roleOf t, j_Kind = Kind t, j_Priority = Priority t, j_Parallel = Parallel t,
      j_Isolation = Isolation t, j_Dependencies = map (\<lambda>d. (cliID (dep_TaskID d), dep_Kind d)) (Dependencies t),
      j_Checks = Checks t, j_VerdictBasis = (if vb_Kind (VerdictBasis t) = '''' then None else Some (VerdictBasis t)),
      j_ClaimedBy = ClaimedBy t, j_Result = Result t, j_Error = Error t, j_CreatedAt = CreatedAt t,
      j_UpdatedAt = UpdatedAt t, j_CompletedAt = nonzero (CompletedAt t), j_ArchivedAt = nonzero (ArchivedAt t)\<rparr>"

definition taskObject :: "task \<Rightarrow> ('usd, cli_task_json) cli" where
  "taskObject t = andC projectName (\<lambda>project. ret (cliTaskObject project t))"

definition printTask :: "task \<Rightarrow> ('usd, unit) cli" where
  "printTask t = andC (taskObject t) (\<lambda>j. printJSON (JTask j))"

definition cliNoteObject :: "plan_note \<Rightarrow> cli_note_json" where
  "cliNoteObject n = \<lparr>nj_ID = note_ID n, nj_TaskID = cliID (note_TaskID n), nj_AgentID = note_Agent n,
     nj_From = note_From n, nj_Content = note_Body n, nj_CreatedAt = note_At n\<rparr>"

definition cliNoteLine :: "plan_note \<Rightarrow> string" where
  "cliNoteLine n =
     (if note_From n = NoteFromPerson then ''  '' @ note_ID n @ '' person: '' @ note_Body n
      else if note_Agent n \<noteq> '''' then ''  '' @ note_ID n @ '' ['' @ note_Agent n @ ''] '' @ note_Body n
      else ''  '' @ note_ID n @ '' '' @ note_Body n)"

definition cliIDs :: "task list \<Rightarrow> string list" where
  "cliIDs ts = map (\<lambda>t. cliID (ID t)) ts"

definition cliFilter :: "cli_parsed \<Rightarrow> tag_filter list" where
  "cliFilter p = [\<lparr>flt_Project = vals p ''project'', flt_Chat = vals p ''chat''\<rparr>]"

section \<open>Counting\<close>

fun countTask :: "task \<Rightarrow> cli_counts \<Rightarrow> cli_counts" where
  "countTask t c0 = (let c = c0\<lparr>n_total := n_total c0 + 1\<rparr> in case Status t of
     StatusPending \<Rightarrow> c\<lparr>n_pending := n_pending c + 1\<rparr>
   | StatusReady \<Rightarrow> c\<lparr>n_ready := n_ready c + 1\<rparr>
   | StatusClaimed \<Rightarrow> c\<lparr>n_running := n_running c + 1\<rparr>
   | StatusRunning \<Rightarrow> c\<lparr>n_running := n_running c + 1\<rparr>
   | StatusDone \<Rightarrow> c\<lparr>n_done := n_done c + 1\<rparr>
   | StatusFailed \<Rightarrow> c\<lparr>n_failed := n_failed c + 1\<rparr>
   | StatusCancelled \<Rightarrow> c\<lparr>n_cancelled := n_cancelled c + 1\<rparr>
   | StatusOther w \<Rightarrow> c)"

definition countTasks :: "string \<Rightarrow> task list \<Rightarrow> cli_counts" where
  "countTasks root ts = fold countTask (filter (\<lambda>t. ID t \<noteq> root) ts)
     \<lparr>n_total = 0, n_pending = 0, n_ready = 0, n_running = 0, n_done = 0, n_failed = 0, n_cancelled = 0\<rparr>"

definition cliCount :: "'usd cli_env \<Rightarrow> ('usd, cli_counts) cli" where
  "cliCount e = andC (storeTasks e []) (\<lambda>ts. andC rootID (\<lambda>root. ret (countTasks root ts)))"

definition bracket :: "cli_counts \<Rightarrow> string" where
  "bracket c = ''['' @ num (n_done c) @ ''/'' @ num (n_total c) @ '' '' @ middot @ '' '' @ num (n_ready c) @ '' ready '' @
     middot @ '' '' @ num (n_pending c) @ '' blocked]''"

definition cliBracket :: "'usd cli_env \<Rightarrow> ('usd, string) cli" where
  "cliBracket e = andC (cliCount e) (\<lambda>c. ret (bracket c))"

definition cliProjectStateOf :: "'usd cli_env \<Rightarrow> ('usd, cli_project_state) cli" where
  "cliProjectStateOf e = andC (cliCount e) (\<lambda>c. ret \<lparr>ps_Done = n_done c, ps_Pending = n_pending c, ps_Ready = n_ready c,
     ps_Running = n_running c, ps_Total = n_total c\<rparr>)"

definition readyList :: "string \<Rightarrow> task list \<Rightarrow> string" where
  "readyList root ts = (let ids = cliIDs (filter (\<lambda>t. ID t \<noteq> root \<and> Status t = StatusReady) ts) in
     if ids = [] then ''-'' else Join ids '', '')"

definition runningList :: "string \<Rightarrow> task list \<Rightarrow> string" where
  "runningList root ts = (let parts = map (\<lambda>t. cliID (ID t) @ ''@'' @ (if ClaimedBy t = '''' then ''-'' else ClaimedBy t))
       (filter (\<lambda>t. \<not> (ID t = root \<or> Status t \<noteq> StatusClaimed \<and> Status t \<noteq> StatusRunning)) ts) in
     if parts = [] then ''-'' else Join parts '', '')"

definition cliReadyList :: "'usd cli_env \<Rightarrow> ('usd, string) cli" where
  "cliReadyList e = andC (storeTasks e []) (\<lambda>ts. andC rootID (\<lambda>root. ret (readyList root ts)))"

definition cliRunningList :: "'usd cli_env \<Rightarrow> ('usd, string) cli" where
  "cliRunningList e = andC (storeTasks e []) (\<lambda>ts. andC rootID (\<lambda>root. ret (runningList root ts)))"

section \<open>Finding tasks\<close>

text \<open>\<^verbatim>\<open>strings.Contains(err.Error(), "no task matches")\<close>, of the errors \<^verbatim>\<open>Resolve\<close> answers.\<close>

definition noTaskMatches :: "'usd cli_env \<Rightarrow> plan_error \<Rightarrow> bool" where
  "noTaskMatches e er = (case er of NoMatch word \<Rightarrow> True
     | SeveralMatches word ids \<Rightarrow> Contains (Quote (u_print (e_unicode e)) word) ''no task matches''
     | _ \<Rightarrow> False)"

text \<open>A refusal of the store rewritten by the caller.\<close>

definition rescueC :: "('usd, 'a) cli \<Rightarrow> (cli_error \<Rightarrow> cli_error) \<Rightarrow> ('usd, 'a) cli" where
  "rescueC m f = (\<lambda>w. case m w of (Inl er, w1) \<Rightarrow> (Inl (f er), w1) | r \<Rightarrow> r)"

definition bareWord :: "string \<Rightarrow> string" where
  "bareWord word = cliID (TrimPrefix word ''t-'')"

definition cliResolve :: "'usd cli_env \<Rightarrow> string \<Rightarrow> ('usd, task) cli" where
  "cliResolve e word = rescueC (storeResolve e word)
     (\<lambda>er. case er of StoreErr pe \<Rightarrow> if noTaskMatches e pe then Says (''not found: task '' @ bareWord word) else er | _ \<Rightarrow> er)"

definition cliTaskByID :: "task list \<Rightarrow> string \<Rightarrow> task option" where
  "cliTaskByID ts i = find (\<lambda>t. ID t = i) ts"

definition hardDependents :: "string \<Rightarrow> task list \<Rightarrow> string \<Rightarrow> task list" where
  "hardDependents root ts i = filter (\<lambda>t. ID t \<noteq> root \<and>
     list_ex (\<lambda>d. dep_Kind d \<noteq> DepSuggests \<and> dep_TaskID d = i) (Dependencies t)) ts"

definition cliHardDependents :: "'usd cli_env \<Rightarrow> string \<Rightarrow> ('usd, task list) cli" where
  "cliHardDependents e i = andC (storeTasks e []) (\<lambda>ts. andC rootID (\<lambda>root. ret (hardDependents root ts i)))"

definition firstHeld :: "string \<Rightarrow> string \<Rightarrow> task list \<Rightarrow> task option" where
  "firstHeld root agent ts = find (\<lambda>t. ID t \<noteq> root \<and> ClaimedBy t = agent \<and>
     (Status t = StatusClaimed \<or> Status t = StatusRunning)) ts"

definition cliRunningFor :: "'usd cli_env \<Rightarrow> string \<Rightarrow> ('usd, task option) cli" where
  "cliRunningFor e agent = andC (storeTasks e []) (\<lambda>ts. andC rootID (\<lambda>root. ret (firstHeld root agent ts)))"

definition cliAgent :: "'usd cli_env \<Rightarrow> cli_parsed \<Rightarrow> string" where
  "cliAgent e p = (if vals p ''agent'' \<noteq> '''' then vals p ''agent''
     else if e_getenv e ''PLANDB_AGENT'' \<noteq> '''' then e_getenv e ''PLANDB_AGENT'' else ''default'')"

section \<open>Subtrees\<close>

text \<open>
  The walk from a frontier, one level at a time. The number of tasks bounds the levels of a lawful
  plan (\<^verbatim>\<open>levels_exact\<close> in \<^verbatim>\<open>CliCascade\<close>).
\<close>

fun levelsFrom :: "nat \<Rightarrow> (string \<Rightarrow> task list) \<Rightarrow> string list \<Rightarrow> task list" where
  "levelsFrom 0 kids frontier = []"
| "levelsFrom (Suc n) kids frontier =
     (if frontier = [] then []
      else let level = concat (map kids frontier) in level @ levelsFrom n kids (map ID level))"

definition childrenIn :: "task list \<Rightarrow> string \<Rightarrow> task list" where
  "childrenIn ts i = filter (\<lambda>t. ParentID t = i) ts"

definition wanted :: "bool \<Rightarrow> task \<Rightarrow> bool" where
  "wanted keepDone t = (if terminal (Status t) then False
     else \<not> (keepDone \<and> Status t \<noteq> StatusPending \<and> Status t \<noteq> StatusReady))"

definition subtreeIn :: "task list \<Rightarrow> string \<Rightarrow> bool \<Rightarrow> task list" where
  "subtreeIn ts parent keepDone =
     levelsFrom (Suc (length ts)) (\<lambda>i. filter (wanted keepDone) (childrenIn ts i)) [parent]"

definition cliSubtree :: "'usd cli_env \<Rightarrow> string \<Rightarrow> bool \<Rightarrow> ('usd, task list) cli" where
  "cliSubtree e parent keepDone = andC (storeTasks e []) (\<lambda>ts. ret (subtreeIn ts parent keepDone))"

definition subtreeAllIn :: "task list \<Rightarrow> string \<Rightarrow> task list" where
  "subtreeAllIn ts parent = levelsFrom (Suc (length ts)) (childrenIn ts) [parent]"

definition cliSubtreeAll :: "'usd cli_env \<Rightarrow> string \<Rightarrow> ('usd, task list) cli" where
  "cliSubtreeAll e parent = andC (storeTasks e []) (\<lambda>ts. ret (subtreeAllIn ts parent))"

section \<open>The preview of a cancel\<close>

definition dependsOnDoomed :: "task list \<Rightarrow> string list \<Rightarrow> task \<Rightarrow> bool" where
  "dependsOnDoomed ts will t = list_ex (\<lambda>d. dep_Kind d \<noteq> DepSuggests \<and>
     (dep_TaskID d \<in> set will \<or>
      (case cliTaskByID ts (dep_TaskID d) of None \<Rightarrow> False | Some up \<Rightarrow> Status up = StatusCancelled))) (Dependencies t)"

definition previewStep :: "task list \<Rightarrow> task \<Rightarrow> task list \<times> string list \<times> bool \<Rightarrow> task list \<times> string list \<times> bool" where
  "previewStep ts t = (\<lambda>(deps, will, changed).
     if ID t \<in> set will \<or> terminal (Status t) then (deps, will, changed)
     else if dependsOnDoomed ts will t then (deps @ [t], ID t # will, True)
     else (deps, will, changed))"

definition previewRound :: "task list \<Rightarrow> task list \<times> string list \<Rightarrow> task list \<times> string list \<times> bool" where
  "previewRound ts = (\<lambda>(deps, will). fold (previewStep ts) ts (deps, will, False))"

definition unwilled :: "task list \<Rightarrow> string list \<Rightarrow> nat" where
  "unwilled ts will = card {t \<in> set ts. ID t \<notin> set will}"

lemma previewStep_skip:
  "ID t \<in> set will \<or> terminal (Status t) \<or> \<not> dependsOnDoomed ts will t \<Longrightarrow> previewStep ts t (deps, will, c) = (deps, will, c)"
  by (auto simp: previewStep_def)

lemma previewStep_take:
  "\<not> (ID t \<in> set will \<or> terminal (Status t) \<or> \<not> dependsOnDoomed ts will t) \<Longrightarrow>
    previewStep ts t (deps, will, c) = (deps @ [t], ID t # will, True)"
  by (auto simp: previewStep_def)

lemma preview_fold_unwilled:
  assumes "set us \<subseteq> set ts" and "fold (previewStep ts) us (deps, will, c) = (deps', will', c')"
  shows "set will \<subseteq> set will' \<and> (c' \<longrightarrow> c \<or> unwilled ts will' < unwilled ts will)"
  using assms
proof (induction us arbitrary: deps will c)
  case (Cons u us)
  show ?case
  proof (cases "ID u \<in> set will \<or> terminal (Status u) \<or> \<not> dependsOnDoomed ts will u")
    case True
    with Cons.prems(2) have "fold (previewStep ts) us (deps, will, c) = (deps', will', c')"
      by (simp add: previewStep_skip)
    with Cons show ?thesis by auto
  next
    case False
    with Cons.prems(2) have f: "fold (previewStep ts) us (deps @ [u], ID u # will, True) = (deps', will', c')"
      by (simp add: previewStep_take)
    have s: "set (ID u # will) \<subseteq> set will'" using Cons.IH[OF _ f] Cons.prems(1) by simp
    have "{t \<in> set ts. ID t \<notin> set will'} \<subset> {t \<in> set ts. ID t \<notin> set will}"
      using s False Cons.prems(1) by auto
    then have "unwilled ts will' < unwilled ts will" unfolding unwilled_def by (intro psubset_card_mono) simp_all
    with s show ?thesis by auto
  qed
qed simp

function previewLoop :: "task list \<Rightarrow> task list \<Rightarrow> string list \<Rightarrow> task list \<times> string list" where
  "previewLoop ts deps will =
     (case previewRound ts (deps, will) of
        (deps', will', changed) \<Rightarrow> if changed then previewLoop ts deps' will' else (deps', will'))"
  by pat_completeness auto
termination
  by (relation "measure (\<lambda>(ts, deps, will). unwilled ts will)")
     (auto simp: previewRound_def dest!: preview_fold_unwilled[OF subset_refl, OF sym])

declare previewLoop.simps [simp del]

definition previewIn :: "task list \<Rightarrow> task list \<Rightarrow> string \<Rightarrow> task list \<times> task list" where
  "previewIn desc ts target = (desc, fst (previewLoop ts [] (target # map ID desc)))"

definition cliCancelPreview :: "'usd cli_env \<Rightarrow> task \<Rightarrow> ('usd, task list \<times> task list) cli" where
  "cliCancelPreview e target = andC rootID (\<lambda>root.
     if ID target = root then failC (Says ''the harness owns the root task'')
     else andC (cliSubtree e (ID target) False) (\<lambda>desc.
          andC (storeTasks e []) (\<lambda>ts. ret (previewIn desc ts (ID target)))))"

section \<open>The effect of a change\<close>

definition effectOf :: "ready_set \<Rightarrow> task list \<Rightarrow> string list \<Rightarrow> task list \<Rightarrow> cli_effect_json" where
  "effectOf rs made delayed path =
     (let blocked = map (\<lambda>(t, reasons). ID t) (Blocked rs); ready = filter (\<lambda>t. Status t = StatusReady) made in
      \<lparr>Accelerated = cliIDs made,
       BlockedNow = cliIDs (filter (\<lambda>t. ID t \<in> set blocked) ready),
       CriticalPathIDs = cliIDs path, Delayed = map cliID delayed, Depth = length path,
       ReadyNow = cliIDs (filter (\<lambda>t. ID t \<notin> set blocked) ready)\<rparr>)"

definition cliEffect :: "'usd cli_env \<Rightarrow> task list \<Rightarrow> string list \<Rightarrow> ('usd, cli_effect_json) cli" where
  "cliEffect e made delayed = andC (storeReadySet e) (\<lambda>rs. andC (storeCriticalPath e) (\<lambda>path.
     ret (effectOf rs made delayed path)))"

definition depEdges :: "string \<Rightarrow> task list \<Rightarrow> cli_dep_edge_json list" where
  "depEdges root ts = map (\<lambda>(n, i, d). \<lparr>ej_ID = n, ej_FromTask = cliID (dep_TaskID d), ej_ToTask = cliID i,
       ej_Kind = dep_Kind d, ej_Condition = ''All''\<rparr>)
     (enumerate 1 (concat (map (\<lambda>t. map (Pair (ID t)) (Dependencies t)) (filter (\<lambda>t. ID t \<noteq> root) ts))))"

definition cliDepEdges :: "'usd cli_env \<Rightarrow> ('usd, cli_dep_edge_json list) cli" where
  "cliDepEdges e = andC (storeTasks e []) (\<lambda>ts. andC rootID (\<lambda>root. ret (depEdges root ts)))"

end
