(* ===== verification/CliWrite.thy ===== *)
theory CliWrite
  imports CliView
begin

text \<open>
  The verbs of the command line that write, \<^verbatim>\<open>internal/plandb/cli.go\<close>: \<^verbatim>\<open>cliAdd\<close>, \<^verbatim>\<open>cliSplit\<close>,
  \<^verbatim>\<open>cliGo\<close>, \<^verbatim>\<open>cliDone\<close>, \<^verbatim>\<open>cliWait\<close>, \<^verbatim>\<open>cliAddDep\<close>, \<^verbatim>\<open>cliSetChecks\<close>, \<^verbatim>\<open>cliAmend\<close>, \<^verbatim>\<open>cliInsert\<close>,
  \<^verbatim>\<open>cliPivot\<close>, \<^verbatim>\<open>cliCancel\<close>, \<^verbatim>\<open>cliArchive\<close>, \<^verbatim>\<open>cliContext\<close>, \<^verbatim>\<open>cliPrune\<close>, \<^verbatim>\<open>cliNote\<close> and
  \<^verbatim>\<open>cliTaskHold\<close>, with the functions that read their arguments. Each is the sequence of its
  store calls and prints, in the order of the code; a verb of several writes is several
  transactions, and stops where one of them is refused.
\<close>

section \<open>Reading arguments\<close>

definition quoted :: "'usd cli_env \<Rightarrow> string \<Rightarrow> string" where
  "quoted e s = Quote (u_print (e_unicode e)) s"

definition emptySpec :: task_spec where
  "emptySpec = \<lparr>ID = '''', Title = '''', Description = '''', Model = '''', Question = '''', Kind = '''', ParentID = '''',
     Dependencies = [], Priority = 0, Capabilities = [], Resources = [], Effect = '''', Parallel = '''', Isolation = '''',
     Role = '''', ContextInputs = [], Deliverables = [], EvidenceRequirements = [], Agent = '''', Acceptance = '''', Checks = []\<rparr>"

definition emptyPatch :: task_patch where
  "emptyPatch = \<lparr>p_Title = None, p_Description = None, p_Question = None, p_Kind = None, p_Priority = None,
     p_Capabilities = None, p_Resources = None, p_Effect = None, p_Parallel = None, p_Isolation = None, p_Role = None,
     p_ContextInputs = None, p_Deliverables = None, p_EvidenceRequirements = None, p_Agent = None,
     p_Acceptance = None, p_Checks = None\<rparr>"

definition cliDepArg :: "'usd cli_env \<Rightarrow> string \<Rightarrow> cli_error + string \<times> depkind" where
  "cliDepArg e v =
     (case Cut v '':'' of
        None \<Rightarrow> Inr (v, DepFeedsInto)
      | Some (i, kind) \<Rightarrow>
          if kind = DepFeedsInto \<or> kind = DepBlocks \<or> kind = DepSuggests then Inr (i, kind)
          else Inl (Says (''--dep kind '' @ quoted e kind @ '' is not one of feeds_into, blocks, suggests'')))"

text \<open>\<^verbatim>\<open>cliSplitSpecs\<close>: JSON parts (decoded by \<^verbatim>\<open>encoding/json\<close>), a chain, or titles.\<close>

definition partsErr :: "string \<Rightarrow> cli_part list \<Rightarrow> string option" where
  "partsErr flag parts =
     (if parts = [] then Some (flag @ '' names no parts'')
      else firstErr (\<lambda>(i, part). if TrimSpace (part_Title part) = '''' then Some (flag @ '' part '' @ num i @ '' has no title'') else None)
        (enumerate 0 parts))"

definition titlePart :: "string \<Rightarrow> cli_part" where
  "titlePart title = \<lparr>part_Title = title, part_Description = '''', part_DepsOn = []\<rparr>"

fun chained :: "string list \<Rightarrow> cli_part list" where
  "chained [] = []"
| "chained [a] = [titlePart a]"
| "chained (a # b # rest) = titlePart a # (case chained (b # rest) of [] \<Rightarrow> [] | q # qs \<Rightarrow> q\<lparr>part_DepsOn := [a]\<rparr> # qs)"

definition cliSplitSpecs :: "'usd cli_env \<Rightarrow> string \<Rightarrow> string \<Rightarrow> cli_error + cli_part list" where
  "cliSplitSpecs e flag v =
     (if HasPrefix v ''['' then
        (case e_parts e v of
           Inl err \<Rightarrow> Inl (Says (flag @ '' is not a JSON array of {title, description, deps_on}: '' @ err))
         | Inr parts \<Rightarrow> (case partsErr flag parts of Some msg \<Rightarrow> Inl (Says msg) | None \<Rightarrow> Inr parts))
      else if Contains v ''>'' then
        (let titles = map TrimSpace (Split v ''>'') in
         if '''' \<in> set titles then Inl (Says (flag @ '' chain has an empty step'')) else Inr (chained titles))
      else
        (let titles = filter (\<lambda>t. t \<noteq> '''') (map TrimSpace (Split v '','')) in
         if titles = [] then Inl (Says (flag @ '' names no titles'')) else Inr (map titlePart titles)))"

text \<open>Minting: an id per part, drawn again while an earlier part has it.\<close>

fun mintOne :: "nat \<Rightarrow> 'usd cli_env \<Rightarrow> string list \<Rightarrow> ('usd, string) cli" where
  "mintOne 0 e used = failC Diverges"
| "mintOne (Suc n) e used = andC (storeNextID e) (\<lambda>i. if i \<in> set used then mintOne n e used else ret i)"

fun mintMany :: "'usd cli_env \<Rightarrow> string list \<Rightarrow> cli_part list \<Rightarrow> ('usd, string list) cli" where
  "mintMany e used [] = ret []"
| "mintMany e used (p # ps) = andC (mintOne (e_draws e) e used) (\<lambda>i.
     andC (mintMany e (i # used) ps) (\<lambda>is. ret (i # is)))"

definition titleIndex :: "cli_part list \<Rightarrow> string list \<Rightarrow> string \<Rightarrow> string option" where
  "titleIndex parts ids = map_of (rev (zip (map part_Title parts) ids))"

fun partDeps :: "'usd cli_env \<Rightarrow> (string \<Rightarrow> string option) \<Rightarrow> string \<Rightarrow> string list \<Rightarrow> cli_error + dependency list" where
  "partDeps e index title [] = Inr []"
| "partDeps e index title (sibling # rest) =
     (if sibling = title then Inl (Says (''part '' @ quoted e title @ '' depends on itself''))
      else case index sibling of
        None \<Rightarrow> Inl (Says (''part '' @ quoted e title @ '' depends on '' @ quoted e sibling @
                  '', which is not one of the split'' @ apos @ ''s own parts''))
      | Some up \<Rightarrow> andThen (partDeps e index title rest) (\<lambda>ds. Inr (\<lparr>dep_TaskID = up, dep_Kind = DepFeedsInto\<rparr> # ds)))"

definition partSpec :: "string \<Rightarrow> string \<Rightarrow> cli_part \<Rightarrow> dependency list \<Rightarrow> task_spec" where
  "partSpec parent i part ds = emptySpec\<lparr>ID := i, Title := part_Title part, Description := part_Description part,
     ParentID := parent, Dependencies := ds\<rparr>"

fun partSpecs :: "'usd cli_env \<Rightarrow> (string \<Rightarrow> string option) \<Rightarrow> string \<Rightarrow> (string \<times> cli_part) list \<Rightarrow> cli_error + task_spec list" where
  "partSpecs e index parent [] = Inr []"
| "partSpecs e index parent ((i, part) # rest) =
     andThen (partDeps e index (part_Title part) (part_DepsOn part)) (\<lambda>ds.
     andThen (partSpecs e index parent rest) (\<lambda>specs. Inr (partSpec parent i part ds # specs)))"

definition cliBatchSpecs :: "'usd cli_env \<Rightarrow> string \<Rightarrow> cli_part list \<Rightarrow> ('usd, task_spec list) cli" where
  "cliBatchSpecs e parent parts = andC (mintMany e [] parts) (\<lambda>ids.
     liftC (partSpecs e (titleIndex parts ids) parent (zip ids parts)))"

text \<open>A number given to a flag, 0 where none was.\<close>

definition numberArg :: "'usd cli_env \<Rightarrow> string \<Rightarrow> string \<Rightarrow> cli_error + int" where
  "numberArg e flag v =
     (if v = '''' then Inr 0
      else case Atoi v of None \<Rightarrow> Inl (Says (flag @ '' needs a whole number, not '' @ quoted e v)) | Some n \<Rightarrow> Inr n)"

section \<open>The lost number of a check\<close>

text \<open>The last of the two texts' named siblings, or the first sibling.\<close>

definition siblingExample :: "unicode_tables \<Rightarrow> string list \<Rightarrow> string list \<Rightarrow> string" where
  "siblingExample u siblings texts =
     fold (\<lambda>named example. if Base named \<in> set siblings then Base named else example)
       (concat (map (NamedFiles u) texts)) (hd siblings)"

definition placeholderSentence :: "'usd cli_env \<Rightarrow> string \<Rightarrow> string \<Rightarrow> string list \<Rightarrow> string \<Rightarrow> string \<Rightarrow> string \<Rightarrow> string" where
  "placeholderSentence e check file siblings0 title description ending =
     (let (stem, ext) = (case fileStem (e_unicode e) (Base file) of None \<Rightarrow> ('''', '''') | Some p \<Rightarrow> p);
          numbered = numberedOnly siblings0 stem ext;
          siblings = (if numbered \<noteq> [] then numbered else siblings0);
          example = siblingExample (e_unicode e) siblings [title, description];
          exampleFile = TrimSuffix file (Base file) @ example
      in ''check '' @ quoted e check @ '' names '' @ file @ '', which is '' @ stem @ ''NN.'' @ ext @
         '' with its number missing (the numbered files are '' @ cliSiblingList siblings @ ''). Write each part'' @ apos @
         ''s check with that part'' @ apos @ ''s own file, such as '' @ quoted e (ReplaceAll check file exampleFile) @
         '', and run the command again; if a shell loop built the check, its number variable came out empty. '' @ ending)"

definition placeholderIn :: "'usd cli_env \<Rightarrow> string \<Rightarrow> string list \<Rightarrow> string list \<Rightarrow> string \<Rightarrow> string \<Rightarrow> string \<Rightarrow> string option" where
  "placeholderIn e dir texts checks title description ending =
     firstErr (\<lambda>(check, file).
         let siblings = PlaceholderSiblings (e_unicode e) (e_disk e) file dir texts in
         if siblings = [] then None else Some (placeholderSentence e check file siblings title description ending))
       (concat (map (\<lambda>check. map (Pair check) (CheckFiles (e_unicode e) check)) checks))"

definition cliPlaceholderChecks :: "'usd cli_env \<Rightarrow> string list \<Rightarrow> string \<Rightarrow> string \<Rightarrow> string \<Rightarrow> ('usd, unit) cli" where
  "cliPlaceholderChecks e checks title description ending =
     (if checks = [] then ret ()
      else case e_cwd e of
        None \<Rightarrow> failC (StoreErr StatFailed)
      | Some dir \<Rightarrow> andC (storeTasks e []) (\<lambda>ts.
          let texts = [title, description] @ concat (map (\<lambda>t. [Title t, Description t]) ts) in
          case placeholderIn e dir texts checks title description ending of
            Some sentence \<Rightarrow> failC (Says sentence)
          | None \<Rightarrow> ret ()))"

section \<open>Add and split\<close>

definition nth_pos :: "cli_parsed \<Rightarrow> nat \<Rightarrow> string" where
  "nth_pos p n = pos p ! n"

text \<open>A refusal when too few words were given.\<close>

definition needWords :: "nat \<Rightarrow> cli_parsed \<Rightarrow> string \<Rightarrow> ('usd, unit) cli" where
  "needWords n p msg = (if length (pos p) < n then failC (Says msg) else ret ())"

fun resolveDeps :: "'usd cli_env \<Rightarrow> string list \<Rightarrow> ('usd, dependency list) cli" where
  "resolveDeps e [] = ret []"
| "resolveDeps e (dep # deps) =
     andC (liftC (cliDepArg e dep)) (\<lambda>(word, kind).
     andC (rescueC (storeResolve e word) (\<lambda>er. case er of
             StoreErr pe \<Rightarrow> if noTaskMatches e pe
               then Says (''dependency task '' @ apos @ bareWord word @ apos @
                          '' not found. Create it first, then add the dependency.'') else er
           | _ \<Rightarrow> er)) (\<lambda>up.
     andC (resolveDeps e deps) (\<lambda>ds. ret (\<lparr>dep_TaskID = ID up, dep_Kind = kind\<rparr> # ds))))"

definition parentArg :: "'usd cli_env \<Rightarrow> string \<Rightarrow> ('usd, string) cli" where
  "parentArg e word = (if word = '''' then ret '''' else andC (cliResolve e word) (\<lambda>up. ret (ID up)))"

definition cliAdd :: "'usd cli_env \<Rightarrow> cli_parsed \<Rightarrow> ('usd, unit) cli" where
  "cliAdd e p =
     andC (needWords 2 p (''add needs a title '' @ emDash @ '' plandb add \"title\" --description \"the work order\"'')) (\<lambda>_.
     andC (storeNextID e) (\<lambda>fresh.
     andC (if vals p ''role'' \<noteq> '''' \<and> \<not> validRole (vals p ''role'')
           then failC (Says (''role must be one of '' @ Join roleWords '', '')) else ret ()) (\<lambda>_.
     andC (parentArg e (vals p ''parent'')) (\<lambda>parent.
     andC (resolveDeps e (lists p ''dep'')) (\<lambda>ds.
     andC (liftC (numberArg e ''--priority'' (vals p ''priority''))) (\<lambda>priority.
     let spec = emptySpec\<lparr>ID := (if vals p ''as'' \<noteq> '''' then vals p ''as'' else fresh), Title := nth_pos p 1,
           Description := vals p ''description'', Kind := vals p ''kind'', ParentID := parent, Dependencies := ds,
           Priority := priority, Role := vals p ''role'', Checks := lists p ''check''\<rparr> in
     andC (cliPlaceholderChecks e (Checks spec) (Title spec) (Description spec) ''Nothing was added.'') (\<lambda>_.
     andC (storeAddMany e [spec]) (\<lambda>made.
     let t = hd made in
     if bools p ''json'' then printTask t
     else say (''created task '' @ cliID (ID t) @ '' ('' @ Title t @ '')'')))))))))"

definition cliSplitObject :: "'usd cli_env \<Rightarrow> task \<Rightarrow> task list \<Rightarrow> ('usd, 'usd json_doc) cli" where
  "cliSplitObject e parent made =
     andC (cliEffect e made []) (\<lambda>effect. andC (cliProjectStateOf e) (\<lambda>ps.
     ret (JSplit (cliIDs made) effect (cliID (ID parent)) ps
       (fold (\<lambda>t. AList.update (Title t) (cliID (ID t))) made []))))"

definition cliSplit :: "'usd cli_env \<Rightarrow> cli_parsed \<Rightarrow> ('usd, unit) cli" where
  "cliSplit e p =
     andC (needWords 2 p (''split needs a task and --into '' @ emDash @ '' plandb split <task-id> --into '' @ apos @
             ''[{\"title\":\"...\"}]'' @ apos)) (\<lambda>_.
     andC (cliResolve e (nth_pos p 1)) (\<lambda>parent.
     andC (if vals p ''into'' = ''''
           then failC (Says (''split needs --into '' @ emDash @ '' a JSON array of {title, description, deps_on}, comma titles (\"A, B\"), or a chain (\"A > B > C\")''))
           else ret ()) (\<lambda>_.
     andC (liftC (cliSplitSpecs e ''--into'' (vals p ''into''))) (\<lambda>parts.
     andC (cliBatchSpecs e (ID parent) parts) (\<lambda>specs.
     andC (storeAddMany e specs) (\<lambda>made.
     if bools p ''json'' then andC (cliSplitObject e parent made) printJSON
     else say (''split '' @ cliID (ID parent))))))))"

section \<open>Go, done and wait\<close>

definition cliPrintClaimed :: "'usd cli_env \<Rightarrow> task \<Rightarrow> bool \<Rightarrow> ('usd, unit) cli" where
  "cliPrintClaimed e t asJSON =
     (if asJSON then printTask t
      else andC (cliBracket e) (\<lambda>b.
        andC (say (arrow @ '' '' @ cliID (ID t) @ '' '' @ quoted e (Title t) @ '' '' @ b)) (\<lambda>_.
        andC (if Checks t \<noteq> [] then andC (say ''checks:'') (\<lambda>_. eachC (\<lambda>c. say (''  '' @ c)) (Checks t)) else ret ()) (\<lambda>_.
        andC (cliHardDependents e (ID t)) (\<lambda>deps.
        andC (if deps \<noteq> []
              then andC (say '''') (\<lambda>_. eachC (\<lambda>down. say (''downstream: '' @ cliID (ID down) @ '' '' @
                     quoted e (Title down) @ '' (receives YOUR result)'')) deps)
              else ret ()) (\<lambda>_.
        andC (say '''') (\<lambda>_.
        say ''actions: context \"...\" --kind discovery | search \"query\" | split --into \"A, B\" | done --next'')))))))"

definition cliGo :: "'usd cli_env \<Rightarrow> cli_parsed \<Rightarrow> ('usd, unit) cli" where
  "cliGo e p = andC (storeClaimNext e (cliAgent e p)) (\<lambda>t. case t of
       None \<Rightarrow> if bools p ''json'' then say ''null''
               else say (''nothing ready to claim '' @ emDash @
                 '' tasks may be waiting on dependencies or blocked by running work. see \"plandb status\".'')
     | Some t \<Rightarrow> cliPrintClaimed e t (bools p ''json''))"

text \<open>The task a bare \<^verbatim>\<open>done\<close> or \<^verbatim>\<open>wait\<close> means.\<close>

definition ownTask :: "'usd cli_env \<Rightarrow> cli_parsed \<Rightarrow> ('usd, string) cli" where
  "ownTask e p =
     (if length (pos p) \<ge> 2 then andC (cliResolve e (nth_pos p 1)) (\<lambda>t. ret (ID t))
      else andC (cliRunningFor e (cliAgent e p)) (\<lambda>t. case t of
        None \<Rightarrow> failC (Says (''no running task found for agent '' @ apos @ cliAgent e p @ apos @ ''. Specify task ID explicitly.''))
      | Some t \<Rightarrow> ret (ID t)))"

definition cliDone :: "'usd cli_env \<Rightarrow> cli_parsed \<Rightarrow> ('usd, unit) cli" where
  "cliDone e p =
     (if vals p ''result'' = ''''
      then failC (Says (''done needs --result '' @ emDash @ '' the completion record the next worker reads''))
      else let agent = cliAgent e p in
        andC (ownTask e p) (\<lambda>i.
        andC (storeDone e i agent (vals p ''result'')) (\<lambda>t.
        if bools p ''json'' then
          andC (taskObject t) (\<lambda>j.
          andC (if bools p ''next'' then storeClaimNext e agent else ret None) (\<lambda>nxt.
          case nxt of None \<Rightarrow> printJSON (JDone j None)
                    | Some n \<Rightarrow> andC (taskObject n) (\<lambda>k. printJSON (JDone j (Some k)))))
        else
          andC (cliBracket e) (\<lambda>b.
          andC (say (tick @ '' '' @ cliID (ID t) @ '' done '' @ b)) (\<lambda>_.
          andC (cliCount e) (\<lambda>c.
          if n_total c > 0 \<and> n_done c = n_total c
          then andC (say '''') (\<lambda>_. say ''all tasks complete!'')
          else if bools p ''next'' then
            andC (storeClaimNext e agent) (\<lambda>nxt. case nxt of None \<Rightarrow> ret ()
              | Some n \<Rightarrow> andC (say '''') (\<lambda>_. cliPrintClaimed e n False))
          else ret ()))))))"

definition cliWait :: "'usd cli_env \<Rightarrow> cli_parsed \<Rightarrow> ('usd, unit) cli" where
  "cliWait e p =
     andC (ownTask e p) (\<lambda>i.
     andC (storeWait e i (cliAgent e p)) (\<lambda>t.
     if bools p ''json'' then printTask t
     else andC (cliBracket e) (\<lambda>b.
       say (pauseMark @ '' '' @ cliID (ID t) @ '' waiting '' @ b @ '' '' @ emDash @
         '' it is launched again once its wait is over: when nothing it waited on is open, or when one of them failed''))))"

section \<open>Editing a task\<close>

definition cliAddDep :: "'usd cli_env \<Rightarrow> cli_parsed \<Rightarrow> ('usd, unit) cli" where
  "cliAddDep e p =
     andC (needWords 2 p (''add-dep needs the downstream task '' @ emDash @ '' plandb task add-dep <downstream> --after <upstream>'')) (\<lambda>_.
     andC (cliResolve e (nth_pos p 1)) (\<lambda>down.
     andC (cliResolve e (vals p ''after'')) (\<lambda>up.
     let kind = (if vals p ''kind'' = '''' then DepFeedsInto else vals p ''kind'') in
     andC (storeAddDep e (ID down) (ID up) kind) (\<lambda>t.
     if bools p ''json'' then printTask t
     else say (''added '' @ cliID (ID down) @ '' '' @ backArrow @ '' '' @ cliID (ID up) @ '' ('' @ kind @ '')'')))))"

definition cliSetChecks :: "'usd cli_env \<Rightarrow> cli_parsed \<Rightarrow> ('usd, unit) cli" where
  "cliSetChecks e p =
     andC (needWords 2 p ''set-checks needs a task'') (\<lambda>_.
     andC (cliResolve e (nth_pos p 1)) (\<lambda>t.
     andC (cliPlaceholderChecks e (lists p ''check'') (Title t) (Description t) ''Nothing was changed.'') (\<lambda>_.
     andC (storeRevise e (ID t) (emptyPatch\<lparr>p_Checks := Some (lists p ''check'')\<rparr>)) (\<lambda>updated.
     if bools p ''json'' then printTask updated else say (''set checks on '' @ cliID (ID updated))))))"

definition cliAmend :: "'usd cli_env \<Rightarrow> cli_parsed \<Rightarrow> ('usd, unit) cli" where
  "cliAmend e p =
     andC (needWords 2 p (''amend needs a task '' @ emDash @ '' plandb task amend <task-id> --prepend \"NOTE: ...\"'')) (\<lambda>_.
     andC (if vals p ''prepend'' = ''''
           then failC (Says (''amend needs --prepend '' @ emDash @ '' the text to put at the front of the description''))
           else ret ()) (\<lambda>_.
     andC (cliResolve e (nth_pos p 1)) (\<lambda>t.
     andC (storeAmend e (ID t) (vals p ''prepend'')) (\<lambda>updated.
     if bools p ''json'' then printTask updated else say (''amended '' @ cliID (ID updated))))))"

definition cliInsertObject :: "'usd cli_env \<Rightarrow> task \<Rightarrow> ('usd, 'usd json_doc) cli" where
  "cliInsertObject e t = andC (cliEffect e [t] []) (\<lambda>effect. andC (cliProjectStateOf e) (\<lambda>ps.
     ret (JInsert (cliID (ID t)) (Title t) (Status t) effect ps)))"

definition beforeArg :: "'usd cli_env \<Rightarrow> string \<Rightarrow> ('usd, task option) cli" where
  "beforeArg e word = (if word = '''' then ret None else andC (cliResolve e word) (\<lambda>t. ret (Some t)))"

definition wireBefore :: "'usd cli_env \<Rightarrow> task option \<Rightarrow> string \<Rightarrow> string \<Rightarrow> ('usd, unit) cli" where
  "wireBefore e before newID up = (case before of None \<Rightarrow> ret ()
     | Some b \<Rightarrow> andC (storeAddDep e (ID b) newID DepFeedsInto) (\<lambda>_.
         andC (storeRemoveDep e (ID b) up) (\<lambda>_. ret ())))"

definition cliInsert :: "'usd cli_env \<Rightarrow> cli_parsed \<Rightarrow> ('usd, unit) cli" where
  "cliInsert e p =
     (if vals p ''after'' = '''' then failC (Says (''insert needs --after '' @ emDash @ '' the task the new one depends on''))
      else if vals p ''title'' = '''' then failC (Says ''insert needs --title'')
      else andC (cliResolve e (vals p ''after'')) (\<lambda>up.
        andC (beforeArg e (vals p ''before'')) (\<lambda>before.
        andC (storeNextID e) (\<lambda>fresh.
        andC (storeAddMany e [emptySpec\<lparr>ID := fresh, Title := vals p ''title'', Description := vals p ''description'',
                ParentID := ParentID up\<rparr>]) (\<lambda>made.
        let newID = ID (hd made) in
        andC (storeAddDep e newID (ID up) DepFeedsInto) (\<lambda>_.
        andC (wireBefore e before newID (ID up)) (\<lambda>_.
        if bools p ''json'' then
          andC (storeTask e newID) (\<lambda>t. case t of None \<Rightarrow> failC (StoreErr NilDeref)
            | Some t \<Rightarrow> andC (cliInsertObject e t) printJSON)
        else say (''inserted '' @ cliID newID))))))))"

section \<open>Pivot and cancel\<close>

definition alreadyTerminal :: "cli_error \<Rightarrow> bool" where
  "alreadyTerminal er = (case er of StoreErr (WorkRefused (AlreadyTerminal i)) \<Rightarrow> True | _ \<Rightarrow> False)"

text \<open>Cancelling what an earlier cancel of the loop already ended is passed over.\<close>

fun cancelEach :: "'usd cli_env \<Rightarrow> string \<Rightarrow> task list \<Rightarrow> ('usd, string list) cli" where
  "cancelEach e reason [] = ret []"
| "cancelEach e reason (t # ts) = (\<lambda>w.
     (case storeCancel e (ID t) reason w of
        (Inr u, w1) \<Rightarrow> andC (cancelEach e reason ts) (\<lambda>ids. ret (cliID (ID t) # ids)) w1
      | (Inl er, w1) \<Rightarrow> if alreadyTerminal er then cancelEach e reason ts w1 else (Inl er, w1)))"

definition pivotReason :: "string \<Rightarrow> string" where
  "pivotReason parent = ''pivot: the subtree of '' @ cliID parent @ '' was replaced''"

definition cliPivot :: "'usd cli_env \<Rightarrow> cli_parsed \<Rightarrow> ('usd, unit) cli" where
  "cliPivot e p =
     andC (needWords 2 p (''pivot needs a parent '' @ emDash @ '' plandb task pivot <parent-id> --subtasks '' @ apos @
             ''[{\"title\":\"...\"}]'' @ apos)) (\<lambda>_.
     andC (cliResolve e (nth_pos p 1)) (\<lambda>parent.
     andC rootID (\<lambda>root.
     if ID parent = root then failC (Says (''the root task is the run itself '' @ emDash @ '' pivot one of its children instead''))
     else if vals p ''subtasks'' = ''''
     then failC (Says (''pivot needs --subtasks '' @ emDash @ '' a JSON array of {title, description, deps_on}''))
     else
     andC (liftC (cliSplitSpecs e ''--subtasks'' (vals p ''subtasks''))) (\<lambda>parts.
     andC (cliBatchSpecs e (ID parent) parts) (\<lambda>specs.
     andC (cliSubtree e (ID parent) (bools p ''keep-done'')) (\<lambda>doomed.
     andC (cliSubtreeAll e (ID parent)) (\<lambda>standing.
     andC (storeAddMany e specs) (\<lambda>made.
     andC (cancelEach e (pivotReason (ID parent)) doomed) (\<lambda>gone.
     if bools p ''json'' then
       (let kept = (if bools p ''keep-done'' then filter (\<lambda>i. i \<notin> set gone) (cliIDs standing) else []) in
        andC (cliEffect e made []) (\<lambda>effect. andC (cliProjectStateOf e) (\<lambda>ps.
        printJSON (JPivot (cliID (ID parent)) (cliIDs made) gone kept effect ps))))
     else say (''pivoted '' @ cliID (ID parent)))))))))))"

definition cliCancel :: "'usd cli_env \<Rightarrow> cli_parsed \<Rightarrow> ('usd, unit) cli" where
  "cliCancel e p =
     andC (needWords 2 p (''cancel needs a task '' @ emDash @ '' plandb task cancel <task-id>'')) (\<lambda>_.
     andC (cliResolve e (nth_pos p 1)) (\<lambda>target.
     andC (cliCancelPreview e target) (\<lambda>(desc, deps).
     andC (storeCancel e (ID target) (''cancelled by '' @ cliAgent e p)) (\<lambda>_.
     if bools p ''json'' then printJSON (JCancelled (cliID (ID target) # cliIDs desc @ cliIDs deps))
     else say (''cancelled rows='' @ num (1 + length desc + length deps))))))"

section \<open>Archive, contexts, notes and holds\<close>

definition hour :: time where "hour = 3600000000000"

definition olderThanArg :: "'usd cli_env \<Rightarrow> string \<Rightarrow> cli_error + time" where
  "olderThanArg e raw =
     (if raw = '''' then Inr (72 * hour)
      else case e_duration e raw of
        None \<Rightarrow> Inl (Says (''--older-than needs a duration like 72h, not '' @ quoted e raw))
      | Some d \<Rightarrow> if d < 0 then Inl (Says (''--older-than cannot be negative, got '' @ quoted e raw)) else Inr d)"

definition cliArchive :: "'usd cli_env \<Rightarrow> cli_parsed \<Rightarrow> ('usd, unit) cli" where
  "cliArchive e p =
     andC (liftC (olderThanArg e (vals p ''older-than''))) (\<lambda>window.
     andC (storeArchive e window) (\<lambda>moved.
     if bools p ''json'' then andC projectName (\<lambda>project. printJSON (JTasks (map (cliTaskObject project) moved)))
     else say (''archived '' @ num (length moved) @ '' tasks'')))"

definition cliContext :: "'usd cli_env \<Rightarrow> cli_parsed \<Rightarrow> ('usd, unit) cli" where
  "cliContext e p =
     (let content = Join (drop 1 (pos p)) '' '' in
      if content = '''' then failC (Says (''context needs the content '' @ emDash @
             '' plandb context \"what you learned\" --kind decision''))
      else andC (parentArg e (vals p ''task'')) (\<lambda>i.
        andC (storeAddContext e i (vals p ''kind'') content) (\<lambda>c.
        if bools p ''json'' then printJSON (JContext c) else say (ce_ID c @ '' ['' @ ce_Kind c @ '']''))))"

definition cliPrune :: "'usd cli_env \<Rightarrow> cli_parsed \<Rightarrow> ('usd, unit) cli" where
  "cliPrune e p =
     andC (needWords 2 p (''prune needs the entry id '' @ emDash @ '' plandb prune c-00000001'')) (\<lambda>_.
     andC (storePrune e (nth_pos p 1)) (\<lambda>_.
     if bools p ''json'' then printJSON (JPruned (nth_pos p 1)) else say (''pruned '' @ nth_pos p 1)))"

definition cliNote :: "'usd cli_env \<Rightarrow> cli_parsed \<Rightarrow> ('usd, unit) cli" where
  "cliNote e p =
     andC (needWords 3 p (''note needs a task and the text '' @ emDash @ '' plandb task note <task-id> \"what the next worker needs\"'')) (\<lambda>_.
     andC (cliResolve e (nth_pos p 1)) (\<lambda>t.
     andC (storeAddNote e (ID t) (cliAgent e p) (Join (drop 2 (pos p)) '' '')) (\<lambda>n.
     if bools p ''json'' then printJSON (JNote (cliNoteObject n))
     else say (''noted '' @ cliID (ID t) @ '' ('' @ note_ID n @ '')''))))"

definition cliTaskHold :: "'usd cli_env \<Rightarrow> cli_parsed \<Rightarrow> bool \<Rightarrow> ('usd, unit) cli" where
  "cliTaskHold e p pause =
     (let verb = (if pause then ''pause'' else ''resume'') in
     andC (needWords 2 p (verb @ '' needs a task '' @ emDash @ '' plandb task '' @ verb @ '' <task-id>'')) (\<lambda>_.
     andC (cliResolve e (nth_pos p 1)) (\<lambda>t.
     andC (storeHold e pause (ID t)) (\<lambda>held.
     if bools p ''json'' then printTask held
     else say ((if pause then ''paused'' else ''resumed'') @ '' '' @ cliID (ID held))))))"

end
