(* ===== verification/CliRead.thy ===== *)
theory CliRead
  imports CliWrite
begin

text \<open>
  The verbs of the command line that only read, \<^verbatim>\<open>internal/plandb/cli.go\<close>: \<^verbatim>\<open>cliWhatIf\<close>,
  \<^verbatim>\<open>cliList\<close>, \<^verbatim>\<open>cliListArchived\<close>, \<^verbatim>\<open>cliSpend\<close>, \<^verbatim>\<open>cliSpendVerb\<close>, \<^verbatim>\<open>cliSpendBy\<close>,
  \<^verbatim>\<open>cliSince\<close>, \<^verbatim>\<open>cliStatus\<close>, \<^verbatim>\<open>cliTree\<close>, \<^verbatim>\<open>cliSearchVerb\<close>, \<^verbatim>\<open>cliContexts\<close>,
  \<^verbatim>\<open>cliCriticalPath\<close>, \<^verbatim>\<open>cliBottlenecks\<close>, \<^verbatim>\<open>cliShow\<close>, \<^verbatim>\<open>cliOverview\<close> and \<^verbatim>\<open>cliNotes\<close>.
\<close>

section \<open>Lists of tasks\<close>

definition bracketed :: "status \<Rightarrow> string" where
  "bracketed st = ''['' @ statusWord st @ '']''"

definition taskRowLine :: "task \<Rightarrow> string" where
  "taskRowLine t = ''  '' @ cliID (ID t) @ '' '' @ Title t @ '' '' @ bracketed (Status t)"

definition printRows :: "cli_parsed \<Rightarrow> task list \<Rightarrow> ('usd, unit) cli" where
  "printRows p rows =
     (if bools p ''json'' then andC projectName (\<lambda>project. printJSON (JTasks (map (cliTaskObject project) rows)))
      else if rows = [] then say ''(no rows)'' else eachC (\<lambda>t. say (taskRowLine t)) rows)"

definition listed :: "string \<Rightarrow> cli_parsed \<Rightarrow> task \<Rightarrow> bool" where
  "listed root p t =
     (ID t \<noteq> root \<and> \<not> (vals p ''status'' \<noteq> '''' \<and> statusWord (Status t) \<noteq> vals p ''status'') \<and>
      \<not> (vals p ''kind'' \<noteq> '''' \<and> Kind t \<noteq> vals p ''kind'') \<and> \<not> (vals p ''agent'' \<noteq> '''' \<and> ClaimedBy t \<noteq> vals p ''agent''))"

definition cliListArchived :: "'usd cli_env \<Rightarrow> cli_parsed \<Rightarrow> ('usd, unit) cli" where
  "cliListArchived e p = andC (storeArchived e) (printRows p)"

definition cliList :: "'usd cli_env \<Rightarrow> cli_parsed \<Rightarrow> ('usd, unit) cli" where
  "cliList e p =
     (if bools p ''archived'' then cliListArchived e p
      else andC (storeTasks e (cliFilter p)) (\<lambda>ts. andC rootID (\<lambda>root. printRows p (filter (listed root p) ts))))"

section \<open>What a cancel would do\<close>

definition previewLine :: "'usd cli_env \<Rightarrow> task \<Rightarrow> string" where
  "previewLine e t = cliID (ID t) @ '' '' @ quoted e (Title t) @ '' '' @ bracketed (Status t)"

definition previewRows :: "'usd cli_env \<Rightarrow> string \<Rightarrow> task list \<Rightarrow> ('usd, unit) cli" where
  "previewRows e heading ts = (if ts = [] then say (heading @ '': (none)'')
     else andC (say (heading @ '':'')) (\<lambda>_. eachC (\<lambda>t. say (''  '' @ previewLine e t)) ts))"

definition cliWhatIf :: "'usd cli_env \<Rightarrow> cli_parsed \<Rightarrow> ('usd, unit) cli" where
  "cliWhatIf e p =
     andC (needWords 2 p (''what-if needs a task '' @ emDash @ '' plandb what-if cancel <task-id>'')) (\<lambda>_.
     andC (cliResolve e (nth_pos p 1)) (\<lambda>target.
     andC (cliCancelPreview e target) (\<lambda>(desc, deps).
     if bools p ''json'' then
       printJSON (JWhatIf (cliID (ID target)) (cliIDs desc) (cliIDs deps) (1 + length desc + length deps))
     else
       andC (say (''what-if cancel '' @ cliID (ID target))) (\<lambda>_.
       andC (say (''would cancel: '' @ previewLine e target)) (\<lambda>_.
       andC (previewRows e ''descendants'' desc) (\<lambda>_.
       andC (previewRows e ''hard dependents'' deps) (\<lambda>_.
       say (''nothing written '' @ emDash @ '' run \"plandb task cancel '' @ cliID (ID target) @ ''\" to apply it.''))))))))"

section \<open>The ledger\<close>

definition sortedSpendTags :: "(string \<times> 'usd spend_total) list \<Rightarrow> string list" where
  "sortedSpendTags totals = sort (map fst totals)"

definition spendTagLine :: "'usd cli_env \<Rightarrow> string \<Rightarrow> (string \<times> 'usd spend_total) list \<Rightarrow> string \<Rightarrow> string" where
  "spendTagLine e word totals tag = (let total = totalAt (e_money e) totals tag in
     ''spend '' @ word @ '' '' @ tag @ '': $'' @ e_usd4 e (USD total) @ '' ('' @ Itoa (Calls total) @ '' calls)'')"

definition spendTagLines :: "'usd cli_env \<Rightarrow> string \<Rightarrow> (string \<times> 'usd spend_total) list \<Rightarrow> ('usd, unit) cli" where
  "spendTagLines e word totals = eachC (\<lambda>tag. say (spendTagLine e word totals tag)) (sortedSpendTags totals)"

definition cliSpend :: "'usd cli_env \<Rightarrow> ('usd, unit) cli" where
  "cliSpend e = andC (storeSpendTags e) (\<lambda>(byProject, byChat).
     andC (spendTagLines e ''project'' byProject) (\<lambda>_. spendTagLines e ''chat'' byChat))"

text \<open>\<^verbatim>\<open>--since\<close>: a number of days, a duration, or a date, tried in that order.\<close>

definition dayCount :: "string \<Rightarrow> int option" where
  "dayCount raw = (if HasSuffix raw ''d'' then (case Atoi (TrimSuffix raw ''d'') of
     Some n \<Rightarrow> if n \<ge> 0 then Some n else None | None \<Rightarrow> None) else None)"

definition cliSince :: "'usd cli_env \<Rightarrow> time \<Rightarrow> string \<Rightarrow> cli_error + time" where
  "cliSince e now raw0 = (let raw = TrimSpace raw0 in
     if raw = '''' then Inr 0
     else case dayCount raw of Some n \<Rightarrow> Inr (e_daysAgo e now n)
     | None \<Rightarrow> (case e_duration e raw of Some span \<Rightarrow> Inr (now - span)
     | None \<Rightarrow> (case e_date e raw of Some date \<Rightarrow> Inr date
     | None \<Rightarrow> Inl (Says (''--since '' @ quoted e raw @
         '' is not a duration like 24h, a day count like 7d, or a date like 2026-09-01'')))))"

definition spendLineText :: "'usd cli_env \<Rightarrow> string \<Rightarrow> 'usd spend_line \<Rightarrow> string" where
  "spendLineText e axis l = ''spend '' @ axis @ '' '' @ sl_Key l @ '': $'' @ e_usd4 e (sl_USD l) @ '' (in '' @ Itoa (sint (sl_In l)) @
     '' out '' @ Itoa (sint (sl_Out l)) @ '', '' @ Itoa (sl_Calls l) @ '' calls)''"

definition cliSpendBy :: "'usd cli_env \<Rightarrow> cli_parsed \<Rightarrow> string \<Rightarrow> ('usd, unit) cli" where
  "cliSpendBy e p axis =
     (if \<not> oneOf axis spendAxes then failC (Says (''--by '' @ axis @ '' is not one of '' @ Join spendAxes '', ''))
      else (\<lambda>w.
        andC (liftC (cliSince e (e_now e (sh_tick w)) (vals p ''since''))) (\<lambda>since.
        andC (storeSpendBy e axis since) (\<lambda>ls.
        if bools p ''json'' then printJSON (JSpendLines ls)
        else if ls = [] then say (''no spend by '' @ axis @ '' yet '' @ emDash @ '' every charge the run makes lands here'')
        else eachC (\<lambda>l. say (spendLineText e axis l)) ls)) w))"

definition cliSpendVerb :: "'usd cli_env \<Rightarrow> cli_parsed \<Rightarrow> ('usd, unit) cli" where
  "cliSpendVerb e p =
     (let axis = TrimSpace (vals p ''by'') in
      if axis \<noteq> '''' then cliSpendBy e p axis
      else andC (storeSpendSummary e) (\<lambda>(byRole, byModel).
        if bools p ''json'' then printJSON (JSpendSummary byRole byModel)
        else if byRole = [] \<and> byModel = [] then say ''(no spend)''
        else andC (spendTagLines e ''role'' byRole) (\<lambda>_. spendTagLines e ''model'' byModel)))"

section \<open>Status\<close>

definition treeRow :: "task \<Rightarrow> string" where
  "treeRow t = cliIcon (Status t) @ '' '' @ cliID (ID t) @ '' '' @ Title t @ '' '' @ bracketed (Status t) @
     (if ClaimedBy t \<noteq> '''' then '' '' @ ClaimedBy t else '''')"

definition branchMid :: string where "branchMid = [CHR 0xE2, CHR 0x94, CHR 0x9C, CHR 0xE2, CHR 0x94, CHR 0x80, CHR 0x20]"
definition branchEnd :: string where "branchEnd = [CHR 0xE2, CHR 0x94, CHR 0x94, CHR 0xE2, CHR 0x94, CHR 0x80, CHR 0x20]"
definition stem :: string where "stem = [CHR 0xE2, CHR 0x94, CHR 0x82, CHR 0x20, CHR 0x20]"

text \<open>The recursive walk, as deep as there are tasks.\<close>

fun treeFrom :: "nat \<Rightarrow> (string \<Rightarrow> task list) \<Rightarrow> string \<Rightarrow> string \<Rightarrow> string list" where
  "treeFrom 0 kids i indent = []"
| "treeFrom (Suc n) kids i indent =
     (let cs = kids i in
      concat (map (\<lambda>(k, c). let final = (k = length cs - 1) in
        (indent @ (if final then branchEnd else branchMid) @ treeRow c) #
        treeFrom n kids (ID c) (indent @ (if final then ''   '' else stem))) (enumerate 0 cs)))"

definition dependencyLines :: "task list \<Rightarrow> string list" where
  "dependencyLines ts = concat (map (\<lambda>t. map (\<lambda>d. ''  '' @ cliID (ID t) @ '' '' @ backArrow @ '' '' @ cliID (dep_TaskID d) @
     '' ('' @ dep_Kind d @ '')'') (Dependencies t)) ts)"

definition cliTree :: "'usd cli_env \<Rightarrow> ('usd, unit) cli" where
  "cliTree e = andC (storeTasks e []) (\<lambda>ts. andC rootID (\<lambda>root. andC (storeTask e root) (\<lambda>r.
     andC (case r of None \<Rightarrow> ret () | Some t \<Rightarrow> say (treeRow t)) (\<lambda>_.
     andC (eachC say (treeFrom (Suc (length ts)) (childrenIn ts) root '''')) (\<lambda>_.
     andC (say ''dependencies:'') (\<lambda>_.
     if dependencyLines ts = [] then say ''  (none)'' else eachC say (dependencyLines ts)))))))"

definition cliStatus :: "'usd cli_env \<Rightarrow> cli_parsed \<Rightarrow> ('usd, unit) cli" where
  "cliStatus e p =
     andC (cliCount e) (\<lambda>c. andC projectName (\<lambda>project.
     if bools p ''json'' then printJSON (JStatus project (cliProjectID project) c)
     else
       andC (cliReadyList e) (\<lambda>ready. andC (cliRunningList e) (\<lambda>running.
       andC (say (cliProjectID project @ '' '' @ project @ '': '' @ num (n_done c) @ ''/'' @ num (n_total c) @ '' done ('' @
               num (cliPercent (n_done c) (n_total c)) @ ''%) | ready: '' @ ready @ '' | running: '' @ running @
               '' | blocked: '' @ num (n_pending c))) (\<lambda>_.
       if \<not> bools p ''full'' then ret ()
       else andC (say '''') (\<lambda>_. andC (cliTree e) (\<lambda>_. cliSpend e)))))))"

section \<open>Search and contexts\<close>

definition searchObject :: "search_result \<Rightarrow> search_json" where
  "searchObject r = \<lparr>xj_Kind = sr_Kind r,
     xj_ID = (if sr_Kind r = ''task'' then cliID (sr_ID r) else sr_ID r),
     xj_Title = (if sr_Kind r = ''task'' then Some (sr_Title r) else None),
     xj_TaskID = (if sr_TaskID r \<noteq> '''' then Some (cliID (sr_TaskID r)) else None), xj_Detail = sr_Detail r\<rparr>"

definition searchLine :: "'usd cli_env \<Rightarrow> search_result \<Rightarrow> ('usd, unit) cli" where
  "searchLine e r =
     (if sr_Kind r = ''task'' then andC (storeTask e (sr_ID r)) (\<lambda>t.
        say (''  [task] '' @ cliID (sr_ID r) @ '' '' @ (case t of None \<Rightarrow> '''' | Some t \<Rightarrow> Kind t) @ '' '' @ sr_Title r @ '': '' @ sr_Detail r))
      else if sr_Kind r = ''note'' then say (''  [note] '' @ sr_ID r @ '' on '' @ cliID (sr_TaskID r) @ '': '' @ sr_Detail r)
      else say (''  ['' @ sr_Kind r @ ''] '' @ sr_ID r @ '': '' @ sr_Detail r))"

definition cliSearchVerb :: "'usd cli_env \<Rightarrow> cli_parsed \<Rightarrow> ('usd, unit) cli" where
  "cliSearchVerb e p =
     andC (needWords 2 p (''search needs a query '' @ emDash @ '' plandb search \"schema\"'')) (\<lambda>_.
     andC (liftC (numberArg e ''--limit'' (vals p ''limit''))) (\<lambda>limit.
     andC (storeSearch e (nth_pos p 1) limit (cliFilter p)) (\<lambda>results.
     if bools p ''json'' then printJSON (JSearch (map searchObject results))
     else if results = [] then say ''(no results)'' else eachC (searchLine e) results)))"

definition cliContexts :: "'usd cli_env \<Rightarrow> cli_parsed \<Rightarrow> ('usd, unit) cli" where
  "cliContexts e p =
     andC (liftC (numberArg e ''--limit'' (vals p ''limit''))) (\<lambda>limit.
     andC (storeContexts e (vals p ''kind'') limit (cliFilter p)) (\<lambda>entries.
     if bools p ''json'' then printJSON (JContexts entries)
     else if entries = [] then say ''(no rows)''
     else eachC (\<lambda>c. say (''  '' @ ce_ID c @ '' ['' @ ce_Kind c @ ''] '' @ ce_Content c)) entries))"

section \<open>Paths and bottlenecks\<close>

definition cliCriticalPath :: "'usd cli_env \<Rightarrow> cli_parsed \<Rightarrow> ('usd, unit) cli" where
  "cliCriticalPath e p =
     andC (storeCriticalPath e) (\<lambda>path.
     if bools p ''json'' then printJSON (JPath (length path) (Join (cliIDs path) '' > ''))
     else if path = [] then say (''no critical path '' @ emDash @ '' no unfinished hard dependency chain.'')
     else andC (say (''Critical path ('' @ num (length path) @ '' tasks):'')) (\<lambda>_.
       eachC (\<lambda>t. say (''  '' @ cliIcon (Status t) @ '' '' @ cliID (ID t) @ '' '' @ Title t @ '' '' @ bracketed (Status t))) path))"

definition cliBottlenecks :: "'usd cli_env \<Rightarrow> cli_parsed \<Rightarrow> ('usd, unit) cli" where
  "cliBottlenecks e p =
     andC (liftC (numberArg e ''--limit'' (vals p ''limit''))) (\<lambda>limit.
     andC (storeBottlenecks e limit) (\<lambda>rows.
     if bools p ''json'' then
       printJSON (JBottlenecks (map (\<lambda>r. (cliID (ID (bc_Task r)), Title (bc_Task r), Status (bc_Task r), bc_Downstream r)) rows))
     else if rows = [] then say (''no unfinished tasks '' @ emDash @ '' nothing is blocking work.'')
     else andC (say ''Bottlenecks (tasks blocking the most downstream work):'') (\<lambda>_.
       eachC (\<lambda>r. say (''  '' @ cliID (ID (bc_Task r)) @ '' '' @ Title (bc_Task r) @ '' '' @ emDash @ '' blocks '' @
         num (bc_Downstream r) @ '' tasks '' @ bracketed (Status (bc_Task r)))) rows)))"

section \<open>One task, all tasks, notes\<close>

text \<open>The lines of a card that are printed when they have something to say.\<close>

definition optional :: "string \<Rightarrow> string \<Rightarrow> string list" where
  "optional heading v = (if v \<noteq> '''' then [heading @ v] else [])"

definition cardLines :: "string \<Rightarrow> string \<Rightarrow> task \<Rightarrow> string list" where
  "cardLines project root t =
     [''id: '' @ cliID (ID t), ''project: '' @ cliProjectID project, ''title: '' @ Title t,
      ''status: '' @ cliIcon (Status t) @ '' '' @ statusWord (Status t) @ '' [role '' @ roleOf t @ '']'',
      ''kind: '' @ Kind t, ''priority: '' @ Itoa (Priority t)] @
     optional ''agent: '' (ClaimedBy t) @ [''description: '' @ Description t] @ optional ''question: '' (Question t) @
     (if Checks t \<noteq> [] then ''checks:'' # map (\<lambda>c. ''  '' @ c) (Checks t) else []) @
     (if ParentID t \<noteq> '''' \<and> ParentID t \<noteq> root then [''parent: '' @ cliID (ParentID t)] else []) @
     (if Dependencies t \<noteq> [] then [''depends on: '' @
        Join (map (\<lambda>d. cliID (dep_TaskID d) @ '' ('' @ dep_Kind d @ '')'') (Dependencies t)) '', ''] else []) @
     optional ''result: '' (Result t)"

definition noteLines :: "plan_note list \<Rightarrow> ('usd, unit) cli" where
  "noteLines ns = eachC (\<lambda>n. say (cliNoteLine n)) ns"

definition cliShow :: "'usd cli_env \<Rightarrow> cli_parsed \<Rightarrow> ('usd, unit) cli" where
  "cliShow e p =
     andC (needWords 2 p (''show needs a task '' @ emDash @ '' plandb show <task-id>'')) (\<lambda>_.
     andC (cliResolve e (nth_pos p 1)) (\<lambda>t.
     if bools p ''json'' then printTask t
     else andC projectName (\<lambda>project. andC rootID (\<lambda>root.
       andC (eachC say (cardLines project root t)) (\<lambda>_.
       andC (storeNotes e (ID t)) (\<lambda>ns.
       if ns \<noteq> [] then andC (say ''notes:'') (\<lambda>_. noteLines ns) else ret ()))))))"

definition overviewLine :: "task \<Rightarrow> string" where
  "overviewLine t = ''  '' @ cliIcon (Status t) @ '' '' @ cliID (ID t) @ '' '' @ Title t @ '' '' @ bracketed (Status t) @
     '' [role '' @ roleOf t @ '']'' @ (if ClaimedBy t \<noteq> '''' then '' '' @ ClaimedBy t else '''') @
     (if Chat t \<noteq> '''' then '' [chat:'' @ Chat t @ '']'' else '''')"

definition cliOverview :: "'usd cli_env \<Rightarrow> cli_parsed \<Rightarrow> ('usd, unit) cli" where
  "cliOverview e p =
     andC (storeTasks e (cliFilter p)) (\<lambda>all. andC rootID (\<lambda>root.
     let ts = filter (\<lambda>t. ID t \<noteq> root) all in
     if bools p ''json'' then
       andC projectName (\<lambda>project. andC (cliDepEdges e) (\<lambda>edges.
       printJSON (JOverview (map (cliTaskObject project) ts) edges (length ts))))
     else andC (say (''Project overview: '' @ num (length ts) @ '' tasks'')) (\<lambda>_. eachC (\<lambda>t. say (overviewLine t)) ts)))"

definition cliNotes :: "'usd cli_env \<Rightarrow> cli_parsed \<Rightarrow> ('usd, unit) cli" where
  "cliNotes e p =
     andC (needWords 2 p (''notes needs a task '' @ emDash @ '' plandb task notes <task-id>'')) (\<lambda>_.
     andC (cliResolve e (nth_pos p 1)) (\<lambda>t.
     andC (storeNotes e (ID t)) (\<lambda>ns.
     if bools p ''json'' then printJSON (JNotes (map cliNoteObject ns))
     else if ns = [] then say ''(no notes)'' else noteLines ns)))"

end
