(* ===== verification/CliMain.thy ===== *)
theory CliMain
  imports CliRead
begin

text \<open>
  One run of the command line from its words to its exit, \<^verbatim>\<open>internal/plandb/cli.go\<close>: finding
  and opening the store (\<^verbatim>\<open>cliFindStore\<close>, \<^verbatim>\<open>cliStore\<close>), creating one (\<^verbatim>\<open>cliInit\<close>), the switch
  over the verbs (\<^verbatim>\<open>cliDispatch\<close>) and \<^verbatim>\<open>Main\<close>. The databases are a function of the path (a path
  nothing was written to has no rows); opening is the run's call 0 of the store.
\<close>

section \<open>Finding the store\<close>

definition upDir :: "string \<Rightarrow> string option" where
  "upDir dir = (if Dir dir = dir then None else Some (Dir dir))"

definition storeIn :: "'usd cli_env \<Rightarrow> string \<Rightarrow> string option" where
  "storeIn e dir = find (\<lambda>c. e_stat e c = Some False) [JoinPath dir ''plandb.db'', JoinPath dir ''.codeaf/plandb.db'']"

text \<open>The walk upwards ends: \<^verbatim>\<open>filepath.Dir\<close> of a directory is shorter or the directory itself.\<close>

definition cliFindStore :: "'usd cli_env \<Rightarrow> string" where
  "cliFindStore e =
     (case e_cwd e of None \<Rightarrow> ''''
      | Some dir \<Rightarrow> (case filter (\<lambda>c. c \<noteq> None) (map (storeIn e) (walk (Suc (length dir)) upDir dir)) of
          Some c # _ \<Rightarrow> c | _ \<Rightarrow> ''''))"

definition cliStorePath :: "'usd cli_env \<Rightarrow> cli_parsed \<Rightarrow> string" where
  "cliStorePath e p = (if vals p ''db'' \<noteq> '''' then vals p ''db''
     else if e_getenv e ''PLANDB_DB'' \<noteq> '''' then e_getenv e ''PLANDB_DB'' else cliFindStore e)"

text \<open>A fresh handle on the database at a path, as the shell of the verbs.\<close>

definition openShell :: "'usd cli_env \<Rightarrow> string \<Rightarrow> string \<Rightarrow> string \<Rightarrow> string \<Rightarrow> string \<Rightarrow> (string \<Rightarrow> 'usd plan_db) \<Rightarrow>
    cli_error + 'usd shell" where
  "openShell e path project root title description dbs =
     (case Open (e_io e 0) (fst (e_open e path)) (snd (e_open e path)) project root title description [] (e_now e 0)
             (dbs path) (e_others e 0 (dbs path)) of
        Inl er \<Rightarrow> Inl (StoreErr er)
      | Inr (st, db) \<Rightarrow> Inr \<lparr>sh_store = st, sh_db = db, sh_tick = 1, sh_out = []\<rparr>)"

definition cliStore :: "'usd cli_env \<Rightarrow> cli_parsed \<Rightarrow> (string \<Rightarrow> 'usd plan_db) \<Rightarrow> cli_error + 'usd shell" where
  "cliStore e p dbs =
     (let path = cliStorePath e p; wantProject = vals p ''project''; wantRun = e_getenv e ''PLANDB_RUN'' in
      if path = '''' then Inl (Says (''no plan store found '' @ emDash @
             '' run \"plandb init <name>\" in the run'' @ apos @ ''s directory, or pass --db <path>''))
      else if e_stat e path = None then Inl (Says (''no plan store at '' @ path @ '' '' @ emDash @ '' run \"plandb init <name>\" first''))
      else andThen (openShell e path '''' '''' '''' '''' dbs) (\<lambda>w.
        let project = PlanProject (data (sh_store w)); root = RootID (data (sh_store w)) in
        if wantProject \<noteq> '''' \<and> project \<noteq> wantProject
        then Inl (Says (''the plan store at '' @ path @ '' belongs to project '' @ quoted e project @ '', not '' @ quoted e wantProject))
        else if wantRun \<noteq> '''' \<and> root \<noteq> wantRun
        then Inl (Says (''the plan store at '' @ path @ '' is another run'' @ apos @ ''s (t-'' @ root @ ''), not this worker'' @ apos @
               ''s run (t-'' @ wantRun @ ''), so nothing was read or written; this worker'' @ apos @ ''s run is over or was set aside''))
        else Inr w))"

section \<open>Creating a store\<close>

definition initLines :: "string list" where
  "initLines = ['''',
     ''next: plandb add \"title\" --description \"detailed spec\" [--dep t-upstream] [--check command] [--as custom-id]'',
     ''tip:  create tasks in dependency order. use --dep to chain them.'',
     ''      plandb add \"A\" --as a && plandb add \"B\" --dep t-a --as b'',
     ''      plandb go '' @ arrow @ '' work '' @ arrow @ '' plandb done --next '' @ arrow @ '' repeat'']"

definition initSays :: "'usd cli_env \<Rightarrow> cli_parsed \<Rightarrow> string \<Rightarrow> ('usd, unit) cli" where
  "initSays e p name =
     (if bools p ''json'' then andC rootID (\<lambda>root. andC (storeTask e root) (\<lambda>t.
        case t of None \<Rightarrow> failC (StoreErr NilDeref) | Some t \<Rightarrow> printTask t))
      else andC (say (''created '' @ cliProjectID name @ '' ('' @ name @ '')'')) (\<lambda>_. eachC say initLines))"

definition initPath :: "'usd cli_env \<Rightarrow> cli_parsed \<Rightarrow> cli_error + string" where
  "initPath e p =
     (let path = (if vals p ''db'' \<noteq> '''' then vals p ''db'' else e_getenv e ''PLANDB_DB'') in
      if path = '''' \<and> cliFindStore e \<noteq> '''' then
        Inl (Says (''a plan store already exists at '' @ cliFindStore e @ '' '' @ emDash @
          '' this directory is already inside a run; point --db somewhere new to start another''))
      else let path = (if path = '''' then ''plandb.db'' else path) in
        if e_stat e path \<noteq> None then
          Inl (Says (''a plan store already exists at '' @ path @ '' '' @ emDash @ '' point --db somewhere new to start another run''))
        else Inr path)"

definition cliInit :: "'usd cli_env \<Rightarrow> cli_parsed \<Rightarrow> (string \<Rightarrow> 'usd plan_db) \<Rightarrow> cli_error + string \<times> string \<times> 'usd shell" where
  "cliInit e p dbs =
     (if length (pos p) < 2 then Inl (Says (''init needs a project name '' @ emDash @ '' plandb init <name> --description \"the goal\"''))
      else let name = TrimSpace (nth_pos p 1) in
        if name = '''' then Inl (Says ''init needs a project name'')
        else andThen (initPath e p) (\<lambda>path.
             andThen (openShell e path name ''root'' name (vals p ''description'') dbs) (\<lambda>w. Inr (name, path, w))))"

section \<open>The verbs\<close>

definition cliTask :: "'usd cli_env \<Rightarrow> cli_parsed \<Rightarrow> ('usd, unit) cli" where
  "cliTask e p =
     (if length (pos p) < 2 then failC (Says (''task needs a subcommand '' @ emDash @
        '' one of add-dep, amend, cancel, get, insert, note, notes, overview, pause, pivot, resume, set-checks''))
      else let verb = nth_pos p 1; q = tailFrom 1 p in
        if verb = ''add-dep'' then cliAddDep e q
        else if verb = ''amend'' then cliAmend e q
        else if verb = ''cancel'' then cliCancel e q
        else if verb = ''get'' then cliShow e q
        else if verb = ''insert'' then cliInsert e q
        else if verb = ''note'' then cliNote e q
        else if verb = ''notes'' then cliNotes e q
        else if verb = ''overview'' then cliOverview e q
        else if verb = ''pause'' then cliTaskHold e q True
        else if verb = ''pivot'' then cliPivot e q
        else if verb = ''resume'' then cliTaskHold e q False
        else if verb = ''set-checks'' then cliSetChecks e q
        else failC (Says (''unknown task subcommand '' @ quoted e verb @ '' '' @ emDash @ '' run \"plandb help\" for the ported set'')))"

definition cliDispatch :: "'usd cli_env \<Rightarrow> cli_parsed \<Rightarrow> ('usd, unit) cli" where
  "cliDispatch e p =
     (let verb = nth_pos p 0 in
      if verb = ''add'' then cliAdd e p
      else if verb = ''split'' then cliSplit e p
      else if verb = ''go'' then cliGo e p
      else if verb = ''done'' then cliDone e p
      else if verb = ''wait'' then cliWait e p
      else if verb = ''list'' then cliList e p
      else if verb = ''archive'' then cliArchive e p
      else if verb = ''status'' then cliStatus e p
      else if verb = ''spend'' then cliSpendVerb e p
      else if verb = ''search'' then cliSearchVerb e p
      else if verb = ''context'' then cliContext e p
      else if verb = ''contexts'' then cliContexts e p
      else if verb = ''prune'' then cliPrune e p
      else if verb = ''critical-path'' then cliCriticalPath e p
      else if verb = ''bottlenecks'' then cliBottlenecks e p
      else if verb = ''show'' then cliShow e p
      else if verb = ''task'' then cliTask e p
      else if verb = ''what-if'' then
        (if length (pos p) < 2 then failC (Says (''what-if previews a cancel '' @ emDash @ '' plandb what-if cancel <task-id>''))
         else if nth_pos p 1 \<noteq> ''cancel'' then
           failC (Says (''unknown what-if '' @ quoted e (nth_pos p 1) @ '' '' @ emDash @ '' cancel is the one preview''))
         else cliWhatIf e (tailFrom 1 p))
      else failC (Says (''unknown command '' @ quoted e verb @ '' '' @ emDash @ '' run \"plandb help\" for the ported verbs'')))"

section \<open>A whole run\<close>

record 'usd finish =
  f_exit :: "nat option"
  f_out :: "'usd cli_line list"
  f_err :: "cli_error option"
  f_dbs :: "string \<Rightarrow> 'usd plan_db"

text \<open>A panic exits with 2 and a loop that does not end with nothing; \<^verbatim>\<open>cliFail\<close> with 1.\<close>

definition exitCode :: "cli_error \<Rightarrow> nat option" where
  "exitCode er = (if er = Diverges then None else if er = StoreErr NilDeref then Some 2 else Some 1)"

definition cliFail :: "'usd cli_line list \<Rightarrow> (string \<Rightarrow> 'usd plan_db) \<Rightarrow> cli_error \<Rightarrow> 'usd finish" where
  "cliFail out dbs er = \<lparr>f_exit = exitCode er, f_out = out, f_err = Some er, f_dbs = dbs\<rparr>"

definition cliEnd :: "'usd cli_line list \<Rightarrow> (string \<Rightarrow> 'usd plan_db) \<Rightarrow> 'usd finish" where
  "cliEnd out dbs = \<lparr>f_exit = Some 0, f_out = out, f_err = None, f_dbs = dbs\<rparr>"

definition runOn :: "string \<Rightarrow> (string \<Rightarrow> 'usd plan_db) \<Rightarrow> ('usd, unit) cli \<Rightarrow> 'usd shell \<Rightarrow> 'usd finish" where
  "runOn path dbs m w =
     (case m w of
        (Inl er, w1) \<Rightarrow> cliFail (sh_out w1) (dbs(path := sh_db w1)) er
      | (Inr _, w1) \<Rightarrow> cliEnd (sh_out w1) (dbs(path := sh_db w1)))"

definition runHelpVerb :: "cli_parsed \<Rightarrow> string" where
  "runHelpVerb p = (if length (pos p) \<ge> 2 then cliVerbHelp (nth_pos p 1) else cliUsage)"

definition Main :: "'usd cli_env \<Rightarrow> string list \<Rightarrow> (string \<Rightarrow> 'usd plan_db) \<Rightarrow> 'usd finish" where
  "Main e argv dbs =
     (case cliScan argv of
        Inl er \<Rightarrow> cliFail [] dbs er
      | Inr p \<Rightarrow>
          if bools p ''version'' then cliEnd [Line (''plandb '' @ cliVersion)] dbs
          else if bools p ''help'' \<or> pos p = [] then cliEnd [Line (cliVerbHelp (verbPath p))] dbs
          else (case cliRefusal p of
            Some msg \<Rightarrow> cliFail [] dbs (Says msg)
          | None \<Rightarrow>
              if nth_pos p 0 = ''init'' then
                (case cliInit e p dbs of
                   Inl er \<Rightarrow> cliFail [] dbs er
                 | Inr (name, path, w) \<Rightarrow> runOn path dbs (initSays e p name) w)
              else if nth_pos p 0 = ''help'' then cliEnd [Line (runHelpVerb p)] dbs
              else (case cliStore e p dbs of
                      Inl er \<Rightarrow> cliFail [] dbs er
                    | Inr w \<Rightarrow> runOn (cliStorePath e p) dbs (cliDispatch e p) w)))"

end
