(* ===== verification/CliLaws.thy ===== *)
theory CliLaws
  imports CliMain
begin

text \<open>
  What a run of the command line does to the database, whatever its words are: a verb that reads
  keeps every property of the database that the other processes keep, and a verb that writes
  keeps the plan one that can be loaded, of the same run. Both are read off the shape of the verb,
  call by call (\<^verbatim>\<open>keepsDB\<close>).
\<close>

section \<open>Keeping a property of the database\<close>

definition keepsDB :: "('usd plan_db \<Rightarrow> bool) \<Rightarrow> ('usd, 'a) cli \<Rightarrow> bool" where
  "keepsDB P m \<longleftrightarrow> (\<forall>w. P (sh_db w) \<longrightarrow> P (sh_db (snd (m w))))"

definition steady :: "'usd cli_env \<Rightarrow> ('usd plan_db \<Rightarrow> bool) \<Rightarrow> bool" where
  "steady e P \<longleftrightarrow> (\<forall>n db. P db \<longrightarrow> P (e_others e n db))"

named_theorems keeps_rules

lemma keeps_pure [keeps_rules]:
  "keepsDB P (ret x)" "keepsDB P (failC er)" "keepsDB P (liftC r)" "keepsDB P (say line)" "keepsDB P (printJSON doc)"
  "keepsDB P rootID" "keepsDB P projectName"
  by (simp_all add: keepsDB_def ret_def failC_def liftC_def say_def printJSON_def rootID_def projectName_def)

lemma keeps_and [keeps_rules]: "keepsDB P m \<Longrightarrow> (\<And>x. keepsDB P (k x)) \<Longrightarrow> keepsDB P (andC m k)"
  unfolding keepsDB_def andC_def by (force split: sum.splits prod.splits)

lemma keeps_branches [keeps_rules]:
  "(c \<Longrightarrow> keepsDB P m) \<Longrightarrow> (\<not> c \<Longrightarrow> keepsDB P m') \<Longrightarrow> keepsDB P (if c then m else m')"
  "keepsDB P n \<Longrightarrow> (\<And>x. keepsDB P (g x)) \<Longrightarrow> keepsDB P (case opt of None \<Rightarrow> n | Some x \<Rightarrow> g x)"
  "(\<And>a b. pr = (a, b) \<Longrightarrow> keepsDB P (h a b)) \<Longrightarrow> keepsDB P (case pr of (a, b) \<Rightarrow> h a b)"
  "(\<And>v. keepsDB P (f v)) \<Longrightarrow> keepsDB P (let v = rhs in f v)"
  by (simp_all split: option.split prod.split)

lemma keeps_each [keeps_rules]: "(\<And>x. keepsDB P (f x)) \<Longrightarrow> keepsDB P (eachC f xs)"
  by (induction xs) (auto intro: keeps_rules)

lemma keeps_rescue [keeps_rules]: "keepsDB P m \<Longrightarrow> keepsDB P (rescueC m f)"
  unfolding keepsDB_def rescueC_def by (force split: sum.splits prod.splits)

lemma keeps_call:
  assumes "steady e P" and "\<And>io now st db. P db \<Longrightarrow> P (snd (snd (f io now st db)))"
  shows "keepsDB P (callC e f)"
  using assms by (auto simp: keepsDB_def steady_def callC_def Let_def split: prod.splits) (metis snd_conv)

section \<open>Reading\<close>

lemma keeps_query [keeps_rules]: "steady e P \<Longrightarrow> keepsDB P (queryC e q)"
  unfolding queryC_def by (rule keeps_call) (auto split: prod.splits)

lemma keeps_ask [keeps_rules]: "steady e P \<Longrightarrow> keepsDB P (askC e q)"
  unfolding askC_def by (rule keeps_call) (auto split: prod.splits)

lemma keeps_nextID [keeps_rules]: "steady e P \<Longrightarrow> keepsDB P (storeNextID e)"
  using keeps_query unfolding keepsDB_def storeNextID_def by blast

lemma keeps_reads [keeps_rules]:
  assumes "steady e P"
  shows "keepsDB P (storeTasks e fs)" "keepsDB P (storeTask e i)" "keepsDB P (storeResolve e word)"
    "keepsDB P (storeArchived e)" "keepsDB P (storeNotes e i)" "keepsDB P (storeContexts e kind limit fs)"
    "keepsDB P (storeSearch e query limit fs)" "keepsDB P (storeCriticalPath e)" "keepsDB P (storeBottlenecks e limit)"
    "keepsDB P (storeReadySet e)" "keepsDB P (storeSpendTags e)" "keepsDB P (storeSpendSummary e)" "keepsDB P (storeSpendBy e axis since)"
  unfolding storeTasks_def storeTask_def storeResolve_def storeArchived_def storeNotes_def storeContexts_def
    storeSearch_def storeCriticalPath_def storeBottlenecks_def storeReadySet_def storeSpendTags_def
    storeSpendSummary_def storeSpendBy_def
  by (intro keeps_rules assms keeps_call; simp add: Let_def)+

lemma keeps_shown [keeps_rules]: "keepsDB P (taskObject t)" "keepsDB P (printTask t)"
  unfolding taskObject_def printTask_def by (intro keeps_rules)+

lemma keeps_views [keeps_rules]:
  assumes "steady e P"
  shows "keepsDB P (cliCount e)" "keepsDB P (cliBracket e)"
    "keepsDB P (cliProjectStateOf e)" "keepsDB P (cliReadyList e)" "keepsDB P (cliRunningList e)" "keepsDB P (cliResolve e word)"
    "keepsDB P (cliHardDependents e i)" "keepsDB P (cliRunningFor e agent)" "keepsDB P (cliSubtree e i keepDone)"
    "keepsDB P (cliSubtreeAll e i)" "keepsDB P (cliCancelPreview e target)" "keepsDB P (cliEffect e made delayed)" "keepsDB P (cliDepEdges e)"
  unfolding cliCount_def cliBracket_def cliProjectStateOf_def cliReadyList_def cliRunningList_def
    cliResolve_def cliHardDependents_def cliRunningFor_def cliSubtree_def cliSubtreeAll_def cliCancelPreview_def
    cliEffect_def cliDepEdges_def
  by (intro keeps_rules assms)+

lemma keeps_need [keeps_rules]: "keepsDB P (needWords n p msg)"
  unfolding needWords_def by (intro keeps_rules)

lemma keeps_tags [keeps_rules]: "keepsDB P (spendTagLines e word totals)"
  unfolding spendTagLines_def by (intro keeps_rules)

lemma keeps_spendBy [keeps_rules]: "steady e P \<Longrightarrow> keepsDB P (cliSpendBy e p axis)"
proof -
  assume s: "steady e P"
  let ?k = "\<lambda>since. andC (storeSpendBy e axis since) (\<lambda>ls. if bools p ''json'' then printJSON (JSpendLines ls)
    else if ls = [] then say (''no spend by '' @ axis @ '' yet '' @ emDash @ '' every charge the run makes lands here'')
    else eachC (\<lambda>l. say (spendLineText e axis l)) ls)"
  have "keepsDB P (andC (liftC r) ?k)" for r :: "cli_error + time" using s by (intro keeps_rules)
  then have "P (sh_db w) \<Longrightarrow> P (sh_db (snd (andC (liftC r) ?k w)))" for r :: "cli_error + time" and w by (simp add: keepsDB_def)
  then show ?thesis unfolding cliSpendBy_def by (auto simp: keepsDB_def failC_def)
qed

lemma keeps_rows [keeps_rules]:
  "keepsDB P (printRows p rows)" "keepsDB P (previewRows e heading ts)" "keepsDB P (noteLines ns)"
  "steady e P \<Longrightarrow> keepsDB P (searchLine e r)" "steady e P \<Longrightarrow> keepsDB P (cliSpend e)" "steady e P \<Longrightarrow> keepsDB P (cliTree e)"
  "steady e P \<Longrightarrow> keepsDB P (cliListArchived e p)"
  unfolding printRows_def previewRows_def noteLines_def searchLine_def cliSpend_def cliTree_def cliListArchived_def
  by (intro keeps_rules; assumption)+

lemma keeps_reading:
  assumes "steady e P"
  shows "keepsDB P (cliWhatIf e p)" "keepsDB P (cliList e p)" "keepsDB P (cliSpendVerb e p)" "keepsDB P (cliStatus e p)"
    "keepsDB P (cliSearchVerb e p)" "keepsDB P (cliContexts e p)" "keepsDB P (cliCriticalPath e p)"
    "keepsDB P (cliBottlenecks e p)" "keepsDB P (cliShow e p)" "keepsDB P (cliOverview e p)" "keepsDB P (cliNotes e p)"
  unfolding cliWhatIf_def cliList_def cliSpendVerb_def cliStatus_def cliSearchVerb_def cliContexts_def cliCriticalPath_def
    cliBottlenecks_def cliShow_def cliOverview_def cliNotes_def
  by (intro keeps_rules assms)+

section \<open>Writing\<close>

text \<open>The plan can be loaded, and it is the run it was, whose root has an id a task may have.\<close>

definition holds_run :: "string \<Rightarrow> string \<Rightarrow> 'usd plan_db \<Rightarrow> bool" where
  "holds_run root project db \<longleftrightarrow> validID root \<and> (\<exists>s. loadState db = Inr s \<and> RootID s = root \<and> PlanProject s = project)"

definition same_run :: "plan_state \<Rightarrow> plan_state \<Rightarrow> bool" where
  "same_run s s' \<longleftrightarrow> plan_inv s' \<and> RootID s' = RootID s \<and> PlanProject s' = PlanProject s"

definition lawful_change :: "(plan_state \<Rightarrow> plan_error + plan_state) \<Rightarrow> bool" where
  "lawful_change f \<longleftrightarrow> (\<forall>s s'. plan_inv s \<longrightarrow> validID (RootID s) \<longrightarrow> f s = Inr s' \<longrightarrow> same_run s s')"

lemma step_same_run: "plan_step s s' \<Longrightarrow> plan_inv s \<Longrightarrow> same_run s s'"
  using step_inv step_kept by (auto simp: same_run_def run_kept_def)

lemma lawful_step: "(\<And>s s'. f s = Inr s' \<Longrightarrow> plan_step s s') \<Longrightarrow> lawful_change f"
  unfolding lawful_change_def using step_same_run by blast

lemma change_keeps_plan:
  assumes f: "lawful_change f" and p: "holds_run root project db"
  shows "holds_run root project (snd (snd (transact loadState saveState io f st db)))"
proof (cases "transact loadState saveState io f st db")
  case (fields r st' db')
  from p obtain s where r: "validID root" and s: "loadState db = Inr s" "RootID s = root" "PlanProject s = project"
    by (auto simp: holds_run_def)
  show ?thesis
  proof (cases r)
    case (Some er)
    with fields p show ?thesis using transact_error_keeps_db[of loadState saveState io f st db er st' db'] by simp
  next
    case None
    with fields have t: "transact loadState saveState io f st db = (None, st', db')" by simp
    show ?thesis
    proof (rule transact_commit[OF t])
      fix fresh nxt assume l: "loadState db = Inr fresh" and c: "f fresh = Inr nxt" and sv: "saveState nxt db = Inr db'"
      have "fresh = s" using l s(1) by simp
      have "plan_inv fresh" using loadState_accepts[OF l] by simp
      moreover have "validID (RootID fresh)" using r s(2) \<open>fresh = s\<close> by simp
      ultimately have "same_run fresh nxt" using f c unfolding lawful_change_def by blast
      then have n: "plan_inv nxt" "RootID nxt = RootID fresh" "PlanProject nxt = PlanProject fresh"
        by (simp_all add: same_run_def)
      from save_then_load[OF n(1) sv] obtain s2 where "loadState db' = Inr s2" "reads_back nxt s2" by blast
      moreover from this have "RootID s2 = root" "PlanProject s2 = project"
        using n(2,3) \<open>fresh = s\<close> s(2,3) by (simp_all add: reads_back_def)
      ultimately show ?thesis using r t by (auto simp: holds_run_def)
    qed (use p t in simp)
  qed
qed

lemma keeps_change:
  assumes e: "steady e (holds_run root project)" and f: "\<And>now. lawful_change (\<lambda>s. map_sum (\<lambda>x. x) fst (op now s))"
  shows "keepsDB (holds_run root project) (changeC e op)"
  unfolding changeC_def
proof (rule keeps_call[OF e])
  fix io now st and db :: "'a plan_db" assume "holds_run root project db"
  from change_keeps_plan[OF f this]
  show "holds_run root project (snd (snd (case transact loadState saveState io (\<lambda>s. map_sum (\<lambda>x. x) fst (op now s)) st db of
      (None, st', db') \<Rightarrow> (Inr (captured (op now) db, data st'), st', db') | (Some er, st', db') \<Rightarrow> (Inl er, st', db'))))"
    by (auto split: prod.splits option.splits) (metis snd_conv)+
qed

lemma plain_answer [simp]: "map_sum (\<lambda>x. x) fst (map_sum (\<lambda>x. x) (\<lambda>s'. (s', ())) r) = r"
  by (cases r) simp_all

lemma keeps_write:
  assumes "steady e (holds_run root project)" and "\<And>now. lawful_change (op now)"
  shows "keepsDB (holds_run root project) (writeC e op i)"
  unfolding writeC_def using assms by (intro keeps_and keeps_change) (auto intro: keeps_rules)

lemma lawful_addDep: "kind \<in> {'''', DepFeedsInto, DepBlocks, DepSuggests} \<Longrightarrow> lawful_change (AddDep i u kind now)"
  unfolding lawful_change_def
proof (intro allI impI)
  fix s s' assume kind: "kind \<in> {'''', DepFeedsInto, DepBlocks, DepSuggests}" and inv: "plan_inv s" and r: "validID (RootID s)"
    and c: "AddDep i u kind now s = Inr s'"
  from c obtain t where "task_at s u = Some t" by (auto simp: AddDep_def Let_def)
  then have "task_wf s u t" using inv by (intro plan_invD(3))
  then have "validID u" using r by (cases "u = RootID s") (auto simp: task_wf_def validateSpec_def split: if_splits)
  then have "plan_step s s'" using c kind by (intro plan_step.AddDep)
  with inv show "same_run s s'" by (intro step_same_run)
qed

lemma lawful_writes:
  "lawful_change (AddMany specs now)" "lawful_change (Cancel i reason now)" "lawful_change (RemoveDep i u now)"
  "lawful_change (Done tw i agent result artifacts evidence now)" "lawful_change (Wait i agent now)"
  "lawful_change ((if paused then Pause i else Resume i) now)" "lawful_change (Prune i now)"
  "lawful_change (\<lambda>s. map_sum (\<lambda>x. x) fst (ClaimNext uni agent now s))"
  "lawful_change (\<lambda>s. map_sum (\<lambda>x. x) fst (AddNote i agent body now s))"
  "lawful_change (\<lambda>s. map_sum (\<lambda>x. x) fst (AddContext i kind content now s))"
  by (rule lawful_step; auto simp: Pause_def Resume_def AddNote_def map_sum_fst_Inr intro: plan_step.intros split: if_splits)+

lemma keeps_archive:
  assumes "steady e (holds_run root project)"
  shows "keepsDB (holds_run root project) (storeArchive e olderThan)"
  unfolding storeArchive_def
proof (rule keeps_call[OF assms])
  fix io now st and db :: "'a plan_db" assume p: "holds_run root project db"
  show "holds_run root project (snd (snd (ArchiveTx io olderThan now st db)))"
  proof (cases "ArchiveTx io olderThan now st db")
    case (fields r st' db')
    show ?thesis
    proof (cases r)
      case (Inl er)
      with fields p show ?thesis using ArchiveTx_error[of io olderThan now st db er st' db'] by simp
    next
      case (Inr moved)
      with fields have t: "ArchiveTx io olderThan now st db = (Inr moved, st', db')" by simp
      from ArchiveTx_result[OF t] obtain s2 where s2: "loadState db' = Inr s2" "reads_back (data st') s2" by metis
      obtain fresh where f: "loadState db = Inr fresh"
        and d: "data st' = fresh \<or> (\<exists>mv. Archive olderThan now fresh = Some (data st', mv))"
        using t by (auto simp: ArchiveTx_def split: option.splits sum.splits prod.splits if_splits)
      have "RootID (data st') = RootID fresh \<and> PlanProject (data st') = PlanProject fresh"
        using d Archive_kept[of olderThan now fresh "data st'"] by (auto simp: run_kept_def)
      with s2 f fields p show ?thesis by (auto simp: holds_run_def reads_back_def)
    qed
  qed
qed

lemma keeps_writes [keeps_rules]:
  assumes s: "steady e (holds_run root project)"
  shows "keepsDB (holds_run root project) (storeAddMany e specs)" "keepsDB (holds_run root project) (storeCancel e i reason)"
    "keepsDB (holds_run root project) (storeRemoveDep e i u)" "keepsDB (holds_run root project) (storeDone e i agent result)"
    "keepsDB (holds_run root project) (storeWait e i agent)" "keepsDB (holds_run root project) (storeHold e paused i)"
    "keepsDB (holds_run root project) (storeClaimNext e agent)" "keepsDB (holds_run root project) (storeAddNote e i agent body)"
    "keepsDB (holds_run root project) (storeAddContext e i kind content)" "keepsDB (holds_run root project) (storePrune e i)"
    "keepsDB (holds_run root project) (storeArchive e olderThan)"
    "kind \<in> {'''', DepFeedsInto, DepBlocks, DepSuggests} \<Longrightarrow> keepsDB (holds_run root project) (storeAddDep e i u kind)"
  unfolding storeAddMany_def storeCancel_def storeRemoveDep_def storeDone_def storeWait_def storeHold_def storeClaimNext_def
    storeAddNote_def storeAddContext_def storePrune_def storeAddDep_def
  by ((intro keeps_pure keeps_and keeps_branches keeps_write keeps_change keeps_archive s; simp add: lawful_writes lawful_addDep)+)

section \<open>The verbs that write\<close>

lemma keeps_mint [keeps_rules]:
  assumes "steady e P"
  shows "keepsDB P (mintOne n e used)" "keepsDB P (mintMany e used ps)" "keepsDB P (cliBatchSpecs e parent ps)"
    "keepsDB P (resolveDeps e deps)" "keepsDB P (parentArg e word)" "keepsDB P (ownTask e p)" "keepsDB P (beforeArg e word)"
    "keepsDB P (cliPlaceholderChecks e checks title description ending)" "keepsDB P (cliPrintClaimed e t asJSON)"
    "keepsDB P (cliSplitObject e t made)" "keepsDB P (cliInsertObject e t)"
proof -
  show one: "keepsDB P (mintOne n e used)" for n used
    by (induction n arbitrary: used) (auto intro!: keeps_rules assms)
  show "keepsDB P (mintMany e used ps)" for used
    by (induction ps arbitrary: used) (auto intro!: keeps_rules assms one)
  then show "keepsDB P (cliBatchSpecs e parent ps)" unfolding cliBatchSpecs_def by (intro keeps_rules)
  show "keepsDB P (resolveDeps e deps)" by (induction deps) (auto intro!: keeps_rules assms)
  show "keepsDB P (parentArg e word)" "keepsDB P (ownTask e p)" "keepsDB P (beforeArg e word)"
    "keepsDB P (cliPlaceholderChecks e checks title description ending)" "keepsDB P (cliPrintClaimed e t asJSON)"
    "keepsDB P (cliSplitObject e t made)" "keepsDB P (cliInsertObject e t)"
    unfolding parentArg_def ownTask_def beforeArg_def cliPlaceholderChecks_def cliPrintClaimed_def cliSplitObject_def cliInsertObject_def
    by (intro keeps_rules assms)+
qed

lemma keeps_cancelEach [keeps_rules]:
  assumes "steady e (holds_run root project)"
  shows "keepsDB (holds_run root project) (cancelEach e reason ts)"
proof (induction ts)
  case (Cons t ts)
  have "keepsDB (holds_run root project) (andC (cancelEach e reason ts) (\<lambda>ids. ret (cliID (ID t) # ids)))"
    using Cons by (intro keeps_rules)
  with Cons keeps_writes(2)[OF assms, of "ID t" reason] show ?case
    unfolding keepsDB_def by (auto split: prod.splits sum.splits)
qed (simp add: keeps_rules)

lemma keeps_wire [keeps_rules]:
  "steady e (holds_run root project) \<Longrightarrow> keepsDB (holds_run root project) (wireBefore e before newID up)"
  unfolding wireBefore_def by (intro keeps_rules) (simp_all add: DepFeedsInto_def)

lemma keeps_writing:
  assumes "steady e (holds_run root project)"
  shows "keepsDB (holds_run root project) (cliAdd e p)" "keepsDB (holds_run root project) (cliSplit e p)"
    "keepsDB (holds_run root project) (cliGo e p)" "keepsDB (holds_run root project) (cliDone e p)"
    "keepsDB (holds_run root project) (cliWait e p)" "keepsDB (holds_run root project) (cliPivot e p)"
    "keepsDB (holds_run root project) (cliCancel e p)" "keepsDB (holds_run root project) (cliArchive e p)"
    "keepsDB (holds_run root project) (cliContext e p)" "keepsDB (holds_run root project) (cliPrune e p)"
    "keepsDB (holds_run root project) (cliNote e p)" "keepsDB (holds_run root project) (cliTaskHold e p pause)"
  unfolding cliAdd_def cliSplit_def cliGo_def cliDone_def cliWait_def cliPivot_def cliCancel_def cliArchive_def
    cliContext_def cliPrune_def cliNote_def cliTaskHold_def
  by (intro keeps_rules assms)+

lemma keeps_insert:
  assumes "steady e (holds_run root project)"
  shows "keepsDB (holds_run root project) (cliInsert e p)"
  unfolding cliInsert_def by (intro keeps_rules assms) (simp_all add: DepFeedsInto_def)

lemma keeps_addDep:
  assumes "steady e (holds_run root project)" and "vals p ''kind'' \<in> {'''', DepFeedsInto, DepBlocks, DepSuggests}"
  shows "keepsDB (holds_run root project) (cliAddDep e p)"
  unfolding cliAddDep_def Let_def by (intro keeps_rules assms) (use assms(2) in auto)

section \<open>The switch\<close>

text \<open>The words of a command that only reads, and of one that may write what the next load refuses.\<close>

definition readingVerb :: "cli_parsed \<Rightarrow> bool" where
  "readingVerb p = (case pos p of [] \<Rightarrow> True
     | v # rest \<Rightarrow> v \<in> {''list'', ''status'', ''spend'', ''search'', ''contexts'', ''critical-path'', ''bottlenecks'', ''show'', ''what-if'', ''help''} \<or>
         v = ''task'' \<and> rest \<noteq> [] \<and> hd rest \<in> {''get'', ''notes'', ''overview''})"

definition riskyVerb :: "cli_parsed \<Rightarrow> bool" where
  "riskyVerb p = (case pos p of v # w # _ \<Rightarrow> v = ''task'' \<and>
     (w = ''amend'' \<or> w = ''set-checks'' \<or>
      w = ''add-dep'' \<and> vals p ''kind'' \<notin> {'''', DepFeedsInto, DepBlocks, DepSuggests}) | _ \<Rightarrow> False)"

lemma dispatch_reading:
  assumes "steady e P" and "readingVerb p" and "pos p \<noteq> []"
  shows "keepsDB P (cliDispatch e p)"
proof -
  from assms(3) obtain v rest where p: "pos p = v # rest" by (cases "pos p") auto
  note r = keeps_reading[OF assms(1)]
  have task: "keepsDB P (cliTask e p)" if "rest \<noteq> []" "hd rest \<in> {''get'', ''notes'', ''overview''}"
    using that p r(9-11) by (cases rest) (auto simp: cliTask_def nth_pos_def)
  have v: "nth_pos p 0 = v" using p by (simp add: nth_pos_def)
  have rv: "v \<in> {''list'', ''status'', ''spend'', ''search'', ''contexts'', ''critical-path'', ''bottlenecks'', ''show'', ''what-if'', ''help''} \<or>
      v = ''task'' \<and> rest \<noteq> [] \<and> hd rest \<in> {''get'', ''notes'', ''overview''}"
    using assms(2) p by (simp add: readingVerb_def)
  then have "v \<notin> {''add'', ''split'', ''go'', ''done'', ''wait'', ''archive'', ''context'', ''prune''}"
    by (elim disjE conjE insertE emptyE) simp_all
  moreover have "v = ''task'' \<Longrightarrow> keepsDB P (cliTask e p)" using rv task by auto
  ultimately show ?thesis
    unfolding cliDispatch_def Let_def v by (intro keeps_pure keeps_branches r) (simp_all only: insert_iff simp_thms)
qed

lemma dispatch_writing:
  assumes "steady e (holds_run root project)" and "\<not> riskyVerb p" and "pos p \<noteq> []"
  shows "keepsDB (holds_run root project) (cliDispatch e p)"
proof -
  have "keepsDB (holds_run root project) (cliTask e p)" if "nth_pos p 0 = ''task''"
  proof (cases "length (pos p) < 2")
    case True
    then show ?thesis unfolding cliTask_def by (simp add: keeps_rules)
  next
    case False
    then obtain v w r where p: "pos p = v # w # r" by (cases "pos p"; cases "tl (pos p)") auto
    with that assms(2) have nr: "w \<noteq> ''amend''" "w \<noteq> ''set-checks''"
      and k: "w = ''add-dep'' \<Longrightarrow> vals (tailFrom 1 p) ''kind'' \<in> {'''', DepFeedsInto, DepBlocks, DepSuggests}"
      by (auto simp: riskyVerb_def nth_pos_def tailFrom_def)
    have w: "nth_pos p 1 = w" using p by (simp add: nth_pos_def)
    show ?thesis
      using nr unfolding cliTask_def Let_def w
      by (intro keeps_pure keeps_branches keeps_reading keeps_writing keeps_insert assms(1))
        (use k keeps_addDep[OF assms(1)] in blast)+
  qed
  then show ?thesis
    unfolding cliDispatch_def Let_def
    by (intro keeps_pure keeps_branches keeps_reading keeps_writing assms(1))
qed

end
