(* ===== verification/CliCascade.thy ===== *)
theory CliCascade
  imports CliView PlanProgress
begin

text \<open>
  What \<^verbatim>\<open>what-if cancel\<close>, \<^verbatim>\<open>task cancel\<close> and \<^verbatim>\<open>task pivot\<close> read of a subtree is exactly what the
  store's cascade reaches.  The level-by-level walk of the command line (\<^verbatim>\<open>levelsFrom\<close>) reads
  each task under a parent once and the fuel it has been given is always enough; the preview's loop
  computes the least set of tasks that a cancellation dooms (\<^verbatim>\<open>doomed\<close>); and the store's own
  \<^verbatim>\<open>Cancel\<close>, which runs two other loops over a changing plan, cancels that set and nothing else.
\<close>

section \<open>A snapshot of the plan's tasks\<close>

definition snapshot :: "plan_state \<Rightarrow> task list \<Rightarrow> bool" where
  "snapshot s ts \<longleftrightarrow> distinct (map ID ts) \<and> (\<forall>t. t \<in> set ts \<longleftrightarrow> task_at s (ID t) = Some t) \<and> ids_ok s"

lemma snapshot_TasksOf:
  assumes inv: "plan_inv s"
  obtains ts where "TasksOf [] s = Some ts" "snapshot s ts"
proof (rule ordered_inv[OF inv])
  fix ps assume ps: "ordered s = Some ps" "map fst ps = Order s" "distinct (map fst ps)"
    "\<And>i t. (i, t) \<in> set ps \<longleftrightarrow> task_at s i = Some t"
  have id: "ID (snd x) = fst x" if "x \<in> set ps" for x
    using that ps(4)[of "fst x" "snd x"] plan_inv_ID[OF inv] by simp
  then have ids: "map ID (map snd ps) = map fst ps" by simp
  have "t \<in> set (map snd ps) \<longleftrightarrow> task_at s (ID t) = Some t" for t
  proof
    assume "t \<in> set (map snd ps)"
    then obtain x where x: "x \<in> set ps" "t = snd x" by auto
    with id[OF x(1)] ps(4)[of "fst x" "snd x"] show "task_at s (ID t) = Some t" by simp
  next
    assume "task_at s (ID t) = Some t"
    then have "(ID t, t) \<in> set ps" using ps(4) by blast
    then show "t \<in> set (map snd ps)" by (metis in_set_zipE zip_map_fst_snd)
  qed
  moreover have "TasksOf [] s = Some (map snd ps)"
    by (simp add: TasksOf_def ps(1) firstFilter_def admits_def)
  ultimately show thesis
    using ps(3) plan_inv_ids[OF inv] that unfolding snapshot_def ids[symmetric] by blast
qed

lemma snapshot_ID: "snapshot s ts \<Longrightarrow> task_at s i = Some t \<Longrightarrow> ID t = i \<and> t \<in> set ts"
  by (auto simp: snapshot_def ids_ok_def)

lemma snapshot_at: "snapshot s ts \<Longrightarrow> t \<in> set ts \<longleftrightarrow> task_at s (ID t) = Some t"
  by (simp add: snapshot_def)

lemma snapshot_by_id: "snapshot s ts \<Longrightarrow> cliTaskByID ts i = task_at s i"
proof (cases "task_at s i")
  case None
  assume "snapshot s ts"
  with None show ?thesis by (auto simp: cliTaskByID_def find_None_iff snapshot_def)
next
  case (Some t)
  assume s: "snapshot s ts"
  with Some have t: "t \<in> set ts" "ID t = i" by (auto dest: snapshot_ID)
  then obtain u where u: "find (\<lambda>t. ID t = i) ts = Some u" by (cases "find (\<lambda>t. ID t = i) ts") (auto simp: find_None_iff)
  then have "u \<in> set ts" "ID u = i" by (auto simp: find_Some_iff)
  with s t have "u = t" by (auto simp: snapshot_def)
  with u Some show ?thesis by (simp add: cliTaskByID_def)
qed

lemma snapshot_length: "snapshot s ts \<Longrightarrow> length ts = card (set (task_ids s))"
proof -
  assume s: "snapshot s ts"
  have "i \<in> set (task_ids s) \<longleftrightarrow> i \<in> set (map ID ts)" for i
  proof
    assume "i \<in> set (task_ids s)"
    then obtain t where t: "task_at s i = Some t" by (auto simp: task_ids_iff)
    have "ID t = i" "t \<in> set ts" using snapshot_ID[OF s t] by simp_all
    then show "i \<in> set (map ID ts)" by auto
  next
    assume "i \<in> set (map ID ts)"
    then obtain t where "t \<in> set ts" "i = ID t" by auto
    then show "i \<in> set (task_ids s)" using snapshot_at[OF s, of t] by (simp add: task_ids_iff)
  qed
  then have "set (task_ids s) = set (map ID ts)" by blast
  then show ?thesis using s distinct_card[of "map ID ts"] by (simp add: snapshot_def)
qed

section \<open>The levels of a subtree\<close>

text \<open>The tasks reached from \<open>p\<close> through children that satisfy \<open>w\<close>.\<close>

inductive kin :: "plan_state \<Rightarrow> (task \<Rightarrow> bool) \<Rightarrow> string \<Rightarrow> string \<Rightarrow> bool" for s w where
  child: "task_at s i = Some t \<Longrightarrow> w t \<Longrightarrow> ParentID t = p \<Longrightarrow> kin s w p i"
| below: "task_at s i = Some t \<Longrightarrow> w t \<Longrightarrow> ParentID t = p \<Longrightarrow> kin s w i j \<Longrightarrow> kin s w p j"

lemma kin_snoc: "kin s w p j \<Longrightarrow> task_at s i = Some t \<Longrightarrow> w t \<Longrightarrow> ParentID t = j \<Longrightarrow> kin s w p i"
  by (induction rule: kin.induct) (auto intro: kin.intros)

lemma kin_open_under: "kin s (\<lambda>t. \<not> terminal (Status t)) p = open_under s p"
proof (intro ext iffI)
  fix j
  have up: "open_under s i j \<Longrightarrow> task_at s i = Some t \<Longrightarrow> \<not> terminal (Status t) \<Longrightarrow> open_under s (ParentID t) j" for i t j
    by (induction rule: open_under.induct) (auto intro: open_under.intros)
  show "kin s (\<lambda>t. \<not> terminal (Status t)) p j \<Longrightarrow> open_under s p j"
    by (induction rule: kin.induct) (auto intro: open_under.intros up)
  show "open_under s p j \<Longrightarrow> kin s (\<lambda>t. \<not> terminal (Status t)) p j"
    by (induction rule: open_under.induct) (auto intro: kin.intros kin_snoc)
qed

lemma depth_child:
  assumes ok: "tree_ok s" and t: "task_at s i = Some t" and p: "task_at s (ParentID t) \<noteq> None"
  shows "card (above s i) = Suc (card (above s (ParentID t)))"
proof -
  have ne: "ParentID t \<noteq> ''''" using p ok by (auto simp: tree_okD(3))
  then have e: "(i, ParentID t) \<in> parent_rel s" using t by (auto simp: parent_rel_iff)
  have "i \<notin> above s (ParentID t)"
    using tree_okD(2)[OF ok] e by (auto simp: acyclic_def dest: rtrancl_into_trancl2)
  moreover have "finite (above s (ParentID t))"
    using above_tasks[OF ok, of "ParentID t"] p by (auto simp: task_ids_iff intro: finite_subset)
  ultimately show ?thesis using above_unfold[OF t] ne by simp
qed

lemma depth_bound: "tree_ok s \<Longrightarrow> task_at s i = Some t \<Longrightarrow> card (above s i) \<le> card (set (task_ids s))"
  by (intro card_mono above_tasks) (auto simp: task_ids_iff)

definition kids_of :: "task list \<Rightarrow> (task \<Rightarrow> bool) \<Rightarrow> string \<Rightarrow> task list" where
  "kids_of ts w i = filter w (childrenIn ts i)"

lemma kids_of_iff: "snapshot s ts \<Longrightarrow> t \<in> set (kids_of ts w p) \<longleftrightarrow> task_at s (ID t) = Some t \<and> w t \<and> ParentID t = p"
  by (auto simp: kids_of_def childrenIn_def snapshot_at)

lemma level_distinct:
  assumes "snapshot s ts" and "distinct fr"
  shows "distinct (map ID (concat (map (kids_of ts w) fr)))"
  using assms(2)
proof (induction fr)
  case (Cons f fr)
  have "distinct (map ID (kids_of ts w f))"
    using assms(1) by (auto simp: kids_of_def childrenIn_def snapshot_def distinct_map intro: inj_on_subset)
  moreover have "ID ` set (kids_of ts w f) \<inter> ID ` set (concat (map (kids_of ts w) fr)) = {}"
    using Cons.prems by (auto simp: kids_of_iff[OF assms(1)])
  ultimately show ?case using Cons by simp
qed simp

lemma levels_exact_gen:
  assumes ok: "tree_ok s" and sn: "snapshot s ts"
  shows "distinct fr \<Longrightarrow> \<forall>f\<in>set fr. task_at s f \<noteq> None \<and> card (above s f) = m \<Longrightarrow> length ts < n + m \<Longrightarrow>
    set (map ID (levelsFrom n (kids_of ts w) fr)) = {j. \<exists>f\<in>set fr. kin s w f j} \<and>
    distinct (map ID (levelsFrom n (kids_of ts w) fr)) \<and>
    (\<forall>t\<in>set (levelsFrom n (kids_of ts w) fr). t \<in> set ts \<and> m < card (above s (ID t)))"
proof (induction n arbitrary: fr m)
  case 0
  have "fr = []"
  proof (rule ccontr)
    assume "fr \<noteq> []"
    then obtain f where f: "f \<in> set fr" by (cases fr) auto
    with 0(2) obtain t where "task_at s f = Some t" by auto
    from depth_bound[OF ok this] snapshot_length[OF sn] 0(2,3) f show False by auto
  qed
  then show ?case by simp
next
  case (Suc n)
  let ?lv = "concat (map (kids_of ts w) fr)"
  let ?rest = "levelsFrom n (kids_of ts w) (map ID ?lv)"
  have lv: "t \<in> set ?lv \<longleftrightarrow> task_at s (ID t) = Some t \<and> w t \<and> ParentID t \<in> set fr" for t
    by (auto simp: kids_of_iff[OF sn])
  have d: "card (above s (ID t)) = Suc m" if "t \<in> set ?lv" for t
    using depth_child[OF ok, of "ID t" t] that Suc.prems(2) unfolding lv by auto
  have "distinct (map ID ?lv)" by (rule level_distinct[OF sn Suc.prems(1)])
  moreover have "\<forall>f\<in>set (map ID ?lv). task_at s f \<noteq> None \<and> card (above s f) = Suc m"
  proof
    fix f assume "f \<in> set (map ID ?lv)"
    then obtain t where t: "t \<in> set ?lv" "f = ID t" by force
    with d[OF t(1)] t(1)[unfolded lv] show "task_at s f \<noteq> None \<and> card (above s f) = Suc m" by simp
  qed
  moreover have "length ts < n + Suc m" using Suc.prems(3) by simp
  ultimately have ih: "set (map ID ?rest) = {j. \<exists>f\<in>set (map ID ?lv). kin s w f j}" "distinct (map ID ?rest)"
    "\<forall>t\<in>set ?rest. t \<in> set ts \<and> Suc m < card (above s (ID t))" using Suc.IH by blast+
  have "{j. \<exists>f\<in>set fr. kin s w f j} = set (map ID ?lv) \<union> {j. \<exists>f\<in>set (map ID ?lv). kin s w f j}"
  proof (intro equalityI subsetI)
    fix j assume "j \<in> {j. \<exists>f\<in>set fr. kin s w f j}"
    then obtain f where f: "f \<in> set fr" "kin s w f j" by auto
    from f(2) obtain i t where i: "task_at s i = Some t" "w t" "ParentID t = f" "j = i \<or> kin s w i j" by cases auto
    with f(1) snapshot_ID[OF sn i(1)] have "t \<in> set ?lv" "ID t = i" unfolding lv by auto
    with i(4) show "j \<in> set (map ID ?lv) \<union> {j. \<exists>f\<in>set (map ID ?lv). kin s w f j}" by auto
  next
    fix j assume "j \<in> set (map ID ?lv) \<union> {j. \<exists>f\<in>set (map ID ?lv). kin s w f j}"
    then obtain t where "t \<in> set ?lv" "j = ID t \<or> kin s w (ID t) j" by auto
    then show "j \<in> {j. \<exists>f\<in>set fr. kin s w f j}" unfolding lv by (auto intro: kin.intros)
  qed
  moreover have "ID ` set ?lv \<inter> ID ` set ?rest = {}" using d ih(3) by force
  moreover have "\<forall>t\<in>set ?lv. t \<in> set ts \<and> m < card (above s (ID t))"
  proof
    fix t assume t: "t \<in> set ?lv"
    show "t \<in> set ts \<and> m < card (above s (ID t))"
      using d[OF t] t[unfolded lv] snapshot_at[OF sn, of t] by simp
  qed
  moreover have "levelsFrom (Suc n) (kids_of ts w) fr = (if fr = [] then [] else ?lv @ ?rest)" by (simp add: Let_def)
  ultimately show ?case using ih \<open>distinct (map ID ?lv)\<close> by (cases "fr = []") (auto simp: Suc_lessD)
qed

theorem levels_exact:
  assumes "tree_ok s" and sn: "snapshot s ts" and p: "task_at s p = Some t"
  shows "set (map ID (levelsFrom (Suc (length ts)) (kids_of ts w) [p])) = {j. kin s w p j}"
    "distinct (map ID (levelsFrom (Suc (length ts)) (kids_of ts w) [p]))"
    "set (levelsFrom (Suc (length ts)) (kids_of ts w) [p]) \<subseteq> set ts"
    "p \<notin> set (map ID (levelsFrom (Suc (length ts)) (kids_of ts w) [p]))"
proof -
  let ?l = "levelsFrom (Suc (length ts)) (kids_of ts w) [p]"
  have g: "set (map ID ?l) = {j. \<exists>f\<in>set [p]. kin s w f j} \<and> distinct (map ID ?l) \<and>
      (\<forall>t\<in>set ?l. t \<in> set ts \<and> card (above s p) < card (above s (ID t)))"
    using levels_exact_gen[OF assms(1) sn, of "[p]" "card (above s p)" "Suc (length ts)" w] p
    by (simp del: levelsFrom.simps)
  then show "set (map ID ?l) = {j. kin s w p j}" "distinct (map ID ?l)" "set ?l \<subseteq> set ts" by auto
  show "p \<notin> set (map ID ?l)"
  proof
    assume "p \<in> set (map ID ?l)"
    then obtain t where "t \<in> set ?l" "p = ID t" by auto
    with g show False by auto
  qed
qed

lemma subtreeIn_levels: "subtreeIn ts p k = levelsFrom (Suc (length ts)) (kids_of ts (wanted k)) [p]"
  by (simp add: subtreeIn_def kids_of_def[abs_def])

lemma subtreeAllIn_levels: "subtreeAllIn ts p = levelsFrom (Suc (length ts)) (kids_of ts (\<lambda>_. True)) [p]"
  by (simp add: subtreeAllIn_def kids_of_def[abs_def])

lemma wanted_open: "wanted False = (\<lambda>t. \<not> terminal (Status t))"
  by (auto simp: wanted_def fun_eq_iff)

section \<open>The tasks a cancellation dooms\<close>

text \<open>
  The promise of the preview, stated without a loop: the task itself, the open work under it, and
  every open task with a hard dependency on a doomed or an already cancelled task.
\<close>

inductive doomed :: "plan_state \<Rightarrow> string \<Rightarrow> string \<Rightarrow> bool" for s i where
  self: "doomed s i i"
| under: "open_under s i j \<Longrightarrow> doomed s i j"
| waits: "doomed s i (dep_TaskID d) \<Longrightarrow> task_at s j = Some t \<Longrightarrow> \<not> terminal (Status t) \<Longrightarrow> d \<in> set (Dependencies t) \<Longrightarrow>
    dep_Kind d \<noteq> DepSuggests \<Longrightarrow> doomed s i j"
| stuck: "task_at s (dep_TaskID d) = Some u \<Longrightarrow> Status u = StatusCancelled \<Longrightarrow> task_at s j = Some t \<Longrightarrow>
    \<not> terminal (Status t) \<Longrightarrow> d \<in> set (Dependencies t) \<Longrightarrow> dep_Kind d \<noteq> DepSuggests \<Longrightarrow> doomed s i j"

lemma open_under_open: "open_under s p j \<Longrightarrow> \<exists>t. task_at s j = Some t \<and> \<not> terminal (Status t)"
  by (cases rule: open_under.cases) auto

lemma doomed_open:
  assumes "\<exists>t. task_at s i = Some t \<and> \<not> terminal (Status t)"
  shows "doomed s i j \<Longrightarrow> \<exists>t. task_at s j = Some t \<and> \<not> terminal (Status t)"
  by (induction rule: doomed.induct) (use assms open_under_open in auto)

subsection \<open>The preview's loop computes them\<close>

definition preview_inv :: "plan_state \<Rightarrow> task list \<Rightarrow> string \<Rightarrow> string list \<Rightarrow> task list \<times> string list \<Rightarrow> bool" where
  "preview_inv s ts i will0 r \<longleftrightarrow> (case r of (deps, will) \<Rightarrow> will = rev (map ID deps) @ will0 \<and> distinct will \<and> set deps \<subseteq> set ts \<and>
     (\<forall>j\<in>set will. doomed s i j))"

lemma dependsOnDoomed_iff:
  assumes "snapshot s ts"
  shows "dependsOnDoomed ts will t \<longleftrightarrow> (\<exists>d\<in>set (Dependencies t). dep_Kind d \<noteq> DepSuggests \<and>
    (dep_TaskID d \<in> set will \<or> (\<exists>u. task_at s (dep_TaskID d) = Some u \<and> Status u = StatusCancelled)))"
  by (auto simp: dependsOnDoomed_def list_ex_iff snapshot_by_id[OF assms] split: option.splits)

lemma preview_step_inv:
  assumes sn: "snapshot s ts" and t: "t \<in> set ts" and inv: "preview_inv s ts i will0 (deps, will)"
    and r: "previewStep ts t (deps, will, c) = (deps', will', c')"
  shows "preview_inv s ts i will0 (deps', will')"
proof (cases "ID t \<in> set will \<or> terminal (Status t) \<or> \<not> dependsOnDoomed ts will t")
  case True
  from previewStep_skip[OF this] r inv show ?thesis by simp
next
  case False
  from previewStep_take[OF False, of deps c] r have e: "deps' = deps @ [t]" "will' = ID t # will" by auto
  from False have n: "ID t \<notin> set will" and "\<not> terminal (Status t)" "dependsOnDoomed ts will t" by auto
  moreover have "task_at s (ID t) = Some t" using t sn by (simp add: snapshot_at)
  ultimately have "doomed s i (ID t)"
    using inv unfolding dependsOnDoomed_iff[OF sn] preview_inv_def by (auto intro: doomed.waits doomed.stuck)
  with e n inv t show ?thesis by (auto simp: preview_inv_def disjoint_iff)
qed

lemma preview_fold_inv:
  assumes sn: "snapshot s ts"
  shows "set us \<subseteq> set ts \<Longrightarrow> preview_inv s ts i will0 (deps, will) \<Longrightarrow>
    fold (previewStep ts) us (deps, will, c) = (deps', will', c') \<Longrightarrow>
    preview_inv s ts i will0 (deps', will') \<and>
    (\<not> c' \<longrightarrow> \<not> c \<and> deps' = deps \<and> will' = will \<and> (\<forall>t\<in>set us. ID t \<in> set will \<or> terminal (Status t) \<or> \<not> dependsOnDoomed ts will t))"
proof (induction us arbitrary: deps will c)
  case (Cons u us)
  obtain d1 w1 c1 where r: "previewStep ts u (deps, will, c) = (d1, w1, c1)" by (cases "previewStep ts u (deps, will, c)") auto
  have i1: "preview_inv s ts i will0 (d1, w1)" using preview_step_inv[OF sn _ Cons.prems(2) r] Cons.prems(1) by simp
  from Cons.IH[OF _ i1, of c1] Cons.prems(1,3) r have ih: "preview_inv s ts i will0 (deps', will')"
    "\<not> c' \<Longrightarrow> \<not> c1 \<and> deps' = d1 \<and> will' = w1 \<and> (\<forall>t\<in>set us. ID t \<in> set w1 \<or> terminal (Status t) \<or> \<not> dependsOnDoomed ts w1 t)"
    by simp_all
  show ?case
  proof (cases "ID u \<in> set will \<or> terminal (Status u) \<or> \<not> dependsOnDoomed ts will u")
    case True
    from previewStep_skip[OF this] r have "d1 = deps" "w1 = will" "c1 = c" by auto
    with ih True show ?thesis by auto
  next
    case False
    from previewStep_take[OF False, of deps c] r have "c1" by auto
    with ih show ?thesis by auto
  qed
qed simp

lemma previewLoop_exact:
  "snapshot s ts \<Longrightarrow> preview_inv s ts i will0 (deps, will) \<Longrightarrow> previewLoop ts deps will = (deps', will') \<Longrightarrow>
    preview_inv s ts i will0 (deps', will') \<and> set will \<subseteq> set will' \<and>
    (\<forall>t\<in>set ts. ID t \<in> set will' \<or> terminal (Status t) \<or> \<not> dependsOnDoomed ts will' t)"
proof (induction ts deps will rule: previewLoop.induct)
  case (1 ts deps will)
  obtain d1 w1 c1 where f: "fold (previewStep ts) ts (deps, will, False) = (d1, w1, c1)" by (cases "fold (previewStep ts) ts (deps, will, False)") auto
  then have r: "previewRound ts (deps, will) = (d1, w1, c1)" by (simp add: previewRound_def)
  note i1 = preview_fold_inv[OF "1.prems"(1) subset_refl "1.prems"(2) f]
  show ?case
  proof (cases c1)
    case True
    with "1.prems"(3) r have "previewLoop ts d1 w1 = (deps', will')" by (subst (asm) previewLoop.simps) simp
    from "1.IH"[OF r[symmetric] refl True "1.prems"(1) i1[THEN conjunct1] this] preview_fold_unwilled[OF subset_refl f]
    show ?thesis by auto
  next
    case False
    with "1.prems"(3) r have "deps' = d1" "will' = w1" by (subst (asm) previewLoop.simps, simp)+
    with i1 False show ?thesis by auto
  qed
qed

text \<open>The rows a preview prints are the doomed tasks, each once, and not the root.\<close>

theorem preview_exact:
  assumes ok: "tree_ok s" and sn: "snapshot s ts" and t: "task_at s i = Some t" "\<not> terminal (Status t)"
    and r: "previewIn (subtreeIn ts i False) ts i = (desc, deps)"
  shows "set (i # map ID desc @ map ID deps) = {j. doomed s i j}" "distinct (i # map ID desc @ map ID deps)"
    "set desc \<union> set deps \<subseteq> set ts"
proof -
  let ?w = "i # map ID (subtreeIn ts i False)"
  obtain will' where pl: "previewLoop ts [] ?w = (deps, will')" and d: "desc = subtreeIn ts i False"
    using r by (cases "previewLoop ts [] ?w") (auto simp: previewIn_def)
  note lv = levels_exact[OF ok sn t(1), of "wanted False", folded subtreeIn_levels, unfolded wanted_open kin_open_under]
  have inv: "preview_inv s ts i ?w ([], ?w)"
    using lv by (auto simp: preview_inv_def intro: doomed.intros)
  note e = previewLoop_exact[OF sn inv pl]
  then have w: "will' = rev (map ID deps) @ ?w" "distinct will'" "set deps \<subseteq> set ts" "\<forall>j\<in>set will'. doomed s i j"
    unfolding preview_inv_def by blast+
  have "doomed s i j \<Longrightarrow> j \<in> set will'" for j
  proof (induction rule: doomed.induct)
    case self
    then show ?case using w(1) by simp
  next
    case (under j)
    then have "j \<in> set (map ID (subtreeIn ts i False))" unfolding lv(1) by simp
    then show ?case using w(1) by simp
  next
    case (waits d j v)
    then have "v \<in> set ts" "ID v = j" using snapshot_ID[OF sn] by auto
    moreover have "dependsOnDoomed ts will' v" using waits by (auto simp: dependsOnDoomed_iff[OF sn])
    ultimately show ?case using e waits by auto
  next
    case (stuck d u j v)
    then have "v \<in> set ts" "ID v = j" using snapshot_ID[OF sn] by auto
    moreover have "dependsOnDoomed ts will' v" using stuck by (auto simp: dependsOnDoomed_iff[OF sn])
    ultimately show ?case using e stuck by auto
  qed
  with w(4) have "set will' = {j. doomed s i j}" by auto
  with w(1) d show "set (i # map ID desc @ map ID deps) = {j. doomed s i j}" by auto
  from w(1,2) d show "distinct (i # map ID desc @ map ID deps)" by auto
  from w(3) lv(3) d show "set desc \<union> set deps \<subseteq> set ts" by auto
qed

subsection \<open>And the store's cancellation ends them\<close>

lemma root_no_hard:
  assumes inv: "plan_inv s" and r: "task_at s (RootID s) = Some t" and d: "d \<in> set (Dependencies t)"
  shows "dep_Kind d = DepSuggests"
proof (rule ccontr)
  assume k: "dep_Kind d \<noteq> DepSuggests"
  note wf = plan_invD[OF inv r]
  let ?j = "dep_TaskID d"
  have h: "?j \<in> set (hard_deps t)" using d k by (auto simp: hard_deps_def)
  have "task_at s ?j \<noteq> None" using wf(3) d by (auto simp: task_wf_def)
  then obtain v where "task_at s ?j = Some v" by auto
  from all_under_root[OF inv this] have "(?j, RootID s) \<in> (parent_rel s)\<^sup>*" by (simp add: under_def)
  moreover have "(?j, ID t) \<notin> (parent_rel s)\<^sup>+" using wf(2) r h unfolding graphs_ok_def by blast
  moreover have "ID t = RootID s" using wf(3) by (simp add: task_wf_def)
  ultimately have "?j = RootID s" by (metis rtranclD)
  with r h have "(RootID s, RootID s) \<in> hard_rel s" by (auto simp: edge_rel_def)
  with plan_inv_hard(1)[OF inv] show False by (auto simp: acyclic_def)
qed

text \<open>Where the plan's open tasks end once a task is cancelled: cancelled if doomed, and never otherwise.\<close>

lemma open_under_put:
  assumes o: "\<And>k v. task_at s1 k = Some v \<Longrightarrow> \<not> terminal (Status v) \<Longrightarrow> task_at s k = Some v"
  shows "open_under s1 i j \<Longrightarrow> open_under s i j"
  by (induction rule: open_under.induct) (use o in \<open>auto intro: open_under.intros\<close>)

lemma open_under_cancelled:
  assumes "open_under s i j" and s1: "\<And>k. k \<noteq> i \<Longrightarrow> task_at s1 k = task_at s k"
  shows "j = i \<or> open_under s1 i j"
  using assms(1)
proof (induction rule: open_under.induct)
  case (child k v)
  then show ?case using s1[of k] by (auto intro: open_under.child)
next
  case (below m k v)
  then show ?case using s1[of k] by (cases "k = i"; cases "m = i") (auto intro: open_under.intros)
qed

lemma promote_cancels_nothing:
  "(\<exists>t. task_at (promote now s) j = Some t \<and> Status t = StatusCancelled) \<longleftrightarrow> (\<exists>t. task_at s j = Some t \<and> Status t = StatusCancelled)"
proof (cases "task_at s j")
  case None
  then have "j \<notin> set (task_ids (promote now s))"
    using promote_frame[of s now] by (auto simp: promoted_from_def task_ids_iff)
  with None show ?thesis by (auto simp: task_ids_iff)
next
  case (Some t)
  from promote_task[OF this, of now] obtain t' where t': "task_at (promote now s) j = Some t'" "promoted t t'" by auto
  from t'(2) have "Status t' = StatusCancelled \<longleftrightarrow> Status t = StatusCancelled" by (auto simp: promoted_def)
  with Some t'(1) show ?thesis by simp
qed

lemma cascade_exact:
  assumes inv: "plan_inv s" and i: "i \<noteq> RootID s" and root: "RootID s1 = RootID s"
    and s1: "\<And>k. task_at s1 k = (if k = i then Some u else task_at s k)" "Status u = StatusCancelled"
    and v2: "hit_view s1 r2 now (open_under s1 i) s2" and v3: "hit_view s2 r3 now (blocked_by s2 i) s3"
    and t: "task_at s j = Some t" "\<not> terminal (Status t)"
  shows "(\<exists>t'. task_at s3 j = Some t' \<and> Status t' = StatusCancelled) \<longleftrightarrow> doomed s i j"
proof -
  have s2: "task_at s2 k = map_option (\<lambda>v. if open_under s1 i k then cancelled r2 now v else v) (task_at s1 k)" for k
    using v2 unfolding hit_view_def by blast
  have s3: "task_at s3 k = map_option (\<lambda>v. if blocked_by s2 i k then cancelled r3 now v else v) (task_at s2 k)" for k
    using v3 unfolding hit_view_def by blast
  have root2: "RootID s2 = RootID s" using hit_view_root[OF v2] root by simp
  have up: "open_under s1 i k \<Longrightarrow> open_under s i k" for k
    by (rule open_under_put) (auto simp: s1 split: if_splits)
  have dn: "open_under s i k \<Longrightarrow> k = i \<or> open_under s1 i k" for k
    by (rule open_under_cancelled) (simp_all add: s1)
  have open2: "task_at s2 k = Some v \<and> \<not> terminal (Status v) \<longleftrightarrow>
      task_at s k = Some v \<and> \<not> terminal (Status v) \<and> k \<noteq> i \<and> \<not> open_under s1 i k" for k v
  proof -
    have "\<not> terminal (Status v) \<Longrightarrow> v \<noteq> cancelled r2 now w" for v w by auto
    moreover have "terminal (Status u)" using s1(2) by simp
    ultimately show ?thesis by (cases "open_under s1 i k"; cases "k = i") (auto simp: s2 s1(1))
  qed
  have dead2: "task_at s2 k = Some v \<Longrightarrow> Status v = StatusCancelled \<Longrightarrow>
      k = i \<or> open_under s1 i k \<or> (\<exists>v. task_at s k = Some v \<and> Status v = StatusCancelled)" for k v
    by (auto simp: s2 s1 split: if_splits)
  have deadI: "k = i \<or> open_under s1 i k \<or> (\<exists>v. task_at s k = Some v \<and> Status v = StatusCancelled) \<Longrightarrow>
      \<exists>v. task_at s2 k = Some v \<and> Status v = StatusCancelled" for k
  proof (elim disjE exE)
    assume "open_under s1 i k"
    with open_under_open[OF this] show ?thesis by (auto simp: s2)
  qed (use s1(2) in \<open>cases "open_under s1 i k"; auto simp: s2 s1(1)\<close>)+
  have sound: "blocked_by s2 i k \<Longrightarrow> doomed s i k" for k
  proof (induction rule: blocked_by.induct)
    case (direct k v d)
    then have v: "task_at s k = Some v" "\<not> terminal (Status v)" using open2 by blast+
    have "dep_TaskID d = i \<or> (\<exists>x. task_at s2 (dep_TaskID d) = Some x \<and> Status x = StatusCancelled)"
      and k: "dep_Kind d \<noteq> DepSuggests" using direct.hyps(5) by (auto simp: hard_on_def split: option.splits)
    then have "doomed s i (dep_TaskID d) \<or> (\<exists>x. task_at s (dep_TaskID d) = Some x \<and> Status x = StatusCancelled)"
      using dead2[of "dep_TaskID d"] up[of "dep_TaskID d"] by (metis doomed.self doomed.under)
    with v k direct.hyps(4) show ?case by (auto intro: doomed.waits doomed.stuck)
  next
    case (chain d k v)
    then have "task_at s k = Some v" "\<not> terminal (Status v)" using open2 by blast+
    with chain show ?case by (auto intro: doomed.waits)
  qed
  have hard: "hard_on s2 i d" if "dep_Kind d \<noteq> DepSuggests"
    "dep_TaskID d = i \<or> open_under s1 i (dep_TaskID d) \<or> (\<exists>v. task_at s (dep_TaskID d) = Some v \<and> Status v = StatusCancelled)" for d
    using that(1) deadI[OF that(2)] by (auto simp: hard_on_def)
  have step: "k = i \<or> open_under s1 i k \<or> blocked_by s2 i k"
    if v: "task_at s k = Some v" "\<not> terminal (Status v)" "d \<in> set (Dependencies v)" "dep_Kind d \<noteq> DepSuggests"
      and d: "hard_on s2 i d \<or> blocked_by s2 i (dep_TaskID d)" for k v d
  proof (cases "k = i \<or> open_under s1 i k")
    case False
    then have "task_at s2 k = Some v" using open2 v by blast
    moreover have "k \<noteq> RootID s2" using root_no_hard[OF inv] v root2 by auto
    ultimately show ?thesis using v d by (auto intro: blocked_by.intros)
  qed auto
  have complete: "doomed s i k \<Longrightarrow> k = i \<or> open_under s1 i k \<or> blocked_by s2 i k" for k
  proof (induction rule: doomed.induct)
    case (waits d k v)
    then show ?case using hard[of d] by (intro step[of k v d]) auto
  next
    case (stuck d x k v)
    then show ?case using hard[of d] by (intro step[of k v d]) auto
  qed (use dn in auto)
  have "(\<exists>t'. task_at s3 j = Some t' \<and> Status t' = StatusCancelled) \<longleftrightarrow> j = i \<or> open_under s1 i j \<or> blocked_by s2 i j"
    using t s1 by (auto simp: s3 s2 s1)
  with sound complete up show ?thesis by (auto intro: doomed.self doomed.under)
qed

theorem Cancel_exact:
  assumes inv: "plan_inv s" and c: "Cancel i reason now s = Inr s'"
    and t: "task_at s j = Some t" "\<not> terminal (Status t)"
  shows "(\<exists>t'. task_at s' j = Some t' \<and> Status t' = StatusCancelled) \<longleftrightarrow> doomed s i j"
  using c
proof (rule Cancel_cases)
  fix u :: task
  let ?u = "u\<lparr>Status := StatusCancelled, Error := TrimSpace reason, ClaimedBy := '''', Owner := '''',
      SeenAt := 0, UpdatedAt := now, CompletedAt := now\<rparr>"
  let ?s1 = "put_task i ?u s"
  let ?s2 = "cancelDescendants i (''ancestor '' @ i @ '' was cancelled'') now ?s1"
  let ?s3 = "cancelBlockedDependents i (''dependency '' @ i @ '' was cancelled'') now ?s2"
  assume u: "task_at s i = Some u" "i \<noteq> RootID s" "\<not> terminal (Status u)" and s': "s' = promote now ?s3"
  have ids1: "ids_ok ?s1" using plan_inv_ids[OF inv] u(1) by (auto simp: ids_ok_def task_at_put)
  note v2 = cancelDescendants_exact[OF ids1, of "''ancestor '' @ i @ '' was cancelled''" now i]
  have ids2: "ids_ok ?s2" using ids1 v2 unfolding ids_ok_def hit_view_def by (auto split: if_splits)
  note v3 = cancelBlocked_exact[OF ids2, of "''dependency '' @ i @ '' was cancelled''" now i]
  have e: "(\<exists>t'. task_at ?s3 j = Some t' \<and> Status t' = StatusCancelled) \<longleftrightarrow> doomed s i j"
    by (rule cascade_exact[where u = ?u, OF inv u(2) _ _ _ v2 v3 t]) (simp_all add: task_at_put)
  have "(\<exists>t'. task_at s' j = Some t' \<and> Status t' = StatusCancelled) \<longleftrightarrow>
      (\<exists>t'. task_at ?s3 j = Some t' \<and> Status t' = StatusCancelled)"
    unfolding s' by (rule promote_cancels_nothing)
  with e show ?thesis by simp
qed

end
