(* ===== verification/CliRuns.thy ===== *)
theory CliRuns
  imports CliLaws CliCascade
begin

text \<open>
  Whole runs of the command line, from the words to the exit: a run that reads leaves every database
  as it was, a run that writes leaves its plan loadable and of the same run and touches no other
  file, a verb of the supervisor is refused wherever its flags stand, \<^verbatim>\<open>init\<close> seeds the run it
  names, and the walk that looks for the store reaches the root of the file system.
\<close>

section \<open>The walk upwards\<close>

definition weight :: "string list \<Rightarrow> nat" where
  "weight segs = sum_list (map (\<lambda>s. Suc (length s)) segs)"

lemma weight_simps [simp]: "weight [] = 0" "weight (s # ss) = Suc (length s) + weight ss" "weight (ss @ ts) = weight ss + weight ts"
  by (simp_all add: weight_def)

lemma Join_weight: "sep = [c] \<Longrightarrow> length (Join segs sep) = weight segs - 1"
  by (induction segs sep rule: Join.induct) auto

lemma Split_weight: "weight (Split s ''/'') = Suc (length s)"
proof -
  have "Split s ''/'' \<noteq> []" by (subst Split.simps) (simp split: option.split)
  then have "0 < weight (Split s ''/'')" by (cases "Split s ''/''") auto
  with Join_weight[of "''/''" _ "Split s ''/''"] Split_append[of "''/''" s] show ?thesis by simp
qed

abbreviation pieces :: "string \<Rightarrow> string list" where
  "pieces s \<equiv> filter (\<lambda>x. x \<noteq> []) (Split s ''/'')"

lemma pieces_weight: "weight (pieces s) \<le> Suc (length s)"
proof -
  have "weight (filter P ss) \<le> weight ss" for P ss by (induction ss) auto
  then show ?thesis using Split_weight by metis
qed

lemma Split_slash: "Split (CHR ''/'' # t) ''/'' = [] # Split t ''/''"
  by (subst Split.simps) (simp add: Cut.simps)

lemma Cut_end: "Cut (u @ ''/'') ''/'' = (case Cut u ''/'' of None \<Rightarrow> Some (u, []) | Some (a, b) \<Rightarrow> Some (a, b @ ''/''))"
  by (induction u) (auto simp: Cut.simps split: option.splits)

lemma Split_end: "Split (u @ ''/'') ''/'' = Split u ''/'' @ [[]]"
proof (induction u "''/''" rule: Split.induct)
  case (1 s)
  show ?case
  proof (cases "Cut s ''/''")
    case None
    have "Split '''' ''/'' = [[]]" by (subst Split.simps) (simp add: Cut.simps)
    with None show ?thesis by (simp add: Split.simps[of "s @ ''/''"] Split.simps[of s] Cut_end)
  next
    case (Some ab)
    then obtain a b where ab: "Cut s ''/'' = Some (a, b)" by (cases ab) auto
    moreover have "length b < length s" using Cut_append[of s "''/''" a b] ab by simp
    ultimately show ?thesis using 1 by (simp_all add: Split.simps[of "s @ ''/''"] Split.simps[of s] Cut_end)
  qed
qed

lemma cleanStep_weight: "weight (cleanStep True seg segs) \<le> weight segs + (if seg = [] then 0 else Suc (length seg))"
proof -
  have "weight (butlast segs) \<le> weight segs" for segs by (induction segs) auto
  then show ?thesis by (auto simp: cleanStep_def intro!: le_SucI)
qed

lemma cleaned_weight: "weight (fold (cleanStep True) ss segs) \<le> weight segs + weight (filter (\<lambda>x. x \<noteq> []) ss)"
proof (induction ss arbitrary: segs)
  case (Cons x ss)
  from Cons[of "cleanStep True x segs"] cleanStep_weight[of x segs] show ?case by (cases "x = []") auto
qed simp

lemma Clean_rooted:
  "\<exists>t. Clean (CHR ''/'' # s) = CHR ''/'' # t" "length (Clean (CHR ''/'' # s)) \<le> max 1 (weight (pieces s))"
proof -
  let ?segs = "fold (cleanStep True) (Split (CHR ''/'' # s) ''/'') []"
  have c: "Clean (CHR ''/'' # s) = CHR ''/'' # Join ?segs ''/''" by (simp add: Clean_def Let_def HasPrefix_def)
  then show "\<exists>t. Clean (CHR ''/'' # s) = CHR ''/'' # t" by simp
  show "length (Clean (CHR ''/'' # s)) \<le> max 1 (weight (pieces s))"
    using cleaned_weight[of "Split (CHR ''/'' # s) ''/''" "[]"] Join_weight[of "''/''" _ ?segs]
    by (auto simp: c Split_slash)
qed

lemma LastCut_parts: "LastCut c s = Some (a, b) \<Longrightarrow> s = a @ c # b"
proof -
  assume l: "LastCut c s = Some (a, b)"
  let ?w = "takeWhile (\<lambda>d. d \<noteq> c) (rev s)"
  from l have c: "c \<in> set s" and b: "b = rev ?w" and a: "a = take (length s - length b - 1) s"
    by (auto simp: LastCut_def Let_def split: if_splits)
  from c obtain x r where d: "dropWhile (\<lambda>d. d \<noteq> c) (rev s) = x # r" by (cases "dropWhile (\<lambda>d. d \<noteq> c) (rev s)") (auto simp: dropWhile_eq_Nil_conv)
  then have "x = c" using hd_dropWhile[of "\<lambda>d. d \<noteq> c" "rev s"] by auto
  with d have "rev s = ?w @ c # r" using takeWhile_dropWhile_id[of "\<lambda>d. d \<noteq> c" "rev s"] by simp
  then have "s = rev r @ c # b" unfolding b by (metis rev.simps(2) rev_append rev_rev_ident append.assoc append_Cons append_Nil)
  with a show ?thesis by simp
qed

lemma Dir_rooted:
  "\<exists>t. Dir (CHR ''/'' # s) = CHR ''/'' # t"
  "Dir (CHR ''/'' # s) = CHR ''/'' # s \<or> length (Dir (CHR ''/'' # s)) < length (CHR ''/'' # s)"
proof -
  obtain a b where ab: "LastCut (CHR ''/'') (CHR ''/'' # s) = Some (a, b)" by (auto simp: LastCut_def Let_def)
  note p = LastCut_parts[OF ab]
  have d: "Dir (CHR ''/'' # s) = Clean (a @ ''/'')" by (simp add: Dir_def ab)
  obtain u where u: "a @ ''/'' = CHR ''/'' # u" using p by (cases a) auto
  show "\<exists>t. Dir (CHR ''/'' # s) = CHR ''/'' # t" unfolding d u by (rule Clean_rooted)
  show "Dir (CHR ''/'' # s) = CHR ''/'' # s \<or> length (Dir (CHR ''/'' # s)) < length (CHR ''/'' # s)"
  proof (cases a)
    case Nil
    have "Clean ''/'' = ''/''" by code_simp
    with Nil d p show ?thesis by (cases b) auto
  next
    case (Cons x a')
    with u have "u = a' @ ''/''" by simp
    then have "weight (pieces u) \<le> Suc (length a')" using pieces_weight[of a'] by (simp add: Split_end)
    moreover have "length a = Suc (length a')" using Cons by simp
    ultimately have "length (Clean (a @ ''/'')) \<le> length a" using Clean_rooted(2)[of u] unfolding u by linarith
    with d p show ?thesis by (metis add_Suc_right le_imp_less_Suc length_Cons length_append less_add_Suc1 order_le_less_trans)
  qed
qed

text \<open>So the walk from an absolute directory ends, and more fuel finds nothing more.\<close>

lemma walk_ends: "length dir < n \<Longrightarrow> walk (n + k) upDir (CHR ''/'' # dir) = walk n upDir (CHR ''/'' # dir)"
proof (induction n arbitrary: dir)
  case (Suc n)
  obtain t where t: "Dir (CHR ''/'' # dir) = CHR ''/'' # t" using Dir_rooted(1) by auto
  show ?case
  proof (cases "Dir (CHR ''/'' # dir) = CHR ''/'' # dir")
    case True
    then show ?thesis by (simp add: upDir_def)
  next
    case False
    with Dir_rooted(2)[of dir] t have "length t < length dir" by simp
    with Suc show ?thesis by (simp add: upDir_def t)
  qed
qed simp

theorem find_store_walks_to_the_root:
  assumes "e_cwd e = Some (CHR ''/'' # dir)" and "length dir + 2 \<le> n"
  shows "cliFindStore e = (case filter (\<lambda>c. c \<noteq> None) (map (storeIn e) (walk n upDir (CHR ''/'' # dir))) of Some c # _ \<Rightarrow> c | _ \<Rightarrow> '''')"
proof -
  have "walk n upDir (CHR ''/'' # dir) = walk (Suc (length (CHR ''/'' # dir))) upDir (CHR ''/'' # dir)"
  proof -
    obtain k where "n = (length dir + 2) + k" using assms(2) le_Suc_ex by blast
    then show ?thesis using walk_ends[of dir "length dir + 2" k] by (simp only: length_Cons) (simp del: walk.simps)
  qed
  then show ?thesis by (simp add: cliFindStore_def assms(1) del: walk.simps)
qed


section \<open>Opening\<close>

lemma openShell_existing:
  assumes "openShell e path '''' '''' '''' '''' dbs = Inr w"
  shows "sh_db w = dbs path \<or> sh_db w = e_others e 0 (dbs path)" "sh_out w = []"
proof -
  from assms obtain st db' where o: "Open (e_io e 0) (fst (e_open e path)) (snd (e_open e path)) '''' '''' '''' '''' [] (e_now e 0)
        (dbs path) (e_others e 0 (dbs path)) = Inr (st, db')" and w: "w = \<lparr>sh_store = st, sh_db = db', sh_tick = 1, sh_out = []\<rparr>"
    by (auto simp: openShell_def split: sum.splits prod.splits)
  from o obtain s where "loadOrCreate (e_io e 0) '''' '''' '''' '''' '''' (e_now e 0) (dbs path) (e_others e 0 (dbs path)) = Inr (s, db')"
    by (auto simp: Open_def Let_def andThen_def split: path_kind.splits sum.splits prod.splits)
  then have "db' = e_others e 0 (dbs path)" by (cases rule: loadOrCreate_cases) (simp_all add: TrimSpace_Nil)
  with w show "sh_db w = dbs path \<or> sh_db w = e_others e 0 (dbs path)" "sh_out w = []" by auto
qed

lemma cliStore_opens:
  assumes "cliStore e p dbs = Inr w"
  shows "sh_db w = dbs (cliStorePath e p) \<or> sh_db w = e_others e 0 (dbs (cliStorePath e p))" "sh_out w = []"
  using assms openShell_existing[of e "cliStorePath e p" dbs w] by (auto simp: cliStore_def Let_def andThen_def split: if_splits sum.splits)

section \<open>Runs that read and runs that write\<close>

lemma Main_cases:
  assumes "cliScan argv = Inr p" and "pos p = [] \<or> nth_pos p 0 \<noteq> ''init''"
  obtains (early) "f_dbs (Main e argv dbs) = dbs"
  | (run) w where "cliStore e p dbs = Inr w" "pos p \<noteq> []" "Main e argv dbs = runOn (cliStorePath e p) dbs (cliDispatch e p) w"
  using assms by (fastforce simp: Main_def cliEnd_def cliFail_def split: option.splits sum.splits if_splits)

lemma runOn_dbs: "f_dbs (runOn path dbs m w) = dbs(path := sh_db (snd (m w)))"
  by (auto simp: runOn_def cliFail_def cliEnd_def split: prod.split sum.split)

lemma run_reading:
  assumes scan: "cliScan argv = Inr p" and r: "readingVerb p" and quiet: "\<And>n db. e_others e n db = db"
  shows "f_dbs (Main e argv dbs) = dbs"
proof -
  have "pos p = [] \<or> nth_pos p 0 \<noteq> ''init''" using r by (auto simp: readingVerb_def nth_pos_def split: list.splits)
  from scan this show ?thesis
  proof (cases rule: Main_cases[where e = e and dbs = dbs])
    case (run w)
    let ?P = "\<lambda>db. db = dbs (cliStorePath e p)"
    have "steady e ?P" by (simp add: steady_def quiet)
    from dispatch_reading[OF this r run(2)] cliStore_opens(1)[OF run(1)] have "sh_db (snd (cliDispatch e p w)) = dbs (cliStorePath e p)"
      by (auto simp: keepsDB_def quiet)
    with run(3) show ?thesis by (simp add: runOn_dbs)
  qed
qed

lemma run_writing:
  assumes scan: "cliScan argv = Inr p" and safe: "\<not> riskyVerb p" and i: "pos p = [] \<or> nth_pos p 0 \<noteq> ''init''"
    and s: "steady e (holds_run root project)" and d: "holds_run root project (dbs (cliStorePath e p))"
  shows "holds_run root project (f_dbs (Main e argv dbs) (cliStorePath e p)) \<and>
    (\<forall>y. y \<noteq> cliStorePath e p \<longrightarrow> f_dbs (Main e argv dbs) y = dbs y)"
  using scan i
proof (cases rule: Main_cases[where e = e and dbs = dbs])
  case (run w)
  have "holds_run root project (sh_db w)"
    using cliStore_opens(1)[OF run(1)] d s by (auto simp: steady_def)
  with dispatch_writing[OF s safe run(2)] have "holds_run root project (sh_db (snd (cliDispatch e p w)))"
    by (auto simp: keepsDB_def)
  with run(3) show ?thesis by (simp add: runOn_dbs)
qed (use d in simp)

section \<open>What the supervisor keeps for itself\<close>

definition wordsOf :: "cli_item list \<Rightarrow> string list" where
  "wordsOf items = concat (map (\<lambda>it. case it of Word w \<Rightarrow> [w] | _ \<Rightarrow> []) items)"

definition asksHelp :: "cli_item \<Rightarrow> bool" where
  "asksHelp it = (case it of On f \<Rightarrow> f \<in> {''help'', ''version''} | Short cs \<Rightarrow> CHR ''h'' \<in> set cs | _ \<Rightarrow> False)"

lemma shorts_pos: "pos (fold (\<lambda>c. setBool (f c) True) cs p) = pos p"
  by (induction cs arbitrary: p) (simp_all add: setBool_def)

lemma read_words: "pos (fold readItem items p) = pos p @ wordsOf items"
proof (induction items arbitrary: p)
  case (Cons it items)
  have "pos (readItem it p) = pos p @ wordsOf [it]"
    by (cases it) (simp_all add: wordsOf_def addWord_def setBool_def setValue_def shorts_pos)
  with Cons show ?case by (simp add: wordsOf_def)
qed (simp add: wordsOf_def)

lemma shorts_bool: "CHR ''h'' \<notin> set cs \<Longrightarrow> b \<noteq> ''compact'' \<Longrightarrow>
    bools (fold (\<lambda>c. setBool (if c = CHR ''c'' then ''compact'' else ''help'') True) cs p) b = bools p b \<or>
    \<not> set cs \<subseteq> {CHR ''c'', CHR ''h''}"
  by (induction cs arbitrary: p) (auto simp: setBool_def)

lemma read_help:
  "list_all itemOk items \<Longrightarrow> \<not> list_ex asksHelp items \<Longrightarrow> b \<in> {''help'', ''version''} \<Longrightarrow> \<not> bools p b \<Longrightarrow>
    \<not> bools (fold readItem items p) b"
proof (induction items arbitrary: p)
  case (Cons it items)
  have "\<not> bools (readItem it p) b"
    using Cons.prems shorts_bool[of _ b p]
    by (cases it) (auto simp: asksHelp_def addWord_def setBool_def setValue_def)
  with Cons show ?case by simp
qed simp

lemma scan_written: "list_all itemOk items \<Longrightarrow> cliScan (concat (map writeItem items)) = Inr (fold readItem items emptyParse)"
  using scan_items[of items "[]" emptyParse] by (simp add: cliScan_def scan_end(1))

lemma refused_run:
  assumes ok: "list_all itemOk items" and h: "\<not> list_ex asksHelp items" and w: "wordsOf items = v # rest"
    and v: "v \<in> set lifecycleVerbs \<or> v = ''project'' \<or> v = ''task'' \<and> rest \<noteq> [] \<and> hd rest \<in> set lifecycleTaskVerbs"
  shows "Main e (concat (map writeItem items)) dbs =
    \<lparr>f_exit = Some 1, f_out = [], f_err = Some (Says ((if v = ''task'' then ''task '' @ hd rest else v) @ supervisorSentence)), f_dbs = dbs\<rparr>"
proof -
  let ?p = "fold readItem items emptyParse"
  have p: "pos ?p = v # rest" using w by (simp add: read_words emptyParse_def)
  have b: "\<not> bools ?p ''help''" "\<not> bools ?p ''version''"
    by (intro read_help[OF ok h]; simp add: emptyParse_def)+
  have t: "''task'' \<notin> set lifecycleVerbs" "''what-if'' \<notin> set lifecycleVerbs" by (simp_all add: lifecycleVerbs_def)
  have "cliRefusal ?p = Some ((if v = ''task'' then ''task '' @ hd rest else v) @ supervisorSentence)"
    using v t by (auto simp: cliRefusal_def p verbPath_def split: list.splits)
  then show ?thesis using b p by (simp add: Main_def scan_written[OF ok] cliFail_def exitCode_def)
qed

section \<open>A new run\<close>

lemma keeps_initSays: "steady e P \<Longrightarrow> keepsDB P (initSays e p name)"
  unfolding initSays_def printTask_def by (intro keeps_rules) simp_all

lemma run_init:
  assumes scan: "cliScan argv = Inr p" "\<not> bools p ''version''" "\<not> bools p ''help''" "pos p = ''init'' # name # rest"
    and path: "initPath e p = Inr path" and new: "loadState (dbs path) = Inl ErrNoStore"
    and quiet: "\<And>n db. e_others e n db = db" and ok: "f_exit (Main e argv dbs) = Some 0"
  shows "(\<exists>s. loadState (f_dbs (Main e argv dbs) path) = Inr s \<and> plan_inv s \<and> RootID s = ''root'' \<and> PlanProject s = TrimSpace name \<and>
      task_at s = [''root'' \<mapsto> seedRoot (TrimSpace name) ''root'' (TrimSpace name) (vals p ''description'') '''' (e_now e 0)]) \<and>
    (\<forall>y. y \<noteq> path \<longrightarrow> f_dbs (Main e argv dbs) y = dbs y)"
proof -
  have "cliRefusal p = None" using scan(4) by (simp add: cliRefusal_def lifecycleVerbs_def)
  then have m: "Main e argv dbs = (case cliInit e p dbs of Inl er \<Rightarrow> cliFail [] dbs er
      | Inr (name, path, w) \<Rightarrow> runOn path dbs (initSays e p name) w)"
    using scan by (simp add: Main_def nth_pos_def)
  have "cliInit e p dbs \<noteq> Inl er" for er
    using ok unfolding m by (auto simp: cliFail_def exitCode_def split: if_splits)
  then obtain r where r: "cliInit e p dbs = Inr r" by (cases "cliInit e p dbs") auto
  then obtain w where n: "TrimSpace name \<noteq> ''''" and rw: "r = (TrimSpace name, path, w)"
    and o: "openShell e path (TrimSpace name) ''root'' (TrimSpace name) (vals p ''description'') dbs = Inr w"
    using path scan(4) by (auto simp: cliInit_def nth_pos_def Let_def andThen_iff split: if_splits)
  obtain st where op: "Open (e_io e 0) (fst (e_open e path)) (snd (e_open e path)) (TrimSpace name) ''root'' (TrimSpace name)
      (vals p ''description'') [] (e_now e 0) (dbs path) (dbs path) = Inr (st, sh_db w)"
    using o by (auto simp: openShell_def quiet split: sum.splits prod.splits)
  then obtain s where lc: "loadOrCreate (e_io e 0) (TrimSpace name) ''root'' (TrimSpace name) (vals p ''description'') ''''
      (e_now e 0) (dbs path) (dbs path) = Inr (s, sh_db w)"
    by (auto simp: Open_def Let_def andThen_iff split: path_kind.splits)
  note res = loadOrCreate_result[OF lc]
  from res(5)[OF new] obtain s2 where s2: "loadState (sh_db w) = Inr s2" "reads_back s s2" by auto
  have seed: "s = seedState (TrimSpace name) ''root'' (TrimSpace name) (vals p ''description'') '''' (e_now e 0)"
    using lc by (cases rule: loadOrCreate_cases) (use new in simp_all)
  have "steady e (\<lambda>db. db = sh_db w)" by (simp add: steady_def quiet)
  from keeps_initSays[OF this, of p "TrimSpace name"] have k: "sh_db (snd (initSays e p (TrimSpace name) w)) = sh_db w"
    by (simp add: keepsDB_def)
  have f: "f_dbs (Main e argv dbs) = dbs(path := sh_db w)" by (simp add: m r rw runOn_dbs k)
  have "task_at s2 = [''root'' \<mapsto> seedRoot (TrimSpace name) ''root'' (TrimSpace name) (vals p ''description'') '''' (e_now e 0)]"
    using s2(2) by (auto simp: fun_eq_iff reads_back_def seed seedState_def task_at_def seedRoot_def)
  moreover have "plan_inv s2" using loadState_accepts[OF s2(1)] by (simp add: plan_inv_iff)
  moreover have "RootID s2 = ''root''" "PlanProject s2 = TrimSpace name" using s2(2) by (simp_all add: reads_back_def seed seedState_def)
  ultimately show ?thesis using s2(1) by (simp add: f)
qed

end
