(* ===== verification/CliQuiet.thy ===== *)
theory CliQuiet
  imports CliRuns
begin

text \<open>
  What the verbs do when nobody else writes: in a calm environment the other processes leave the
  database alone and reads succeed, so every query of a verb sees one plan and every write changes
  that plan by the store's operation. \<^verbatim>\<open>holding\<close> says which plan the shell's database holds; the
  rules of this theory carry it through the calls, and the two verbs with the most steps,
  \<^verbatim>\<open>task cancel\<close> and \<^verbatim>\<open>task insert\<close>, are proved to do what they print.
\<close>

section \<open>A calm environment\<close>

definition calm :: "'usd cli_env \<Rightarrow> bool" where
  "calm e \<longleftrightarrow> (\<forall>n db. e_others e n db = db) \<and> (\<forall>n. io_read (e_io e n))"

definition holding :: "plan_state \<Rightarrow> 'usd shell \<Rightarrow> bool" where
  "holding s w \<longleftrightarrow> loadState (sh_db w) = Inr s \<and> \<not> closed (sh_store w) \<and> RootID (data (sh_store w)) = RootID s \<and>
     PlanProject (data (sh_store w)) = PlanProject s"

lemma holding_inv: "holding s w \<Longrightarrow> plan_inv s"
  using loadState_accepts by (auto simp: holding_def plan_inv_iff)

lemma andC_Inr: "andC m k w = (Inr y, w') \<longleftrightarrow> (\<exists>x w1. m w = (Inr x, w1) \<and> k x w1 = (Inr y, w'))"
  by (auto simp: andC_def split: prod.splits sum.splits)

lemma plain_Inr [simp]:
  "ret x w = (Inr y, w') \<longleftrightarrow> y = x \<and> w' = w" "failC er w = (Inr y, w') \<longleftrightarrow> False"
  "liftC r w = (Inr y, w') \<longleftrightarrow> r = Inr y \<and> w' = w"
  "say line w = (Inr u, w') \<longleftrightarrow> w' = w\<lparr>sh_out := sh_out w @ [Line line]\<rparr>"
  "printJSON doc w = (Inr u, w') \<longleftrightarrow> w' = w\<lparr>sh_out := sh_out w @ [Json doc]\<rparr>"
  "needWords n p msg w = (Inr u, w') \<longleftrightarrow> n \<le> length (pos p) \<and> w' = w"
  "rescueC m f w = (Inr y, w') \<longleftrightarrow> m w = (Inr y, w')"
  by (auto simp: ret_def failC_def liftC_def say_def printJSON_def needWords_def rescueC_def split: prod.splits sum.splits)

lemma holding_out: "holding s (w\<lparr>sh_out := out\<rparr>) = holding s w"
  by (simp add: holding_def)

text \<open>A query answers from the plan held and changes neither the plan nor the output.\<close>

lemma calm_query:
  assumes "calm e" and "holding s w" and "queryC e q w = (Inr x, w')"
  shows "q s = Some x \<and> holding s w' \<and> sh_out w' = sh_out w \<and> sh_db w' = sh_db w \<and> RootID (data (sh_store w')) = RootID s"
  using assms
  by (auto simp: queryC_def callC_def readPlan_def refresh_def calm_def holding_def Let_def split: option.splits prod.splits)

lemma calm_ask:
  assumes "calm e" and "holding s w" and "askC e q w = (Inr x, w')"
  shows "q s = Inr x \<and> holding s w' \<and> sh_out w' = sh_out w \<and> sh_db w' = sh_db w"
  using assms
  by (cases "q s") (auto simp: askC_def callC_def readOpen_def readPlan_def refresh_def errIfClosed_def calm_def holding_def Let_def)

lemma calm_root: "holding s w \<Longrightarrow> rootID w = (Inr x, w') \<longleftrightarrow> x = RootID s \<and> w' = w"
  by (auto simp: rootID_def holding_def)

text \<open>A write that is not refused is the operation on the plan held, at the time of the call.\<close>

lemma calm_change:
  assumes "calm e" and h: "holding s w" and c: "changeC e op w = (Inr r, w')"
    and ok: "\<And>s' x now. op now s = Inr (s', x) \<Longrightarrow> plan_inv s' \<and> RootID s' = RootID s \<and> PlanProject s' = PlanProject s"
  obtains (same) "op (e_now e (sh_tick w)) s = Inl ErrNoChange" "holding s w'" "sh_out w' = sh_out w" "sh_db w' = sh_db w" "r = (None, s)"
    | (changed) s' x s2 where "op (e_now e (sh_tick w)) s = Inr (s', x)" "r = (Some x, s')" "holding s2 w'" "reads_back s' s2" "sh_out w' = sh_out w"
proof -
  let ?n = "sh_tick w" let ?now = "e_now e ?n"
  from c \<open>calm e\<close> obtain st' db' where t: "transact loadState saveState (e_io e ?n) (\<lambda>s. map_sum (\<lambda>x. x) fst (op ?now s)) (sh_store w) (sh_db w)
      = (None, st', db')" and r: "r = (captured (op ?now) (sh_db w), data st')"
    and w': "w' = w\<lparr>sh_store := st', sh_db := db', sh_tick := Suc ?n\<rparr>"
    by (auto simp: changeC_def callC_def calm_def Let_def split: prod.splits option.splits)
  have l: "loadState (sh_db w) = Inr s" using h by (simp add: holding_def)
  have cl: "\<not> closed st'" using t h by (auto simp: holding_def transact_def Let_def split: option.splits sum.splits if_splits)
  show thesis
  proof (rule transact_commit[OF t])
    fix fresh assume f: "loadState (sh_db w) = Inr fresh" "map_sum (\<lambda>x. x) fst (op ?now fresh) = Inl ErrNoChange" "db' = sh_db w" "data st' = fresh"
    then have o: "op ?now s = Inl ErrNoChange" using l by (cases "op ?now s") auto
    then have "captured (op ?now) (sh_db w) = None" by (simp add: captured_def l andThen_def)
    with o f l r w' cl show thesis by (intro same) (auto simp: holding_def)
  next
    fix fresh nxt assume f: "loadState (sh_db w) = Inr fresh" "map_sum (\<lambda>x. x) fst (op ?now fresh) = Inr nxt"
      "saveState nxt (sh_db w) = Inr db'" "data st' = nxt"
    then obtain x where o: "op ?now s = Inr (nxt, x)" using l by (cases "op ?now s") auto
    from ok[OF this] have k: "plan_inv nxt" "RootID nxt = RootID s" "PlanProject nxt = PlanProject s" by simp_all
    from plan_db.save_load[OF k(1) f(3)] obtain s2 where s2: "loadState db' = Inr s2" "reads_back nxt s2" by auto
    have "captured (op ?now) (sh_db w) = Some x" by (simp add: captured_def l andThen_def o)
    with o f s2 k r w' cl show thesis by (intro changed[of nxt x s2]) (auto simp: holding_def reads_back_def)
  qed
qed

lemma calm_write:
  assumes "calm e" and h: "holding s w" and c: "writeC e op i w = (Inr t, w')"
    and ok: "\<And>s' now. op now s = Inr s' \<Longrightarrow> plan_inv s' \<and> RootID s' = RootID s \<and> PlanProject s' = PlanProject s"
  obtains (same) "op (e_now e (sh_tick w)) s = Inl ErrNoChange" "holding s w'" "sh_out w' = sh_out w" "sh_db w' = sh_db w" "task_at s i = Some t"
    | (changed) s' s2 where "op (e_now e (sh_tick w)) s = Inr s'" "task_at s' i = Some t" "holding s2 w'" "reads_back s' s2" "sh_out w' = sh_out w"
proof -
  from c obtain r s1 w1 where ch: "changeC e (\<lambda>now s. map_sum (\<lambda>x. x) (\<lambda>s'. (s', ())) (op now s)) w = (Inr (r, s1), w1)"
    and t: "task_at s1 i = Some t" "w' = w1"
    by (auto simp: writeC_def andC_Inr split: option.splits)
  show thesis
  proof (rule calm_change[OF \<open>calm e\<close> h ch])
    fix s' x now assume "map_sum (\<lambda>x. x) (\<lambda>s'. (s', ())) (op now s) = Inr (s', x)"
    then show "plan_inv s' \<and> RootID s' = RootID s \<and> PlanProject s' = PlanProject s" using ok by (cases "op now s") auto
  next
    assume "map_sum (\<lambda>x. x) (\<lambda>s'. (s', ())) (op (e_now e (sh_tick w)) s) = Inl ErrNoChange" "holding s w1" "sh_out w1 = sh_out w"
      "sh_db w1 = sh_db w" "(r, s1) = (None, s)"
    with t show thesis by (intro same) (cases "op (e_now e (sh_tick w)) s"; auto)+
  next
    fix s' x s2 assume "map_sum (\<lambda>x. x) (\<lambda>s'. (s', ())) (op (e_now e (sh_tick w)) s) = Inr (s', x)" "(r, s1) = (Some x, s')"
      "holding s2 w1" "reads_back s' s2" "sh_out w1 = sh_out w"
    with t show thesis by (intro changed[of s' s2]) (cases "op (e_now e (sh_tick w)) s"; auto)+
  qed
qed

lemma calm_resolve:
  assumes "calm e" and "holding s w" and "cliResolve e word w = (Inr t, w')"
  shows "Resolve word s = Inr t \<and> holding s w' \<and> sh_out w' = sh_out w \<and> sh_db w' = sh_db w"
  using assms calm_ask[of e s w "Resolve word" t w'] by (simp add: cliResolve_def storeResolve_def)

lemma Resolve_self: "plan_inv s \<Longrightarrow> Resolve word s = Inr t \<Longrightarrow> task_at s (ID t) = Some t"
proof -
  assume inv: "plan_inv s" and "Resolve word s = Inr t"
  then obtain i where "task_at s i = Some t" unfolding Resolve_exact[OF inv] by blast
  with plan_inv_ID[OF inv this] show ?thesis by simp
qed

section \<open>Cancelling, from the word to the printed count\<close>

definition newly_cancelled :: "plan_state \<Rightarrow> plan_state \<Rightarrow> string set" where
  "newly_cancelled s s' = {j. (\<exists>t. task_at s j = Some t \<and> \<not> terminal (Status t)) \<and>
     (\<exists>t. task_at s' j = Some t \<and> Status t = StatusCancelled)}"

lemma newly_cancelled_doomed:
  assumes inv: "plan_inv s" and c: "Cancel i reason now s = Inr s'"
  shows "newly_cancelled s s' = {j. doomed s i j}"
proof -
  from c obtain u where u: "\<exists>u. task_at s i = Some u \<and> \<not> terminal (Status u)" by (rule Cancel_cases) blast
  show ?thesis
  proof (intro set_eqI iffI)
    fix j assume "j \<in> newly_cancelled s s'"
    then show "j \<in> {j. doomed s i j}" using Cancel_exact[OF inv c] by (auto simp: newly_cancelled_def)
  next
    fix j assume d: "j \<in> {j. doomed s i j}"
    with doomed_open[OF u] obtain t where "task_at s j = Some t" "\<not> terminal (Status t)" by auto
    with Cancel_exact[OF inv c this] d show "j \<in> newly_cancelled s s'" by (simp add: newly_cancelled_def)
  qed
qed

lemma Cancel_preview:
  assumes inv: "plan_inv s" and c: "Cancel i reason now s = Inr s'" and ts: "TasksOf [] s = Some ts"
    and p: "previewIn (subtreeIn ts i False) ts i = (desc, deps)"
  shows "newly_cancelled s s' = set (i # map ID desc @ map ID deps) \<and> distinct (i # map ID desc @ map ID deps)"
proof -
  from c obtain t where t: "task_at s i = Some t" "\<not> terminal (Status t)" by (rule Cancel_cases)
  from snapshot_TasksOf[OF inv] ts have sn: "snapshot s ts" by (metis option.inject)
  note pr = preview_exact[OF plan_inv_tree[OF inv] sn t p]
  show ?thesis unfolding newly_cancelled_doomed[OF inv c] using pr by simp
qed

lemma reads_back_status: "reads_back s s' \<Longrightarrow>
    (\<exists>t. task_at s' j = Some t \<and> P (Status t)) \<longleftrightarrow> (\<exists>t. task_at s j = Some t \<and> P (Status t))"
  by (cases "task_at s j") (auto simp: reads_back_def)

lemma calm_preview:
  assumes "calm e" and h: "holding s w" and "cliCancelPreview e t w = (Inr (desc, deps), w')"
  obtains ts where "TasksOf [] s = Some ts" "previewIn (subtreeIn ts (ID t) False) ts (ID t) = (desc, deps)" "ID t \<noteq> RootID s"
    "holding s w'" "sh_out w' = sh_out w" "sh_db w' = sh_db w"
proof -
  from assms(3) h obtain d1 w1 ts w2 where r: "ID t \<noteq> RootID s" "cliSubtree e (ID t) False w = (Inr d1, w1)"
    "storeTasks e [] w1 = (Inr ts, w2)" "previewIn d1 ts (ID t) = (desc, deps)" "w' = w2"
    by (auto simp: cliCancelPreview_def andC_Inr calm_root split: if_splits)
  from r(2) obtain ts1 where q1: "storeTasks e [] w = (Inr ts1, w1)" "d1 = subtreeIn ts1 (ID t) False"
    by (auto simp: cliSubtree_def andC_Inr)
  note c1 = calm_query[OF assms(1) h q1(1)[unfolded storeTasks_def]]
  note c2 = calm_query[OF assms(1) c1[THEN conjunct2, THEN conjunct1] r(3)[unfolded storeTasks_def]]
  show thesis by (rule that[of ts]) (use c1 c2 q1 r in auto)
qed

theorem cliCancel_exact:
  assumes e: "calm e" and h: "holding s w" and c: "cliCancel e p w = (Inr u, w')" and j: "\<not> bools p ''json''"
  obtains t s2 where "Resolve (nth_pos p 1) s = Inr t" "holding s2 w'"
    "newly_cancelled s s2 = {j. doomed s (ID t) j}"
    "sh_out w' = sh_out w @ [Line (''cancelled rows='' @ num (card (newly_cancelled s s2)))]"
proof -
  from c j obtain t w1 desc deps w2 v w3 where
    r: "cliResolve e (nth_pos p 1) w = (Inr t, w1)" "cliCancelPreview e t w1 = (Inr (desc, deps), w2)"
      "writeC e (Cancel (ID t) (''cancelled by '' @ cliAgent e p)) (ID t) w2 = (Inr v, w3)"
    and w': "w' = w3\<lparr>sh_out := sh_out w3 @ [Line (''cancelled rows='' @ num (1 + length desc + length deps))]\<rparr>"
    by (auto simp: cliCancel_def storeCancel_def andC_Inr)
  note c1 = calm_resolve[OF e h r(1)]
  from calm_preview[OF e _ r(2)] c1 obtain ts where ts: "TasksOf [] s = Some ts"
    "previewIn (subtreeIn ts (ID t) False) ts (ID t) = (desc, deps)" "holding s w2" "sh_out w2 = sh_out w" by metis
  note inv = holding_inv[OF h]
  have keep: "plan_inv s' \<and> RootID s' = RootID s \<and> PlanProject s' = PlanProject s"
    if "Cancel (ID t) reason now s = Inr s'" for reason now s'
    using cancel.op_inv[of s "(ID t, reason)"] cancel.op_run[of "(ID t, reason)"] that inv by simp
  show thesis
  proof (rule calm_write[OF e ts(3) r(3) keep])
    assume "Cancel (ID t) (''cancelled by '' @ cliAgent e p) (e_now e (sh_tick w2)) s = Inl ErrNoChange"
    then show thesis by (auto simp: Cancel_def changeTask_def orFail_def refuse_def split: option.splits if_splits)
  next
    fix s' s2 assume f: "Cancel (ID t) (''cancelled by '' @ cliAgent e p) (e_now e (sh_tick w2)) s = Inr s'"
      "holding s2 w3" "reads_back s' s2" "sh_out w3 = sh_out w2"
    note pv = Cancel_preview[OF inv f(1) ts(1,2)]
    have n: "newly_cancelled s s2 = newly_cancelled s s'"
      unfolding newly_cancelled_def reads_back_status[OF f(3), of _ "\<lambda>st. st = StatusCancelled"] ..
    note newly_cancelled_doomed[OF inv f(1)]
    moreover have "card (newly_cancelled s s2) = 1 + length desc + length deps"
      unfolding n pv[THEN conjunct1] using distinct_card[OF pv[THEN conjunct2]] by simp
    ultimately show thesis using c1 f ts n w' by (intro that[of t s2]) (simp_all add: holding_out)
  qed
qed

text \<open>And it does return, when the store admits the cancellation and can save it.\<close>

lemma calm_query_runs:
  "calm e \<Longrightarrow> holding s w \<Longrightarrow> q s = Some x \<Longrightarrow> \<exists>w'. queryC e q w = (Inr x, w')"
  by (auto simp: queryC_def callC_def readPlan_def refresh_def calm_def holding_def Let_def)

lemma calm_ask_runs:
  "calm e \<Longrightarrow> holding s w \<Longrightarrow> q s = Inr x \<Longrightarrow> \<exists>w'. askC e q w = (Inr x, w')"
  by (auto simp: askC_def callC_def readOpen_def readPlan_def refresh_def errIfClosed_def calm_def holding_def Let_def)

lemma calm_change_to:
  assumes "calm e" and h: "holding s w" and io: "io_lock (e_io e (sh_tick w))" "io_commit (e_io e (sh_tick w))"
    and o: "op (e_now e (sh_tick w)) s = Inr (s1, x)" and sv: "saveState s1 (sh_db w) = Inr db1" "loadState db1 = Inr s2" "plan_inv s1"
  shows "\<exists>w'. changeC e op w = (Inr (Some x, s1), w') \<and> holding s2 w' \<and> sh_db w' = db1"
proof -
  have "transact loadState saveState (e_io e (sh_tick w)) (\<lambda>s. map_sum (\<lambda>x. x) fst (op (e_now e (sh_tick w)) s))
      (sh_store w) (sh_db w) = (None, (sh_store w)\<lparr>data := s1\<rparr>, db1)"
    using h io o sv by (simp add: transact_def beginWrite_def errIfClosed_def holding_def Let_def)
  moreover have "captured (op (e_now e (sh_tick w))) (sh_db w) = Some x"
    using h o by (simp add: captured_def holding_def andThen_def)
  moreover have "RootID s2 = RootID s1 \<and> PlanProject s2 = PlanProject s1"
    using plan_db.save_load[OF sv(3,1)] sv(2) by (auto simp: reads_back_def)
  ultimately show ?thesis using h sv(2) \<open>calm e\<close>
    by (auto simp: changeC_def callC_def calm_def Let_def holding_def)
qed

lemma calm_write_to:
  assumes "calm e" and "holding s w" and "io_lock (e_io e (sh_tick w))" "io_commit (e_io e (sh_tick w))"
    and o: "op (e_now e (sh_tick w)) s = Inr s1" "task_at s1 i \<noteq> None"
    and "saveState s1 (sh_db w) = Inr db1" "loadState db1 = Inr s2" "plan_inv s1"
  shows "\<exists>t w'. writeC e op i w = (Inr t, w') \<and> holding s2 w' \<and> sh_db w' = db1"
proof -
  let ?op = "\<lambda>now s. map_sum (\<lambda>x. x) (\<lambda>s'. (s', ())) (op now s)"
  have "?op (e_now e (sh_tick w)) s = Inr (s1, ())" using o(1) by simp
  from calm_change_to[where op = ?op, OF assms(1-4) this assms(7-9)] o(2) show ?thesis
    by (auto simp: writeC_def andC_def liftC_def)
qed

lemma calm_write_runs:
  assumes "calm e" and h: "holding s w" and io: "io_lock (e_io e (sh_tick w))" "io_commit (e_io e (sh_tick w))"
    and o: "op (e_now e (sh_tick w)) s = Inr s'" "task_at s' i = Some t" and sv: "saveState s' (sh_db w) = Inr db'"
  shows "\<exists>w'. writeC e op i w = (Inr t, w')"
proof -
  have "transact loadState saveState (e_io e (sh_tick w)) (\<lambda>s. map_sum (\<lambda>x. x) fst (map_sum (\<lambda>x. x) (\<lambda>s'. (s', ())) (op (e_now e (sh_tick w)) s)))
      (sh_store w) (sh_db w) = (None, (sh_store w)\<lparr>data := s'\<rparr>, db')"
    using h io o sv by (simp add: transact_def beginWrite_def errIfClosed_def holding_def Let_def)
  then show ?thesis using o(2) \<open>calm e\<close>
    by (simp add: writeC_def andC_def changeC_def callC_def calm_def Let_def liftC_def)
qed

lemma cliCancel_runs:
  assumes e: "calm e" "\<And>n. io_lock (e_io e n) \<and> io_commit (e_io e n)" and h: "holding s w" and p: "2 \<le> length (pos p)"
    and r: "Resolve (nth_pos p 1) s = Inr t"
    and c: "\<And>n. \<exists>s' db'. Cancel (ID t) (''cancelled by '' @ cliAgent e p) (e_now e n) s = Inr s' \<and> saveState s' (sh_db w) = Inr db'"
  shows "\<exists>w'. cliCancel e p w = (Inr (), w')"
proof -
  note inv = holding_inv[OF h]
  obtain w1 where w1: "cliResolve e (nth_pos p 1) w = (Inr t, w1)"
    using calm_ask_runs[where q = "Resolve (nth_pos p 1)", OF e(1) h r] by (auto simp: cliResolve_def storeResolve_def rescueC_def)
  note c1 = calm_resolve[OF e(1) h w1]
  from snapshot_TasksOf[OF inv] obtain ts where ts: "TasksOf [] s = Some ts" by metis
  obtain w2 where w2: "storeTasks e [] w1 = (Inr ts, w2)" using calm_query_runs[of e s w1 "TasksOf []"] e(1) c1 ts by (auto simp: storeTasks_def)
  note c2 = calm_query[OF e(1) _ w2[unfolded storeTasks_def], of s]
  obtain w3 where w3: "storeTasks e [] w2 = (Inr ts, w3)" using calm_query_runs[of e s w2 "TasksOf []"] e(1) c1 c2 ts by (auto simp: storeTasks_def)
  note c3 = calm_query[OF e(1) _ w3[unfolded storeTasks_def], of s]
  have h3: "holding s w3" "sh_db w3 = sh_db w" using c1 c2 c3 by simp_all
  from c[of "sh_tick w3"] obtain s' db' where cs: "Cancel (ID t) (''cancelled by '' @ cliAgent e p) (e_now e (sh_tick w3)) s = Inr s'"
    "saveState s' (sh_db w3) = Inr db'" using h3(2) by auto
  then have nr: "ID t \<noteq> RootID s" by (auto elim: Cancel_cases)
  have "\<exists>u. task_at s' (ID t) = Some u"
    using Cancel_subtree[OF plan_inv_ids[OF inv] cs(1), of "ID t"] by auto
  then obtain u where u: "task_at s' (ID t) = Some u" by blast
  obtain w4 where w4: "writeC e (Cancel (ID t) (''cancelled by '' @ cliAgent e p)) (ID t) w3 = (Inr u, w4)"
    using calm_write_runs[where op = "Cancel (ID t) (''cancelled by '' @ cliAgent e p)", OF e(1) h3(1) _ _ cs(1) u cs(2)] e(2) by blast
  obtain desc deps where pv: "previewIn (subtreeIn ts (ID t) False) ts (ID t) = (desc, deps)" by fastforce
  have root: "rootID w1 = (Inr (RootID s), w1)" using c1 calm_root[of s w1] by simp
  have "cliCancelPreview e t w1 = (Inr (desc, deps), w3)"
    using nr w2 w3 pv root by (simp add: cliCancelPreview_def cliSubtree_def andC_def ret_def)
  then show ?thesis using p w1 w4
    by (simp add: cliCancel_def storeCancel_def andC_def needWords_def ret_def printJSON_def say_def)
qed

section \<open>Inserting between two tasks\<close>

definition depsAt :: "plan_state \<Rightarrow> string \<Rightarrow> dependency list option" where
  "depsAt s i = map_option Dependencies (task_at s i)"

definition parentAt :: "plan_state \<Rightarrow> string \<Rightarrow> string option" where
  "parentAt s i = map_option ParentID (task_at s i)"

lemma shape_view: "same_shape s s' \<Longrightarrow> depsAt s' = depsAt s \<and> parentAt s' = parentAt s"
proof -
  assume "same_shape s s'"
  then have k: "\<forall>i t'. task_at s' i = Some t' \<longrightarrow> (\<exists>t. task_at s i = Some t \<and> keeps t t')" and ids: "task_ids s' = task_ids s"
    by (simp_all add: same_shape_def)
  have n: "task_at s' i = None \<longleftrightarrow> task_at s i = None" for i
    using ids by (metis task_ids_iff option.distinct(1) not_None_eq)
  have "depsAt s' i = depsAt s i \<and> parentAt s' i = parentAt s i" for i
    using k[rule_format, of i] n[of i] by (cases "task_at s' i") (auto simp: depsAt_def parentAt_def keeps_def)
  then show ?thesis by (simp add: fun_eq_iff)
qed

lemma reads_back_view: "reads_back s s' \<Longrightarrow> depsAt s' = depsAt s \<and> parentAt s' = parentAt s"
  by (auto simp: fun_eq_iff depsAt_def parentAt_def reads_back_def option.map_comp comp_def)

lemma AddDep_view:
  assumes "AddDep i u kind now s = Inr s'"
  obtains ds where "depsAt s i = Some ds" "depsAt s' = (depsAt s)(i \<mapsto> ds @ [\<lparr>dep_TaskID = u, dep_Kind = (if kind = '''' then DepFeedsInto else kind)\<rparr>])"
    "parentAt s' = parentAt s"
  using assms
proof (rule AddDep_cases)
  fix t k assume t: "task_at s i = Some t" "k = (if kind = '''' then DepFeedsInto else kind)"
    and s': "s' = promote now (upd i (\<lambda>t. t\<lparr>UpdatedAt := now\<rparr>)
       (put_task i (t\<lparr>Dependencies := Dependencies t @ [\<lparr>dep_TaskID = u, dep_Kind = k\<rparr>]\<rparr>) s))"
  have "same_shape (put_task i (t\<lparr>Dependencies := Dependencies t @ [\<lparr>dep_TaskID = u, dep_Kind = k\<rparr>]\<rparr>) s) s'"
    unfolding s' by (rule stamp_promote_shape)
  from shape_view[OF this] t show thesis
    by (intro that[of "Dependencies t"]) (auto simp: depsAt_def parentAt_def fun_eq_iff task_at_put)
qed

lemma RemoveDep_view:
  assumes "RemoveDep i u now s = Inr s'"
  obtains ds where "depsAt s i = Some ds" "depsAt s' = (depsAt s)(i \<mapsto> filter (\<lambda>d. dep_TaskID d \<noteq> u) ds)" "parentAt s' = parentAt s"
  using assms
proof (rule RemoveDep_cases)
  fix t assume t: "task_at s i = Some t"
    and sh: "same_shape (put_task i (t\<lparr>Dependencies := filter (\<lambda>d. \<not> dep_TaskID d = u) (Dependencies t)\<rparr>) s) s'"
  from shape_view[OF sh] t show thesis
    by (intro that[of "Dependencies t"]) (auto simp: depsAt_def parentAt_def fun_eq_iff task_at_put)
qed

lemma AddMany_view:
  assumes c: "AddMany [spec] now s = Inr s'" and n: "n = normalizeSpec spec (RootID s)"
  shows "depsAt s (ID n) = None" "depsAt s' = (depsAt s)(ID n \<mapsto> Dependencies n)" "parentAt s' = (parentAt s)(ID n \<mapsto> ParentID n)"
  using c
proof -
  from c obtain specs' where sp: "specs' = [n]" "admissible s specs'" "same_shape (admitted now specs' s) s'"
    using n by (auto elim!: AddMany_shape)
  note v = shape_view[OF sp(3)]
  have i: "task_at s (ID n) = None" using sp by (simp add: admissible_def)
  then show "depsAt s (ID n) = None" by (simp add: depsAt_def)
  have at: "task_at (admitted now [n] s) j = (if j = ID n then Some (marked now [n] (ID n) (newTask n now)) else map_option (marked now [n] j) (task_at s j))" for j
    using admitted_at[OF sp(2)] sp(1) by auto
  show "depsAt s' = (depsAt s)(ID n \<mapsto> Dependencies n)" "parentAt s' = (parentAt s)(ID n \<mapsto> ParentID n)"
    using v by (auto simp: fun_eq_iff depsAt_def parentAt_def sp(1) at option.map_comp comp_def)
qed

lemma feeds_addDep:
  assumes "plan_inv s" and "validID (RootID s)" and "AddDep i u DepFeedsInto now s = Inr s'"
  shows "plan_inv s' \<and> RootID s' = RootID s \<and> PlanProject s' = PlanProject s"
proof -
  have "lawful_change (AddDep i u DepFeedsInto now)" by (rule lawful_addDep) blast
  with assms show ?thesis unfolding lawful_change_def same_run_def by blast
qed

lemma AddDep_no_noop: "AddDep i u kind now s \<noteq> Inl ErrNoChange"
  by (simp add: AddDep_def Let_def changeTask_def orFail_def refuse_def split: option.split)

lemma calm_addDep:
  assumes "calm e" and h: "holding s w" and r: "validID (RootID s)" and c: "storeAddDep e i u DepFeedsInto w = (Inr t, w')"
  obtains ds s' where "holding s' w'" "sh_out w' = sh_out w" "RootID s' = RootID s" "depsAt s i = Some ds"
    "depsAt s' = (depsAt s)(i \<mapsto> ds @ [\<lparr>dep_TaskID = u, dep_Kind = DepFeedsInto\<rparr>])" "parentAt s' = parentAt s"
proof (rule calm_write[OF \<open>calm e\<close> h c[unfolded storeAddDep_def]])
  fix s' now assume "AddDep i u DepFeedsInto now s = Inr s'"
  then show "plan_inv s' \<and> RootID s' = RootID s \<and> PlanProject s' = PlanProject s" by (rule feeds_addDep[OF holding_inv[OF h] r])
next
  assume "AddDep i u DepFeedsInto (e_now e (sh_tick w)) s = Inl ErrNoChange"
  then show thesis using AddDep_no_noop by blast
next
  fix s1 s2 assume a: "AddDep i u DepFeedsInto (e_now e (sh_tick w)) s = Inr s1" "holding s2 w'" "reads_back s1 s2" "sh_out w' = sh_out w"
  from a(1) show thesis
  proof (rule AddDep_view)
    fix ds assume "depsAt s i = Some ds" "depsAt s1 = (depsAt s)(i \<mapsto> ds @ [\<lparr>dep_TaskID = u, dep_Kind = (if DepFeedsInto = '''' then DepFeedsInto else DepFeedsInto)\<rparr>])"
      "parentAt s1 = parentAt s"
    moreover have "RootID s1 = RootID s" using feeds_addDep[OF holding_inv[OF h] r a(1)] by blast
    ultimately show thesis using a reads_back_view[OF a(3)] by (intro that[of s2 ds]) (auto simp: reads_back_def)
  qed
qed

lemma calm_removeDep:
  assumes "calm e" and h: "holding s w" and c: "storeRemoveDep e i u w = (Inr t, w')"
  obtains ds s' where "holding s' w'" "sh_out w' = sh_out w" "depsAt s i = Some ds"
    "depsAt s' = (depsAt s)(i \<mapsto> filter (\<lambda>d. dep_TaskID d \<noteq> u) ds)" "parentAt s' = parentAt s"
proof (rule calm_write[OF \<open>calm e\<close> h c[unfolded storeRemoveDep_def]])
  fix s' now assume r: "RemoveDep i u now s = Inr s'"
  show "plan_inv s' \<and> RootID s' = RootID s \<and> PlanProject s' = PlanProject s"
    using RemoveDep_inv[OF holding_inv[OF h] r] RemoveDep_run[OF r] by simp
next
  assume "RemoveDep i u (e_now e (sh_tick w)) s = Inl ErrNoChange"
  then show thesis by (auto simp: RemoveDep_def Let_def changeTask_def orFail_def split: option.splits)
next
  fix s1 s2 assume a: "RemoveDep i u (e_now e (sh_tick w)) s = Inr s1" "holding s2 w'" "reads_back s1 s2" "sh_out w' = sh_out w"
  from a(1) show thesis
  proof (rule RemoveDep_view)
    fix ds assume "depsAt s i = Some ds" "depsAt s1 = (depsAt s)(i \<mapsto> filter (\<lambda>d. dep_TaskID d \<noteq> u) ds)" "parentAt s1 = parentAt s"
    then show thesis using a reads_back_view[OF a(3)] by (intro that[of s2 ds]) auto
  qed
qed

lemma AddMany_no_noop: "AddMany specs now s \<noteq> Inl ErrNoChange"
proof -
  have "foldE (inheritTags born) sps s \<noteq> Inl ErrNoChange" for born sps s
    by (induction sps arbitrary: s) (auto simp: inheritTags_def split: option.splits)
  then show ?thesis
    by (auto simp: AddMany_def Let_def orFail_def refuse_def split: option.splits if_splits sum.splits)
qed

lemma calm_addOne:
  assumes "calm e" and h: "holding s w" and c: "storeAddMany e [spec] w = (Inr made, w')" and n: "n = normalizeSpec spec (RootID s)"
  obtains s' where "holding s' w'" "sh_out w' = sh_out w" "RootID s' = RootID s" "ID (hd made) = ID n" "task_at s (ID n) = None"
    "depsAt s' = (depsAt s)(ID n \<mapsto> Dependencies n)" "parentAt s' = (parentAt s)(ID n \<mapsto> ParentID n)"
proof -
  from c obtain r s1 where ch: "changeC e (\<lambda>now s. map_sum (\<lambda>x. x) (\<lambda>s'. (s', ())) (AddMany [spec] now s)) w = (Inr (r, s1), w')"
    and m: "those (created [spec] s1) = Some made"
    by (auto simp: storeAddMany_def andC_Inr split: option.splits)
  show thesis
  proof (rule calm_change[OF \<open>calm e\<close> h ch])
    fix s' x now assume "map_sum (\<lambda>x. x) (\<lambda>s'. (s', ())) (AddMany [spec] now s) = Inr (s', x)"
    then have "AddMany [spec] now s = Inr s'" by (cases "AddMany [spec] now s") auto
    then show "plan_inv s' \<and> RootID s' = RootID s \<and> PlanProject s' = PlanProject s"
      using AddMany_inv[OF holding_inv[OF h]] AddMany_run by blast
  next
    assume "map_sum (\<lambda>x. x) (\<lambda>s'. (s', ())) (AddMany [spec] (e_now e (sh_tick w)) s) = Inl ErrNoChange"
    then have "AddMany [spec] (e_now e (sh_tick w)) s = Inl ErrNoChange" by (cases "AddMany [spec] (e_now e (sh_tick w)) s") auto
    then show thesis using AddMany_no_noop by blast
  next
    fix s' x s2 assume a: "map_sum (\<lambda>x. x) (\<lambda>s'. (s', ())) (AddMany [spec] (e_now e (sh_tick w)) s) = Inr (s', x)"
      "(r, s1) = (Some x, s')" "holding s2 w'" "reads_back s' s2" "sh_out w' = sh_out w"
    then have ok: "AddMany [spec] (e_now e (sh_tick w)) s = Inr s'" by (cases "AddMany [spec] (e_now e (sh_tick w)) s") auto
    note v = AddMany_view[OF ok n]
    have root: "RootID s' = RootID s" using AddMany_run[OF ok] by simp
    from m a(2) root n obtain t where "task_at s' (ID n) = Some t" "made = [t]" by (auto simp: created_def split: option.splits)
    moreover from this have "ID t = ID n" using plan_inv_ID[OF AddMany_inv[OF holding_inv[OF h] ok]] by blast
    ultimately show thesis
      using a root v reads_back_view[OF a(4)] by (intro that[of s2]) (auto simp: depsAt_def reads_back_def)
  qed
qed

theorem cliInsert_exact:
  assumes e: "calm e" and h: "holding s w" and root: "validID (RootID s)" and c: "cliInsert e p w = (Inr u, w')"
    and b: "vals p ''before'' \<noteq> ''''" and j: "\<not> bools p ''json''"
  obtains up bf N s' where "Resolve (vals p ''after'') s = Inr up" "Resolve (vals p ''before'') s = Inr bf" "holding s' w'"
    "task_at s N = None" "sh_out w' = sh_out w @ [Line (''inserted '' @ cliID N)]"
    "depsAt s' = (depsAt s)(N \<mapsto> [\<lparr>dep_TaskID = ID up, dep_Kind = DepFeedsInto\<rparr>],
       ID bf \<mapsto> filter (\<lambda>d. dep_TaskID d \<noteq> ID up) (Dependencies bf) @ [\<lparr>dep_TaskID = N, dep_Kind = DepFeedsInto\<rparr>])"
    "parentAt s' = (parentAt s)(N \<mapsto> orElse (bareID (ParentID up)) (RootID s))"
proof -
  from c b j obtain up w1 bf w2 fresh w3 made w4 t5 w5 t6 w6 t7 w7 where
    r: "cliResolve e (vals p ''after'') w = (Inr up, w1)" "cliResolve e (vals p ''before'') w1 = (Inr bf, w2)"
      "storeNextID e w2 = (Inr fresh, w3)"
      "storeAddMany e [emptySpec\<lparr>ID := fresh, Title := vals p ''title'', Description := vals p ''description'', ParentID := ParentID up\<rparr>] w3 = (Inr made, w4)"
      "storeAddDep e (ID (hd made)) (ID up) DepFeedsInto w4 = (Inr t5, w5)"
      "storeAddDep e (ID bf) (ID (hd made)) DepFeedsInto w5 = (Inr t6, w6)" "storeRemoveDep e (ID bf) (ID up) w6 = (Inr t7, w7)"
    and w': "w' = w7\<lparr>sh_out := sh_out w7 @ [Line (''inserted '' @ cliID (ID (hd made)))]\<rparr>"
    by (auto simp: cliInsert_def beforeArg_def wireBefore_def andC_Inr Let_def split: if_splits)
  let ?spec = "emptySpec\<lparr>ID := fresh, Title := vals p ''title'', Description := vals p ''description'', ParentID := ParentID up\<rparr>"
  let ?N = "ID (normalizeSpec ?spec (RootID s))"
  note c1 = calm_resolve[OF e h r(1)]
  then have h1: "holding s w1" by simp
  note c2 = calm_resolve[OF e h1 r(2)]
  then have h2: "holding s w2" by simp
  note c3 = calm_query[OF e h2 r(3)[unfolded storeNextID_def]]
  then have h3: "holding s w3" by simp
  obtain s4 where h4: "holding s4 w4" "sh_out w4 = sh_out w3" "RootID s4 = RootID s" "ID (hd made) = ?N" "task_at s ?N = None"
    "depsAt s4 = (depsAt s)(?N \<mapsto> [])" "parentAt s4 = (parentAt s)(?N \<mapsto> orElse (bareID (ParentID up)) (RootID s))"
    using calm_addOne[OF e h3 r(4) refl] by (auto simp: normalizeSpec_def emptySpec_def)
  obtain ds5 s5 where h5: "holding s5 w5" "sh_out w5 = sh_out w4" "RootID s5 = RootID s4" "depsAt s4 ?N = Some ds5"
    "depsAt s5 = (depsAt s4)(?N \<mapsto> ds5 @ [\<lparr>dep_TaskID = ID up, dep_Kind = DepFeedsInto\<rparr>])" "parentAt s5 = parentAt s4"
    using calm_addDep[OF e h4(1) _ r(5)[unfolded h4(4)]] h4(3) root by metis
  obtain ds6 s6 where h6: "holding s6 w6" "sh_out w6 = sh_out w5" "RootID s6 = RootID s5" "depsAt s5 (ID bf) = Some ds6"
    "depsAt s6 = (depsAt s5)(ID bf \<mapsto> ds6 @ [\<lparr>dep_TaskID = ?N, dep_Kind = DepFeedsInto\<rparr>])" "parentAt s6 = parentAt s5"
    using calm_addDep[OF e h5(1) _ r(6)[unfolded h4(4)]] h4(3) h5(3) root by metis
  obtain ds7 s7 where h7: "holding s7 w7" "sh_out w7 = sh_out w6" "depsAt s6 (ID bf) = Some ds7"
    "depsAt s7 = (depsAt s6)(ID bf \<mapsto> filter (\<lambda>d. dep_TaskID d \<noteq> ID up) ds7)" "parentAt s7 = parentAt s6"
    using calm_removeDep[OF e h6(1) r(7)] by metis
  have at: "task_at s (ID up) = Some up" "task_at s (ID bf) = Some bf"
    using Resolve_self[OF holding_inv[OF h]] c1 c2 by blast+
  then have ne: "ID up \<noteq> ?N" "ID bf \<noteq> ?N" using h4(5) by auto
  have "ds5 = []" using h4(6) h5(4) by simp
  moreover have "ds6 = Dependencies bf" using h6(4) h5(5) h4(6) ne at by (simp add: depsAt_def)
  moreover have "ds7 = ds6 @ [\<lparr>dep_TaskID = ?N, dep_Kind = DepFeedsInto\<rparr>]" using h7(3) h6(5) by simp
  ultimately have d: "depsAt s7 = (depsAt s)(?N \<mapsto> [\<lparr>dep_TaskID = ID up, dep_Kind = DepFeedsInto\<rparr>],
       ID bf \<mapsto> filter (\<lambda>d. dep_TaskID d \<noteq> ID up) (Dependencies bf) @ [\<lparr>dep_TaskID = ?N, dep_Kind = DepFeedsInto\<rparr>])"
    unfolding h7(4) h6(5) h5(5) h4(6) using ne by simp
  show thesis
  proof (rule that[of up bf s7 ?N])
    show "holding s7 w'" using h7(1) by (simp add: w' holding_out)
    show "sh_out w' = sh_out w @ [Line (''inserted '' @ cliID ?N)]" using h7 h6 h5 h4 c1 c2 c3 by (simp add: w')
    show "parentAt s7 = (parentAt s)(?N \<mapsto> orElse (bareID (ParentID up)) (RootID s))" using h7 h6 h5 h4 by simp
  qed (use c1 c2 h4 d in simp_all)
qed

section \<open>The same, from the words to the exit\<close>

lemma openShell_holding:
  assumes "calm e" and "openShell e path '''' '''' '''' '''' dbs = Inr w" and "loadState (dbs path) = Inr s"
  shows "holding s w" "sh_out w = []"
proof -
  from assms(1,2) obtain st where o: "Open (e_io e 0) (fst (e_open e path)) (snd (e_open e path)) '''' '''' '''' '''' [] (e_now e 0)
        (dbs path) (dbs path) = Inr (st, sh_db w)" and w: "sh_store w = st" "sh_out w = []"
    by (auto simp: openShell_def calm_def split: sum.splits prod.splits)
  from o have l: "loadOrCreate (e_io e 0) '''' '''' '''' '''' '''' (e_now e 0) (dbs path) (dbs path) = Inr (data st, sh_db w)" and c: "\<not> closed st"
    by (auto simp: Open_def Let_def andThen_iff split: path_kind.splits)
  from l have "data st = s \<and> sh_db w = dbs path" by (cases rule: loadOrCreate_cases) (use assms(3) in simp_all)
  with w c assms(3) show "holding s w" "sh_out w = []" by (simp_all add: holding_def)
qed

lemma cliStore_holding:
  assumes "calm e" and "cliStore e p dbs = Inr w" and "loadState (dbs (cliStorePath e p)) = Inr s"
  shows "holding s w" "sh_out w = []"
  using assms openShell_holding[of e "cliStorePath e p" dbs w s] by (auto simp: cliStore_def Let_def andThen_iff split: if_splits)

text \<open>A run of a \<^verbatim>\<open>task\<close> verb that exits with 0 ran the verb on the plan of its store.\<close>

lemma task_run:
  assumes e: "calm e" and scan: "cliScan argv = Inr p" "\<not> bools p ''version''" "\<not> bools p ''help''" "pos p = ''task'' # verb # rest"
    and l: "loadState (dbs (cliStorePath e p)) = Inr s" and ok: "f_exit (Main e argv dbs) = Some 0"
  obtains w w' where "holding s w" "sh_out w = []" "cliTask e p w = (Inr (), w')"
    "f_out (Main e argv dbs) = sh_out w'" "f_dbs (Main e argv dbs) = dbs(cliStorePath e p := sh_db w')"
proof -
  have nf: "f_exit (cliFail out d er) \<noteq> Some 0" for out d er by (simp add: cliFail_def exitCode_def)
  from scan ok have r: "cliRefusal p = None" by (auto simp: Main_def nf split: option.splits)
  with scan have m: "Main e argv dbs = (case cliStore e p dbs of Inl er \<Rightarrow> cliFail [] dbs er
      | Inr w \<Rightarrow> runOn (cliStorePath e p) dbs (cliDispatch e p) w)"
    by (simp add: Main_def nth_pos_def)
  with ok obtain w where w: "cliStore e p dbs = Inr w" by (cases "cliStore e p dbs") (auto simp: nf)
  have d: "cliDispatch e p = cliTask e p" using scan(4) by (simp add: cliDispatch_def nth_pos_def Let_def)
  obtain r w' where r: "cliTask e p w = (r, w')" by fastforce
  with ok m w d have "r = Inr ()" by (cases r) (auto simp: runOn_def nf)
  with r m w d cliStore_holding[OF e w l] show thesis by (intro that[of w w']) (simp_all add: runOn_def cliEnd_def)
qed

lemma task_run_exits:
  assumes e: "calm e" and scan: "cliScan argv = Inr p" "\<not> bools p ''version''" "\<not> bools p ''help''" "pos p = ''task'' # verb # rest"
    and v: "verb \<notin> set lifecycleTaskVerbs" and st: "vals p ''db'' = path" "path \<noteq> ''''" "e_stat e path \<noteq> None" "e_open e path = (Present, True)"
    and un: "vals p ''project'' = ''''" "e_getenv e ''PLANDB_RUN'' = ''''" and l: "loadState (dbs path) = Inr s"
    and run: "\<And>w. holding s w \<Longrightarrow> sh_db w = dbs path \<Longrightarrow> \<exists>w'. cliTask e p w = (Inr (), w')"
  shows "f_exit (Main e argv dbs) = Some 0"
proof -
  have path: "cliStorePath e p = path" using st by (simp add: cliStorePath_def)
  have "\<exists>w. openShell e path '''' '''' '''' '''' dbs = Inr w \<and> sh_db w = dbs path"
    using e l st by (simp add: openShell_def Open_def loadOrCreate_def adoptState_def calm_def orFail_def refuse_def Let_def)
  then obtain w where w: "openShell e path '''' '''' '''' '''' dbs = Inr w" "sh_db w = dbs path" by auto
  from run[OF openShell_holding(1)[OF e w(1) l] w(2)] obtain w' where w': "cliTask e p w = (Inr (), w')" by auto
  have "cliStore e p dbs = Inr w" using w st un by (simp add: cliStore_def path Let_def)
  moreover have "cliRefusal p = None" using scan(4) v by (simp add: cliRefusal_def lifecycleVerbs_def)
  moreover have "cliDispatch e p = cliTask e p" using scan(4) by (simp add: cliDispatch_def nth_pos_def Let_def)
  ultimately show ?thesis using scan w' by (simp add: Main_def nth_pos_def runOn_def cliEnd_def path)
qed

lemma task_verbs:
  "pos p = ''task'' # ''cancel'' # rest \<Longrightarrow> cliTask e p = cliCancel e (tailFrom 1 p)"
  "pos p = ''task'' # ''insert'' # rest \<Longrightarrow> cliTask e p = cliInsert e (tailFrom 1 p)"
  by (simp_all add: cliTask_def nth_pos_def Let_def)

lemma tail_simps [simp]: "vals (tailFrom n p) = vals p" "bools (tailFrom n p) = bools p" "lists (tailFrom n p) = lists p"
  "pos (tailFrom n p) = drop n (pos p)"
  by (simp_all add: tailFrom_def)

lemma run_cancel:
  assumes e: "calm e" and scan: "cliScan argv = Inr p" "\<not> bools p ''version''" "\<not> bools p ''help''" "\<not> bools p ''json''"
    "pos p = ''task'' # ''cancel'' # word # rest"
    and l: "loadState (dbs (cliStorePath e p)) = Inr s" and ok: "f_exit (Main e argv dbs) = Some 0"
  shows "\<exists>t s'. Resolve word s = Inr t \<and> loadState (f_dbs (Main e argv dbs) (cliStorePath e p)) = Inr s' \<and>
    newly_cancelled s s' = {j. doomed s (ID t) j} \<and>
    f_out (Main e argv dbs) = [Line (''cancelled rows='' @ num (card (newly_cancelled s s')))]"
proof (rule task_run[OF e scan(1-3,5) l ok])
  fix w w' assume w: "holding s w" "sh_out w = []" "cliTask e p w = (Inr (), w')" "f_out (Main e argv dbs) = sh_out w'"
    "f_dbs (Main e argv dbs) = dbs(cliStorePath e p := sh_db w')"
  have c: "cliCancel e (tailFrom 1 p) w = (Inr (), w')" using w(3) unfolding task_verbs(1)[OF scan(5)] .
  have n: "nth_pos (tailFrom 1 p) 1 = word" using scan(5) by (simp add: nth_pos_def)
  show ?thesis
    by (rule cliCancel_exact[OF e w(1) c]) (use scan w n in \<open>auto simp: holding_def\<close>)
qed

lemma run_insert:
  assumes e: "calm e" and scan: "cliScan argv = Inr p" "\<not> bools p ''version''" "\<not> bools p ''help''" "\<not> bools p ''json''"
    "pos p = ''task'' # ''insert'' # rest" "vals p ''before'' \<noteq> ''''"
    and l: "loadState (dbs (cliStorePath e p)) = Inr s" "validID (RootID s)" and ok: "f_exit (Main e argv dbs) = Some 0"
  shows "\<exists>up bf N s'. Resolve (vals p ''after'') s = Inr up \<and> Resolve (vals p ''before'') s = Inr bf \<and> task_at s N = None \<and>
    loadState (f_dbs (Main e argv dbs) (cliStorePath e p)) = Inr s' \<and> f_out (Main e argv dbs) = [Line (''inserted '' @ cliID N)] \<and>
    depsAt s' = (depsAt s)(N \<mapsto> [\<lparr>dep_TaskID = ID up, dep_Kind = DepFeedsInto\<rparr>],
       ID bf \<mapsto> filter (\<lambda>d. dep_TaskID d \<noteq> ID up) (Dependencies bf) @ [\<lparr>dep_TaskID = N, dep_Kind = DepFeedsInto\<rparr>]) \<and>
    parentAt s' = (parentAt s)(N \<mapsto> orElse (bareID (ParentID up)) (RootID s))"
proof (rule task_run[OF e scan(1-3,5) l(1) ok])
  fix w w' assume w: "holding s w" "sh_out w = []" "cliTask e p w = (Inr (), w')" "f_out (Main e argv dbs) = sh_out w'"
    "f_dbs (Main e argv dbs) = dbs(cliStorePath e p := sh_db w')"
  have c: "cliInsert e (tailFrom 1 p) w = (Inr (), w')" using w(3) unfolding task_verbs(2)[OF scan(5)] .
  have b: "vals (tailFrom 1 p) ''before'' \<noteq> ''''" "\<not> bools (tailFrom 1 p) ''json''" using scan by simp_all
  from cliInsert_exact[OF e w(1) l(2) c b] obtain up bf N s' where "Resolve (vals p ''after'') s = Inr up" "Resolve (vals p ''before'') s = Inr bf"
    "holding s' w'" "task_at s N = None" "sh_out w' = sh_out w @ [Line (''inserted '' @ cliID N)]"
    "depsAt s' = (depsAt s)(N \<mapsto> [\<lparr>dep_TaskID = ID up, dep_Kind = DepFeedsInto\<rparr>],
       ID bf \<mapsto> filter (\<lambda>d. dep_TaskID d \<noteq> ID up) (Dependencies bf) @ [\<lparr>dep_TaskID = N, dep_Kind = DepFeedsInto\<rparr>])"
    "parentAt s' = (parentAt s)(N \<mapsto> orElse (bareID (ParentID up)) (RootID s))"
    by (metis tail_simps(1))
  then show ?thesis using w by (intro exI[of _ up] exI[of _ bf] exI[of _ N] exI[of _ s']) (simp add: holding_def)
qed

end
