(* ===== verification/CliTrials.thy ===== *)
theory CliTrials
  imports CliQuiet PlanTrials
begin

text \<open>Concrete runs of the command line on small plans, which the witnesses use, and two of its slips.\<close>

definition calm_env :: "int cli_env" where
  "calm_env = \<lparr>e_io = (\<lambda>_. all_well), e_now = (\<lambda>n. 100),
     e_rand = (\<lambda>_. [1, 1, 2, 3, 4, 5, 6, 7]), e_others = (\<lambda>_ db. db), e_getenv = (\<lambda>_. ''''), e_cwd = Some ''/w'',
     e_stat = (\<lambda>c. if c = ''plan.db'' then Some False else None), e_open = (\<lambda>_. (Present, True)),
     e_disk = \<lparr>d_missing = (\<lambda>_. True), d_entries = (\<lambda>_. None)\<rparr>,
     e_unicode = \<lparr>u_letter = (\<lambda>_. False), u_digit = (\<lambda>_. False), u_print = (\<lambda>_. True)\<rparr>, e_lower = (\<lambda>s. s), e_traj = one_run,
     e_money = cents, e_usd4 = (\<lambda>_. ''0.0000''), e_parts = (\<lambda>_. Inl ''bad''), e_duration = (\<lambda>_. None), e_date = (\<lambda>_. None),
     e_daysAgo = (\<lambda>t n. t), e_draws = 3\<rparr>"

lemma calm_trial: "calm calm_env" "io_lock (e_io calm_env n) \<and> io_commit (e_io calm_env n)"
  by (simp_all add: calm_def calm_env_def all_well_def)

lemma demo_loads: "loadState (saved_db demo) = Inr demo"
  by code_simp

definition cancel_words :: "string list" where
  "cancel_words = [''task'', ''--db=plan.db'', ''cancel'', ''t-a'']"

lemma cancel_scan: "\<exists>p. cliScan cancel_words = Inr p \<and> pos p = [''task'', ''cancel'', ''t-a''] \<and> vals p ''db'' = ''plan.db'' \<and>
    vals p ''project'' = '''' \<and> vals p ''agent'' = '''' \<and> \<not> bools p ''version'' \<and> \<not> bools p ''help'' \<and> \<not> bools p ''json''"
proof -
  have "case cliScan cancel_words of Inl er \<Rightarrow> False | Inr p \<Rightarrow> pos p = [''task'', ''cancel'', ''t-a''] \<and> vals p ''db'' = ''plan.db'' \<and>
      vals p ''project'' = '''' \<and> vals p ''agent'' = '''' \<and> \<not> bools p ''version'' \<and> \<not> bools p ''help'' \<and> \<not> bools p ''json''" by code_simp
  then show ?thesis by (auto split: sum.splits)
qed

lemma cancel_saved: "\<exists>s' db'. Cancel ''a'' ''cancelled by default'' 100 demo = Inr s' \<and> saveState s' (saved_db demo) = Inr db'"
proof -
  have "case Cancel ''a'' ''cancelled by default'' 100 demo of Inl er \<Rightarrow> False | Inr s' \<Rightarrow> returns (saveState s' (saved_db demo))" by code_simp
  then show ?thesis by (auto split: sum.splits dest: returnsE)
qed

lemma cancel_exits: "f_exit (Main calm_env cancel_words (\<lambda>_. saved_db demo)) = Some 0"
proof -
  obtain p where p: "cliScan cancel_words = Inr p" "pos p = [''task'', ''cancel'', ''t-a'']" "vals p ''db'' = ''plan.db''"
    "vals p ''project'' = ''''" "vals p ''agent'' = ''''" "\<not> bools p ''version''" "\<not> bools p ''help''" using cancel_scan by blast
  have "Resolve ''t-a'' demo = Inr (leaf ''a'' ''root'')" unfolding Resolve_exact[OF demo_inv] by (simp add: TrimPrefix_def HasPrefix_def demo_tasks)
  show ?thesis
  proof (rule task_run_exits[where path = "''plan.db''" and s = demo, OF calm_trial(1) p(1,6,7,2) _ p(3) _ _ _ p(4)])
    fix w :: "int shell" assume w: "holding demo w" "sh_db w = saved_db demo"
    show "\<exists>w'. cliTask calm_env p w = (Inr (), w')"
      unfolding task_verbs(1)[OF p(2)]
    proof (rule cliCancel_runs[OF calm_trial w(1)])
      show "2 \<le> length (pos (tailFrom 1 p))" using p by simp
      show "Resolve (nth_pos (tailFrom 1 p) 1) demo = Inr (leaf ''a'' ''root'')" using p \<open>Resolve ''t-a'' demo = _\<close> by (simp add: nth_pos_def)
      show "\<exists>s' db'. Cancel (ID (leaf ''a'' ''root'')) (''cancelled by '' @ cliAgent calm_env (tailFrom 1 p)) (e_now calm_env n) demo = Inr s' \<and>
          saveState s' (sh_db w) = Inr db'" for n
        using cancel_saved p w by (simp add: cliAgent_def calm_env_def leaf_def)
    qed
  qed (simp_all add: calm_env_def demo_loads lifecycleTaskVerbs_def)
qed

text \<open>
  \<^verbatim>\<open>task pivot --keep-done\<close> spares running work from its list of tasks to cancel, but cancels the
  pending composite above it: the store's cascade ends the running child, and the command then
  reports it as kept, because it is not among the tasks the command itself cancelled.
\<close>

definition demo_nest :: plan_state where
  "demo_nest = plan_of [(''root'', demo_root), (''p'', (leaf ''p'' ''root'')\<lparr>Composite := True, Status := StatusPending\<rparr>),
     (''a'', (leaf ''a'' ''p'')\<lparr>Composite := True, Status := StatusPending\<rparr>),
     (''b'', (leaf ''b'' ''a'')\<lparr>Status := StatusRunning, ClaimedBy := ''w''\<rparr>)]"

lemma kept_task_is_cancelled:
  "\<exists>ts s' t. TasksOf [] demo_nest = Some ts \<and> map ID (subtreeIn ts ''p'' True) = [''a''] \<and> ''b'' \<in> set (map ID (subtreeAllIn ts ''p'')) \<and>
     Cancel ''a'' (pivotReason ''p'') 100 demo_nest = Inr s' \<and> task_at s' ''b'' = Some t \<and> Status t = StatusCancelled"
proof -
  have "case TasksOf [] demo_nest of None \<Rightarrow> False | Some ts \<Rightarrow> map ID (subtreeIn ts ''p'' True) = [''a''] \<and> ''b'' \<in> set (map ID (subtreeAllIn ts ''p''))"
    by code_simp
  moreover have "case Cancel ''a'' (pivotReason ''p'') 100 demo_nest of Inl er \<Rightarrow> False
      | Inr s' \<Rightarrow> map_option Status (task_at s' ''b'') = Some StatusCancelled" by code_simp
  ultimately show ?thesis by (auto split: sum.splits option.splits)
qed

text \<open>
  An insertion between the two leaves of the demo, write by write: the plans the four writes leave,
  each saved and read back before the next.
\<close>

definition insert_words :: "string list" where
  "insert_words = [''task'', ''insert'', ''--db=plan.db'', ''--after=a'', ''--before=b'', ''--title=t'']"

definition ins_plan :: "dependency list \<Rightarrow> status \<Rightarrow> task \<Rightarrow> plan_state" where
  "ins_plan ds st b = plan_of [(''root'', demo_root\<lparr>UpdatedAt := 100\<rparr>), (''a'', leaf ''a'' ''root''), (''b'', b),
     (''112345'', (leaf ''112345'' ''root'')\<lparr>Title := ''t'', Dependencies := ds, Status := st, CreatedAt := 100, UpdatedAt := 100\<rparr>)]"

definition feeds :: "string \<Rightarrow> dependency" where
  "feeds i = \<lparr>dep_TaskID = i, dep_Kind = DepFeedsInto\<rparr>"

definition waiting_b :: "string list \<Rightarrow> task" where
  "waiting_b us = (after_a (leaf ''b'' ''root''))\<lparr>Dependencies := map feeds us, UpdatedAt := 100\<rparr>"

definition ins1 :: plan_state where "ins1 = ins_plan [] StatusReady (after_a (leaf ''b'' ''root''))"
definition ins2 :: plan_state where "ins2 = ins_plan [feeds ''a''] StatusPending (after_a (leaf ''b'' ''root''))"
definition ins3 :: plan_state where "ins3 = ins_plan [feeds ''a''] StatusPending (waiting_b [''a'', ''112345''])"
definition ins4 :: plan_state where "ins4 = ins_plan [feeds ''a''] StatusPending (waiting_b [''112345''])"

lemma ins_op1: "AddMany [emptySpec\<lparr>ID := ''112345'', Title := ''t'', ParentID := ''root''\<rparr>] 100 demo = Inr ins1"
  by code_simp

lemma ins_op2: "AddDep ''112345'' ''a'' DepFeedsInto 100 ins1 = Inr ins2"
  by code_simp

lemma ins_op3: "AddDep ''b'' ''112345'' DepFeedsInto 100 ins2 = Inr ins3"
  by code_simp

lemma ins_op4: "RemoveDep ''b'' ''a'' 100 ins3 = Inr ins4"
  by code_simp

lemma ins_inv: "plan_inv ins1" "plan_inv ins2" "plan_inv ins3" "plan_inv ins4"
proof -
  show i1: "plan_inv ins1" by (rule AddMany_inv[OF demo_inv ins_op1])
  have k: "DepFeedsInto \<in> {'''', DepFeedsInto, DepBlocks, DepSuggests}" by blast
  have v: "validID ''a''" "validID ''112345''" by code_simp+
  show i2: "plan_inv ins2" by (rule AddDep_inv[OF i1 ins_op2 k v(1)])
  show i3: "plan_inv ins3" by (rule AddDep_inv[OF i2 ins_op3 k v(2)])
  show "plan_inv ins4" by (rule RemoveDep_inv[OF i3 ins_op4])
qed

lemma ins_deps: "returns (saveDeps ins1)" "returns (saveDeps ins2)" "returns (saveDeps ins3)" "returns (saveDeps ins4)"
  by code_simp+

lemma save_over: "saveState s0 no_db = Inr db0 \<Longrightarrow> Deleted s0 = {} \<Longrightarrow> saveState s no_db = Inr db \<Longrightarrow> saveState s db0 = Inr db"
  by (auto simp: saveState_def andThen_iff no_db_def split: if_splits)

lemma ins_saves: "saveState ins1 (saved_db demo) = Inr (saved_db ins1)" "saveState ins2 (saved_db ins1) = Inr (saved_db ins2)"
  "saveState ins3 (saved_db ins2) = Inr (saved_db ins3)" "saveState ins4 (saved_db ins3) = Inr (saved_db ins4)"
proof -
  have n: "NextID ins1 = 1" "NextID ins2 = 1" "NextID ins3 = 1" "NextID ins4 = 1" and d: "Deleted demo = {}" "Deleted ins1 = {}" "Deleted ins2 = {}" "Deleted ins3 = {}"
    by (simp_all add: ins1_def ins2_def ins3_def ins4_def ins_plan_def plan_of_def demo_def)
  note s = saves[OF ins_inv(1) ins_deps(1) n(1)] saves[OF ins_inv(2) ins_deps(2) n(2)] saves[OF ins_inv(3) ins_deps(3) n(3)]
    saves[OF ins_inv(4) ins_deps(4) n(4)]
  show "saveState ins1 (saved_db demo) = Inr (saved_db ins1)" by (rule save_over[OF trial_saves(1) d(1) s(1)])
  show "saveState ins2 (saved_db ins1) = Inr (saved_db ins2)" by (rule save_over[OF s(1) d(2) s(2)])
  show "saveState ins3 (saved_db ins2) = Inr (saved_db ins3)" by (rule save_over[OF s(2) d(3) s(3)])
  show "saveState ins4 (saved_db ins3) = Inr (saved_db ins4)" by (rule save_over[OF s(3) d(4) s(4)])
qed

lemma ins_load1: "loadState (saved_db ins1) = Inr ins1"
  by code_simp

lemma ins_load2: "loadState (saved_db ins2) = Inr ins2"
  by code_simp

lemma ins_load3: "loadState (saved_db ins3) = Inr ins3"
  by code_simp

lemma insert_scan: "\<exists>p. cliScan insert_words = Inr p \<and> pos p = [''task'', ''insert''] \<and> vals p ''db'' = ''plan.db'' \<and>
    vals p ''project'' = '''' \<and> vals p ''after'' = ''a'' \<and> vals p ''before'' = ''b'' \<and> vals p ''title'' = ''t'' \<and> vals p ''description'' = '''' \<and>
    \<not> bools p ''version'' \<and> \<not> bools p ''help'' \<and> \<not> bools p ''json''"
proof -
  have "case cliScan insert_words of Inl er \<Rightarrow> False | Inr p \<Rightarrow> pos p = [''task'', ''insert''] \<and> vals p ''db'' = ''plan.db'' \<and>
    vals p ''project'' = '''' \<and> vals p ''after'' = ''a'' \<and> vals p ''before'' = ''b'' \<and> vals p ''title'' = ''t'' \<and> vals p ''description'' = '''' \<and>
    \<not> bools p ''version'' \<and> \<not> bools p ''help'' \<and> \<not> bools p ''json''" by code_simp
  then show ?thesis by (auto split: sum.splits)
qed

lemma resolve_trial:
  assumes "holding demo w" and "word \<in> {''a'', ''b''}"
  shows "\<exists>t w'. cliResolve calm_env word w = (Inr t, w') \<and> holding demo w' \<and> sh_db w' = sh_db w \<and> ID t = word \<and> ParentID t = ''root''"
proof -
  have "task_at demo word \<noteq> None" using assms(2) by (auto simp: demo_tasks)
  then obtain t where t: "task_at demo word = Some t" by auto
  moreover have "TrimPrefix word ''t-'' = word" using assms(2) by (auto simp: TrimPrefix_def HasPrefix_def)
  ultimately have r: "Resolve word demo = Inr t" by (simp add: Resolve_exact[OF demo_inv])
  then obtain w' where w': "cliResolve calm_env word w = (Inr t, w')"
    using calm_ask_runs[where q = "Resolve word", OF calm_trial(1) assms(1) r] by (auto simp: cliResolve_def storeResolve_def rescueC_def)
  note c = calm_resolve[OF calm_trial(1) assms(1) w']
  have "ID t = word" "ParentID t = ''root''" using t assms(2) by (auto simp: demo_tasks leaf_def after_a_def)
  with c t w' show ?thesis by auto
qed

lemma insert_exits: "f_exit (Main calm_env insert_words (\<lambda>_. saved_db demo)) = Some 0"
proof -
  obtain p where p: "cliScan insert_words = Inr p" "pos p = [''task'', ''insert'']" "vals p ''db'' = ''plan.db''"
    "vals p ''project'' = ''''" "vals p ''after'' = ''a''" "vals p ''before'' = ''b''" "vals p ''title'' = ''t''" "vals p ''description'' = ''''"
    "\<not> bools p ''version''" "\<not> bools p ''help''" "\<not> bools p ''json''" using insert_scan by blast
  have now: "e_now calm_env n = 100" "e_rand calm_env n = [1, 1, 2, 3, 4, 5, 6, 7]" for n by (simp_all add: calm_env_def)
  have io: "io_lock (e_io calm_env n)" "io_commit (e_io calm_env n)" for n using calm_trial(2) by auto
  note e = calm_trial(1)
  show ?thesis
  proof (rule task_run_exits[where path = "''plan.db''" and s = demo, OF e p(1,9,10,2) _ p(3) _ _ _ p(4)])
    fix w :: "int shell" assume w: "holding demo w" "sh_db w = saved_db demo"
    obtain up w1 where r1: "cliResolve calm_env ''a'' w = (Inr up, w1)" "holding demo w1" "sh_db w1 = sh_db w" "ID up = ''a''" "ParentID up = ''root''"
      using resolve_trial[OF w(1), of "''a''"] by auto
    obtain bf w2 where r2: "cliResolve calm_env ''b'' w1 = (Inr bf, w2)" "holding demo w2" "sh_db w2 = sh_db w1" "ID bf = ''b''"
      using resolve_trial[OF r1(2), of "''b''"] by auto
    have "NextTaskID demo (e_rand calm_env (sh_tick w2)) = Some ''112345''" unfolding now by code_simp
    then obtain w3 where r3: "storeNextID calm_env w2 = (Inr ''112345'', w3)"
      using calm_query_runs[OF e r2(2), of "\<lambda>s. NextTaskID s (e_rand calm_env (sh_tick w2))"] by (auto simp: storeNextID_def)
    have h3: "holding demo w3" "sh_db w3 = saved_db demo" using calm_query[OF e r2(2) r3[unfolded storeNextID_def]] r1 r2 w by auto
    let ?spec = "emptySpec\<lparr>ID := ''112345'', Title := ''t'', Description := '''', ParentID := ''root''\<rparr>"
    have sp: "?spec = emptySpec\<lparr>ID := ''112345'', Title := ''t'', ParentID := ''root''\<rparr>" by (simp add: emptySpec_def)
    let ?op = "\<lambda>now s. map_sum (\<lambda>x. x) (\<lambda>s'. (s', ())) (AddMany [?spec] now s)"
    have "?op (e_now calm_env (sh_tick w3)) demo = Inr (ins1, ())" unfolding now sp ins_op1 by simp
    from calm_change_to[where op = ?op, OF e h3(1) io this, of "saved_db ins1" ins1] h3(2) ins_saves(1) ins_load1 ins_inv(1)
    obtain w4 where ch: "changeC calm_env ?op w3 = (Inr (Some (), ins1), w4)" "holding ins1 w4" "sh_db w4 = saved_db ins1" by auto
    have "\<exists>t. those (created [?spec] ins1) = Some [t] \<and> ID t = ''112345''"
    proof -
      have "case those (created [emptySpec\<lparr>ID := ''112345'', Title := ''t'', ParentID := ''root''\<rparr>] ins1) of Some [t] \<Rightarrow> ID t = ''112345'' | _ \<Rightarrow> False" by code_simp
      then show ?thesis unfolding sp by (auto split: option.splits list.splits)
    qed
    then obtain t where t: "those (created [?spec] ins1) = Some [t]" "ID t = ''112345''" by auto
    have r4: "storeAddMany calm_env [?spec] w3 = (Inr [t], w4)" using ch(1) t by (simp add: storeAddMany_def andC_def liftC_def)
    have at: "task_at ins2 ''112345'' \<noteq> None" "task_at ins3 ''b'' \<noteq> None" "task_at ins4 ''b'' \<noteq> None"
      by (simp_all add: ins2_def ins3_def ins4_def ins_plan_def plan_of_def task_at_def)
    have "\<exists>t w'. storeAddDep calm_env ''112345'' ''a'' DepFeedsInto w4 = (Inr t, w') \<and> holding ins2 w' \<and> sh_db w' = saved_db ins2"
      unfolding storeAddDep_def by (rule calm_write_to[OF e ch(2) io _ at(1) _ ins_load2 ins_inv(2)]) (simp_all add: now ins_op2 ch ins_saves)
    then obtain t5 w5 where r5: "storeAddDep calm_env ''112345'' ''a'' DepFeedsInto w4 = (Inr t5, w5)" "holding ins2 w5" "sh_db w5 = saved_db ins2" by blast
    have "\<exists>t w'. storeAddDep calm_env ''b'' ''112345'' DepFeedsInto w5 = (Inr t, w') \<and> holding ins3 w' \<and> sh_db w' = saved_db ins3"
      unfolding storeAddDep_def by (rule calm_write_to[OF e r5(2) io _ at(2) _ ins_load3 ins_inv(3)]) (simp_all add: now ins_op3 r5 ins_saves)
    then obtain t6 w6 where r6: "storeAddDep calm_env ''b'' ''112345'' DepFeedsInto w5 = (Inr t6, w6)" "holding ins3 w6" "sh_db w6 = saved_db ins3" by blast
    obtain t7 where "task_at ins4 ''b'' = Some t7" using at(3) by auto
    then obtain w7 where r7: "storeRemoveDep calm_env ''b'' ''a'' w6 = (Inr t7, w7)"
      using calm_write_runs[where op = "RemoveDep ''b'' ''a''" and i = "''b''", OF e r6(2) io _ _ , of ins4 t7 "saved_db ins4"] r6(3)
      by (auto simp: storeRemoveDep_def now ins_op4 ins_saves)
    show "\<exists>w'. cliTask calm_env p w = (Inr (), w')"
      unfolding task_verbs(2)[OF p(2)]
      using p r1 r2 r3 r4 r5 r6 r7 t
      by (simp add: cliInsert_def beforeArg_def wireBefore_def andC_def ret_def say_def Let_def)
  qed (simp_all add: calm_env_def demo_loads lifecycleTaskVerbs_def)
qed

text \<open>A run that creates its store.\<close>

definition init_words :: "string list" where
  "init_words = [''init'', '' demo'', ''--db'', ''new.db'']"

lemma init_scan: "\<exists>p. cliScan init_words = Inr p \<and> pos p = [''init'', '' demo''] \<and> vals p ''db'' = ''new.db'' \<and>
    \<not> bools p ''version'' \<and> \<not> bools p ''help''"
proof -
  have "case cliScan init_words of Inl er \<Rightarrow> False | Inr p \<Rightarrow> pos p = [''init'', '' demo''] \<and> vals p ''db'' = ''new.db'' \<and>
    \<not> bools p ''version'' \<and> \<not> bools p ''help''" by code_simp
  then show ?thesis by (auto split: sum.splits)
qed

lemma init_exits: "f_exit (Main (calm_env\<lparr>e_open := (\<lambda>_. (Missing, True))\<rparr>) init_words (\<lambda>_. no_db)) = Some 0"
  by code_simp

end
