(* ===== verification/Spec2Isabelle.thy ===== *)
theory Spec2Isabelle
  imports PlanSamples ApprovalLoad PlanSearch PlanPath PlanRun PlanTrials PlanPreview CliTrials
begin

text \<open>
  A verification library of the plan store and its command line (\<^verbatim>\<open>internal/plandb\<close>) and of
  the consent policy (\<^verbatim>\<open>internal/approval\<close>) of CodeAF.

  The program. CodeAF runs coding agents. A run is a plan: a tree of tasks with dependencies
  between them, kept in one SQLite database that several processes write (the run, its workers'
  command line, a person's pane). Every write is one transaction that loads the whole plan, changes
  it, re-derives what is ready and saves it; readiness decides what the run dispatches. Before an
  agent's tool call runs, the consent policy says whether it may, must ask, or is refused; the plan
  store asks the same policy whether a declared check is one an audit may run. An agent reaches the
  store through the command \<^verbatim>\<open>plandb\<close>, run once per verb from its shell. The two packages are
  the program's own logic where a mistake loses work or runs a command nobody allowed.

  The model, in the order of the theories.

  \<^item> \<^verbatim>\<open>GoBase\<close>, \<^verbatim>\<open>GoStrings\<close>, \<^verbatim>\<open>GoPath\<close>: the prelude. Failing folds, refusals, guarded
    returns, pointer walks with fuel, stable sorting, and the parts of Go's strings, path and
    rendering that the code calls. Strings are byte lists; the case mapping of letters outside
    ASCII is an argument (\<^verbatim>\<open>uni\<close>).
  \<^item> \<^verbatim>\<open>PlanModel\<close>, \<^verbatim>\<open>PlanSpec\<close>: the records and enums of \<^verbatim>\<open>model.go\<close>, the errors as
    datatypes, \<^verbatim>\<open>normalizeSpec\<close>, \<^verbatim>\<open>validateSpec\<close>, patches and declared checks. A Go map is an
    association list whose keys are distinct (\<^verbatim>\<open>rep_ok\<close>); a loop over a map runs over that list,
    and what is proved of it does not depend on the order.
  \<^item> \<^verbatim>\<open>PlanGraph\<close>, \<^verbatim>\<open>PlanReady\<close>, \<^verbatim>\<open>PlanPromote\<close>, \<^verbatim>\<open>PlanWf\<close>, \<^verbatim>\<open>PlanChange\<close>: the two
    graphs, the readiness rule, the promotion loop and the check every load makes, with its
    declarative counterpart \<^verbatim>\<open>plan_wf\<close> and the invariant \<^verbatim>\<open>plan_inv\<close>; \<^verbatim>\<open>same_shape\<close> is what
    a change of status alone preserves.
  \<^item> \<^verbatim>\<open>PlanStore\<close>: the handle, the one write road \<^verbatim>\<open>transact\<close>, the read road, and the
    interfaces as locales: \<^verbatim>\<open>plan_operation\<close> (an operation keeps the invariant and the run),
    \<^verbatim>\<open>plan_storage\<close> (what was saved reads back) and \<^verbatim>\<open>stored_operation\<close>, which joins them.
  \<^item> \<^verbatim>\<open>PlanVerdict\<close>, \<^verbatim>\<open>PlanLifecycle\<close>, \<^verbatim>\<open>PlanCascade\<close>: a task's life from its claim to its
    end, how a review verdict is earned, cancelling and the ways a whole run ends.
  \<^item> \<^verbatim>\<open>PlanReadyList\<close>, \<^verbatim>\<open>PlanQuery\<close>, \<^verbatim>\<open>PlanSearch\<close>, \<^verbatim>\<open>PlanPath\<close>, \<^verbatim>\<open>PlanProgress\<close>: the
    reads; and when open work is certain to be offered.
  \<^item> \<^verbatim>\<open>PlanAdmit\<close>, \<^verbatim>\<open>PlanReview\<close>, \<^verbatim>\<open>PlanEdit\<close>, \<^verbatim>\<open>PlanNotes\<close>: what enters and changes a plan.
  \<^item> \<^verbatim>\<open>PlanRemove\<close>, \<^verbatim>\<open>PlanArchive\<close>, \<^verbatim>\<open>PlanDelete\<close>: what leaves it.
  \<^item> \<^verbatim>\<open>PlanRows\<close>, \<^verbatim>\<open>PlanPersist\<close>, \<^verbatim>\<open>PlanOpen\<close>, \<^verbatim>\<open>PlanLive\<close>, \<^verbatim>\<open>PlanSpend\<close>: the tables and the
    functions that read and rewrite them (\<^verbatim>\<open>persist.go\<close>), opening a run, the live steps
    (\<^verbatim>\<open>live.go\<close>) and the spend ledger.
  \<^item> \<^verbatim>\<open>PlanRun\<close>: the store's operations as a step relation \<^verbatim>\<open>plan_step\<close>, reachable plans and
    the laws every run keeps. Five of its rules carry a guard the code does not have (a delete, a new
    dependency, an amendment, a revision, a late review check); the guards leave out the writes
    named there and in C1, which the code makes and which can break the laws (see the lemmas of
    \<^verbatim>\<open>PlanTrials\<close>, C22 and C26).
  \<^item> \<^verbatim>\<open>ApprovalGlob\<close>, \<^verbatim>\<open>ApprovalBash\<close>, \<^verbatim>\<open>ApprovalPolicy\<close>, \<^verbatim>\<open>ApprovalLoad\<close>: the wildcard
    matcher, the splitter of a shell line, the critical table, the decision and its floors, and
    reading a policy from settings.
  \<^item> \<^verbatim>\<open>PlanPreview\<close>: the read-only query of \<^verbatim>\<open>preview.go\<close>.
  \<^item> \<^verbatim>\<open>GoFmt\<close>, \<^verbatim>\<open>PlanNames\<close>, \<^verbatim>\<open>CliScan\<close>, \<^verbatim>\<open>CliStore\<close>, \<^verbatim>\<open>CliView\<close>: what the command line is
    made of: Go's numbers and paddings as text; the file names of a check and their numbered
    siblings (\<^verbatim>\<open>check_placeholder.go\<close>); the scanner of \<^verbatim>\<open>argv\<close>, the refused verbs and the help
    texts; a run as a state monad \<^verbatim>\<open>cli\<close> over the handle, the database and the lines printed so
    far, with every call of the store; and what a verb renders.
  \<^item> \<^verbatim>\<open>CliWrite\<close>, \<^verbatim>\<open>CliRead\<close>, \<^verbatim>\<open>CliMain\<close>: one definition per verb of \<^verbatim>\<open>cli.go\<close>, the two dispatch
    switches, finding and opening the store, and \<^verbatim>\<open>Main\<close> from the words of a command to its exit
    code, output, error and databases.
  \<^item> \<^verbatim>\<open>CliLaws\<close>, \<^verbatim>\<open>CliRuns\<close>, \<^verbatim>\<open>CliCascade\<close>, \<^verbatim>\<open>CliQuiet\<close>: what holds of every run whatever other
    processes write between its calls, of its refusals and its walks up the file tree; that the
    preview of a cancellation and the cancellation name the same tasks; and what a run does to the
    plan when nobody else writes meanwhile (\<^verbatim>\<open>calm\<close>).
  \<^item> \<^verbatim>\<open>PlanSamples\<close>, \<^verbatim>\<open>PlanTrials\<close>, \<^verbatim>\<open>CliTrials\<close>: concrete plans, databases and command lines for
    the witnesses below, and the plans behind the findings.

  How they interact. An operation is a function from a plan (with the moment it runs at) to an
  error or the next plan; \<^verbatim>\<open>transact\<close> composes it with \<^verbatim>\<open>loadState\<close> and \<^verbatim>\<open>saveState\<close>, where
  failing to lock, to read or to commit is a field of the record \<^verbatim>\<open>io\<close>. Every operation that moves
  a status ends with \<^verbatim>\<open>promote\<close>. The writes that touch other tables (deleting, archiving, live
  steps, spend) have their own transaction over the database record \<^verbatim>\<open>plan_db\<close>.

  A run of the command line opens a handle on the database at the path it found and makes its
  calls one after another; between two calls any process may write (\<^verbatim>\<open>e_others\<close>), which is why
  the laws of whole runs ask of those writes only what every writer of the store keeps.

  What the properties show. C1 to C5: whatever lawful writes come in whatever order, a run always
  loads; what is saved reads back; a refusal changes nothing. C6 to C8: the load check, the cycle search
  and the promotion loop decide what they are meant to decide. C9 and C10: when work goes on, and a
  batch that is admitted though none of it is ever offered. C11 to C16: the ending of tasks and runs. C17 and C18:
  what is dispatched. C19 to C23: what is admitted and edited. C24 to C27: deletion, archive and
  opening. C28 to C31: names, the longest chain, ids and spend. C32 to C38: the command line: a
  preview shows what the cancellation does, what cancelling, inserting and starting a run do from
  the words to the database, that writing runs keep the plan, reading runs change nothing and the
  supervisor's verbs are refused. C39 and C40: the consent policy.

  Bounds and fuel. A walk up the containment tree (\<^verbatim>\<open>climb\<close>, \<^verbatim>\<open>ancestorFrom\<close>, \<^verbatim>\<open>reopenFrom\<close>)
  carries fuel above the number of tasks; without a cycle it visits each task once, so None, the
  model's word for a loop that has not ended, does not occur on a lawful plan
  (\<^verbatim>\<open>climb_ends\<close>, \<^verbatim>\<open>inheritFrom_ends\<close>, C21). A nil task dereferenced is a panic of the code:
  \<^verbatim>\<open>NilTask\<close> in the cycle search, which \<^verbatim>\<open>graphErr\<close> turns into the operation's own \<^verbatim>\<open>NilDeref\<close>; C21
  says when it happens, and \<^verbatim>\<open>load_never_panics\<close> that no load does. The depth-first searches carry fuel above the number
  of tasks for the same reason, \<^verbatim>\<open>archiveSelection\<close> and \<^verbatim>\<open>markSubtree\<close> likewise. \<^verbatim>\<open>promote\<close> and
  the cancelling and deleting loops are total functions with a termination proof; the glob loop is
  a partial function that is shown to return (C40). The id counter is a 64-bit word; the driver's
  refusal of ids with the high bit set is modelled in \<^verbatim>\<open>saveState\<close>. Moments are integers with 0
  for the zero time. On the command line, the walk down a subtree (\<^verbatim>\<open>levelsFrom\<close>) carries one
  step more than there are tasks, and reaches every level (\<^verbatim>\<open>levels_exact\<close>); the walk from the working
  directory to the root of the file tree carries one step per byte of the path, which is enough
  (\<^verbatim>\<open>find_store_walks_to_the_root\<close>); the preview's rounds end with a termination proof; minting
  a task id draws at most \<^verbatim>\<open>e_draws\<close> times, a parameter, where the code draws until a free id comes.

  Not modelled. SQLite itself, its busy timeout and the schema migrations (a table is a list of
  rows, and a column says what it says: JSON and RFC 3339 texts are their decoded values or
  unreadable, and the strings put into JSON columns are taken to be UTF-8, which \<^verbatim>\<open>json.Marshal\<close>
  would otherwise make them), the mutex of a handle (each operation is atomic), float64 arithmetic and SQL SUM
  (the record \<^verbatim>\<open>money\<close>), the JSON decoding of a tool call and of a trajectory line (the records
  \<^verbatim>\<open>call_reader\<close> and \<^verbatim>\<open>traj_world\<close>), random bytes (a stream argument), and the wording of error
  messages (constructors with the values they name). Of the
  command line: decoding the JSON of \<^verbatim>\<open>--into\<close> and \<^verbatim>\<open>--subtasks\<close>, the parsing of durations and
  dates, the rendering of a float64 amount, the Unicode tables, the file system and the clock are
  fields of the environment \<^verbatim>\<open>cli_env\<close>, since they are the standard library's or the machine's; JSON
  output is a tree, not its text. The rest of the repository (the agent loop, terminal interface,
  providers, sessions) is outside this library.
\<close>

text \<open>C1. a run opened anew and written to by any handles in any order always passes the check the next load makes, is still the same run of the same project, and never holds a task under an id it has deleted. The writes are all of the store's, each where it is not refused, except for five that the code lets through although they can break this: a delete while the archive holds a record under the id of a live task but with another parent, a dependency of a kind that is none of the three or on a root whose id is malformed, an amendment that makes the description of a task other than the root longer than its limit, a revision of a task one of whose ids (its own, its parent's, a dependency's) is not bare, as one that still starts with the prefix, or which has a dependency of no kind, and a late review check that softly depends on an unknown task or takes the id of a deleted one.\<close>

theorem any_run_loads:
  assumes "TrimSpace project \<noteq> ''''" and "validID runID"
    and "reachable (seedState project runID title description chat now) s"
  shows "validateLoadedState s = None \<and> RootID s = runID \<and> PlanProject s = project \<and> (\<forall>i\<in>Deleted s. task_at s i = None)"
  using run_always_loads(1-4)[OF assms] by simp

theorem any_run_loads_witness: "validateLoadedState run2 = None \<and> RootID run2 = ''root'' \<and> PlanProject run2 = ''p'' \<and>
    {i. i \<in> Deleted run2 \<and> task_at run2 i \<noteq> None} = {}"
proof -
  have p: "TrimSpace ''p'' \<noteq> ''''" by code_simp
  have r: "validID ''root''" by (simp add: spec_eval)
  show ?thesis using any_run_loads[OF p r run_reaches[unfolded run0_def]] by auto
qed

text \<open>C2. a lawful plan that is saved is the plan the next load reads: the same tasks with the same fields, the same order, contexts and counter, every note with its author filled in, and no tombstone lost.\<close>

theorem saved_plan_reads_back:
  assumes "plan_inv s" and "saveState s db = Inr db'"
  shows "\<exists>s2. loadState db' = Inr s2 \<and> Order s2 = Order s \<and> Contexts s2 = Contexts s \<and> NextID s2 = NextID s \<and>
     Notes s2 = map signed (Notes s) \<and> RootID s2 = RootID s \<and> PlanProject s2 = PlanProject s \<and> Deleted s \<subseteq> Deleted s2 \<and>
     (\<forall>i. task_at s2 i = map_option (\<lambda>t. t\<lparr>ArchivedAt := 0\<rparr>) (task_at s i))"
  using save_then_load[OF assms] by (auto simp: reads_back_def)

theorem saved_plan_reads_back_witness:
  "\<exists>s2. loadState (saved_db demo) = Inr s2 \<and> Order s2 = [''root'', ''a'', ''b''] \<and> task_at s2 ''a'' = Some (leaf ''a'' ''root'')"
proof -
  have "(leaf ''a'' ''root'')\<lparr>ArchivedAt := 0\<rparr> = leaf ''a'' ''root''" by (simp add: leaf_def)
  moreover have "Order demo = [''root'', ''a'', ''b'']" by (simp add: demo_eval)
  ultimately show ?thesis using saved_plan_reads_back[OF demo_inv trial_saves(1)] demo_tasks(1) by fastforce
qed

text \<open>C3. whatever is in the database, a plan a load hands out is lawful: one entry per task in the order, valid specs under their own ids, known parents and dependencies, two acyclic graphs, and a named root and project.\<close>

theorem loaded_plan_is_lawful:
  assumes "loadState db = Inr s"
  shows "plan_wf s \<and> rep_ok s \<and> RootID s \<noteq> '''' \<and> PlanProject s \<noteq> '''' \<and> Version s = stateVersion"
  using loadState_accepts[OF assms] by (simp add: plan_inv_iff)

theorem loaded_plan_is_lawful_witness: "\<exists>s. loadState (saved_db demo) = Inr s \<and> plan_wf s"
proof -
  obtain s where "loadState (saved_db demo) = Inr s" using save_then_load[OF demo_inv trial_saves(1)] by blast
  then show ?thesis using loaded_plan_is_lawful by blast
qed

text \<open>C4. a write through the handle that is not one of the five kinds C1 leaves out, whichever operation it carries and however it ends, leaves a database the next load accepts, still of the same run; and where the write was not refused, the plan the handle then holds is the plan that load reads.\<close>

theorem write_keeps_plan_readable:
  assumes l: "loadState db = Inr s" and op: "\<forall>nxt. change s = Inr nxt \<longrightarrow> plan_step s nxt"
    and t: "transact loadState saveState w change st db = (r, st', db')"
  shows "\<exists>s2. loadState db' = Inr s2 \<and> RootID s2 = RootID s \<and> PlanProject s2 = PlanProject s \<and>
     (r = None \<longrightarrow> reads_back (data st') s2)"
proof (cases r)
  case (Some e)
  with l transact_error_keeps_db t show ?thesis by fastforce
next
  case None
  with t have "transact loadState saveState w change st db = (None, st', db')" by simp
  then show ?thesis
  proof (rule transact_commit)
    fix fresh assume "loadState db = Inr fresh" "db' = db" "data st' = fresh"
    then show ?thesis using l loadState_accepts by auto
  next
    fix fresh nxt
    assume f: "loadState db = Inr fresh" "change fresh = Inr nxt" "saveState nxt db = Inr db'" "data st' = nxt"
    have s: "plan_step s nxt" "plan_inv s" using f l op loadState_accepts by auto
    obtain s2 where "loadState db' = Inr s2" "reads_back nxt s2" using save_then_load[OF step_inv[OF s] f(3)] by blast
    with step_kept[OF s] f(4) show ?thesis by (auto simp: run_kept_def reads_back_def)
  qed
qed

theorem write_keeps_plan_readable_witness:
  "\<exists>r st' db' s2. transact loadState saveState all_well (Claim ''a'' ''w'' [] 5) handle (saved_db demo) = (r, st', db') \<and>
     loadState db' = Inr s2 \<and> RootID s2 = ''root''"
proof -
  obtain s where s: "loadState (saved_db demo) = Inr s" "reads_back demo s"
    using save_then_load[OF demo_inv trial_saves(1)] by blast
  obtain r st' db' where t: "transact loadState saveState all_well (Claim ''a'' ''w'' [] 5) handle (saved_db demo) = (r, st', db')"
    by (metis prod_cases3)
  have "\<forall>nxt. Claim ''a'' ''w'' [] 5 s = Inr nxt \<longrightarrow> plan_step s nxt" by (auto intro: plan_step.Claim)
  from write_keeps_plan_readable[OF s(1) this t] s(2) t demo_tasks(5) show ?thesis by (auto simp: reads_back_def)
qed

text \<open>C5. a write that ends in an error leaves the database as it was, at whichever point it failed: the closed handle, the held lock, the load, the operation, the save or the commit; and what it answers does not depend on the plan the handle held in memory.\<close>

theorem refused_write_changes_nothing:
  assumes "transact loadState saveState w change st db = (Some e, st', db')"
  shows "db' = db \<and> closed st' = closed st \<and>
    fst (transact loadState saveState w change (st\<lparr>data := other\<rparr>) db) = Some e"
proof (intro conjI)
  show "db' = db" using assms by (rule transact_error_keeps_db)
  show "closed st' = closed st"
    using assms by (auto simp: transact_def Let_def split: option.splits sum.splits if_splits)
  show "fst (transact loadState saveState w change (st\<lparr>data := other\<rparr>) db) = Some e"
    using transact_ignores_memory[of "st\<lparr>data := other\<rparr>" st loadState saveState w change db] assms by simp
qed

theorem refused_write_changes_nothing_witness:
  "\<exists>e st'. transact loadState saveState all_well (Claim ''root'' ''w'' [] 5) handle (saved_db demo) = (Some e, st', saved_db demo) \<and>
     fst (transact loadState saveState all_well (Claim ''root'' ''w'' [] 5) (handle\<lparr>data := run0\<rparr>) (saved_db demo)) = Some e"
proof -
  obtain s where s: "loadState (saved_db demo) = Inr s" "reads_back demo s"
    using save_then_load[OF demo_inv trial_saves(1)] by blast
  have root: "task_at demo ''root'' = Some demo_root" by (rule demo_tasks)
  from s(2) root have "task_at s ''root'' = Some (demo_root\<lparr>ArchivedAt := 0\<rparr>)" by (simp add: reads_back_def)
  then have "Claim ''root'' ''w'' [] 5 s = Inl (work (NotRunnableLeaf ''root''))"
    by (simp add: Claim_def changeTask_def demo_root_def refuse_def orFail_def)
  with s(1) have t: "transact loadState saveState all_well (Claim ''root'' ''w'' [] 5) handle (saved_db demo) =
    (Some (work (NotRunnableLeaf ''root'')), handle\<lparr>data := s\<rparr>, saved_db demo)"
    by (simp add: transact_def beginWrite_def errIfClosed_def handle_def all_well_def Let_def)
  from refused_write_changes_nothing[OF t] t show ?thesis by blast
qed

text \<open>C6. the check every load makes accepts a plan exactly when the declarative laws hold of it: one ordered entry per task, keys that are ids, valid specs, known parents and dependencies, composite flags that name the parents, and two acyclic graphs with no hard edge along a lineage.\<close>

theorem validateLoadedState_decides:
  assumes "rep_ok s"
  shows "validateLoadedState s = None \<longleftrightarrow> plan_wf s"
  using assms by (rule validateLoadedState_None_iff)

theorem validateLoadedState_decides_witness: "validateLoadedState demo = None \<longleftrightarrow> plan_wf demo"
  by (rule validateLoadedState_decides) (simp add: rep_ok_def demo_eval)

text \<open>C7. detectCycle accepts a plan's graph exactly when every edge leads to a task and no task reaches itself, so its verdict does not depend on the order Go's map iteration starts the visits in.\<close>

theorem detectCycle_decides:
  "detectCycle s edges = None \<longleftrightarrow> edges_closed s edges \<and> acyclic (edge_rel s edges)"
  by (rule detectCycle_None_iff)

text \<open>C8. after promote every listed task agrees with the readiness rule (ready only where its own and its ancestors' hard dependencies are done, pending only where they are not) and no composite is left that could be closed.\<close>

theorem promote_reaches_frontier:
  assumes "i \<in> set (Order s)" and "task_at (promote now s) i = Some t"
  shows "(Status t = StatusReady \<longrightarrow> depsDone (promote now s) t) \<and>
    (Status t = StatusPending \<longrightarrow> \<not> depsDone (promote now s) t) \<and> \<not> closable (promote now s) i t"
  using assms promote_result[where now = now and s = s]
  by (auto simp: misplaced_def ready_bad_def pending_bad_def)

theorem promote_reaches_frontier_witness: "depsDone (promote 5 demo) (leaf ''a'' ''root'')"
proof -
  have "task_at (promote 5 demo) ''a'' = Some (leaf ''a'' ''root'')" by (simp add: demo_promote demo_tasks)
  from promote_reaches_frontier[OF _ this] show ?thesis by (simp add: demo_tasks) (simp add: leaf_def)
qed

text \<open>C9. work goes on: a plan after its promotion that has open work, where nothing but the root is held or parked, nothing is paused, no prerequisite ended without being done, and what waits for what has no cycle, always offers a leaf to run.\<close>

theorem open_work_is_offered:
  assumes "plan_inv s" and "promote now s = s" and "acyclic (waits_on s)" and "unhindered s"
    and "task_at s k = Some t" "\<not> terminal (Status t)" "k \<noteq> RootID s"
  shows "\<exists>ts. ReadyLeaves uni s = Some ts \<and> ts \<noteq> []"
  by (rule open_work_has_leaf[OF assms(1-4) _ assms(7)]) (use assms in \<open>simp add: open_at_def\<close>)

theorem open_work_is_offered_witness: "\<exists>ts. ReadyLeaves (\<lambda>x. x) demo = Some ts \<and> ts \<noteq> []"
proof -
  have "\<not> terminal (Status (leaf ''a'' ''root''))" "''a'' \<noteq> RootID demo" by (simp_all add: demo_eval)
  from open_work_is_offered[OF demo_inv demo_promote demo_waits demo_unhindered demo_tasks(1) this] show ?thesis .
qed

text \<open>C10. the batch gate looks for cycles in the dependency graph and in the containment graph apart, while readiness follows both: a batch of three tasks, in which a child waits for a task that waits for the child's own parent, is admitted, and then no task of the run is offered, none is handed out by the search for the next one, a plain claim of any of them by anyone is refused, and the next load accepts the plan as it stands.\<close>

theorem admitted_batch_may_never_run:
  "\<exists>s'. AddMany loop_specs 2 run0 = Inr s' \<and> validateLoadedState s' = None \<and> ReadyLeaves uni s' = Some [] \<and>
     {i. \<exists>t. task_at s' i = Some t \<and> terminal (Status t)} = {} \<and>
     (\<forall>agent now. \<exists>e. ClaimNext uni agent now s' = Inl e) \<and> (\<forall>i agent owner now. \<exists>e. Claim i agent owner now s' = Inl e)"
proof -
  obtain s' where a: "AddMany loop_specs 2 run0 = Inr s'"
    and n: "\<forall>(i, t)\<in>set (Tasks s'). Status t \<noteq> StatusReady \<or> Composite t" "\<forall>(i, t)\<in>set (Tasks s'). \<not> terminal (Status t)"
    using loop_admitted by (auto simp: list_all_iff split: sum.splits)
  have inv: "plan_inv s'" by (rule AddMany_inv[OF run0_inv a])
  have r: "Status t \<noteq> StatusReady \<or> Composite t" "\<not> terminal (Status t)" if "task_at s' i = Some t" for i t
    using n map_of_SomeD[OF that[unfolded task_at_def]] by auto
  obtain ts where ts: "ReadyLeaves uni s' = Some ts" "\<forall>t. t \<in> set ts \<longrightarrow> (\<exists>i. task_at s' i = Some t) \<and> dispatchable s' t"
    using ReadyLeaves_exact[OF inv] by metis
  have "ts = []" using ts(2) r(1) by (cases ts) (auto simp: dispatchable_def)
  moreover have "\<exists>e. Claim i agent owner now s' = Inl e" for i agent owner now
    using r(1) by (auto simp: Claim_def changeTask_def refuse_def orFail_def split: option.splits)
  moreover have "\<exists>e. ClaimNext uni agent now s' = Inl e" for agent now
  proof (cases "ClaimNext uni agent now s'")
    case (Inr p)
    then have "ClaimNext uni agent now s' = Inr (fst p, snd p)" by simp
    then obtain i t where "task_at s' i = Some t" "nextable uni s' t" by (rule ClaimNext_result[OF inv])
    with r(1) show ?thesis by (auto simp: nextable_def dispatchable_def)
  qed blast
  ultimately show ?thesis using a ts(1) inv r(2) by (auto simp: plan_inv_def)
qed

text \<open>C11. a task that is finished was held by the agent that finishes it (or is the root finished by its own worker), has no open child and no unfinished hard dependency, and records the result, the evidence and the moment; only a task that was stored done without a result or an owner is finished without these.\<close>

theorem done_keeps_finish_law:
  assumes d: "Done w i agent result artifacts evidence now s = Inr s'" and t: "task_at s i = Some t" and np: "\<not> placeholder t"
  shows "(rootWorker s i agent \<or> ClaimedBy t = TrimSpace agent \<and> heldStatus (Status t)) \<and>
    (\<forall>j\<in>set (Order s). \<forall>c. task_at s j = Some c \<and> ParentID c = ID t \<longrightarrow> terminal (Status c)) \<and>
    (\<forall>e\<in>set (Dependencies t). hardDone s e) \<and>
    (\<exists>t'. task_at s' i = Some t' \<and> Status t' = StatusDone \<and> Result t' = result \<and> CompletedAt t' = now \<and>
      ClaimedBy t' = TrimSpace agent \<and> Evidence t' = cleanStrings evidence)"
  using Done_finish_law[OF d t np] Done_result[OF d] unfolding canFinish_None_iff by blast

theorem done_keeps_finish_law_witness:
  "\<exists>s'. Done no_runs ''a'' ''a'' ''it holds'' [] [] 9 demo_held = Inr s' \<and>
     (\<exists>t'. task_at s' ''a'' = Some t' \<and> Status t' = StatusDone \<and> Result t' = ''it holds'')"
proof -
  obtain t where t: "task_at demo_held ''a'' = Some t" "\<not> Waiting t" "\<not> terminal (Status t)" "Role t = RoleWork"
    "EvidenceRequirements t = []" "\<not> placeholder t" "ownFinish demo_held ''a'' ''a'' t = None"
  proof
    show "ownFinish demo_held ''a'' ''a'' (the (task_at demo_held ''a'')) = None" by code_simp
  qed (simp_all add: demo_eval placeholder_def)
  have "verdictStep no_runs t (TrimSpace ''it holds'') = Inr t" by (simp add: verdictStep_def t(4) RoleWork_def RoleCheck_def)
  note v = this
  have r: "''a'' \<noteq> RootID demo_held" and l: "length ''it holds'' \<le> 65536" by (simp_all add: trial_eval)
  obtain s' where d: "Done no_runs ''a'' ''a'' ''it holds'' [] [] 9 demo_held = Inr s'"
    using Done_runs[OF t(1-3) v l r t(7,5)] by blast
  from done_keeps_finish_law[OF d t(1,6)] d show ?thesis by blast
qed

text \<open>C12. a review check that declares checks is finished with a verdict that it holds only when its own trajectory shows each declared check was run and exited with zero, and each is a check an audit would accept; a trajectory written by a build that recorded no exit status is trusted as it stands, and no trajectory at all never is.\<close>

theorem holds_verdict_is_earned:
  assumes d: "Done w i agent result artifacts evidence now s = Inr s'" and t: "task_at s i = Some t"
    and r: "Role t = RoleCheck" "HasPrefix (TrimSpace result) ''holds:''" and raw: "raw \<in> set (Checks t)" "TrimSpace raw \<noteq> ''''"
  shows "case recordedRuns w (ID t) of (recorded, newBuild, hasRecord) \<Rightarrow>
    if newBuild then auditableDeclaredCheck (TrimSpace raw) \<and> map_of recorded (TrimSpace raw) = Some 0 else hasRecord"
proof -
  obtain basis where b: "checkVerdictBasis w t = (basis, True)" using Done_holds_earned[OF d t r] by (metis prod.collapse)
  have "Checks t \<noteq> []" using raw(1) by auto
  with b show ?thesis by (rule verdict_earned) (use raw in auto)
qed

theorem holds_verdict_is_earned_witness:
  "(\<exists>s'. Done one_run ''a'' ''a'' ''holds: yes'' [] [] 9 demo_review = Inr s') \<and>
   (case recordedRuns one_run ''a'' of (recorded, newBuild, hasRecord) \<Rightarrow>
      if newBuild then auditableDeclaredCheck (TrimSpace ''git status'') \<and> map_of recorded (TrimSpace ''git status'') = Some 0
      else hasRecord)"
proof -
  obtain t where t: "task_at demo_review ''a'' = Some t" "\<not> Waiting t" "\<not> terminal (Status t)" "Role t = RoleCheck"
    "EvidenceRequirements t = []" "Checks t = [''git status'']" "ID t = ''a''" "ownFinish demo_review ''a'' ''a'' t = None"
    "\<exists>t1. verdictStep one_run t (TrimSpace ''holds: yes'') = Inr t1"
  proof
    show "ownFinish demo_review ''a'' ''a'' (the (task_at demo_review ''a'')) = None" by code_simp
    show "\<exists>t1. verdictStep one_run (the (task_at demo_review ''a'')) (TrimSpace ''holds: yes'') = Inr t1"
      using review_runs by (cases "verdictStep one_run (the (task_at demo_review ''a'')) (TrimSpace ''holds: yes'')")
        (auto simp: demo_review_def plan_of_def task_at_def)
  qed (simp_all add: trial_eval)
  from t(9) obtain t1 where "verdictStep one_run t (TrimSpace ''holds: yes'') = Inr t1" by blast
  note v = this
  have r: "''a'' \<noteq> RootID demo_review" and l: "length ''holds: yes'' \<le> 65536" by (simp_all add: trial_eval)
  obtain s' where d: "Done one_run ''a'' ''a'' ''holds: yes'' [] [] 9 demo_review = Inr s'"
    using Done_runs[OF t(1-3) v l r t(8,5)] by blast
  have p: "HasPrefix (TrimSpace ''holds: yes'') ''holds:''" "TrimSpace ''git status'' \<noteq> ''''" by code_simp+
  from holds_verdict_is_earned[OF d t(1,4) p(1) _ p(2)] t(6,7) d show ?thesis by auto
qed

text \<open>C13. a parked task is neither finished nor failed by any agent with any words: both are refused until it is woken.\<close>

theorem parked_task_cannot_end:
  assumes "task_at s i = Some t" and "Waiting t"
  shows "Done w i agent result artifacts evidence now s = Inl (work (ParkedTask (ID t))) \<and>
    Fail i agent message now s = Inl (work (ParkedTask (ID t)))"
  using parked_refused[OF assms] by simp

theorem parked_task_cannot_end_witness: "Fail ''a'' ''w'' ''no'' 5 demo_parked = Inl (work (ParkedTask ''a''))"
  using parked_task_cannot_end[of demo_parked "''a''" "(leaf ''a'' ''root'')\<lparr>Waiting := True, WaitedAt := 2\<rparr>"]
  by (simp add: trial_eval)

text \<open>C14. the search for the next task does not look at whether a task is parked, so it may hand one out; what it handed out can then not be finished by anyone, whatever the result, before it is woken.\<close>

theorem next_may_be_parked:
  assumes inv: "plan_inv s" and c: "ClaimNext uni agent now s = Inr (s', i)" and t: "task_at s i = Some t" and p: "Waiting t"
  shows "Done w i by result artifacts evidence later s' = Inl (work (ParkedTask i))"
proof -
  have "task_at s' i = Some (claimed agent [] now t)"
    using ClaimNext_result[OF inv c] t by (metis option.inject task_at_put_same)
  moreover have "ID t = i" using plan_inv_ID[OF inv t] .
  ultimately show ?thesis using parked_refused(1)[of s' i "claimed agent [] now t"] p by (simp add: claimed_def)
qed

theorem next_may_be_parked_witness:
  "\<exists>s'. ClaimNext (\<lambda>x. x) ''w'' 5 demo_parked = Inr (s', ''a'') \<and>
     Done no_runs ''a'' ''w'' ''done'' [] [] 9 s' = Inl (work (ParkedTask ''a''))"
proof -
  have "case ClaimNext (\<lambda>x. x) ''w'' 5 demo_parked of Inl e \<Rightarrow> False | Inr (s', i) \<Rightarrow> i = ''a''" by code_simp
  then obtain s' where c: "ClaimNext (\<lambda>x. x) ''w'' 5 demo_parked = Inr (s', ''a'')" by (auto split: sum.splits)
  obtain t where "task_at demo_parked ''a'' = Some t" "Waiting t" by (simp add: trial_eval)
  from next_may_be_parked[OF trial_inv(2) c this] c show ?thesis by blast
qed

text \<open>C15. a cancellation that is not refused ends exactly the tasks that were doomed when it was asked for: the task, the open work under it at any depth, and every open task with a hard dependency on a doomed or an already cancelled task; closing the composites above it afterwards cancels nothing more.\<close>

theorem cancel_ends_exactly_the_doomed:
  assumes "plan_inv s" and "Cancel i reason now s = Inr s'"
  shows "{j. (\<exists>t. task_at s j = Some t \<and> \<not> terminal (Status t)) \<and> (\<exists>t. task_at s' j = Some t \<and> Status t = StatusCancelled)} =
    {j. doomed s i j}"
  using newly_cancelled_doomed[OF assms] by (simp add: newly_cancelled_def)

theorem cancel_ends_exactly_the_doomed_witness:
  "\<exists>s'. Cancel ''a'' ''cancelled by default'' 100 demo = Inr s' \<and> (\<exists>t. task_at s' ''b'' = Some t \<and> Status t = StatusCancelled)"
proof -
  obtain s' where c: "Cancel ''a'' ''cancelled by default'' 100 demo = Inr s'" using cancel_saved by blast
  have b: "task_at demo ''b'' = Some (after_a (leaf ''b'' ''root''))" "\<not> terminal (Status (after_a (leaf ''b'' ''root'')))"
    by (simp_all add: demo_tasks after_a_def)
  have "doomed demo ''a'' (dep_TaskID \<lparr>dep_TaskID = ''a'', dep_Kind = DepFeedsInto\<rparr>)" by (simp add: doomed.self)
  from doomed.waits[OF this b] have "doomed demo ''a'' ''b''" by (simp add: after_a_def DepFeedsInto_def DepSuggests_def)
  then have "''b'' \<in> {j. (\<exists>t. task_at demo j = Some t \<and> \<not> terminal (Status t)) \<and> (\<exists>t. task_at s' j = Some t \<and> Status t = StatusCancelled)}"
    unfolding cancel_ends_exactly_the_doomed[OF demo_inv c] by simp
  with c show ?thesis by auto
qed

text \<open>C16. closing the root ends every task that was still open: the root with the status given, every other one cancelled with the reason, no claim and no owner; a task that had ended keeps its record.\<close>

theorem closed_root_ends_everything:
  assumes "closeRoot st reason now s = Inr s'" and "terminal st" and "task_at s i = Some t"
  shows "\<exists>t'. task_at s' i = Some t' \<and> terminal (Status t') \<and> (i = RootID s \<longrightarrow> Status t' = st) \<and>
    (\<not> terminal (Status t) \<longrightarrow> Error t' = TrimSpace reason \<and> ClaimedBy t' = '''' \<and> Owner t' = '''' \<and> CompletedAt t' = now \<and>
       (i \<noteq> RootID s \<longrightarrow> Status t' = StatusCancelled)) \<and> (terminal (Status t) \<and> i \<noteq> RootID s \<longrightarrow> t' = t)"
  using closeRoot_ends[OF assms] assms(2) by (auto simp: ended_def)

theorem closed_root_ends_everything_witness:
  "\<exists>s' t'. closeRoot StatusFailed ''stop'' 7 demo_held = Inr s' \<and> task_at s' ''a'' = Some t' \<and> Error t' = TrimSpace ''stop'' \<and>
     Status t' = StatusCancelled"
proof -
  have "returns (closeRoot StatusFailed ''stop'' 7 demo_held)" by code_simp
  from returnsE[OF this] obtain s' where c: "closeRoot StatusFailed ''stop'' 7 demo_held = Inr s'" by blast
  obtain t where t: "task_at demo_held ''a'' = Some t" "\<not> terminal (Status t)" and r: "''a'' \<noteq> RootID demo_held"
    by (simp add: demo_eval)
  from closed_root_ends_everything[OF c _ t(1)] t(2) r c show ?thesis by auto
qed

text \<open>C17. the leaves offered for dispatch are exactly the ready, unparked leaves with no pause above them that conflict with no held task, the most urgent first.\<close>

theorem ready_leaves_exact:
  assumes "plan_inv s"
  shows "\<exists>ts. ReadyLeaves uni s = Some ts \<and> sorted_wrt (\<lambda>t u. Priority t \<ge> Priority u) ts \<and>
    (\<forall>t. t \<in> set ts \<longleftrightarrow> (\<exists>i. task_at s i = Some t) \<and> Status t = StatusReady \<and> \<not> Composite t \<and> \<not> pausedInLineage s t \<and>
        \<not> Waiting t \<and> executionBlockReasons uni s t = [])"
  using assms by (rule ReadyLeaves_exact) (auto simp: dispatchable_def)

theorem ready_leaves_exact_witness:
  "\<exists>ts. ReadyLeaves (\<lambda>x. x) demo = Some ts \<and> (\<forall>t. t \<in> set ts \<longrightarrow> Status t = StatusReady)"
  using ready_leaves_exact[OF demo_inv, of "\<lambda>x. x"] by blast

text \<open>C18. the task handed out by the search for the next one conflicts with no task held at that moment: no shared serial lane, no exclusive isolation, no overlapping claims; and none of the tasks it passed over was more urgent.\<close>

theorem next_claim_conflicts_with_none:
  assumes inv: "plan_inv s" and c: "ClaimNext uni agent now s = Inr (s', i)"
  shows "\<exists>t. task_at s i = Some t \<and> Status t = StatusReady \<and> s' = put_task i (claimed agent [] now t) s \<and>
    (\<forall>j u. task_at s j = Some u \<and> j \<noteq> i \<and> j \<noteq> RootID s \<and> heldStatus (Status u) \<longrightarrow> \<not> executionConflict uni t u) \<and>
    (\<forall>j u. task_at s j = Some u \<and> nextable uni s u \<longrightarrow> Priority u \<le> Priority t)"
proof (rule ClaimNext_result[OF inv c])
  fix t
  assume t: "task_at s i = Some t" "nextable uni s t" "s' = put_task i (claimed agent [] now t) s"
    and p: "\<And>j u. task_at s j = Some u \<Longrightarrow> nextable uni s u \<Longrightarrow> Priority u \<le> Priority t"
  moreover have "Status t = StatusReady" using t(2) by (simp add: nextable_def dispatchable_def)
  ultimately show ?thesis using ClaimNext_no_conflict[OF inv c t(1)] by blast
qed

theorem next_claim_conflicts_with_none_witness:
  "\<exists>s' i t. ClaimNext (\<lambda>x. x) ''w'' 5 demo_free = Inr (s', i) \<and> task_at demo_free i = Some t \<and> Status t = StatusReady"
proof -
  have "returns (ClaimNext (\<lambda>x. x) ''w'' 5 demo_free)" by code_simp
  from returns_pairE[OF this] obtain s' i where "ClaimNext (\<lambda>x. x) ''w'' 5 demo_free = Inr (s', i)" by blast
  from next_claim_conflicts_with_none[OF trial_inv_more(1) this] this show ?thesis by blast
qed

text \<open>C19. an accepted batch is in the plan whole: its tasks after those that were there, in the order given, each under the parent and with the dependencies it declared, none of them under an id that was taken; and no task that was there is lost or moved.\<close>

theorem batch_is_admitted_whole:
  assumes "AddMany specs now s = Inr s'" and "specs' = map (\<lambda>spec. normalizeSpec spec (RootID s)) specs"
  shows "Order s' = Order s @ map ID specs' \<and>
    (\<forall>sp\<in>set specs'. task_at s (ID sp) = None \<and> (\<exists>t. task_at s' (ID sp) = Some t \<and> ID t = ID sp \<and>
        ParentID t = ParentID sp \<and> Dependencies t = Dependencies sp \<and> (Composite t \<longleftrightarrow> ID sp \<in> ParentID ` set specs'))) \<and>
    (\<forall>i u. task_at s i = Some u \<longrightarrow> (\<exists>t. task_at s' i = Some t \<and> ParentID t = ParentID u \<and> Dependencies t = Dependencies u))"
  using AddMany_result[OF assms] by blast

theorem batch_is_admitted_whole_witness:
  "Order run1 = Order run0 @ [''a'', ''b''] \<and> (\<exists>t. task_at run1 ''root'' = Some t \<and> ParentID t = '''')"
proof -
  have "task_at run0 ''root'' = Some (seedRoot ''p'' ''root'' ''the work'' '''' '''' 1)" by (simp add: run0_def seedState_def task_at_def)
  moreover have "map ID run_specs = [''a'', ''b'']" by (simp add: run_specs_def part_def task_spec.truncate_def leaf_def)
  moreover have "ParentID (seedRoot ''p'' ''root'' ''the work'' '''' '''' 1) = ''''" by (simp add: seedRoot_def)
  ultimately show ?thesis using batch_is_admitted_whole[OF run_steps(1) run_specs_normal] by metis
qed

text \<open>C20. on a lawful plan a check that a review adds under finished work is in the plan and open, and every task above it is open again with the result it had, provided none of them had failed or been cancelled.\<close>

theorem review_check_reopens:
  assumes inv: "plan_inv s" and c: "AddReviewCheck spec now s = Inr s'" and n: "sp = normalizeSpec spec (RootID s)"
    and live: "\<forall>j\<in>above s (ParentID sp). \<forall>u. task_at s j = Some u \<longrightarrow> Status u \<noteq> StatusFailed \<and> Status u \<noteq> StatusCancelled"
  shows "(\<exists>t. task_at s' (ID sp) = Some t \<and> ParentID t = ParentID sp \<and> \<not> terminal (Status t)) \<and>
    (\<forall>j\<in>above s (ParentID sp). \<exists>u t. task_at s j = Some u \<and> task_at s' j = Some t \<and> \<not> terminal (Status t) \<and> Result t = Result u)"
  using AddReviewCheck_reopens[OF inv c n] live by blast

theorem review_check_reopens_witness:
  "\<exists>s' t. AddReviewCheck ((part ''c'' ''a'')\<lparr>Role := RoleCheck\<rparr>) 20 demo_old = Inr s' \<and> task_at s' ''a'' = Some t \<and>
     \<not> terminal (Status t) \<and> Result t = ''it holds''"
proof -
  let ?spec = "(part ''c'' ''a'')\<lparr>Role := RoleCheck\<rparr>"
  have "returns (AddReviewCheck ?spec 20 demo_old)" by code_simp
  from returnsE[OF this] obtain s' where c: "AddReviewCheck ?spec 20 demo_old = Inr s'" by blast
  have p: "ParentID (normalizeSpec ?spec (RootID demo_old)) = ''a''" by code_simp
  have t: "task_at demo_old ''a'' = Some (ended_leaf ''a'' 10)" "task_at demo_old ''root'' = Some demo_root"
    "ParentID demo_root = ''''" "Status demo_root = StatusRunning" by (simp_all add: trial_eval)
  then have up: "above demo_old ''a'' = {''a'', ''root''}"
    by (simp add: above_unfold[where i = "''a''"] above_unfold[where i = "''root''"] ended_leaf_def leaf_def)
  then have "\<forall>j\<in>above demo_old ''a''. \<forall>u. task_at demo_old j = Some u \<longrightarrow> Status u \<noteq> StatusFailed \<and> Status u \<noteq> StatusCancelled"
    using t by (auto simp: ended_leaf_def)
  from review_check_reopens[OF trial_inv(1) c refl, unfolded p, OF this] up t(1) c show ?thesis
    by (auto simp: ended_leaf_def)
qed

text \<open>C21. on a lawful plan, adding a review check that does not depend on itself panics exactly when the check passes every refusal and has a hard dependency that names no task of the plan, where the cycle search reads a nil task: the walk that reopens what lies above the check always reaches the root, the search for cycles always comes to an end, and in every other case the answer is the new plan or a reason for the refusal.\<close>

theorem review_check_panics:
  assumes "plan_inv s" and "sp = normalizeSpec spec (RootID s)" and "\<forall>d\<in>set (Dependencies sp). dep_TaskID d \<noteq> ID sp"
  shows "(AddReviewCheck spec now s = Inl NilDeref \<longleftrightarrow>
    validateSpec sp = None \<and> validateCheckDeclarations (Checks sp) = None \<and> Role sp = RoleCheck \<and>
    task_at s (ID sp) = None \<and> task_at s (ParentID sp) \<noteq> None \<and>
      (\<exists>d\<in>set (Dependencies sp). dep_Kind d \<noteq> DepSuggests \<and> task_at s (dep_TaskID d) = None)) \<and>
    AddReviewCheck spec now s \<noteq> Inl (GraphRefused (DependencyGraph GraphFuel)) \<and>
    AddReviewCheck spec now s \<noteq> Inl (GraphRefused (ContainmentGraph GraphFuel))"
  unfolding AddReviewCheck_panics[OF assms] seatable_def using AddReviewCheck_fuel by blast

theorem review_check_panics_witness:
  "AddReviewCheck ((part ''c'' ''a'')\<lparr>Role := RoleCheck, Dependencies := [\<lparr>dep_TaskID = ''zz'', dep_Kind = ''''\<rparr>]\<rparr>) 20 demo_old = Inl NilDeref \<and>
   AddReviewCheck (part ''c'' ''a'') 20 demo_old \<noteq> Inl NilDeref"
proof
  let ?spec = "(part ''c'' ''a'')\<lparr>Role := RoleCheck, Dependencies := [\<lparr>dep_TaskID = ''zz'', dep_Kind = ''''\<rparr>]\<rparr>"
  define sp where sp: "sp = normalizeSpec ?spec (RootID demo_old)"
  have d: "Dependencies sp = [\<lparr>dep_TaskID = ''zz'', dep_Kind = DepFeedsInto\<rparr>]" "ID sp = ''c''" unfolding sp by code_simp+
  have v: "validateSpec sp = None" "validateCheckDeclarations (Checks sp) = None" "Role sp = RoleCheck"
    "task_at demo_old (ID sp) = None" "task_at demo_old (ParentID sp) \<noteq> None" "task_at demo_old ''zz'' = None" unfolding sp by code_simp+
  have "\<forall>d\<in>set (Dependencies sp). dep_TaskID d \<noteq> ID sp" by (simp add: d)
  from review_check_panics[OF trial_inv(1) sp this, of 20] v show "AddReviewCheck ?spec 20 demo_old = Inl NilDeref"
    by (simp add: d DepFeedsInto_def DepSuggests_def)
  have "Dependencies (normalizeSpec (part ''c'' ''a'') (RootID demo_old)) = []" by code_simp
  then show "AddReviewCheck (part ''c'' ''a'') 20 demo_old \<noteq> Inl NilDeref"
    using review_check_panics[OF trial_inv(1) refl, of "part ''c'' ''a''" 20] by simp
qed

text \<open>C22. an amendment is bounded on its own but not together with the text it is put before: what it leaves of a lawful plan can be loaded again exactly when the amended task is the root, whose description no load checks, or when the two texts and the blank line between them stay within the limit of a description.\<close>

theorem amendment_may_outgrow_plan:
  assumes "plan_inv s" and "Amend i words now s = Inr s'" and "task_at s i = Some t"
  shows "validateLoadedState s' = None \<longleftrightarrow> i = RootID s \<or> length (TrimSpace words) + 2 + length (Description t) \<le> 32768"
proof -
  have "plan_inv s' \<longleftrightarrow> validateLoadedState s' = None"
    using assms(1-3) by (auto simp: Amend_def plan_inv_def upd_task_def put_task_def rep_ok_def distinct_update)
  then show ?thesis using Amend_loads_iff[OF assms] by simp
qed

theorem amendment_may_outgrow_plan_witness: "\<exists>s'. Amend ''a'' ''more'' 5 demo = Inr s' \<and> validateLoadedState s' = None"
proof -
  have "returns (Amend ''a'' ''more'' 5 demo)" by code_simp
  from returnsE[OF this] obtain s' where c: "Amend ''a'' ''more'' 5 demo = Inr s'" by blast
  have "length (TrimSpace ''more'') + 2 + length (Description (leaf ''a'' ''root'')) \<le> 32768" by code_simp
  then have "validateLoadedState s' = None" using amendment_may_outgrow_plan[OF demo_inv c demo_tasks(1)] by blast
  with c show ?thesis by blast
qed

text \<open>C23. a revision of work that has started or ended goes through only where it changes nothing but the question, and then the status, description, checks, acceptance and priority are as they were; anything else is refused.\<close>

theorem started_work_is_frozen:
  assumes t: "task_at s i = Some t" and started: "Status t \<noteq> StatusPending" "Status t \<noteq> StatusReady"
  shows "(\<not> questionOnlyPatch p \<longrightarrow> Revise i p now s = Inl (work (OnlyBeforeExecution i))) \<and>
    (\<forall>s'. Revise i p now s = Inr s' \<longrightarrow> (\<exists>t'. task_at s' i = Some t' \<and> Status t' = Status t \<and> Description t' = Description t \<and>
      Checks t' = Checks t \<and> Acceptance t' = Acceptance t \<and> Priority t' = Priority t \<and> Question t' = the (p_Question p)))"
proof (intro conjI allI impI)
  assume "\<not> questionOnlyPatch p"
  then show "Revise i p now s = Inl (work (OnlyBeforeExecution i))"
    using t started by (simp add: Revise_def changeTask_def refuse_def orFail_def)
next
  fix s' assume "Revise i p now s = Inr s'"
  from Revise_frozen[OF this t started]
  show "\<exists>t'. task_at s' i = Some t' \<and> Status t' = Status t \<and> Description t' = Description t \<and>
      Checks t' = Checks t \<and> Acceptance t' = Acceptance t \<and> Priority t' = Priority t \<and> Question t' = the (p_Question p)" by blast
qed

theorem started_work_is_frozen_witness:
  "Revise ''a'' (no_patch\<lparr>p_Title := Some ''x''\<rparr>) 5 demo_free = Inl (work (OnlyBeforeExecution ''a'')) \<and>
   (\<exists>s' t'. Revise ''a'' (no_patch\<lparr>p_Question := Some ''why''\<rparr>) 5 demo_free = Inr s' \<and> task_at s' ''a'' = Some t' \<and> Question t' = ''why'')"
proof -
  obtain t where t: "task_at demo_free ''a'' = Some t" "Status t \<noteq> StatusPending" "Status t \<noteq> StatusReady" by (simp add: trial_eval)
  note w = started_work_is_frozen[OF t]
  have "\<not> questionOnlyPatch (no_patch\<lparr>p_Title := Some ''x''\<rparr>)" by (simp add: questionOnlyPatch_def no_patch_def)
  with w have r: "Revise ''a'' (no_patch\<lparr>p_Title := Some ''x''\<rparr>) 5 demo_free = Inl (work (OnlyBeforeExecution ''a''))" by blast
  have "validateSpec (revised demo_free (no_patch\<lparr>p_Question := Some ''why''\<rparr>) (the (task_at demo_free ''a''))) = None" by code_simp
  with t(1) have "\<exists>s'. Revise ''a'' (no_patch\<lparr>p_Question := Some ''why''\<rparr>) 5 demo_free = Inr s'"
    by (simp add: Revise_def changeTask_def questionOnlyPatch_def no_patch_def)
  then obtain s' where c: "Revise ''a'' (no_patch\<lparr>p_Question := Some ''why''\<rparr>) 5 demo_free = Inr s'" by blast
  have "the (p_Question (no_patch\<lparr>p_Question := Some ''why''\<rparr>)) = ''why''" by simp
  with w c r show ?thesis by metis
qed

text \<open>C24. deleting a task takes every task below it, live or archived, out of the plan for good: the deleted ids are tombstones, their archived rows and no others leave the archive, no surviving task depends on one of them, an open survivor that did so by a hard dependency is cancelled, an ended one keeps its result, and the next load reads the plan the handle then holds. This is where the archive names each task once and holds no record under the id of a live task that has another parent there, which an archived id taken again can break.\<close>

theorem deleted_subtree_is_gone:
  assumes l: "loadState db = Inr s" "loadArchived (t_archived db) = Inr archived"
    and key: "distinct (map ID archived)" and ag: "archive_agrees s archived"
    and r: "DeleteSubtree w i now st db = (Inr ids, st', db')"
  shows "plan_inv (data st') \<and> bareTaskID i \<in> set ids \<and> Deleted (data st') = Deleted s \<union> set ids \<and>
    (\<forall>k. task_at (data st') k \<noteq> None \<longleftrightarrow> task_at s k \<noteq> None \<and> k \<notin> set ids) \<and>
    (\<forall>k t. task_at s k = Some t \<and> ParentID t \<in> set ids \<longrightarrow> k \<in> set ids) \<and>
    (\<forall>t\<in>set archived. ParentID t \<in> set ids \<longrightarrow> ID t \<in> set ids) \<and>
    t_archived db' = filter (\<lambda>row. r_id row \<notin> set ids) (t_archived db) \<and>
    (\<forall>k t'. task_at (data st') k = Some t' \<longrightarrow> (\<forall>d\<in>set (Dependencies t'). dep_TaskID d \<notin> set ids)) \<and>
    (\<forall>k t d. task_at s k = Some t \<and> k \<notin> set ids \<and> \<not> terminal (Status t) \<and> d \<in> set (Dependencies t) \<and>
      dep_TaskID d \<in> set ids \<and> dep_Kind d \<noteq> DepSuggests \<longrightarrow> (\<exists>t'. task_at (data st') k = Some t' \<and> Status t' = StatusCancelled)) \<and>
    (\<forall>k t. task_at s k = Some t \<and> k \<notin> set ids \<and> terminal (Status t) \<longrightarrow>
      (\<exists>t'. task_at (data st') k = Some t' \<and> Status t' = Status t \<and> Result t' = Result t \<and> CompletedAt t' = CompletedAt t)) \<and>
    (\<exists>s2. loadState db' = Inr s2 \<and> reads_back (data st') s2)"
proof -
  have inv: "plan_inv s" using loadState_accepts[OF l(1)] by simp
  from r l obtain d: "deleteRecords (bareTaskID i) now archived s = Inr (data st', ids)"
    and sv: "saveState (data st') (forget ids db) = Inr db'" by (auto elim: DeleteSubtree_cases)
  note g = deleteRecords_result[OF inv d ag]
  show ?thesis
    by (intro conjI allI impI ballI; (elim conjE)?)
      (fact deleteRecords_inv[OF inv d ag] g(1) g(2) g(3) DeleteSubtree_result(5)[OF inv d ag sv] DeleteSubtree_result(1)[OF inv d ag sv]
      | rule g(4) g(6) g(7) deleteRecords_archived[OF inv d ag key]; assumption | use g(5) in blast)+
qed

theorem deleted_subtree_is_gone_witness:
  "\<exists>st' db' ids t'. DeleteSubtree all_well ''a'' 5 handle below_db = (Inr ids, st', db') \<and> t_archived db' = [] \<and>
     {''a'', ''old''} \<subseteq> Deleted (data st') \<and> task_at (data st') ''a'' = None \<and>
     task_at (data st') ''b'' = Some t' \<and> Status t' = StatusCancelled"
proof -
  have l: "loadState below_db = Inr demo" unfolding below_db_def using demo_loads by (simp add: loadState_archive)
  obtain u where a: "loadArchived (t_archived below_db) = Inr [u]" "ID u = ''old''" "ParentID u = ''a''" by (rule below_archived)
  have "case fst (DeleteSubtree all_well ''a'' 5 handle below_db) of Inl e \<Rightarrow> False | Inr ids \<Rightarrow> ids = [''a'', ''old'']" by code_simp
  then obtain st' db' where d: "DeleteSubtree all_well ''a'' 5 handle below_db = (Inr [''a'', ''old''], st', db')"
    by (cases "DeleteSubtree all_well ''a'' 5 handle below_db") (auto split: sum.splits)
  have k: "distinct (map ID [u])" "archive_agrees demo [u]" using a(2) by (auto simp: archive_agrees_def demo_eval)
  note w = deleted_subtree_is_gone[OF l a(1) k d]
  let ?d = "\<lparr>dep_TaskID = ''a'', dep_Kind = DepFeedsInto\<rparr>"
  have b: "\<not> terminal (Status (after_a (leaf ''b'' ''root'')))" "?d \<in> set (Dependencies (after_a (leaf ''b'' ''root'')))"
    "dep_TaskID ?d \<in> set [''a'', ''old'']" "dep_Kind ?d \<noteq> DepSuggests" "''b'' \<notin> set [''a'', ''old'']"
    by (simp_all add: after_a_def DepFeedsInto_def DepSuggests_def)
  then have "\<exists>t'. task_at (data st') ''b'' = Some t' \<and> Status t' = StatusCancelled" using w demo_tasks(2) by blast
  moreover from w have "t_archived db' = filter (\<lambda>row. r_id row \<notin> set [''a'', ''old'']) (t_archived below_db)" by blast
  then have "t_archived db' = []"
    by (simp add: below_db_def archivedRow_def taskRow_def task_row.defs archived_row.defs ended_leaf_def leaf_def)
  moreover from w have "Deleted (data st') = Deleted demo \<union> set [''a'', ''old'']" by blast
  then have "{''a'', ''old''} \<subseteq> Deleted (data st')" by simp
  moreover from w have "task_at (data st') ''a'' \<noteq> None \<longleftrightarrow> task_at demo ''a'' \<noteq> None \<and> ''a'' \<notin> set [''a'', ''old'']" by blast
  then have "task_at (data st') ''a'' = None" by simp
  ultimately show ?thesis using d by blast
qed

text \<open>C25. archiving a lawful plan moves only subtrees that have ended and are old enough, never the root; each task moved is one of the plan as it was, stamped with the moment, and is no longer in the plan; every other task stays as it was but for its composite flag, none is lost, no task that stays depends on one that left, and what is left is a lawful plan.\<close>

theorem archive_moves_finished_work:
  assumes inv: "plan_inv s" and run: "Archive olderThan now s = Some (s', moved)"
  shows "plan_inv s' \<and> (\<forall>t\<in>set moved. terminal (Status t) \<and> moment t < now - olderThan \<and> ArchivedAt t = now) \<and>
    (\<forall>u\<in>set moved. \<exists>t. task_at s (ID u) = Some t \<and> u = t\<lparr>ArchivedAt := now\<rparr> \<and> task_at s' (ID u) = None) \<and>
    (task_at s' (RootID s) \<noteq> None \<longleftrightarrow> task_at s (RootID s) \<noteq> None) \<and>
    (\<forall>i t. task_at s i = Some t \<longrightarrow> (\<exists>t'. task_at s' i = Some t' \<and> t' = t\<lparr>Composite := Composite t'\<rparr>) \<or>
      t\<lparr>ArchivedAt := now\<rparr> \<in> set moved) \<and>
    (\<forall>i t' d. task_at s' i = Some t' \<and> d \<in> set (Dependencies t') \<longrightarrow> task_at s' (dep_TaskID d) \<noteq> None)"
  by (intro conjI allI impI ballI) (use Archive_inv[OF inv run] in blast)+

theorem archive_moves_finished_work_witness:
  "\<exists>s' moved. Archive 5 100 demo_old = Some (s', moved) \<and> plan_inv s' \<and> (\<forall>t\<in>set moved. terminal (Status t) \<and> moment t < 95)"
proof -
  have "Archive 5 100 demo_old \<noteq> None" by code_simp
  then obtain s' moved where a: "Archive 5 100 demo_old = Some (s', moved)" by auto
  from archive_moves_finished_work[OF trial_inv(1) a] a show ?thesis by auto
qed

text \<open>C26. adding a batch does not look at the archive: whatever rows the archive holds, the same batch is answered the same way, so an id that is in the archive is no reason to refuse a task. And once a sweep would archive a task whose id is in the archive, the whole sweep is refused by the archive's primary key: no task is moved and the database stays as it was.\<close>

theorem archived_id_blocks_archive:
  assumes l: "loadState db = Inr s" and a: "Archive olderThan now s = Some (s', moved)"
    and clash: "t \<in> set moved" "ID t \<in> set (map r_id (t_archived db))"
  shows "(\<forall>rows. fst (transact loadState saveState w (AddMany specs at) st (db\<lparr>t_archived := rows\<rparr>)) =
      fst (transact loadState saveState w (AddMany specs at) st db)) \<and> (\<exists>e. fst (ArchiveTx w olderThan now st db) = Inl e) \<and> snd (snd (ArchiveTx w olderThan now st db)) = db"
proof -
  have "\<exists>e. fst (ArchiveTx w olderThan now st db) = Inl e"
    using l a insertArchived_clash[OF clash]
    by (auto simp: ArchiveTx_def andThen_def split: option.splits sum.splits)
  moreover from this have "snd (snd (ArchiveTx w olderThan now st db)) = db"
    using ArchiveTx_error by (metis prod.collapse)
  ultimately show ?thesis using transact_archive_unread by blast
qed

theorem archived_id_blocks_archive_witness:
  "map r_id (t_archived clash_db) = [''b'', ''c''] \<and> (\<exists>e. fst (ArchiveTx all_well 5 100 handle clash_db) = Inl e) \<and>
   fst (transact loadState saveState all_well (AddMany [part ''c'' ''root''] 20) handle clash_db) = None"
proof -
  have "case loadState clash_db of Inl e \<Rightarrow> False | Inr s \<Rightarrow> (case Archive 5 100 s of None \<Rightarrow> False
      | Some (s', moved) \<Rightarrow> list_ex (\<lambda>t. ID t = ''b'') moved)" by code_simp
  then obtain s s' moved where l: "loadState clash_db = Inr s" "Archive 5 100 s = Some (s', moved)" "list_ex (\<lambda>t. ID t = ''b'') moved"
    by (auto split: sum.splits option.splits)
  then obtain t where t: "t \<in> set moved" "ID t = ''b''" by (auto simp: list_ex_iff)
  have "''b'' \<in> set (map r_id (t_archived clash_db))"
    by (simp add: clash_db_def archivedRow_def taskRow_def task_row.defs leaf_def ended_leaf_def)
  with t(2) have "ID t \<in> set (map r_id (t_archived clash_db))" by simp
  note w = archived_id_blocks_archive[OF l(1,2) t(1) this]
  have "fst (transact loadState saveState all_well (AddMany [part ''c'' ''root''] 20) handle (saved_db demo_old)) = None" by code_simp
  moreover have "clash_db\<lparr>t_archived := t_archived (saved_db demo_old)\<rparr> = saved_db demo_old" by (simp add: clash_db_def)
  ultimately have "fst (transact loadState saveState all_well (AddMany [part ''c'' ''root''] 20) handle clash_db) = None"
    using w[where specs = "[part ''c'' ''root'']" and at = 20] by metis
  moreover have "map r_id (t_archived clash_db) = [''b'', ''c'']"
    by (simp add: clash_db_def archivedRow_def taskRow_def task_row.defs archived_row.defs leaf_def ended_leaf_def)
  ultimately show ?thesis using w by blast
qed

text \<open>C27. a handle is opened on a lawful plan and is not closed; the plan is the run asked for and the project asked for, and a path that is a symbolic link is refused. Where a plan was found, before the lock or under it, that is the plan held and the database is left as it was; only where there was none is one written, and it is the new plan the handle holds.\<close>

theorem opened_plan_is_lawful:
  assumes "Open w path opens project runID title description chat now seen db = Inr (st, db')"
  shows "plan_inv (data st) \<and> \<not> closed st \<and> path \<noteq> Symlink \<and> (path = Missing \<longrightarrow> TrimSpace project \<noteq> '''' \<and> validID runID) \<and>
    (runID \<noteq> '''' \<longrightarrow> RootID (data st) = runID) \<and> (project \<noteq> '''' \<longrightarrow> PlanProject (data st) = project) \<and>
    (db' = db \<and> (loadState seen = Inr (data st) \<or> loadState db = Inr (data st)) \<or>
     loadState seen = Inl ErrNoStore \<and> loadState db = Inl ErrNoStore \<and> saveState (data st) db = Inr db' \<and>
     data st = seedState project runID title description (case chat of [] \<Rightarrow> '''' | c # _ \<Rightarrow> TrimSpace c) now)"
  by (intro conjI impI; (rule Open_writes[OF assms])?) (use Open_result[OF assms] in blast)+

theorem opened_plan_is_lawful_witness:
  "\<exists>st db'. Open all_well Missing True ''p'' ''root'' ''the work'' '''' [] 1 no_db no_db = Inr (st, db') \<and>
     plan_inv (data st) \<and> RootID (data st) = ''root''"
proof -
  have "returns (Open all_well Missing True ''p'' ''root'' ''the work'' '''' [] 1 no_db no_db)" by code_simp
  from returns_pairE[OF this] obtain st db' where
    o: "Open all_well Missing True ''p'' ''root'' ''the work'' '''' [] 1 no_db no_db = Inr (st, db')" by blast
  from opened_plan_is_lawful[OF o] o show ?thesis by auto
qed

text \<open>C28. a word names a task exactly when it is its id, with or without the prefix, or when it is the id of none and the start of exactly one id other than the root's; a word that starts several is refused.\<close>

theorem resolve_is_unambiguous:
  assumes "plan_inv s"
  shows "Resolve word s = Inr t \<longleftrightarrow> task_at s (TrimPrefix word ''t-'') = Some t \<or>
    task_at s (TrimPrefix word ''t-'') = None \<and>
      (\<exists>i. task_at s i = Some t \<and> {j. task_at s j \<noteq> None \<and> j \<noteq> RootID s \<and> resolves word j} = {i})"
  using assms by (rule Resolve_exact)

theorem resolve_is_unambiguous_witness: "Resolve ''t-a'' demo = Inr (leaf ''a'' ''root'')"
proof -
  have "TrimPrefix ''t-a'' ''t-'' = ''a''" by code_simp
  then show ?thesis using resolve_is_unambiguous[OF demo_inv, of "''t-a''" "leaf ''a'' ''root''"] demo_tasks(1) by simp
qed

text \<open>C29. the critical path is a chain of hard dependencies, and no chain of hard dependencies of the plan is longer.\<close>

theorem critical_path_is_longest:
  assumes "plan_inv s"
  shows "hard_chain s (criticalIDs s) \<and> (\<forall>c. hard_chain s c \<longrightarrow> length c \<le> length (criticalIDs s))"
  using criticalIDs_longest[OF assms] by blast

theorem critical_path_is_longest_witness: "length (criticalIDs demo) \<ge> 2"
proof -
  have "(''b'', ''a'') \<in> hard_rel demo" by (simp add: demo_hard)
  then have "hard_chain demo [''a'', ''b'']" by (simp add: hard_chain_def) (simp add: demo_eval)
  with critical_path_is_longest[OF demo_inv] show ?thesis by fastforce
qed

text \<open>C30. the counter mints ids: while it has room, adding a note keeps every note and every context entry under an id of its own that the counter has passed, and the new note is the last one, under the next id in eight hexadecimal digits or more.\<close>

theorem minted_ids_stay_fresh:
  assumes "minted s" and "unat (NextID s) < 2 ^ 64 - 1"
  shows "(\<forall>s' n. addNote i agent body from now s = Inr (s', n) \<longrightarrow>
      minted s' \<and> note_ID n = ''n-'' @ hex8 (Suc (unat (NextID s))) \<and> Notes s' = Notes s @ [n]) \<and>
    (\<forall>s' e. AddContext j kind content now s = Inr (s', e) \<longrightarrow>
      minted s' \<and> Contexts s' = Contexts s @ [e] \<and> length (Contexts s') \<le> 4096)"
  by (intro conjI allI impI addNote_minted[OF assms] AddContext_minted[OF assms])

theorem minted_ids_stay_fresh_witness:
  "\<exists>s' n. addNote ''a'' ''w'' ''look'' ''worker'' 4 demo = Inr (s', n) \<and> note_ID n = ''n-'' @ hex8 (Suc (unat (NextID demo))) \<and> minted s'"
proof -
  have "minted demo" "unat (NextID demo) < 2 ^ 64 - 1" by (simp_all add: minted_def demo_eval)
  note w = minted_ids_stay_fresh[OF this]
  have "returns (addNote ''a'' ''w'' ''look'' ''worker'' 4 demo)" by code_simp
  from returns_pairE[OF this] obtain s' n where c: "addNote ''a'' ''w'' ''look'' ''worker'' 4 demo = Inr (s', n)" by blast
  with w show ?thesis by blast
qed

text \<open>C31. the lines of a spend report are one per key that has charges in the window, each the sum of exactly the charges of its key, dollars in the order they were read and tokens as Go adds them, in 64 bits that wrap around; and the calls of the lines add up to the charges that were read. The handle is open, the read does not fail, the axis is one the store knows, and every charge has a moment that reads.\<close>

theorem spend_lines_add_up:
  assumes "\<not> closed st" and "io_read w" and "axis \<in> set spendAxes" and "\<forall>s\<in>set (t_spend db). s_at s \<noteq> Unreadable"
  shows "(\<forall>l. l \<in> set (SpendBy m w axis since st db) \<longleftrightarrow>
      (\<exists>k. chargesOf since k (rowsBy axis db) \<noteq> [] \<and> l = mirror axis (lineFor m k (chargesOf since k (rowsBy axis db))))) \<and>
    distinct (map sl_Key (SpendBy m w axis since st db)) \<and>
    sum_list (map sl_Calls (SpendBy m w axis since st db)) = int (length (filter (\<lambda>(k, s). inWindow since s) (rowsBy axis db)))"
  by (intro conjI allI SpendBy_exact(1,2)[OF assms] SpendBy_adds_up[OF assms])

theorem spend_lines_add_up_witness:
  "distinct (map sl_Key (SpendBy cents all_well ''model'' 0 handle spent_db)) \<and>
   sum_list (map sl_Calls (SpendBy cents all_well ''model'' 0 handle spent_db)) = 3"
proof -
  have h: "\<not> closed handle" "io_read all_well" "''model'' \<in> set spendAxes" "\<forall>s\<in>set (t_spend spent_db). s_at s \<noteq> Unreadable"
    by (simp_all add: handle_def all_well_def spendAxes_def spent_db_def no_db_def formatTime_def)
  have "length (rowsBy ''model'' spent_db) = 3" by code_simp
  then have "length (filter (\<lambda>(k, s). inWindow 0 s) (rowsBy ''model'' spent_db)) = 3" by (simp add: inWindow_def split_def)
  with spend_lines_add_up[OF h] show ?thesis by simp
qed

text \<open>C32. the two lists what-if cancel prints, with the task itself, name every task the cancellation would end and no other, each once, although the preview walks levels and rounds over one snapshot and the store loops over a changing plan.\<close>

theorem preview_lists_what_cancel_ends:
  assumes "plan_inv s" and "Cancel i reason now s = Inr s'" and "TasksOf [] s = Some ts"
    and "previewIn (subtreeIn ts i False) ts i = (desc, deps)"
  shows "newly_cancelled s s' = set (i # map ID desc @ map ID deps) \<and> distinct (i # map ID desc @ map ID deps)"
  by (rule Cancel_preview[OF assms])

theorem preview_lists_what_cancel_ends_witness:
  "\<exists>s' ts desc deps. TasksOf [] demo = Some ts \<and> previewIn (subtreeIn ts ''a'' False) ts ''a'' = (desc, deps) \<and>
     newly_cancelled demo s' = set (''a'' # map ID desc @ map ID deps)"
proof -
  obtain s' where c: "Cancel ''a'' ''cancelled by default'' 100 demo = Inr s'" using cancel_saved by blast
  obtain ts where t: "TasksOf [] demo = Some ts" by (rule snapshot_TasksOf[OF demo_inv])
  obtain desc deps where p: "previewIn (subtreeIn ts ''a'' False) ts ''a'' = (desc, deps)" by fastforce
  from preview_lists_what_cancel_ends[OF demo_inv c t p] t p show ?thesis by blast
qed

text \<open>C33. while no other process writes and no read fails, a run of task cancel without --json, --help or --version that exits with 0 prints one line, whose number is the number of tasks that were open before the run and are cancelled in the database after it, and those are the doomed ones.\<close>

theorem cancel_run_prints_what_it_ended:
  assumes "calm e" and "cliScan argv = Inr p" "\<not> bools p ''version''" "\<not> bools p ''help''" "\<not> bools p ''json''"
    and "pos p = ''task'' # ''cancel'' # word # rest"
    and "loadState (dbs (cliStorePath e p)) = Inr s" and "f_exit (Main e argv dbs) = Some 0"
  shows "\<exists>t s'. Resolve word s = Inr t \<and> loadState (f_dbs (Main e argv dbs) (cliStorePath e p)) = Inr s' \<and>
    newly_cancelled s s' = {j. doomed s (ID t) j} \<and>
    f_out (Main e argv dbs) = [Line (''cancelled rows='' @ num (card (newly_cancelled s s')))]"
  by (rule run_cancel[OF assms])

theorem cancel_run_prints_what_it_ended_witness:
  "\<exists>s'. f_out (Main calm_env cancel_words (\<lambda>_. saved_db demo)) = [Line (''cancelled rows='' @ num (card (newly_cancelled demo s')))]"
proof -
  obtain p where p: "cliScan cancel_words = Inr p" "pos p = [''task'', ''cancel'', ''t-a'']" "\<not> bools p ''version''" "\<not> bools p ''help''"
    "\<not> bools p ''json''" using cancel_scan by blast
  from cancel_run_prints_what_it_ended[where dbs = "\<lambda>_. saved_db demo", OF calm_trial(1) p(1,3,4,5,2) demo_loads cancel_exits]
  show ?thesis by blast
qed

text \<open>C34. while no other process writes and no read fails, a run of task insert with --after and --before and without --json, --help or --version, on a plan whose root has a valid id, that exits with 0 adds one task under the parent of the first, makes it wait on the first and the second wait on it, lifts the direct edge between the two, and leaves every other edge and parent of the plan as it was.\<close>

theorem insert_goes_between:
  assumes "calm e" and "cliScan argv = Inr p" "\<not> bools p ''version''" "\<not> bools p ''help''" "\<not> bools p ''json''"
    and "pos p = ''task'' # ''insert'' # rest" "vals p ''before'' \<noteq> ''''"
    and "loadState (dbs (cliStorePath e p)) = Inr s" "validID (RootID s)" and "f_exit (Main e argv dbs) = Some 0"
  shows "\<exists>up bf N s'. Resolve (vals p ''after'') s = Inr up \<and> Resolve (vals p ''before'') s = Inr bf \<and> task_at s N = None \<and>
    loadState (f_dbs (Main e argv dbs) (cliStorePath e p)) = Inr s' \<and> f_out (Main e argv dbs) = [Line (''inserted '' @ cliID N)] \<and>
    depsAt s' = (depsAt s)(N \<mapsto> [\<lparr>dep_TaskID = ID up, dep_Kind = DepFeedsInto\<rparr>],
       ID bf \<mapsto> filter (\<lambda>d. dep_TaskID d \<noteq> ID up) (Dependencies bf) @ [\<lparr>dep_TaskID = N, dep_Kind = DepFeedsInto\<rparr>]) \<and>
    parentAt s' = (parentAt s)(N \<mapsto> orElse (bareID (ParentID up)) (RootID s))"
  by (rule run_insert[OF assms])

theorem insert_goes_between_witness:
  "\<exists>N s'. f_out (Main calm_env insert_words (\<lambda>_. saved_db demo)) = [Line (''inserted '' @ cliID N)] \<and>
    (\<exists>(up :: task) (bf :: task). depsAt s' = (depsAt demo)(N \<mapsto> [\<lparr>dep_TaskID = ID up, dep_Kind = DepFeedsInto\<rparr>],
       ID bf \<mapsto> filter (\<lambda>d. dep_TaskID d \<noteq> ID up) (Dependencies bf) @ [\<lparr>dep_TaskID = N, dep_Kind = DepFeedsInto\<rparr>]))"
proof -
  obtain p where p: "cliScan insert_words = Inr p" "pos p = [''task'', ''insert'']" "vals p ''before'' = ''b''" "\<not> bools p ''version''"
    "\<not> bools p ''help''" "\<not> bools p ''json''" using insert_scan by blast
  have b: "vals p ''before'' \<noteq> ''''" using p(3) by simp
  have r: "validID (RootID demo)" unfolding demo_tasks(5) by (simp add: spec_eval)
  obtain up bf :: task and N s' where f: "f_out (Main calm_env insert_words (\<lambda>_. saved_db demo)) = [Line (''inserted '' @ cliID N)]"
    "depsAt s' = (depsAt demo)(N \<mapsto> [\<lparr>dep_TaskID = ID up, dep_Kind = DepFeedsInto\<rparr>],
       ID bf \<mapsto> filter (\<lambda>d. dep_TaskID d \<noteq> ID up) (Dependencies bf) @ [\<lparr>dep_TaskID = N, dep_Kind = DepFeedsInto\<rparr>])"
    using insert_goes_between[where dbs = "\<lambda>_. saved_db demo", OF calm_trial(1) p(1,4,5,6,2) b demo_loads r insert_exits]
    by blast
  then show ?thesis by blast
qed

text \<open>C35. a run of any other verb but init, task amend, task set-checks and task add-dep with a kind that is none of the three, whatever its words, wherever it stops and whatever lawful writes other processes make between its calls, leaves a database the next load accepts, of the same run and project, and touches no other file.\<close>

theorem writing_run_keeps_its_plan:
  assumes "cliScan argv = Inr p" and "\<not> riskyVerb p" and "pos p = [] \<or> nth_pos p 0 \<noteq> ''init''"
    and "steady e (holds_run root project)" and "holds_run root project (dbs (cliStorePath e p))"
  shows "holds_run root project (f_dbs (Main e argv dbs) (cliStorePath e p)) \<and>
    (\<forall>y. y \<noteq> cliStorePath e p \<longrightarrow> f_dbs (Main e argv dbs) y = dbs y)"
  by (rule run_writing[where dbs = dbs and e = e and p = p, OF assms])

theorem writing_run_keeps_its_plan_witness:
  "\<exists>s. loadState (f_dbs (Main calm_env cancel_words (\<lambda>_. saved_db demo)) ''plan.db'') = Inr s \<and> RootID s = ''root''"
proof -
  obtain p where p: "cliScan cancel_words = Inr p" "pos p = [''task'', ''cancel'', ''t-a'']" "vals p ''db'' = ''plan.db''" using cancel_scan by blast
  have path: "cliStorePath calm_env p = ''plan.db''" by (simp add: cliStorePath_def p)
  have r: "\<not> riskyVerb p" "pos p = [] \<or> nth_pos p 0 \<noteq> ''init''" by (simp_all add: riskyVerb_def nth_pos_def p)
  have st: "steady calm_env (holds_run ''root'' ''p'')" by (simp add: steady_def calm_env_def)
  have h: "holds_run ''root'' ''p'' (saved_db demo)" by (unfold holds_run_def, intro conjI exI[of _ demo]) (simp_all add: demo_loads demo_tasks(5) spec_eval, simp_all add: demo_eval)
  from writing_run_keeps_its_plan[where dbs = "\<lambda>_. saved_db demo" and root = "''root''" and project = "''p''" and e = calm_env and p = p,
      OF p(1) r st h] have "holds_run ''root'' ''p'' (f_dbs (Main calm_env cancel_words (\<lambda>_. saved_db demo)) ''plan.db'')"
    unfolding path by (rule conjunct1)
  then show ?thesis unfolding holds_run_def by blast
qed

text \<open>C36. a run of a verb that reads (list, status, spend, search, contexts, critical-path, bottlenecks, show, what-if, task get, task notes, task overview, help, or no verb at all), whatever its flags and however it ends, leaves every database as it was while no other process writes.\<close>

theorem reading_run_changes_nothing:
  assumes "cliScan argv = Inr p" and "readingVerb p" and "\<And>n db. e_others e n db = db"
  shows "f_dbs (Main e argv dbs) = dbs"
  by (rule run_reading[OF assms])

theorem reading_run_changes_nothing_witness:
  "\<exists>p. cliScan [''what-if'', ''cancel'', ''a'', ''--json''] = Inr p \<and> f_dbs (Main calm_env [''what-if'', ''cancel'', ''a'', ''--json''] (\<lambda>_. saved_db demo)) = (\<lambda>_. saved_db demo)"
proof -
  have "case cliScan [''what-if'', ''cancel'', ''a'', ''--json''] of Inl er \<Rightarrow> False | Inr p \<Rightarrow> pos p = [''what-if'', ''cancel'', ''a'']" by code_simp
  then obtain p where p: "cliScan [''what-if'', ''cancel'', ''a'', ''--json''] = Inr p" "pos p = [''what-if'', ''cancel'', ''a'']"
    by (auto split: sum.splits)
  have r: "readingVerb p" by (simp add: readingVerb_def p)
  from reading_run_changes_nothing[OF p(1) r, of calm_env] p show ?thesis by (simp add: calm_env_def)
qed

text \<open>C37. while no other process writes, an init that exits with 0 leaves at the path it chose a plan of the project it was named, whose one task is the run's root, running and claimed by the runtime with the description as given, and touches no other file.\<close>

theorem init_seeds_its_run:
  assumes "cliScan argv = Inr p" "\<not> bools p ''version''" "\<not> bools p ''help''" "pos p = ''init'' # name # rest"
    and "initPath e p = Inr path" and "loadState (dbs path) = Inl ErrNoStore"
    and "\<And>n db. e_others e n db = db" and "f_exit (Main e argv dbs) = Some 0"
  shows "(\<exists>s. loadState (f_dbs (Main e argv dbs) path) = Inr s \<and> plan_inv s \<and> RootID s = ''root'' \<and> PlanProject s = TrimSpace name \<and>
      task_at s = [''root'' \<mapsto> seedRoot (TrimSpace name) ''root'' (TrimSpace name) (vals p ''description'') '''' (e_now e 0)]) \<and>
    (\<forall>y. y \<noteq> path \<longrightarrow> f_dbs (Main e argv dbs) y = dbs y)"
  by (rule run_init[OF assms])

theorem init_seeds_its_run_witness:
  "\<exists>s. loadState (f_dbs (Main (calm_env\<lparr>e_open := (\<lambda>_. (Missing, True))\<rparr>) init_words (\<lambda>_. no_db)) ''new.db'') = Inr s \<and> PlanProject s = ''demo''"
proof -
  let ?e = "calm_env\<lparr>e_open := (\<lambda>_. (Missing, True))\<rparr>"
  obtain p where p: "cliScan init_words = Inr p" "\<not> bools p ''version''" "\<not> bools p ''help''" "pos p = ''init'' # '' demo'' # []"
    "vals p ''db'' = ''new.db''" using init_scan by blast
  have path: "initPath ?e p = Inr ''new.db''" by (simp add: initPath_def p calm_env_def)
  have new: "loadState no_db = Inl ErrNoStore" by (simp add: no_db_def loadState_def)
  have q: "e_others ?e n db = db" for n db by (simp add: calm_env_def)
  have t: "TrimSpace '' demo'' = ''demo''" by code_simp
  from init_seeds_its_run[where dbs = "\<lambda>_. no_db", OF p(1-4) path new q init_exits] show ?thesis unfolding t by blast
qed

text \<open>C38. a command line written from words and flags in any order whose first word is a lifecycle or scope verb, or task and such a verb, and that does not ask for help or the version, exits with 1 and the supervisor's own sentence naming the verb, prints nothing and changes no database.\<close>

theorem lifecycle_verb_is_refused_anywhere:
  assumes "list_all itemOk items" and "\<not> list_ex asksHelp items" and "wordsOf items = v # rest"
    and "v \<in> set lifecycleVerbs \<or> v = ''project'' \<or> v = ''task'' \<and> rest \<noteq> [] \<and> hd rest \<in> set lifecycleTaskVerbs"
  shows "Main e (concat (map writeItem items)) dbs =
    \<lparr>f_exit = Some 1, f_out = [], f_err = Some (Says ((if v = ''task'' then ''task '' @ hd rest else v) @ supervisorSentence)), f_dbs = dbs\<rparr>"
  by (rule refused_run[OF assms])

theorem lifecycle_verb_is_refused_anywhere_witness:
  "f_err (Main calm_env [''--json'', ''task'', ''--db'', ''x'', ''claim'', ''a''] (\<lambda>_. no_db)) =
    Some (Says (''task claim'' @ supervisorSentence))"
proof -
  let ?items = "[On ''json'', Word ''task'', Apart ''db'' ''x'', Word ''claim'', Word ''a'']"
  have i: "list_all itemOk ?items" by code_simp
  have h: "\<not> list_ex asksHelp ?items" by code_simp
  have w: "wordsOf ?items = ''task'' # [''claim'', ''a'']" by code_simp
  have c: "concat (map writeItem ?items) = [''--json'', ''task'', ''--db'', ''x'', ''claim'', ''a'']" by simp
  have v: "''task'' \<in> set lifecycleVerbs \<or> ''task'' = ''project'' \<or> ''task'' = ''task'' \<and> [''claim'', ''a''] \<noteq> [] \<and> hd [''claim'', ''a''] \<in> set lifecycleTaskVerbs"
    by (simp add: lifecycleTaskVerbs_def)
  show ?thesis using lifecycle_verb_is_refused_anywhere[OF i h w v, of calm_env "\<lambda>_. no_db", unfolded c] by simp
qed

text \<open>C39. no policy, however permissive its default and its patterns, allows a shell line that the critical table matches, whole or in any of its parts; and a call that always asks is allowed only where the policy has a rule of its own for that very tool.\<close>

theorem policy_never_allows_critical:
  "(Action (CheckBash cr p command) = ActionAllow \<longrightarrow> criticalHit command (fst (splitSegments command)) = None) \<and>
   (AlwaysAsks cr tool args \<and> Action (Check cr p tool args) = ActionAllow \<longrightarrow>
      TrimSpace tool \<noteq> ToolBash \<and> toolRule p (TrimSpace tool) = Some ActionAllow)"
  using checkBash_allow[of p command] always_asks_floor[of cr tool args p] by (auto simp: CheckBash_def)

theorem policy_never_allows_critical_witness:
  "criticalHit ''git status'' (fst (splitSegments ''git status'')) = None \<and>
   toolRule mail_policy (TrimSpace ''gmail_send'') = Some ActionAllow"
proof -
  have "AlwaysAsks noReader ''gmail_send'' ''''" "Action (Check noReader mail_policy ''gmail_send'' '''') = ActionAllow" by code_simp+
  then have "toolRule mail_policy (TrimSpace ''gmail_send'') = Some ActionAllow"
    using policy_never_allows_critical[of noReader mail_policy "''ls''" "''gmail_send''" "''''"] by blast
  with policy_never_allows_critical[of noReader auditAllowAll "''git status''" "''bash''" "''''"] git_status_allowed
  show ?thesis by blast
qed

text \<open>C40. the matcher that walks pattern and text with one backtrack point always returns, and decides exactly the wildcard match in which a star stands for any text, separators included.\<close>

theorem pattern_match_is_wildcard:
  "(globMatch p t \<longleftrightarrow> glob p t) \<and> (\<exists>r. globLoop p t 0 0 None 0 = Some r)"
  by (simp add: globMatch_eq_glob globLoop_returns)

end
